(* ===== verification/GoPrelude.thy ===== *)
theory GoPrelude
  imports Main "HOL-Library.Sublist"
begin

text \<open>
  The vocabulary the component theories share: Go's strings as byte lists with the operations of
  the package \<^verbatim>\<open>strings\<close> the sources call, UTF-8 decoding as \<^verbatim>\<open>range\<close> over a string does
  it, instants and durations as nanoseconds, labelled counters, int64 wrap-around, and the generic
  list and option lemmas the component proofs use. Nothing here models a line of the repository;
  it models the part of the language and its standard library the repository uses.

  Collections: \<open>turn_simps\<close> unfolds the turn store's operations, \<open>sess_defs\<close> the critical
  sections of the session manager, \<open>frame\<close> says what an operation leaves unchanged.
\<close>

named_theorems turn_simps
named_theorems sess_defs
named_theorems frame

section \<open>Instants, durations, counters\<close>

text \<open>
  A \<^verbatim>\<open>time.Time\<close> is the number of nanoseconds since Go's zero time, so \<^verbatim>\<open>IsZero\<close> is equality
  with 0; a \<^verbatim>\<open>time.Duration\<close> is a number of nanoseconds.
\<close>

type_synonym time = int
type_synonym duration = int

abbreviation zero_time :: time where "zero_time \<equiv> 0"

definition seconds :: "int \<Rightarrow> duration" where
  "seconds n = n * 1000000000"

definition millis :: "int \<Rightarrow> duration" where
  "millis n = n * 1000000"

text \<open>A \<^verbatim>\<open>CounterVec\<close>: one counter per label value, all starting at 0.\<close>

type_synonym 'l counters = "'l \<Rightarrow> nat"

definition inc :: "'l \<Rightarrow> 'l counters \<Rightarrow> 'l counters" where
  "inc l c = c(l := Suc (c l))"

lemma inc_same [simp]: "inc l c l = Suc (c l)"
  by (simp add: inc_def)

lemma inc_other [simp]: "l \<noteq> k \<Longrightarrow> inc k c l = c l"
  by (simp add: inc_def)

text \<open>int64 arithmetic: the value modulo \<open>2 ^ 64\<close>, read as two's complement.\<close>

definition wrap64 :: "int \<Rightarrow> int" where
  "wrap64 x = (x + 9223372036854775808) mod 18446744073709551616 - 9223372036854775808"

lemma wrap64_range: "-9223372036854775808 \<le> wrap64 x \<and> wrap64 x < 9223372036854775808"
  by (simp add: wrap64_def pos_mod_bound)

lemma wrap64_id [simp]:
  "-9223372036854775808 \<le> x \<Longrightarrow> x < 9223372036854775808 \<Longrightarrow> wrap64 x = x"
  by (simp add: wrap64_def)

section \<open>The package strings\<close>

definition hasPrefix :: "string \<Rightarrow> string \<Rightarrow> bool" where
  "hasPrefix s p \<longleftrightarrow> take (length p) s = p"

definition hasSuffix :: "string \<Rightarrow> string \<Rightarrow> bool" where
  "hasSuffix s p \<longleftrightarrow> hasPrefix (rev s) (rev p)"

definition trimPrefix :: "string \<Rightarrow> string \<Rightarrow> string" where
  "trimPrefix s p = (if hasPrefix s p then drop (length p) s else s)"

definition trimSuffix :: "string \<Rightarrow> string \<Rightarrow> string" where
  "trimSuffix s p = (if hasSuffix s p then take (length s - length p) s else s)"

fun strContains :: "string \<Rightarrow> string \<Rightarrow> bool" where
  "strContains [] sub = (sub = [])"
| "strContains (c # s) sub = (hasPrefix (c # s) sub \<or> strContains s sub)"

text \<open>\<^verbatim>\<open>strings.Index\<close> and \<^verbatim>\<open>strings.LastIndex\<close>: \<^const>\<open>None\<close> is \<^verbatim>\<open>-1\<close>.\<close>

fun strIndex :: "string \<Rightarrow> string \<Rightarrow> nat option" where
  "strIndex [] sub = (if sub = [] then Some 0 else None)"
| "strIndex (c # s) sub =
     (if hasPrefix (c # s) sub then Some 0 else map_option Suc (strIndex s sub))"

fun strLastIndex :: "string \<Rightarrow> string \<Rightarrow> nat option" where
  "strLastIndex [] sub = (if sub = [] then Some 0 else None)"
| "strLastIndex (c # s) sub =
     (case strLastIndex s sub of
        Some i \<Rightarrow> Some (Suc i)
      | None \<Rightarrow> if hasPrefix (c # s) sub then Some 0 else None)"

text \<open>\<^verbatim>\<open>strings.Split\<close> on a one-byte separator, \<^verbatim>\<open>strings.Join\<close>, \<^verbatim>\<open>strings.ReplaceAll\<close>.\<close>

fun splitOn :: "char \<Rightarrow> string \<Rightarrow> string list" where
  "splitOn d [] = [[]]"
| "splitOn d (c # s) =
     (if c = d then [] # splitOn d s
      else (case splitOn d s of [] \<Rightarrow> [[c]] | w # ws \<Rightarrow> (c # w) # ws))"

fun joinWith :: "string \<Rightarrow> string list \<Rightarrow> string" where
  "joinWith sep [] = []"
| "joinWith sep [w] = w"
| "joinWith sep (w # ws) = w @ sep @ joinWith sep ws"

function replaceAll :: "string \<Rightarrow> string \<Rightarrow> string \<Rightarrow> string" where
  "replaceAll s old new =
     (if old = [] \<or> s = [] then s
      else if hasPrefix s old then new @ replaceAll (drop (length old) s) old new
      else hd s # replaceAll (tl s) old new)"
  by pat_completeness auto
termination
  by (relation "measure (\<lambda>(s, old, new). length s)") auto

declare replaceAll.simps [simp del]

text \<open>\<^verbatim>\<open>strings.Trim(s, "/")\<close> and \<^verbatim>\<open>strings.TrimLeft(s, cutset)\<close>, for ASCII cutsets.\<close>

definition trimLeft :: "string \<Rightarrow> string \<Rightarrow> string" where
  "trimLeft s cs = dropWhile (\<lambda>c. c \<in> set cs) s"

definition trimBoth :: "string \<Rightarrow> string \<Rightarrow> string" where
  "trimBoth s cs = rev (trimLeft (rev (trimLeft s cs)) cs)"

abbreviation byte :: "char \<Rightarrow> nat" where "byte \<equiv> of_char"

text \<open>\<^verbatim>\<open>strings.ToLower\<close> on ASCII; bytes of multi-byte runes are kept.\<close>

definition toLowerChar :: "char \<Rightarrow> char" where
  "toLowerChar c = (if 65 \<le> byte c \<and> byte c \<le> 90 then char_of (byte c + 32) else c)"

definition toLower :: "string \<Rightarrow> string" where
  "toLower s = map toLowerChar s"

definition equalFold :: "string \<Rightarrow> string \<Rightarrow> bool" where
  "equalFold a b \<longleftrightarrow> toLower a = toLower b"

lemma hasPrefix_append [simp]: "hasPrefix (p @ s) p"
  by (simp add: hasPrefix_def)

lemma hasPrefix_iff: "hasPrefix s p \<longleftrightarrow> (\<exists>t. s = p @ t)"
proof
  assume "hasPrefix s p"
  then have "s = p @ drop (length p) s"
    by (metis append_take_drop_id hasPrefix_def)
  then show "\<exists>t. s = p @ t" ..
qed auto

lemma hasSuffix_iff: "hasSuffix s p \<longleftrightarrow> (\<exists>t. s = t @ p)"
  by (metis hasPrefix_iff hasSuffix_def rev_append rev_rev_ident)

lemma strContains_iff: "strContains s sub \<longleftrightarrow> (\<exists>a b. s = a @ sub @ b)"
proof (induction s)
  case (Cons c s)
  show ?case
  proof
    assume "strContains (c # s) sub"
    then consider "hasPrefix (c # s) sub" | "strContains s sub"
      by auto
    then show "\<exists>a b. c # s = a @ sub @ b"
    proof cases
      case 1
      then show ?thesis by (metis append_Nil hasPrefix_iff)
    next
      case 2
      with Cons.IH show ?thesis by (metis append_Cons)
    qed
  next
    assume "\<exists>a b. c # s = a @ sub @ b"
    then obtain a b where "c # s = a @ sub @ b" by blast
    then show "strContains (c # s) sub"
    proof (cases a)
      case Nil
      with \<open>c # s = a @ sub @ b\<close> have "hasPrefix (c # s) sub" by simp
      then show ?thesis by simp
    next
      case (Cons x a')
      with \<open>c # s = a @ sub @ b\<close> Cons.IH show ?thesis by auto
    qed
  qed
qed auto

lemma splitOn_not_Nil [simp]: "splitOn d s \<noteq> []"
  by (induction s) (auto split: list.splits)

lemma joinWith_splitOn [simp]: "joinWith [d] (splitOn d s) = s"
proof (induction s)
  case (Cons c s)
  obtain w ws where "splitOn d s = w # ws"
    using splitOn_not_Nil [of d s] by (cases "splitOn d s") auto
  with Cons.IH show ?case by (cases ws) auto
qed auto

section \<open>UTF-8\<close>

text \<open>
  \<^verbatim>\<open>utf8.DecodeRuneInString\<close>: the code point at the front of a non-empty string and the bytes it
  takes; every byte that does not start a well-formed sequence is U+FFFD with width 1.
\<close>

definition cont :: "nat \<Rightarrow> bool" where
  "cont b \<longleftrightarrow> 128 \<le> b \<and> b \<le> 191"

definition decodeRune :: "string \<Rightarrow> nat \<times> nat" where
  "decodeRune s =
     (case map byte (take 4 s) of
        [] \<Rightarrow> (65533, 0)
      | b0 # r1 \<Rightarrow>
          if b0 < 128 then (b0, 1)
          else (case r1 of
             [] \<Rightarrow> (65533, 1)
           | b1 # r2 \<Rightarrow>
               if 194 \<le> b0 \<and> b0 \<le> 223 then
                 (if cont b1 then ((b0 - 192) * 64 + (b1 - 128), 2) else (65533, 1))
               else (case r2 of
                  [] \<Rightarrow> (65533, 1)
                | b2 # r3 \<Rightarrow>
                    if 224 \<le> b0 \<and> b0 \<le> 239 then
                      (if cont b1 \<and> cont b2 \<and> (b0 = 224 \<longrightarrow> 160 \<le> b1) \<and> (b0 = 237 \<longrightarrow> b1 \<le> 159)
                       then ((b0 - 224) * 4096 + (b1 - 128) * 64 + (b2 - 128), 3) else (65533, 1))
                    else (case r3 of
                       [] \<Rightarrow> (65533, 1)
                     | b3 # _ \<Rightarrow>
                         if 240 \<le> b0 \<and> b0 \<le> 244 \<and> cont b1 \<and> cont b2 \<and> cont b3
                            \<and> (b0 = 240 \<longrightarrow> 144 \<le> b1) \<and> (b0 = 244 \<longrightarrow> b1 \<le> 143)
                         then ((b0 - 240) * 262144 + (b1 - 128) * 4096 + (b2 - 128) * 64 + (b3 - 128), 4)
                         else (65533, 1)))))"

lemma decodeRune_width: "s \<noteq> [] \<Longrightarrow> 0 < snd (decodeRune s)"
  by (cases s) (auto simp: decodeRune_def split: list.splits)

lemma decodeRune_ascii [simp]: "byte c < 128 \<Longrightarrow> decodeRune (c # s) = (byte c, 1)"
  by (simp add: decodeRune_def)

text \<open>The runes of a string, each with the bytes it was decoded from.\<close>

function runes :: "string \<Rightarrow> (nat \<times> string) list" where
  "runes s =
     (if s = [] then []
      else (fst (decodeRune s), take (snd (decodeRune s)) s) # runes (drop (snd (decodeRune s)) s))"
  by pat_completeness auto
termination
  by (relation "measure length") (auto simp: decodeRune_width)

declare runes.simps [simp del]

lemma runes_Nil [simp]: "runes [] = []"
  by (simp add: runes.simps)

lemma runes_ascii [simp]: "byte c < 128 \<Longrightarrow> runes (c # s) = (byte c, [c]) # runes s"
  by (subst runes.simps) simp

lemma concat_runes [simp]: "concat (map snd (runes s)) = s"
proof (induction s rule: runes.induct)
  case (1 s)
  then show ?case by (cases "s = []") (simp_all add: runes.simps [of s])
qed

definition encodeRune :: "nat \<Rightarrow> string" where
  "encodeRune r =
     map char_of
       (if r < 128 then [r]
        else if r < 2048 then [192 + r div 64, 128 + r mod 64]
        else if (55296 \<le> r \<and> r \<le> 57343) \<or> 1114111 < r then [239, 191, 189]
        else if r < 65536 then [224 + r div 4096, 128 + r div 64 mod 64, 128 + r mod 64]
        else [240 + r div 262144, 128 + r div 4096 mod 64, 128 + r div 64 mod 64, 128 + r mod 64])"

text \<open>\<^verbatim>\<open>unicode.IsSpace\<close> and \<^verbatim>\<open>strings.TrimSpace\<close>.\<close>

definition isSpace :: "nat \<Rightarrow> bool" where
  "isSpace r \<longleftrightarrow> r \<in> {9, 10, 11, 12, 13, 32, 133, 160, 5760, 8232, 8233, 8239, 8287, 12288}
                 \<or> (8192 \<le> r \<and> r \<le> 8202)"

text \<open>The same, with the small code points decided first, which is what evaluation needs.\<close>

lemma isSpace_code [code]:
  "isSpace r =
     (if r < 128 then r = 32 \<or> (9 \<le> r \<and> r \<le> 13)
      else r \<in> {133, 160, 5760, 8232, 8233, 8239, 8287, 12288} \<or> (8192 \<le> r \<and> r \<le> 8202))"
  by (auto simp: isSpace_def)

definition trimSpace :: "string \<Rightarrow> string" where
  "trimSpace s =
     concat (map snd (rev (dropWhile (isSpace \<circ> fst) (rev (dropWhile (isSpace \<circ> fst) (runes s))))))"

section \<open>Lists and counting\<close>

definition countIf :: "('a \<Rightarrow> bool) \<Rightarrow> 'a list \<Rightarrow> nat" where
  "countIf P xs = length (filter P xs)"

lemma countIf_simps [simp]:
  "countIf P [] = 0"
  "countIf P (x # xs) = (if P x then Suc (countIf P xs) else countIf P xs)"
  "countIf P (xs @ ys) = countIf P xs + countIf P ys"
  by (simp_all add: countIf_def)

lemma countIf_cong: "(\<And>x. x \<in> set xs \<Longrightarrow> P x = Q x) \<Longrightarrow> countIf P xs = countIf Q xs"
  by (simp add: countIf_def cong: filter_cong)

text \<open>Turning one element of a duplicate-free list from not counted to counted adds one.\<close>

lemma countIf_flip:
  assumes "distinct xs" "x \<in> set xs" "\<not> P x" "Q x" "\<And>y. y \<noteq> x \<Longrightarrow> Q y = P y"
  shows "countIf Q xs = Suc (countIf P xs)"
  using assms(1,2)
proof (induction xs)
  case (Cons a xs)
  show ?case
  proof (cases "a = x")
    case True
    with Cons.prems have "\<forall>y \<in> set xs. Q y = P y" by (metis assms(5) distinct.simps(2))
    then have "countIf Q xs = countIf P xs" by (auto intro: countIf_cong)
    with True assms(3,4) show ?thesis by simp
  next
    case False
    with Cons assms(5) show ?thesis by auto
  qed
qed simp

lemma takeLast_append:
  "drop (length (drop (length xs - n) xs @ ys) - n) (drop (length xs - n) xs @ ys)
   = drop (length (xs @ ys) - n) (xs @ ys)"
  by (cases "length xs \<le> n") (simp_all add: drop_append add.commute)

lemma those_Some_map:
  "(\<And>x. x \<in> set xs \<Longrightarrow> f x = Some (g x)) \<Longrightarrow> those (map f xs) = Some (map g xs)"
  by (induction xs) auto

end
