(* ===== verification/TurnStore.thy ===== *)
theory TurnStore
  imports GoPrelude
begin

text \<open>
  The package \<^verbatim>\<open>internal/turn\<close>: the record of one user turn (\<^verbatim>\<open>turn.go\<close>) and the store of all
  turns of a pod (\<^verbatim>\<open>store.go\<close>). Every method takes the store's lock for its whole body, so a
  method is one atomic function on the store. The three methods that end a turn share a contract,
  stated once as the locale \<open>turn_finisher\<close> and interpreted for each of them.
\<close>

section \<open>Records\<close>

datatype turn_state = Running | Complete | Failed

record InternalIssueReport =
  iiCategory :: string
  iiSeverity :: string
  iiDescription :: string
  iiOffendingTool :: string
  iiResourceID :: string

record Record =
  rID :: string
  rState :: turn_state
  rText :: string
  rCallbackURL :: string
  rFinalText :: string
  rResultJSON :: string
  rUsage :: string
  rStopReason :: string
  rError :: string
  rStartedAt :: time
  rLastActivityAt :: time
  rCompletedAt :: "time option"
  rPushedRepos :: "string list"
  rFailedRepos :: "string list"
  rInternalIssues :: "InternalIssueReport list"

record Summary =
  sID :: string
  sState :: turn_state
  sStartedAt :: time
  sLastActivityAt :: time
  sCompletedAt :: "time option"

definition StopReasonInterrupted :: string where
  "StopReasonInterrupted = ''interrupted''"

definition ErrInterrupted :: string where
  "ErrInterrupted = ''turn interrupted''"

section \<open>The store\<close>

record Store =
  byID :: "string \<Rightarrow> Record option"
  order :: "string list"

datatype store_error = ErrNotFound

definition NewStore :: Store where
  "NewStore = \<lparr>byID = Map.empty, order = []\<rparr>"

definition newRecord :: "string \<Rightarrow> string \<Rightarrow> string \<Rightarrow> time \<Rightarrow> Record" where
  "newRecord tid txt url now =
     \<lparr>rID = tid, rState = Running, rText = txt, rCallbackURL = url, rFinalText = [],
      rResultJSON = [], rUsage = [], rStopReason = [], rError = [], rStartedAt = now,
      rLastActivityAt = now, rCompletedAt = None, rPushedRepos = [], rFailedRepos = [],
      rInternalIssues = []\<rparr>"

definition store_Create :: "string \<Rightarrow> string \<Rightarrow> string \<Rightarrow> time \<Rightarrow> Store \<Rightarrow> Store" where
  "store_Create tid txt url now s =
     s\<lparr>byID := (byID s)(tid \<mapsto> newRecord tid txt url now), order := order s @ [tid]\<rparr>"

definition store_Get :: "string \<Rightarrow> Store \<Rightarrow> Record option" where
  "store_Get tid s = byID s tid"

definition summaryOf :: "Record \<Rightarrow> Summary" where
  "summaryOf r =
     \<lparr>sID = rID r, sState = rState r, sStartedAt = rStartedAt r,
      sLastActivityAt = rLastActivityAt r, sCompletedAt = rCompletedAt r\<rparr>"

text \<open>
  \<^verbatim>\<open>List\<close> dereferences \<^verbatim>\<open>byID[id]\<close> for every id of \<^verbatim>\<open>order\<close>: \<^const>\<open>None\<close> is the nil
  dereference a store without that record would panic with.
\<close>

definition store_List :: "Store \<Rightarrow> Summary list option" where
  "store_List s = those (map (\<lambda>tid. map_option summaryOf (byID s tid)) (order s))"

definition store_Touch :: "string \<Rightarrow> time \<Rightarrow> Store \<Rightarrow> bool \<times> Store" where
  "store_Touch tid now s =
     (case byID s tid of
        None \<Rightarrow> (False, s)
      | Some r \<Rightarrow>
          if rState r \<noteq> Running then (False, s)
          else (True, s\<lparr>byID := (byID s)(tid \<mapsto> r\<lparr>rLastActivityAt := now\<rparr>)\<rparr>))"

definition store_Complete ::
  "string \<Rightarrow> string \<Rightarrow> string \<Rightarrow> string \<Rightarrow> string \<Rightarrow> time \<Rightarrow> Store \<Rightarrow> store_error + Store" where
  "store_Complete tid finalText resultJSON usage stopReason now s =
     (case byID s tid of
        None \<Rightarrow> Inl ErrNotFound
      | Some r \<Rightarrow>
          Inr (s\<lparr>byID := (byID s)(tid \<mapsto>
            r\<lparr>rState := Complete, rFinalText := finalText, rResultJSON := resultJSON,
              rUsage := usage, rStopReason := stopReason, rCompletedAt := Some now\<rparr>)\<rparr>))"

definition store_Interrupt ::
  "string \<Rightarrow> string \<Rightarrow> string \<Rightarrow> time \<Rightarrow> Store \<Rightarrow> store_error + Store" where
  "store_Interrupt tid finalText usage now s =
     (case byID s tid of
        None \<Rightarrow> Inl ErrNotFound
      | Some r \<Rightarrow>
          Inr (s\<lparr>byID := (byID s)(tid \<mapsto>
            r\<lparr>rState := Failed, rFinalText := finalText, rUsage := usage,
              rStopReason := StopReasonInterrupted, rError := ErrInterrupted,
              rCompletedAt := Some now\<rparr>)\<rparr>))"

definition store_Fail :: "string \<Rightarrow> string \<Rightarrow> time \<Rightarrow> Store \<Rightarrow> store_error + Store" where
  "store_Fail tid msg now s =
     (case byID s tid of
        None \<Rightarrow> Inl ErrNotFound
      | Some r \<Rightarrow>
          Inr (s\<lparr>byID := (byID s)(tid \<mapsto>
            r\<lparr>rState := Failed, rError := msg, rCompletedAt := Some now\<rparr>)\<rparr>))"

lemmas store_ops [turn_simps] =
  store_Create_def store_Get_def store_Touch_def store_Complete_def store_Interrupt_def
  store_Fail_def newRecord_def

section \<open>Well-formed stores\<close>

text \<open>
  The records are filed under their own ids, \<^verbatim>\<open>order\<close> lists each filed id once, and a record has
  a completion time exactly when it is no longer running. Go's zero value of a string, the empty
  id, is never filed: the session uses it for "no turn".
\<close>

definition terminal :: "Record \<Rightarrow> bool" where
  "terminal r \<longleftrightarrow> rState r \<noteq> Running"

definition wf_record :: "string \<Rightarrow> Record \<Rightarrow> bool" where
  "wf_record tid r \<longleftrightarrow> rID r = tid \<and> (rCompletedAt r \<noteq> None \<longleftrightarrow> terminal r)"

definition wf_store :: "Store \<Rightarrow> bool" where
  "wf_store s \<longleftrightarrow>
     distinct (order s) \<and> set (order s) = dom (byID s) \<and> [] \<notin> dom (byID s)
     \<and> (\<forall>tid r. byID s tid = Some r \<longrightarrow> wf_record tid r)"

definition recState :: "Store \<Rightarrow> string \<Rightarrow> turn_state option" where
  "recState s tid = map_option rState (byID s tid)"

definition nTerminal :: "Store \<Rightarrow> nat" where
  "nTerminal s = countIf (\<lambda>tid. recState s tid \<in> {Some Complete, Some Failed}) (order s)"

definition nComplete :: "Store \<Rightarrow> nat" where
  "nComplete s = countIf (\<lambda>tid. recState s tid = Some Complete) (order s)"

lemma wf_NewStore [simp]: "wf_store NewStore"
  by (simp add: wf_store_def NewStore_def)

lemma terminal_iff: "terminal r \<longleftrightarrow> rState r = Complete \<or> rState r = Failed"
  by (cases "rState r") (auto simp: terminal_def)

lemma wf_store_Create:
  assumes "wf_store s" "tid \<noteq> []" "byID s tid = None"
  shows "wf_store (store_Create tid txt url now s)"
  using assms by (auto simp: wf_store_def wf_record_def terminal_def turn_simps)

lemma wf_store_Touch: "wf_store s \<Longrightarrow> wf_store (snd (store_Touch tid now s))"
  by (auto simp: wf_store_def wf_record_def terminal_def turn_simps split: option.splits)

lemma counts_Create:
  assumes "wf_store s" "byID s tid = None"
  shows "nTerminal (store_Create tid txt url now s) = nTerminal s"
    and "nComplete (store_Create tid txt url now s) = nComplete s"
proof -
  have *: "recState (store_Create tid txt url now s) x = recState s x" if "x \<in> set (order s)" for x
    using assms that by (auto simp: recState_def turn_simps wf_store_def)
  have new: "recState (store_Create tid txt url now s) tid = Some Running"
    by (simp add: recState_def turn_simps)
  have ord: "order (store_Create tid txt url now s) = order s @ [tid]"
    by (simp add: turn_simps)
  show "nTerminal (store_Create tid txt url now s) = nTerminal s"
    unfolding nTerminal_def ord using * new by (auto intro: countIf_cong)
  show "nComplete (store_Create tid txt url now s) = nComplete s"
    unfolding nComplete_def ord using * new by (auto intro: countIf_cong)
qed

lemma recState_Touch [simp]: "recState (snd (store_Touch tid now s)) x = recState s x"
  by (auto simp: recState_def turn_simps split: option.splits)

lemma order_Touch [simp]: "order (snd (store_Touch tid now s)) = order s"
  by (auto simp: turn_simps split: option.splits)

lemma counts_Touch [simp]:
  "nTerminal (snd (store_Touch tid now s)) = nTerminal s"
  "nComplete (snd (store_Touch tid now s)) = nComplete s"
  by (simp_all add: nTerminal_def nComplete_def)

section \<open>The contract of the methods that end a turn\<close>

text \<open>
  \<^verbatim>\<open>Complete\<close>, \<^verbatim>\<open>Interrupt\<close> and \<^verbatim>\<open>Fail\<close> differ in the fields they write; what their callers
  rely on is the same: an unknown id is an error and changes nothing, a known one becomes the
  method's terminal state with a completion time, keeps its identity, and no other record moves.
\<close>

locale turn_finisher =
  fixes finish :: "string \<Rightarrow> time \<Rightarrow> Store \<Rightarrow> store_error + Store"
    and outcome :: turn_state
  assumes outcome_terminal: "outcome \<noteq> Running"
    and finish_unknown: "byID s tid = None \<Longrightarrow> finish tid now s = Inl ErrNotFound"
    and finish_known: "byID s tid = Some r \<Longrightarrow>
          \<exists>r'. finish tid now s = Inr (s\<lparr>byID := (byID s)(tid \<mapsto> r')\<rparr>)
               \<and> rState r' = outcome \<and> rID r' = rID r \<and> rText r' = rText r
               \<and> rCallbackURL r' = rCallbackURL r \<and> rStartedAt r' = rStartedAt r
               \<and> rCompletedAt r' = Some now"
begin

lemma finish_cases:
  assumes "finish tid now s = Inr s'"
  obtains r r' where "byID s tid = Some r" "s' = s\<lparr>byID := (byID s)(tid \<mapsto> r')\<rparr>"
    "rState r' = outcome" "rID r' = rID r" "rText r' = rText r"
    "rStartedAt r' = rStartedAt r" "rCompletedAt r' = Some now"
proof (cases "byID s tid")
  case None
  with assms finish_unknown show thesis by simp
next
  case (Some r)
  with assms finish_known [OF Some, of now] that show thesis by auto
qed

lemma finish_error_iff: "finish tid now s = Inl e \<longleftrightarrow> byID s tid = None"
proof (cases "byID s tid")
  case None
  then show ?thesis by (cases e) (simp add: finish_unknown)
next
  case (Some r)
  then show ?thesis using finish_known [OF Some, of now] by auto
qed

lemma finish_wf:
  assumes "wf_store s" "finish tid now s = Inr s'"
  shows "wf_store s'"
  using assms(2)
proof (rule finish_cases)
  fix r r'
  assume *: "byID s tid = Some r" "s' = s\<lparr>byID := (byID s)(tid \<mapsto> r')\<rparr>"
    "rState r' = outcome" "rID r' = rID r" "rCompletedAt r' = Some now"
  with assms(1) have "rID r = tid" by (auto simp: wf_store_def wf_record_def)
  with * assms(1) outcome_terminal show "wf_store s'"
    by (auto simp: wf_store_def wf_record_def terminal_def)
qed

lemma finish_other:
  "finish tid now s = Inr s' \<Longrightarrow> x \<noteq> tid \<Longrightarrow> byID s' x = byID s x"
  by (erule finish_cases) simp

lemma finish_order: "finish tid now s = Inr s' \<Longrightarrow> order s' = order s"
  by (erule finish_cases) simp

lemma finish_state: "finish tid now s = Inr s' \<Longrightarrow> recState s' tid = Some outcome"
  by (erule finish_cases) (simp add: recState_def)

lemma finish_recState:
  "finish tid now s = Inr s' \<Longrightarrow> recState s' x = (if x = tid then Some outcome else recState s x)"
  by (cases "x = tid") (simp_all add: finish_state, simp add: recState_def finish_other)

lemma finish_counts:
  assumes wf: "wf_store s" and run: "recState s tid = Some Running"
    and fin: "finish tid now s = Inr s'"
  shows "nTerminal s' = Suc (nTerminal s)"
    and "nComplete s' = (if outcome = Complete then Suc (nComplete s) else nComplete s)"
proof -
  have mem: "tid \<in> set (order s)"
    using wf run by (auto simp: wf_store_def recState_def dom_def)
  note rs = finish_recState [OF fin] and ord = finish_order [OF fin]
  have dist: "distinct (order s)" using wf by (simp add: wf_store_def)
  show "nTerminal s' = Suc (nTerminal s)"
    unfolding nTerminal_def ord
    using dist mem run outcome_terminal by (intro countIf_flip) (cases outcome; auto simp: rs)+
  show "nComplete s' = (if outcome = Complete then Suc (nComplete s) else nComplete s)"
  proof (cases "outcome = Complete")
    case True
    then show ?thesis
      unfolding nComplete_def ord
      using dist mem run by (auto simp: rs intro!: countIf_flip)
  next
    case False
    then show ?thesis
      unfolding nComplete_def ord using run by (auto simp: rs intro!: countIf_cong)
  qed
qed

end

interpretation complete_fin: turn_finisher
  "\<lambda>tid. store_Complete tid ft rj us sr" Complete for ft rj us sr
  by unfold_locales (auto simp: turn_simps split: option.splits)

interpretation interrupt_fin: turn_finisher "\<lambda>tid. store_Interrupt tid ft us" Failed for ft us
  by unfold_locales (auto simp: turn_simps split: option.splits)

interpretation fail_fin: turn_finisher "\<lambda>tid. store_Fail tid msg" Failed for msg
  by unfold_locales (auto simp: turn_simps split: option.splits)

section \<open>Listing\<close>

text \<open>
  Listing a well-formed store never meets a missing record, and gives one summary per turn in the
  order the turns were created.
\<close>

theorem store_List_order:
  assumes "wf_store s"
  shows "\<exists>ss. store_List s = Some ss \<and> map sID ss = order s"
proof -
  have "\<forall>i \<in> set (order s). \<exists>r. byID s i = Some r \<and> rID r = i"
    using assms unfolding wf_store_def wf_record_def by (metis domD)
  then have "map (\<lambda>i. map_option summaryOf (byID s i)) (order s) = map Some (map (\<lambda>i. summaryOf (the (byID s i))) (order s))"
    by (auto intro!: map_idI)
  then have "store_List s = Some (map (\<lambda>i. summaryOf (the (byID s i))) (order s))"
    unfolding store_List_def by (simp add: those_Some_map del: map_map)
  moreover have "map sID (map (\<lambda>i. summaryOf (the (byID s i))) (order s)) = order s"
    using \<open>\<forall>i \<in> set (order s). _\<close> by (auto simp: summaryOf_def intro!: map_idI)
  ultimately show ?thesis by blast
qed

theorem store_List_order_witness:
  "\<exists>ss. store_List (store_Create ''t1'' ''hi'' [] 5 NewStore) = Some ss \<and> map sID ss = [''t1'']"
  using store_List_order [OF wf_store_Create [OF wf_NewStore, of "''t1''" "''hi''" "[]" 5]]
  by (simp add: NewStore_def store_Create_def)

end
