(* ===== verification/Ring.thy ===== *)
theory Ring
  imports GoPrelude
begin

text \<open>
  \<^verbatim>\<open>internal/session/ring.go\<close>: the buffer of the last 64 KiB of PTY output, the removal of
  terminal escape sequences and white space, and the search for a boot dialog in what is left.
  Each method holds the buffer's lock for as long as it touches the buffer.
\<close>

section \<open>The buffer\<close>

definition ringCap :: nat where "ringCap = 64 * 1024"

record ringBuffer =
  rbuf :: string
  rtotal :: nat

definition newRing :: ringBuffer where
  "newRing = \<lparr>rbuf = [], rtotal = 0\<rparr>"

definition ring_Write :: "string \<Rightarrow> ringBuffer \<Rightarrow> ringBuffer" where
  "ring_Write p r =
     (let b = rbuf r @ p;
          b' = (if ringCap < length b then drop (length b - ringCap) b else b)
      in r\<lparr>rbuf := b', rtotal := rtotal r + length p\<rparr>)"

definition ring_reset :: "ringBuffer \<Rightarrow> ringBuffer" where
  "ring_reset r = r\<lparr>rbuf := []\<rparr>"

definition ring_written :: "ringBuffer \<Rightarrow> nat" where
  "ring_written r = rtotal r"

section \<open>Escape sequences\<close>

abbreviation ESC :: char where "ESC \<equiv> CHR 0x1B"

text \<open>
  The length of the match of each regular expression at the front of a string, 0 for none. The
  three character classes of \<^verbatim>\<open>reCSI\<close> are pairwise disjoint, so its greedy loops need no
  backtracking; \<^verbatim>\<open>reOSC\<close> always matches after its two-byte introducer.
\<close>

definition csiParam :: "char \<Rightarrow> bool" where
  "csiParam c \<longleftrightarrow> (48 \<le> byte c \<and> byte c \<le> 57) \<or> c \<in> {CHR '';'', CHR ''?'', CHR '':''}"

definition csiInter :: "char \<Rightarrow> bool" where
  "csiInter c \<longleftrightarrow> 32 \<le> byte c \<and> byte c \<le> 47"

definition csiFinal :: "char \<Rightarrow> bool" where
  "csiFinal c \<longleftrightarrow> 64 \<le> byte c \<and> byte c \<le> 126"

definition reCSI :: "string \<Rightarrow> nat" where
  "reCSI s =
     (case s of
        e # b # r \<Rightarrow>
          if e = ESC \<and> b = CHR ''['' then
            (case dropWhile csiInter (dropWhile csiParam r) of
               [] \<Rightarrow> 0
             | f # t \<Rightarrow> if csiFinal f then length s - length t else 0)
          else 0
      | _ \<Rightarrow> 0)"

definition reOSC :: "string \<Rightarrow> nat" where
  "reOSC s =
     (case s of
        e # b # r \<Rightarrow>
          if e = ESC \<and> b = CHR '']'' then
            (case dropWhile (\<lambda>c. c \<noteq> CHR 0x07 \<and> c \<noteq> ESC) r of
               [] \<Rightarrow> length s
             | c # t \<Rightarrow>
                 if c = CHR 0x07 then length s - length t
                 else (case t of
                    [] \<Rightarrow> length s - length (c # t)
                  | d # t' \<Rightarrow> if d = CHR 0x5C then length s - length t'
                             else length s - length (c # t)))
          else 0
      | _ \<Rightarrow> 0)"

definition reOther :: "string \<Rightarrow> nat" where
  "reOther s =
     (case s of
        e # b # r \<Rightarrow>
          if e = ESC \<and> ((64 \<le> byte b \<and> byte b \<le> 90) \<or> (92 \<le> byte b \<and> byte b \<le> 95)
                         \<or> b = CHR ''='' \<or> b = CHR ''>'')
          then 2 else 0
      | _ \<Rightarrow> 0)"

text \<open>\<^verbatim>\<open>re.ReplaceAllString(s, "")\<close>: leftmost, non-overlapping matches are deleted.\<close>

function deleteMatches :: "(string \<Rightarrow> nat) \<Rightarrow> string \<Rightarrow> string" where
  "deleteMatches re s =
     (if s = [] then []
      else if re s = 0 then hd s # deleteMatches re (tl s)
      else deleteMatches re (drop (re s) s))"
  by pat_completeness auto
termination
  by (relation "measure (\<lambda>(re, s). length s)") auto

declare deleteMatches.simps [simp del]

definition stripANSI :: "string \<Rightarrow> string" where
  "stripANSI s =
     (let s = deleteMatches reCSI s; s = deleteMatches reOSC s; s = deleteMatches reOther s
      in concat (map (\<lambda>(c, _). if c = 27 \<or> (c < 32 \<and> c \<noteq> 10 \<and> c \<noteq> 9) then [] else encodeRune c)
                 (runes s)))"

definition stripWS :: "string \<Rightarrow> string" where
  "stripWS s =
     concat (map (\<lambda>(c, _). if c \<noteq> 32 \<and> c \<noteq> 9 \<and> c \<noteq> 10 \<and> c \<noteq> 13 then encodeRune c else [])
             (runes s))"

definition ring_contains :: "string \<Rightarrow> ringBuffer \<Rightarrow> bool" where
  "ring_contains needle r = strContains (stripWS (stripANSI (rbuf r))) (stripWS needle)"

definition ring_tail :: "nat \<Rightarrow> ringBuffer \<Rightarrow> string" where
  "ring_tail n r =
     (let s = stripANSI (rbuf r) in if n < length s then drop (length s - n) s else s)"

section \<open>The buffer is the tail of what was written\<close>

datatype ring_op = RWrite string | RReset

fun ring_step :: "ringBuffer \<Rightarrow> ring_op \<Rightarrow> ringBuffer" where
  "ring_step r (RWrite p) = ring_Write p r"
| "ring_step r RReset = ring_reset r"

text \<open>The abstract buffer: everything written since the last reset, and the bytes ever written.\<close>

fun hist_step :: "string \<times> nat \<Rightarrow> ring_op \<Rightarrow> string \<times> nat" where
  "hist_step (h, n) (RWrite p) = (h @ p, n + length p)"
| "hist_step (h, n) RReset = ([], n)"

definition ring_abs :: "string \<times> nat \<Rightarrow> ringBuffer" where
  "ring_abs hn = \<lparr>rbuf = drop (length (fst hn) - ringCap) (fst hn), rtotal = snd hn\<rparr>"

lemma ring_Write_alt:
  "ring_Write p r =
     r\<lparr>rbuf := drop (length (rbuf r @ p) - ringCap) (rbuf r @ p), rtotal := rtotal r + length p\<rparr>"
  by (simp add: ring_Write_def Let_def)

lemma ring_step_abs: "ring_step (ring_abs hn) op = ring_abs (hist_step hn op)"
proof (cases hn)
  case (Pair h n)
  then show ?thesis
    by (cases op) (simp_all only: ring_step.simps hist_step.simps ring_Write_alt ring_reset_def
        ring_abs_def fst_conv snd_conv ringBuffer.simps takeLast_append, simp)
qed

lemma ring_run_abs: "foldl ring_step (ring_abs hn) ops = ring_abs (foldl hist_step hn ops)"
  by (induction ops arbitrary: hn) (simp_all add: ring_step_abs)

lemma newRing_abs: "newRing = ring_abs ([], 0)"
  by (simp add: newRing_def ring_abs_def)

section \<open>What is left after stripping\<close>

lemma encodeRune_bytes:
  assumes "32 \<le> r" "c \<in> set (encodeRune r)"
  shows "32 \<le> byte c"
proof -
  have small: "byte (char_of n :: char) = n" if "n < 256" for n :: nat
    using that by simp
  have big: "32 \<le> byte (char_of n :: char)" if "128 \<le> n" "n < 256" for n :: nat
    using that small by simp
  show ?thesis
  proof (cases "r \<le> 1114111")
    case True
    then have "r div 262144 \<le> 4" by simp
    with True assms show ?thesis
      unfolding encodeRune_def by (auto split: if_splits simp: small intro!: big)
  next
    case False
    with assms show ?thesis unfolding encodeRune_def by (auto split: if_splits simp: small)
  qed
qed

lemma encodeRune_ascii [simp]: "byte c < 128 \<Longrightarrow> encodeRune (byte c) = [c]"
  by (simp add: encodeRune_def)

text \<open>Printable ASCII text passes through the filters unchanged, but for its blanks.\<close>

definition printable :: "char \<Rightarrow> bool" where
  "printable c \<longleftrightarrow> 32 < byte c \<and> byte c < 127"

lemma printable_simps:
  assumes "printable c"
  shows "byte c < 128" "byte c \<noteq> 27" "\<not> byte c < 32" "byte c \<noteq> 32" "byte c \<noteq> 9" "byte c \<noteq> 10"
    "byte c \<noteq> 13" "c \<noteq> ESC"
  using assms by (auto simp: printable_def)

lemma printable_no_ESC: "list_all printable w \<Longrightarrow> ESC \<notin> set w"
  by (induction w) (auto simp: printable_def)

lemma deleteMatches_skip:
  assumes "\<And>s. s \<noteq> [] \<Longrightarrow> hd s \<noteq> ESC \<Longrightarrow> re s = 0" "ESC \<notin> set w"
  shows "deleteMatches re (w @ s) = w @ deleteMatches re s"
  using assms(2)
proof (induction w)
  case (Cons c w)
  have "re ((c # w) @ s) = 0" using Cons.prems by (intro assms(1)) auto
  then have "deleteMatches re ((c # w) @ s) = c # deleteMatches re (w @ s)"
    by (subst deleteMatches.simps) simp
  with Cons show ?case by simp
qed simp

lemma re_needs_ESC:
  "s \<noteq> [] \<Longrightarrow> hd s \<noteq> ESC \<Longrightarrow> reCSI s = 0"
  "s \<noteq> [] \<Longrightarrow> hd s \<noteq> ESC \<Longrightarrow> reOSC s = 0"
  "s \<noteq> [] \<Longrightarrow> hd s \<noteq> ESC \<Longrightarrow> reOther s = 0"
  by (cases s; cases "tl s"; simp add: reCSI_def reOSC_def reOther_def)+

lemma deleteMatches_plain:
  assumes "\<And>s. s \<noteq> [] \<Longrightarrow> hd s \<noteq> ESC \<Longrightarrow> re s = 0" "ESC \<notin> set w"
  shows "deleteMatches re w = w"
  using deleteMatches_skip [OF assms, where s = "[]"] by (simp add: deleteMatches.simps [of re "[]"])

lemma runes_printable: "list_all printable w \<Longrightarrow> runes w = map (\<lambda>c. (byte c, [c])) w"
  by (induction w) (auto simp: printable_simps)

lemma strip_printable:
  assumes "list_all printable w"
  shows "concat (map (\<lambda>(c, _). if c = 27 \<or> (c < 32 \<and> c \<noteq> 10 \<and> c \<noteq> 9) then [] else encodeRune c)
           (runes w)) = w"
    and "stripWS w = w"
  unfolding stripWS_def runes_printable [OF assms]
  using assms by (induction w) (auto simp: printable_simps)

text \<open>A CSI sequence as the terminal writes it: parameters, intermediates and a final byte.\<close>

definition csiSeq :: "string \<Rightarrow> bool" where
  "csiSeq e \<longleftrightarrow>
     (\<exists>ps ms f. e = ESC # CHR ''['' # ps @ ms @ [f] \<and> list_all csiParam ps
                \<and> list_all csiInter ms \<and> csiFinal f)"

lemma dropWhile_all_append:
  "list_all P xs \<Longrightarrow> dropWhile P (xs @ ys) = dropWhile P ys"
  by (induction xs) auto

lemma csi_class_disjoint:
  "csiInter c \<Longrightarrow> \<not> csiParam c" "csiFinal c \<Longrightarrow> \<not> csiParam c" "csiFinal c \<Longrightarrow> \<not> csiInter c"
  by (auto simp: csiInter_def csiParam_def csiFinal_def)

lemma reCSI_seq:
  assumes "csiSeq e"
  shows "reCSI (e @ s) = length e"
proof -
  from assms obtain ps ms f where e: "e = ESC # CHR ''['' # ps @ ms @ [f]"
    and ps: "list_all csiParam ps" and ms: "list_all csiInter ms" and f: "csiFinal f"
    by (auto simp: csiSeq_def)
  have "dropWhile csiParam (ps @ ms @ f # s) = ms @ f # s"
    using ps ms f by (cases ms) (auto simp: dropWhile_all_append csi_class_disjoint)
  moreover have "dropWhile csiInter (ms @ f # s) = f # s"
    using ms f by (simp add: dropWhile_all_append csi_class_disjoint)
  ultimately show ?thesis using f by (simp add: reCSI_def e)
qed

lemma deleteMatches_csi: "csiSeq e \<Longrightarrow> deleteMatches reCSI (e @ s) = deleteMatches reCSI s"
  using reCSI_seq [of e s]
  by (subst deleteMatches.simps) (auto simp: csiSeq_def)

text \<open>Words painted with any CSI sequence between them (\<open>(sequence, word)\<close> pairs).\<close>

definition screen :: "(string \<times> string) list \<Rightarrow> string" where
  "screen ews = concat (map (\<lambda>(e, w). e @ w) ews)"

lemma deleteMatches_screen:
  assumes "\<forall>(e, w) \<in> set ews. csiSeq e \<and> list_all printable w"
  shows "deleteMatches reCSI (screen ews) = concat (map snd ews)"
  using assms
proof (induction ews)
  case Nil
  then show ?case by (simp add: screen_def deleteMatches.simps)
next
  case (Cons x ews)
  obtain e w where x: "x = (e, w)" by (cases x)
  with Cons.prems have "csiSeq e" "list_all printable w" by auto
  then have "ESC \<notin> set w" by (simp add: printable_no_ESC)
  with \<open>csiSeq e\<close> have "deleteMatches reCSI (e @ w @ screen ews) = w @ deleteMatches reCSI (screen ews)"
    by (simp add: deleteMatches_csi deleteMatches_skip re_needs_ESC)
  with Cons x show ?case by (auto simp: screen_def)
qed

lemma stripANSI_screen:
  assumes "\<forall>(e, w) \<in> set ews. csiSeq e \<and> list_all printable w"
  shows "stripANSI (screen ews) = concat (map snd ews)"
proof -
  let ?w = "concat (map snd ews)"
  have p: "list_all printable ?w" using assms by (fastforce simp: list_all_iff)
  then have "ESC \<notin> set ?w" by (rule printable_no_ESC)
  then have "deleteMatches reOSC ?w = ?w" "deleteMatches reOther ?w = ?w"
    by (simp_all add: deleteMatches_plain re_needs_ESC)
  with deleteMatches_screen [OF assms] strip_printable(1) [OF p] show ?thesis
    by (simp add: stripANSI_def)
qed

section \<open>Properties\<close>

text \<open>
  Whatever is written to the buffer and whenever it is reset, it holds the last 64 KiB of what was
  written since the last reset, and its counter the bytes ever written.
\<close>

theorem ring_is_tail: "foldl ring_step newRing ops = ring_abs (foldl hist_step ([], 0) ops)"
  unfolding newRing_abs by (rule ring_run_abs)

text \<open>
  The dialog search sees through the terminal: on a screen painted as printable words with any
  cursor movements or colours between them, \<^verbatim>\<open>contains\<close> finds a text exactly when it occurs in the
  words, blanks not counting.
\<close>

theorem dialog_found:
  assumes "list_all (\<lambda>(e, w). csiSeq e \<and> list_all printable w) ews" "rbuf r = screen ews"
  shows "ring_contains needle r \<longleftrightarrow> strContains (concat (map snd ews)) (stripWS needle)"
proof -
  have ews: "\<forall>(e, w) \<in> set ews. csiSeq e \<and> list_all printable w" using assms(1) by (simp add: list_all_iff)
  then have "list_all printable (concat (map snd ews))" by (fastforce simp: list_all_iff)
  then have "stripWS (concat (map snd ews)) = concat (map snd ews)" by (rule strip_printable)
  with stripANSI_screen [OF ews] assms(2) show ?thesis by (simp add: ring_contains_def)
qed

theorem dialog_found_witness:
  "ring_contains ''Bypass Permissions''
     (ring_Write (screen [(ESC # ''[1m'', ''Bypass''), (ESC # ''[3C'', ''Permissions'')]) newRing)"
proof -
  let ?ews = "[(ESC # ''[1m'', ''Bypass''), (ESC # ''[3C'', ''Permissions'')]"
  have "csiSeq (ESC # ''[1m'')" unfolding csiSeq_def
    by (intro exI [of _ "''1''"] exI [of _ "[]"] exI [of _ "CHR ''m''"]) (simp add: csiParam_def csiFinal_def)
  moreover have "csiSeq (ESC # ''[3C'')" unfolding csiSeq_def
    by (intro exI [of _ "''3''"] exI [of _ "[]"] exI [of _ "CHR ''C''"]) (simp add: csiParam_def csiFinal_def)
  ultimately have "list_all (\<lambda>(e, w). csiSeq e \<and> list_all printable w) ?ews" by (simp add: printable_def)
  moreover have "rbuf (ring_Write (screen ?ews) newRing) = screen ?ews"
    by (simp add: ring_Write_def newRing_def screen_def ringCap_def)
  moreover have "strContains (concat (map snd ?ews)) (stripWS ''Bypass Permissions'')" by code_simp
  ultimately show ?thesis by (subst dialog_found)
qed

end
