(* ===== verification/GoJson.thy ===== *)
theory GoJson
  imports GoPrelude
begin

text \<open>
  The part of \<^verbatim>\<open>encoding/json\<close> the sources call: a parser from bytes to values that keeps the raw
  text of every array element and object member (what a \<^verbatim>\<open>json.RawMessage\<close> field receives), and
  decoders into Go values with the library's rules: an unknown key is ignored, a known key is
  matched without regard to ASCII case, members are applied in order, \<^verbatim>\<open>null\<close> leaves a non-pointer
  value as it was and clears a pointer, and a type mismatch fails the whole decoding (the sources
  drop the value on every error). A JSON number keeps its text. The nesting limit of 10000 levels
  of \<^verbatim>\<open>encoding/json\<close> is not modelled.
\<close>

datatype json =
    JNull
  | JBool bool
  | JNum string
  | JStr string
  | JArr "(string \<times> json) list"
  | JObj "(string \<times> string \<times> json) list"

section \<open>Parsing\<close>

abbreviation (input) quote :: char where "quote \<equiv> CHR 0x22"
abbreviation (input) backslash :: char where "backslash \<equiv> CHR 0x5C"

definition isJsonWs :: "char \<Rightarrow> bool" where
  "isJsonWs c \<longleftrightarrow> c \<in> {CHR 0x20, CHR 0x09, CHR 0x0A, CHR 0x0D}"

definition skipWs :: "string \<Rightarrow> string" where
  "skipWs s = dropWhile isJsonWs s"

definition isDigit :: "char \<Rightarrow> bool" where
  "isDigit c \<longleftrightarrow> 48 \<le> byte c \<and> byte c \<le> 57"

definition hexVal :: "char \<Rightarrow> nat option" where
  "hexVal c =
     (if isDigit c then Some (byte c - 48)
      else if 97 \<le> byte c \<and> byte c \<le> 102 then Some (byte c - 87)
      else if 65 \<le> byte c \<and> byte c \<le> 70 then Some (byte c - 55)
      else None)"

fun hex4 :: "string \<Rightarrow> (nat \<times> string) option" where
  "hex4 (a # b # c # d # r) =
     (case (hexVal a, hexVal b, hexVal c, hexVal d) of
        (Some x, Some y, Some z, Some w) \<Rightarrow> Some (((x * 16 + y) * 16 + z) * 16 + w, r)
      | _ \<Rightarrow> None)"
| "hex4 _ = None"

text \<open>
  The escape after \<^verbatim>\<open>\u\<close>: a high surrogate followed by an escaped low one is a pair, any other
  surrogate is U+FFFD.
\<close>

definition unescapeU :: "string \<Rightarrow> (string \<times> string) option" where
  "unescapeU s =
     (case hex4 s of
        None \<Rightarrow> None
      | Some (r, rest) \<Rightarrow>
          if 55296 \<le> r \<and> r \<le> 57343 then
            (case rest of
               b # u # rest' \<Rightarrow>
                 if b = backslash \<and> u = CHR ''u'' then
                   (case hex4 rest' of
                      Some (r2, rest'') \<Rightarrow>
                        if r \<le> 56319 \<and> 56320 \<le> r2 \<and> r2 \<le> 57343
                        then Some (encodeRune (65536 + (r - 55296) * 1024 + (r2 - 56320)), rest'')
                        else Some (encodeRune 65533, rest)
                    | None \<Rightarrow> Some (encodeRune 65533, rest))
                 else Some (encodeRune 65533, rest)
             | _ \<Rightarrow> Some (encodeRune 65533, rest))
          else Some (encodeRune r, rest))"

definition simpleEscape :: "char \<Rightarrow> char option" where
  "simpleEscape c =
     (if c \<in> {quote, backslash, CHR ''/''} then Some c
      else if c = CHR ''b'' then Some (CHR 0x08)
      else if c = CHR ''f'' then Some (CHR 0x0C)
      else if c = CHR ''n'' then Some (CHR 0x0A)
      else if c = CHR ''r'' then Some (CHR 0x0D)
      else if c = CHR ''t'' then Some (CHR 0x09)
      else None)"

text \<open>The body of a string literal, after its opening quote.\<close>

fun parseStr :: "nat \<Rightarrow> string \<Rightarrow> (string \<times> string) option" where
  "parseStr 0 s = None"
| "parseStr (Suc n) [] = None"
| "parseStr (Suc n) (c # s) =
     (if c = quote then Some ([], s)
      else if c = backslash then
        (case s of
           [] \<Rightarrow> None
         | e # s' \<Rightarrow>
             if e = CHR ''u'' then
               (case unescapeU s' of
                  None \<Rightarrow> None
                | Some (u, r) \<Rightarrow> map_option (\<lambda>(t, r'). (u @ t, r')) (parseStr n r))
             else (case simpleEscape e of
                  None \<Rightarrow> None
                | Some x \<Rightarrow> map_option (\<lambda>(t, r'). (x # t, r')) (parseStr n s')))
      else if byte c < 32 then None
      else (let (r, w) = decodeRune (c # s)
            in map_option (\<lambda>(t, r'). (encodeRune r @ t, r')) (parseStr n (drop w (c # s)))))"

definition parseDigits :: "string \<Rightarrow> (string \<times> string) option" where
  "parseDigits s =
     (let d = takeWhile isDigit s in if d = [] then None else Some (d, dropWhile isDigit s))"

definition parseInt :: "string \<Rightarrow> (string \<times> string) option" where
  "parseInt s =
     (case s of
        [] \<Rightarrow> None
      | c # r \<Rightarrow> if c = CHR ''0'' then Some ([c], r) else parseDigits s)"

definition parseFrac :: "string \<Rightarrow> (string \<times> string) option" where
  "parseFrac s =
     (case s of
        [] \<Rightarrow> Some ([], [])
      | c # r \<Rightarrow> if c = CHR ''.'' then map_option (\<lambda>(d, r'). (c # d, r')) (parseDigits r)
                else Some ([], s))"

definition parseExp :: "string \<Rightarrow> (string \<times> string) option" where
  "parseExp s =
     (case s of
        [] \<Rightarrow> Some ([], [])
      | c # r \<Rightarrow>
          if c \<in> {CHR ''e'', CHR ''E''} then
            (case r of
               [] \<Rightarrow> None
             | g # r2 \<Rightarrow> if g \<in> {CHR ''+'', CHR ''-''}
                        then map_option (\<lambda>(d, r'). (c # g # d, r')) (parseDigits r2)
                        else map_option (\<lambda>(d, r'). (c # d, r')) (parseDigits r))
          else Some ([], s))"

definition parseNum :: "string \<Rightarrow> (string \<times> string) option" where
  "parseNum s =
     (let (sign, s1) = (case s of [] \<Rightarrow> ([], []) | c # r \<Rightarrow> if c = CHR ''-'' then ([c], r) else ([], s))
      in case parseInt s1 of
           None \<Rightarrow> None
         | Some (i, s2) \<Rightarrow>
             (case parseFrac s2 of
                None \<Rightarrow> None
              | Some (f, s3) \<Rightarrow>
                  (case parseExp s3 of
                     None \<Rightarrow> None
                   | Some (e, s4) \<Rightarrow> Some (sign @ i @ f @ e, s4))))"

text \<open>
  Values, array elements and object members. The fuel is a bound on the recursion; the length of
  the input is enough, since every call but the one for the closing bracket consumes a byte.
\<close>

fun parseVal :: "nat \<Rightarrow> string \<Rightarrow> (json \<times> string) option"
  and parseElems :: "nat \<Rightarrow> string \<Rightarrow> ((string \<times> json) list \<times> string) option"
  and parseMembers :: "nat \<Rightarrow> string \<Rightarrow> ((string \<times> string \<times> json) list \<times> string) option"
where
  "parseVal 0 s = None"
| "parseVal (Suc n) s =
     (case s of
        [] \<Rightarrow> None
      | c # r \<Rightarrow>
          if c = CHR ''{'' then
            (case skipWs r of
               [] \<Rightarrow> None
             | d # r' \<Rightarrow> if d = CHR ''}'' then Some (JObj [], r')
                        else map_option (\<lambda>(ms, t). (JObj ms, t)) (parseMembers n (d # r')))
          else if c = CHR ''['' then
            (case skipWs r of
               [] \<Rightarrow> None
             | d # r' \<Rightarrow> if d = CHR '']'' then Some (JArr [], r')
                        else map_option (\<lambda>(es, t). (JArr es, t)) (parseElems n (d # r')))
          else if c = quote then map_option (\<lambda>(t, r'). (JStr t, r')) (parseStr (Suc (length r)) r)
          else if hasPrefix s ''true'' then Some (JBool True, drop 4 s)
          else if hasPrefix s ''false'' then Some (JBool False, drop 5 s)
          else if hasPrefix s ''null'' then Some (JNull, drop 4 s)
          else map_option (\<lambda>(t, r'). (JNum t, r')) (parseNum s))"
| "parseElems 0 s = None"
| "parseElems (Suc n) s =
     (case parseVal n s of
        None \<Rightarrow> None
      | Some (v, r) \<Rightarrow>
          let raw = take (length s - length r) s in
          (case skipWs r of
             [] \<Rightarrow> None
           | d # r' \<Rightarrow>
               if d = CHR '']'' then Some ([(raw, v)], r')
               else if d = CHR '','' then
                 map_option (\<lambda>(es, t). ((raw, v) # es, t)) (parseElems n (skipWs r'))
               else None))"
| "parseMembers 0 s = None"
| "parseMembers (Suc n) s =
     (case s of
        [] \<Rightarrow> None
      | q # s0 \<Rightarrow>
          if q \<noteq> quote then None
          else (case parseStr (Suc (length s0)) s0 of
             None \<Rightarrow> None
           | Some (k, r0) \<Rightarrow>
               (case skipWs r0 of
                  [] \<Rightarrow> None
                | d # r1 \<Rightarrow>
                    if d \<noteq> CHR '':'' then None
                    else (let r2 = skipWs r1 in
                      case parseVal n r2 of
                        None \<Rightarrow> None
                      | Some (v, r3) \<Rightarrow>
                          let raw = take (length r2 - length r3) r2 in
                          (case skipWs r3 of
                             [] \<Rightarrow> None
                           | e # r4 \<Rightarrow>
                               if e = CHR ''}'' then Some ([(k, raw, v)], r4)
                               else if e = CHR '','' then
                                 map_option (\<lambda>(ms, t). ((k, raw, v) # ms, t))
                                   (parseMembers n (skipWs r4))
                               else None)))))"

text \<open>A whole document: one value with white space around it (\<^verbatim>\<open>json.Valid\<close>, \<^verbatim>\<open>checkValid\<close>).\<close>

definition parseJson :: "string \<Rightarrow> json option" where
  "parseJson s =
     (case parseVal (Suc (2 * length s)) (skipWs s) of
        Some (v, r) \<Rightarrow> if skipWs r = [] then Some v else None
      | None \<Rightarrow> None)"

section \<open>Decoding into Go values\<close>

text \<open>
  A decoder takes the raw text, the value and the Go value decoded so far; \<^const>\<open>None\<close> is a
  decoding error.
\<close>

type_synonym 'a decoder = "string \<Rightarrow> json \<Rightarrow> 'a \<Rightarrow> 'a option"

definition decString :: "string decoder" where
  "decString raw v old = (case v of JStr s \<Rightarrow> Some s | JNull \<Rightarrow> Some old | _ \<Rightarrow> None)"

definition decBool :: "bool decoder" where
  "decBool raw v old = (case v of JBool b \<Rightarrow> Some b | JNull \<Rightarrow> Some old | _ \<Rightarrow> None)"

definition decRaw :: "string decoder" where
  "decRaw raw v old = Some raw"

fun natOfDigits :: "nat \<Rightarrow> string \<Rightarrow> nat" where
  "natOfDigits acc [] = acc"
| "natOfDigits acc (c # s) = natOfDigits (acc * 10 + (byte c - 48)) s"

text \<open>\<^verbatim>\<open>strconv.ParseInt(text, 10, 64)\<close> on the text of a number: digits only, and in range.\<close>

definition int64OfText :: "string \<Rightarrow> int option" where
  "int64OfText t =
     (let neg = hasPrefix t ''-''; d = (if neg then tl t else t);
          n = (if neg then - int (natOfDigits 0 d) else int (natOfDigits 0 d))
      in if d \<noteq> [] \<and> list_all isDigit d \<and> -9223372036854775808 \<le> n \<and> n < 9223372036854775808
         then Some n else None)"

definition decInt64 :: "int decoder" where
  "decInt64 raw v old = (case v of JNum t \<Rightarrow> int64OfText t | JNull \<Rightarrow> Some old | _ \<Rightarrow> None)"

text \<open>
  A struct: the members in order, each offered to the decoder of the field it names. A field is
  a key with a decoder of the whole struct.
\<close>

type_synonym 's field = "string \<times> 's decoder"

definition fieldDec :: "('s \<Rightarrow> 'a) \<Rightarrow> (('a \<Rightarrow> 'a) \<Rightarrow> 's \<Rightarrow> 's) \<Rightarrow> 'a decoder \<Rightarrow> 's decoder" where
  "fieldDec get upd d raw v s = map_option (\<lambda>x. upd (\<lambda>_. x) s) (d raw v (get s))"

fun lookupField :: "'s field list \<Rightarrow> string \<Rightarrow> 's decoder option" where
  "lookupField [] k = None"
| "lookupField ((n, d) # fs) k = (if equalFold n k then Some d else lookupField fs k)"

fun decMembers :: "'s field list \<Rightarrow> (string \<times> string \<times> json) list \<Rightarrow> 's \<Rightarrow> 's option" where
  "decMembers fs [] s = Some s"
| "decMembers fs ((k, raw, v) # ms) s =
     (case lookupField fs k of
        None \<Rightarrow> decMembers fs ms s
      | Some d \<Rightarrow> (case d raw v s of None \<Rightarrow> None | Some s' \<Rightarrow> decMembers fs ms s'))"

definition decStruct :: "'s field list \<Rightarrow> 's decoder" where
  "decStruct fs raw v s =
     (case v of JObj ms \<Rightarrow> decMembers fs ms s | JNull \<Rightarrow> Some s | _ \<Rightarrow> None)"

definition decPtr :: "'s \<Rightarrow> 's decoder \<Rightarrow> 's option decoder" where
  "decPtr z d raw v old =
     (case v of
        JNull \<Rightarrow> Some None
      | _ \<Rightarrow> map_option Some (d raw v (case old of None \<Rightarrow> z | Some s \<Rightarrow> s)))"

definition decSlice :: "'a \<Rightarrow> 'a decoder \<Rightarrow> 'a list decoder" where
  "decSlice z d raw v old =
     (case v of
        JNull \<Rightarrow> Some []
      | JArr es \<Rightarrow> those (map (\<lambda>(r, e). d r e z) es)
      | _ \<Rightarrow> None)"

text \<open>\<^verbatim>\<open>json.Unmarshal(data, &x)\<close> on a value \<open>z\<close>: \<^const>\<open>None\<close> is an error.\<close>

definition unmarshal :: "'a decoder \<Rightarrow> string \<Rightarrow> 'a \<Rightarrow> 'a option" where
  "unmarshal d s z = (case parseJson s of None \<Rightarrow> None | Some v \<Rightarrow> d s v z)"

end
