(* ===== verification/Transcript.thy ===== *)
theory Transcript
  imports GoJson
begin

text \<open>
  \<^verbatim>\<open>internal/transcript/result.go\<close>: the one-shot readers of a JSONL transcript and the
  classification of an outcome error. A file system is a map from paths to contents, a path it
  does not map cannot be opened. A reader scans the lines in order and folds each into its
  accumulator; a line that does not decode is skipped, and a line of 16 MiB or more ends the scan
  with an error.
\<close>

type_synonym filesystem = "string \<Rightarrow> string option"

datatype transcript_error = OpenError | ScanError

section \<open>Scanning lines\<close>

definition maxPartialBytes :: nat where "maxPartialBytes = 16 * 1024 * 1024"

text \<open>\<^verbatim>\<open>bufio.ScanLines\<close>: split at newlines, no final empty line, one trailing CR dropped.\<close>

definition dropCR :: "string \<Rightarrow> string" where
  "dropCR l = (if l \<noteq> [] \<and> last l = CHR 0x0D then butlast l else l)"

definition fileLines :: "string \<Rightarrow> string list" where
  "fileLines s =
     (let ls = splitOn (CHR 0x0A) s in if last ls = [] then butlast ls else ls)"

definition scanLines :: "string \<Rightarrow> string list \<times> bool" where
  "scanLines s =
     (let ls = fileLines s; ok = takeWhile (\<lambda>l. length l < maxPartialBytes) ls
      in (map dropCR ok, length ok < length ls))"

text \<open>The loop every reader has: open, scan, fold, and fail if the scanner failed.\<close>

definition readTranscript ::
  "filesystem \<Rightarrow> string \<Rightarrow> ('a \<Rightarrow> string \<Rightarrow> 'a) \<Rightarrow> 'a \<Rightarrow> transcript_error + 'a" where
  "readTranscript fs path f a =
     (case fs path of
        None \<Rightarrow> Inl OpenError
      | Some s \<Rightarrow> (let (ls, err) = scanLines s in if err then Inl ScanError else Inr (foldl f a ls)))"

section \<open>LastMessage\<close>

record roleLine =
  rlType :: string
  rlMessage :: "string option"

definition decRoleLine :: "roleLine decoder" where
  "decRoleLine = decStruct
     [(''type'', fieldDec rlType rlType_update decString),
      (''message'', fieldDec rlMessage rlMessage_update
          (decPtr [] (decStruct [(''stop_reason'', decString)])))]"

definition lastMessageLine :: "string \<times> string \<Rightarrow> string \<Rightarrow> string \<times> string" where
  "lastMessageLine acc l =
     (case unmarshal decRoleLine l \<lparr>rlType = [], rlMessage = None\<rparr> of
        None \<Rightarrow> acc
      | Some rl \<Rightarrow>
          if rlType rl \<noteq> ''user'' \<and> rlType rl \<noteq> ''assistant'' then acc
          else (rlType rl, case rlMessage rl of Some sr \<Rightarrow> sr | None \<Rightarrow> []))"

definition LastMessage :: "filesystem \<Rightarrow> string \<Rightarrow> transcript_error + (string \<times> string)" where
  "LastMessage fs path = readTranscript fs path lastMessageLine ([], [])"

section \<open>WasInterrupted\<close>

definition InterruptMarkerPrefix :: string where
  "InterruptMarkerPrefix = ''[Request interrupted by user''"

record interruptLine =
  ilType :: string
  ilMessage :: "string option"

definition decInterruptLine :: "interruptLine decoder" where
  "decInterruptLine = decStruct
     [(''type'', fieldDec ilType ilType_update decString),
      (''message'', fieldDec ilMessage ilMessage_update
          (decPtr [] (decStruct [(''content'', decRaw)])))]"

record textBlock =
  tbType :: string
  tbText :: string

definition decTextBlock :: "textBlock decoder" where
  "decTextBlock = decStruct
     [(''type'', fieldDec tbType tbType_update decString),
      (''text'', fieldDec tbText tbText_update decString)]"

abbreviation zeroTextBlock :: textBlock where "zeroTextBlock \<equiv> \<lparr>tbType = [], tbText = []\<rparr>"

definition carriesMarker :: "string \<Rightarrow> bool" where
  "carriesMarker content =
     (case unmarshal (decSlice zeroTextBlock decTextBlock) content [] of
        None \<Rightarrow> False
      | Some bs \<Rightarrow> list_ex (\<lambda>b. tbType b = ''text'' \<and> hasPrefix (tbText b) InterruptMarkerPrefix) bs)"

definition interruptedLine :: "bool \<Rightarrow> string \<Rightarrow> bool" where
  "interruptedLine acc l =
     (case unmarshal decInterruptLine l \<lparr>ilType = [], ilMessage = None\<rparr> of
        None \<Rightarrow> acc
      | Some il \<Rightarrow>
          if ilType il \<noteq> ''user'' \<and> ilType il \<noteq> ''assistant'' then acc
          else if ilType il \<noteq> ''user'' then False
          else (case ilMessage il of None \<Rightarrow> False | Some content \<Rightarrow> carriesMarker content))"

definition WasInterrupted :: "filesystem \<Rightarrow> string \<Rightarrow> bool" where
  "WasInterrupted fs path =
     (case readTranscript fs path interruptedLine False of Inl _ \<Rightarrow> False | Inr b \<Rightarrow> b)"

section \<open>LastAssistant\<close>

record assistantMsg =
  amContent :: "textBlock list"
  amUsage :: string
  amStopReason :: string

record assistantLine =
  alType :: string
  alMessage :: assistantMsg

abbreviation zeroAssistantLine :: assistantLine where
  "zeroAssistantLine \<equiv> \<lparr>alType = [], alMessage = \<lparr>amContent = [], amUsage = [], amStopReason = []\<rparr>\<rparr>"

definition decAssistantLine :: "assistantLine decoder" where
  "decAssistantLine = decStruct
     [(''type'', fieldDec alType alType_update decString),
      (''message'', fieldDec alMessage alMessage_update (decStruct
          [(''content'', fieldDec amContent amContent_update (decSlice zeroTextBlock decTextBlock)),
           (''usage'', fieldDec amUsage amUsage_update decRaw),
           (''stop_reason'', fieldDec amStopReason amStopReason_update decString)]))]"

type_synonym lastAssistant = "string \<times> string \<times> string"

definition textOf :: "textBlock list \<Rightarrow> string" where
  "textOf bs = concat (map tbText (filter (\<lambda>b. tbType b = ''text'') bs))"

definition lastAssistantLine :: "lastAssistant \<Rightarrow> string \<Rightarrow> lastAssistant" where
  "lastAssistantLine acc l =
     (case unmarshal decAssistantLine l zeroAssistantLine of
        None \<Rightarrow> acc
      | Some al \<Rightarrow>
          if alType al \<noteq> ''assistant'' then acc
          else (let t = textOf (amContent (alMessage al))
                in (if t \<noteq> [] then t else fst acc, amUsage (alMessage al), amStopReason (alMessage al))))"

definition LastAssistant :: "filesystem \<Rightarrow> string \<Rightarrow> transcript_error + lastAssistant" where
  "LastAssistant fs path = readTranscript fs path lastAssistantLine ([], [], [])"

section \<open>SumTurnTokens\<close>

record TurnTokens =
  ttModel :: string
  ttInput :: int
  ttOutput :: int
  ttCacheRead :: int
  ttCacheCreation :: int

record turnUsage =
  tuInput :: int
  tuOutput :: int
  tuCacheRead :: int
  tuCacheCreation :: int

record turnMsg =
  tmContent :: string
  tmModel :: string
  tmUsage :: turnUsage

record turnLine =
  tlType :: string
  tlMessage :: turnMsg

abbreviation zeroTurnLine :: turnLine where
  "zeroTurnLine \<equiv> \<lparr>tlType = [], tlMessage = \<lparr>tmContent = [], tmModel = [],
     tmUsage = \<lparr>tuInput = 0, tuOutput = 0, tuCacheRead = 0, tuCacheCreation = 0\<rparr>\<rparr>\<rparr>"

definition decTurnLine :: "turnLine decoder" where
  "decTurnLine = decStruct
     [(''type'', fieldDec tlType tlType_update decString),
      (''message'', fieldDec tlMessage tlMessage_update (decStruct
          [(''content'', fieldDec tmContent tmContent_update decRaw),
           (''model'', fieldDec tmModel tmModel_update decString),
           (''usage'', fieldDec tmUsage tmUsage_update (decStruct
              [(''input_tokens'', fieldDec tuInput tuInput_update decInt64),
               (''output_tokens'', fieldDec tuOutput tuOutput_update decInt64),
               (''cache_read_input_tokens'', fieldDec tuCacheRead tuCacheRead_update decInt64),
               (''cache_creation_input_tokens'',
                  fieldDec tuCacheCreation tuCacheCreation_update decInt64)]))]))]"

definition isJSONString :: "string \<Rightarrow> bool" where
  "isJSONString raw = (let b = trimSpace raw in b \<noteq> [] \<and> hd b = CHR 0x22)"

record tokenAcc =
  byModel :: "string \<Rightarrow> TurnTokens option"
  models :: "string list"

definition emptyAcc :: tokenAcc where
  "emptyAcc = \<lparr>byModel = Map.empty, models = []\<rparr>"

definition addUsage :: "string \<Rightarrow> turnUsage \<Rightarrow> tokenAcc \<Rightarrow> tokenAcc" where
  "addUsage m u acc =
     (let (t, ord) = (case byModel acc m of
            Some t \<Rightarrow> (t, models acc)
          | None \<Rightarrow> (\<lparr>ttModel = m, ttInput = 0, ttOutput = 0, ttCacheRead = 0, ttCacheCreation = 0\<rparr>,
                     models acc @ [m]))
      in acc\<lparr>byModel := (byModel acc)(m \<mapsto>
               t\<lparr>ttInput := wrap64 (ttInput t + tuInput u),
                 ttOutput := wrap64 (ttOutput t + tuOutput u),
                 ttCacheRead := wrap64 (ttCacheRead t + tuCacheRead u),
                 ttCacheCreation := wrap64 (ttCacheCreation t + tuCacheCreation u)\<rparr>),
             models := ord\<rparr>)"

definition tokenLine :: "tokenAcc \<Rightarrow> string \<Rightarrow> tokenAcc" where
  "tokenLine acc l =
     (case unmarshal decTurnLine l zeroTurnLine of
        None \<Rightarrow> acc
      | Some tln \<Rightarrow>
          if tlType tln = ''user'' \<and> isJSONString (tmContent (tlMessage tln)) then emptyAcc
          else if tlType tln \<noteq> ''assistant'' then acc
          else addUsage (tmModel (tlMessage tln)) (tmUsage (tlMessage tln)) acc)"

definition tokensOut :: "tokenAcc \<Rightarrow> TurnTokens list" where
  "tokensOut acc = map (\<lambda>m. the (byModel acc m)) (models acc)"

definition SumTurnTokens :: "filesystem \<Rightarrow> string \<Rightarrow> transcript_error + TurnTokens list" where
  "SumTurnTokens fs path = map_sum id tokensOut (readTranscript fs path tokenLine emptyAcc)"

section \<open>FailedCriticalOutcome\<close>

definition criticalOutcomeTools :: "string list" where
  "criticalOutcomeTools = [''submit_outcome'']"

definition bareToolName :: "string \<Rightarrow> string" where
  "bareToolName name =
     (case strLastIndex name ''__'' of Some i \<Rightarrow> drop (i + 2) name | None \<Rightarrow> name)"

record outcomeBlock =
  obType :: string
  obID :: string
  obName :: string
  obToolUseID :: string
  obIsError :: bool
  obContent :: string

abbreviation zeroOutcomeBlock :: outcomeBlock where
  "zeroOutcomeBlock \<equiv>
     \<lparr>obType = [], obID = [], obName = [], obToolUseID = [], obIsError = False, obContent = []\<rparr>"

definition decOutcomeBlock :: "outcomeBlock decoder" where
  "decOutcomeBlock = decStruct
     [(''type'', fieldDec obType obType_update decString),
      (''id'', fieldDec obID obID_update decString),
      (''name'', fieldDec obName obName_update decString),
      (''tool_use_id'', fieldDec obToolUseID obToolUseID_update decString),
      (''is_error'', fieldDec obIsError obIsError_update decBool),
      (''content'', fieldDec obContent obContent_update decRaw)]"

record outcomeLine =
  olType :: string
  olMessage :: "outcomeBlock list option"

definition decOutcomeLine :: "outcomeLine decoder" where
  "decOutcomeLine = decStruct
     [(''type'', fieldDec olType olType_update decString),
      (''message'', fieldDec olMessage olMessage_update
          (decPtr [] (decStruct [(''content'', decSlice zeroOutcomeBlock decOutcomeBlock)])))]"

definition jsonContentString :: "string \<Rightarrow> string" where
  "jsonContentString raw =
     (if isJSONString raw
      then (case unmarshal decString raw [] of Some s \<Rightarrow> s | None \<Rightarrow> raw)
      else raw)"

record outcomeAcc =
  toolUseByID :: "string \<Rightarrow> string option"
  lastResult :: "string \<Rightarrow> string"
  lastFailed :: "string \<Rightarrow> bool"

definition emptyOutcomes :: outcomeAcc where
  "emptyOutcomes = \<lparr>toolUseByID = Map.empty, lastResult = (\<lambda>_. []), lastFailed = (\<lambda>_. False)\<rparr>"

definition outcomeStep :: "outcomeAcc \<Rightarrow> outcomeBlock \<Rightarrow> outcomeAcc" where
  "outcomeStep acc b =
     (if obType b = ''tool_use'' then
        (let name = bareToolName (obName b)
         in if name \<in> set criticalOutcomeTools \<and> obID b \<noteq> []
            then acc\<lparr>toolUseByID := (toolUseByID acc)(obID b \<mapsto> name)\<rparr> else acc)
      else if obType b = ''tool_result'' then
        (if obToolUseID b = [] then acc
         else (case toolUseByID acc (obToolUseID b) of
            None \<Rightarrow> acc
          | Some name \<Rightarrow>
              if obIsError b
              then acc\<lparr>lastResult := (lastResult acc)(name := jsonContentString (obContent b)),
                       lastFailed := (lastFailed acc)(name := True)\<rparr>
              else acc\<lparr>lastResult := (lastResult acc)(name := []),
                       lastFailed := (lastFailed acc)(name := False)\<rparr>))
      else acc)"

definition blocksOf :: "string \<Rightarrow> outcomeBlock list" where
  "blocksOf l =
     (case unmarshal decOutcomeLine l \<lparr>olType = [], olMessage = None\<rparr> of
        None \<Rightarrow> []
      | Some ol \<Rightarrow> (case olMessage ol of None \<Rightarrow> [] | Some bs \<Rightarrow> bs))"

text \<open>
  The final loop ranges over a map whose keys are names from \<^const>\<open>criticalOutcomeTools\<close>, of
  which there is one, so its order does not matter.
\<close>

definition outcomeVerdict :: "outcomeAcc \<Rightarrow> (string \<times> string) option" where
  "outcomeVerdict acc =
     map_option (\<lambda>n. (n, lastResult acc n)) (find (lastFailed acc) criticalOutcomeTools)"

definition FailedCriticalOutcome ::
  "filesystem \<Rightarrow> string \<Rightarrow> transcript_error + (string \<times> string) option" where
  "FailedCriticalOutcome fs path =
     map_sum id outcomeVerdict
       (readTranscript fs path (\<lambda>acc l. foldl outcomeStep acc (blocksOf l)) emptyOutcomes)"

section \<open>OutcomeErrorStatus\<close>

definition httpStatusMarkers :: "string list" where
  "httpStatusMarkers =
     [''http/1.1'', ''http'', ''status code'', ''status'', ''code'', ''->'', ''returned'']"

definition isWordByte :: "char \<Rightarrow> bool" where
  "isWordByte b \<longleftrightarrow> (97 \<le> byte b \<and> byte b \<le> 122) \<or> (65 \<le> byte b \<and> byte b \<le> 90)
                   \<or> (48 \<le> byte b \<and> byte b \<le> 57) \<or> b = CHR ''_''"

definition leadingStatus :: "string \<Rightarrow> nat option" where
  "leadingStatus s =
     (case s of
        a # b # c # r \<Rightarrow>
          if isDigit a \<and> isDigit b \<and> isDigit c \<and> \<not> (r \<noteq> [] \<and> isDigit (hd r)) then
            (let code = (byte a - 48) * 100 + (byte b - 48) * 10 + (byte c - 48)
             in if code < 400 \<or> 599 < code then None else Some code)
          else None
      | _ \<Rightarrow> None)"

fun tryMarkers :: "string list \<Rightarrow> string \<Rightarrow> nat option" where
  "tryMarkers [] s = None"
| "tryMarkers (m # ms) s =
     (if \<not> hasPrefix s m then tryMarkers ms s
      else (case leadingStatus (trimLeft (drop (length m) s) ('' :='' @ [CHR 0x09])) of
              Some code \<Rightarrow> Some code
            | None \<Rightarrow> tryMarkers ms s))"

text \<open>The loop over the positions of the text, with the byte before the current one.\<close>

fun scanStatus :: "char option \<Rightarrow> string \<Rightarrow> nat option" where
  "scanStatus prev [] = None"
| "scanStatus prev (c # s) =
     (if (case prev of Some p \<Rightarrow> isWordByte p | None \<Rightarrow> False) then scanStatus (Some c) s
      else (case tryMarkers httpStatusMarkers (c # s) of
              Some code \<Rightarrow> Some code
            | None \<Rightarrow> scanStatus (Some c) s))"

definition OutcomeErrorStatus :: "string \<Rightarrow> nat option" where
  "OutcomeErrorStatus errText =
     (let s = toLower (trimSpace errText)
      in case leadingStatus s of Some code \<Rightarrow> Some code | None \<Rightarrow> scanStatus None s)"

section \<open>Lemmas\<close>

lemma leadingStatus_range: "leadingStatus s = Some n \<Longrightarrow> 400 \<le> n \<and> n \<le> 599"
  by (auto simp: leadingStatus_def Let_def split: list.splits if_splits)

lemma tryMarkers_range: "tryMarkers ms s = Some n \<Longrightarrow> 400 \<le> n \<and> n \<le> 599"
  by (induction ms s rule: tryMarkers.induct)
    (auto split: if_splits option.splits dest: leadingStatus_range)

lemma scanStatus_range: "scanStatus p s = Some n \<Longrightarrow> 400 \<le> n \<and> n \<le> 599"
  by (induction p s rule: scanStatus.induct)
    (auto split: if_splits option.splits dest: tryMarkers_range)

text \<open>A fold whose step forgets the accumulator at a boundary only sees what follows it.\<close>

lemma foldl_boundary:
  assumes "\<And>a. f a x = z"
  shows "foldl f a (xs @ x # ys) = foldl f z ys"
  by (simp add: assms)

lemma readTranscript_ok:
  assumes "fs path = Some s" "scanLines s = (ls, False)"
  shows "readTranscript fs path f a = Inr (foldl f a ls)"
  using assms by (simp add: readTranscript_def)

subsection \<open>The outcome scan against its specification\<close>

text \<open>
  The results of critical calls in the order they arrive, given the calls already seen: what the
  agent was last told about its outcome is the last element.
\<close>

fun criticalResults :: "(string \<Rightarrow> string option) \<Rightarrow> outcomeBlock list \<Rightarrow> (bool \<times> string) list" where
  "criticalResults calls [] = []"
| "criticalResults calls (b # bs) =
     (if obType b = ''tool_use'' then
        criticalResults
          (if bareToolName (obName b) = ''submit_outcome'' \<and> obID b \<noteq> []
           then calls(obID b \<mapsto> ''submit_outcome'') else calls) bs
      else if obType b = ''tool_result'' \<and> obToolUseID b \<noteq> [] \<and> calls (obToolUseID b) \<noteq> None then
        (obIsError b, if obIsError b then jsonContentString (obContent b) else [])
          # criticalResults calls bs
      else criticalResults calls bs)"

definition outcomeInv :: "outcomeAcc \<Rightarrow> bool" where
  "outcomeInv acc \<longleftrightarrow> (\<forall>i n. toolUseByID acc i = Some n \<longrightarrow> n = ''submit_outcome'')"

lemma outcomeStep_calls:
  "toolUseByID (outcomeStep acc b) =
     (if obType b = ''tool_use'' \<and> bareToolName (obName b) = ''submit_outcome'' \<and> obID b \<noteq> []
      then (toolUseByID acc)(obID b \<mapsto> ''submit_outcome'') else toolUseByID acc)"
  unfolding outcomeStep_def Let_def criticalOutcomeTools_def by (simp split: option.splits)

lemma outcomeStep_inv: "outcomeInv acc \<Longrightarrow> outcomeInv (outcomeStep acc b)"
  by (simp add: outcomeInv_def outcomeStep_calls)

lemma criticalResults_step:
  "criticalResults (toolUseByID acc) (b # bs) =
   criticalResults (toolUseByID acc) [b] @ criticalResults (toolUseByID (outcomeStep acc b)) bs"
  by (simp add: outcomeStep_calls)

definition verdictOf :: "outcomeAcc \<Rightarrow> bool \<times> string" where
  "verdictOf acc = (lastFailed acc ''submit_outcome'', lastResult acc ''submit_outcome'')"

lemma outcomeStep_verdict:
  assumes "outcomeInv acc"
  shows "verdictOf (outcomeStep acc b) = last (verdictOf acc # criticalResults (toolUseByID acc) [b])"
proof (cases "toolUseByID acc (obToolUseID b)")
  case None
  then show ?thesis by (simp add: verdictOf_def outcomeStep_def Let_def)
next
  case (Some n)
  then have "n = ''submit_outcome''" using assms unfolding outcomeInv_def by blast
  with Some show ?thesis by (simp add: verdictOf_def outcomeStep_def Let_def)
qed

lemma foldl_outcomeStep:
  assumes "outcomeInv acc"
  shows "verdictOf (foldl outcomeStep acc bs)
       = last (verdictOf acc # criticalResults (toolUseByID acc) bs)"
  using assms
proof (induction bs arbitrary: acc)
  case (Cons b bs)
  have "verdictOf (foldl outcomeStep acc (b # bs))
      = last (verdictOf (outcomeStep acc b) # criticalResults (toolUseByID (outcomeStep acc b)) bs)"
    using Cons.IH [OF outcomeStep_inv [OF Cons.prems]] by simp
  also have "\<dots> = last (verdictOf acc # criticalResults (toolUseByID acc) [b]
                     @ criticalResults (toolUseByID (outcomeStep acc b)) bs)"
    using outcomeStep_verdict [OF Cons.prems, of b] by (simp only: last.simps last_append) simp
  finally show ?case by (simp only: criticalResults_step [symmetric])
qed simp

lemma foldl_blocks:
  "foldl (\<lambda>acc l. foldl outcomeStep acc (blocksOf l)) a ls
   = foldl outcomeStep a (concat (map blocksOf ls))"
  by (induction ls arbitrary: a) auto

subsection \<open>The token sums against their specification\<close>

definition modelUse :: "string \<Rightarrow> string \<Rightarrow> turnUsage option" where
  "modelUse m l =
     (case unmarshal decTurnLine l zeroTurnLine of
        None \<Rightarrow> None
      | Some tln \<Rightarrow> if tlType tln = ''assistant'' \<and> tmModel (tlMessage tln) = m
                  then Some (tmUsage (tlMessage tln)) else None)"

definition promptLine :: "string \<Rightarrow> bool" where
  "promptLine l =
     (case unmarshal decTurnLine l zeroTurnLine of
        None \<Rightarrow> False
      | Some tln \<Rightarrow> tlType tln = ''user'' \<and> isJSONString (tmContent (tlMessage tln)))"

lemma tokenLine_prompt: "promptLine l \<Longrightarrow> tokenLine acc l = emptyAcc"
  by (auto simp: promptLine_def tokenLine_def split: option.splits)

definition accInv :: "tokenAcc \<Rightarrow> bool" where
  "accInv acc \<longleftrightarrow> distinct (models acc) \<and> set (models acc) = dom (byModel acc)
                  \<and> (\<forall>m t. byModel acc m = Some t \<longrightarrow> ttModel t = m)"

lemma accInv_tokenLine: "accInv acc \<Longrightarrow> accInv (tokenLine acc l)"
  by (auto simp: accInv_def tokenLine_def addUsage_def emptyAcc_def Let_def
      split: option.splits if_splits)

lemma accInv_foldl: "accInv acc \<Longrightarrow> accInv (foldl tokenLine acc ls)"
  by (induction ls arbitrary: acc) (auto simp: accInv_tokenLine)

text \<open>The four sums, each with the usage field it adds up.\<close>

definition tokenFields :: "((TurnTokens \<Rightarrow> int) \<times> (turnUsage \<Rightarrow> int)) list" where
  "tokenFields = [(ttInput, tuInput), (ttOutput, tuOutput), (ttCacheRead, tuCacheRead),
                  (ttCacheCreation, tuCacheCreation)]"

definition accField :: "(TurnTokens \<Rightarrow> int) \<Rightarrow> tokenAcc \<Rightarrow> string \<Rightarrow> int" where
  "accField g acc m = (case byModel acc m of None \<Rightarrow> 0 | Some t \<Rightarrow> g t)"

definition lineField :: "(turnUsage \<Rightarrow> int) \<Rightarrow> string \<Rightarrow> string \<Rightarrow> int" where
  "lineField u m l = (case modelUse m l of None \<Rightarrow> 0 | Some us \<Rightarrow> u us)"

lemma wrap64_add: "wrap64 (wrap64 a + b) = wrap64 (a + b)"
proof -
  have "(wrap64 a + b + 9223372036854775808) mod 18446744073709551616
      = (a + b + 9223372036854775808) mod 18446744073709551616"
    unfolding wrap64_def by (simp add: algebra_simps mod_simps)
  then show ?thesis by (simp add: wrap64_def)
qed

lemma accField_tokenLine:
  assumes "\<not> promptLine l" "accField g acc m = wrap64 a" "(g, u) \<in> set tokenFields"
  shows "accField g (tokenLine acc l) m = wrap64 (a + lineField u m l)"
  using assms wrap64_add [of a]
  by (auto simp: accField_def tokenLine_def addUsage_def lineField_def modelUse_def promptLine_def
      tokenFields_def Let_def split: option.splits if_splits)

lemma accField_foldl:
  assumes "list_all (\<lambda>l. \<not> promptLine l) ls" "accField g acc m = wrap64 a" "(g, u) \<in> set tokenFields"
  shows "accField g (foldl tokenLine acc ls) m = wrap64 (a + sum_list (map (lineField u m) ls))"
  using assms
proof (induction ls arbitrary: acc a)
  case (Cons l ls)
  then have "accField g (tokenLine acc l) m = wrap64 (a + lineField u m l)"
    by (simp add: accField_tokenLine)
  with Cons.IH [of "tokenLine acc l"] Cons.prems show ?case by (simp add: add.assoc)
qed simp

subsection \<open>Lines that are not conversation entries\<close>

definition conversationLine :: "string \<Rightarrow> bool" where
  "conversationLine l =
     (case unmarshal decInterruptLine l \<lparr>ilType = [], ilMessage = None\<rparr> of
        None \<Rightarrow> False
      | Some il \<Rightarrow> ilType il = ''user'' \<or> ilType il = ''assistant'')"

definition markedUserLine :: "string \<Rightarrow> bool" where
  "markedUserLine l =
     (case unmarshal decInterruptLine l \<lparr>ilType = [], ilMessage = None\<rparr> of
        None \<Rightarrow> False
      | Some il \<Rightarrow> ilType il = ''user'' \<and> (case ilMessage il of None \<Rightarrow> False | Some c \<Rightarrow> carriesMarker c))"

lemma interruptedLine_other: "\<not> conversationLine l \<Longrightarrow> interruptedLine acc l = acc"
  by (auto simp: conversationLine_def interruptedLine_def split: option.splits)

lemma interruptedLine_entry: "conversationLine l \<Longrightarrow> interruptedLine acc l = markedUserLine l"
  by (auto simp: conversationLine_def markedUserLine_def interruptedLine_def split: option.splits)

lemma foldl_interrupted_other:
  "list_all (\<lambda>l. \<not> conversationLine l) ls \<Longrightarrow> foldl interruptedLine acc ls = acc"
  by (induction ls arbitrary: acc) (simp_all add: interruptedLine_other)

section \<open>Concrete transcripts\<close>

definition promptJSON :: string where
  \<open>promptJSON = ''{"type":"user","message":{"content":"hi"}}''\<close>

definition answerJSON :: string where
  \<open>answerJSON = ''{"type":"assistant","message":{"model":"o","usage":{"output_tokens":7}}}''\<close>

definition outcomeCallJSON :: string where
  \<open>outcomeCallJSON = ''{"message":{"content":[{"type":"tool_use","id":"a","name":"mcp__t__submit_outcome"}]}}''\<close>

definition outcomeErrorJSON :: string where
  \<open>outcomeErrorJSON = ''{"message":{"content":[{"type":"tool_result","tool_use_id":"a","is_error":true,"content":"HTTP 502"}]}}''\<close>

definition markerJSON :: string where
  \<open>markerJSON = ''{"type":"user","message":{"content":[{"type":"text","text":"[Request interrupted by user]"}]}}''\<close>

lemmas demoLines = promptJSON_def answerJSON_def outcomeCallJSON_def outcomeErrorJSON_def markerJSON_def

definition twoLines :: "string \<Rightarrow> string \<Rightarrow> filesystem" where
  "twoLines a b = [''/t'' \<mapsto> a @ [CHR 0x0A] @ b @ [CHR 0x0A]]"

lemma scan_two:
  "scanLines (promptJSON @ [CHR 0x0A] @ answerJSON @ [CHR 0x0A]) = ([promptJSON, answerJSON], False)"
  "scanLines (outcomeCallJSON @ [CHR 0x0A] @ outcomeErrorJSON @ [CHR 0x0A]) = ([outcomeCallJSON, outcomeErrorJSON], False)"
  "scanLines (promptJSON @ [CHR 0x0A] @ markerJSON @ [CHR 0x0A]) = ([promptJSON, markerJSON], False)"
  by (simp_all add: scanLines_def fileLines_def maxPartialBytes_def dropCR_def demoLines)

section \<open>Properties\<close>



text \<open>
  The outcome scan reports what the agent was last told about its outcome: an error exactly when the
  last result of a critical call in the transcript is an error, and then that result's text.
\<close>

theorem failed_outcome_is_last:
  assumes "fs path = Some s" "scanLines s = (ls, False)"
  shows "FailedCriticalOutcome fs path =
    Inr (let rs = criticalResults Map.empty (concat (map blocksOf ls))
         in if rs \<noteq> [] \<and> fst (last rs) then Some (''submit_outcome'', snd (last rs)) else None)"
proof -
  let ?rs = "criticalResults Map.empty (concat (map blocksOf ls))"
  let ?acc = "foldl outcomeStep emptyOutcomes (concat (map blocksOf ls))"
  have "outcomeInv emptyOutcomes" by (simp add: outcomeInv_def emptyOutcomes_def)
  from foldl_outcomeStep [OF this, of "concat (map blocksOf ls)"]
  have v: "verdictOf ?acc = last ((False, []) # ?rs)" by (simp add: verdictOf_def emptyOutcomes_def)
  have "FailedCriticalOutcome fs path = Inr (outcomeVerdict ?acc)"
    using readTranscript_ok [of fs path s ls "\<lambda>acc l. foldl outcomeStep acc (blocksOf l)" emptyOutcomes] assms
    by (simp add: FailedCriticalOutcome_def foldl_blocks)
  moreover have "outcomeVerdict ?acc = (if fst (verdictOf ?acc) then Some (''submit_outcome'', snd (verdictOf ?acc)) else None)"
    by (simp add: outcomeVerdict_def criticalOutcomeTools_def verdictOf_def)
  ultimately show ?thesis using v by (simp add: Let_def)
qed

theorem failed_outcome_is_last_witness:
  "FailedCriticalOutcome (twoLines outcomeCallJSON outcomeErrorJSON) ''/t'' = Inr (Some (''submit_outcome'', ''HTTP 502''))"
proof -
  have "criticalResults Map.empty (concat (map blocksOf [outcomeCallJSON, outcomeErrorJSON])) = [(True, ''HTTP 502'')]"
    by code_simp
  with failed_outcome_is_last [of "twoLines outcomeCallJSON outcomeErrorJSON" "''/t''" _ "[outcomeCallJSON, outcomeErrorJSON]"]
    scan_two(2)
  show ?thesis by (simp add: twoLines_def)
qed

text \<open>
  A turn counts as interrupted exactly when the last user or assistant entry of the transcript is a
  user entry carrying the CLI's marker: an earlier interruption followed by more conversation does not
  count, and lines that are no conversation entries do not matter.
\<close>

theorem interrupted_last_entry:
  assumes "fs path = Some s" "scanLines s = (pre @ l # post, False)" "conversationLine l"
    "list_all (\<lambda>l. \<not> conversationLine l) post"
  shows "WasInterrupted fs path \<longleftrightarrow> markedUserLine l"
  using readTranscript_ok [of fs path, OF assms(1,2), of interruptedLine False] assms(3,4)
  by (simp add: WasInterrupted_def interruptedLine_entry foldl_interrupted_other)

theorem interrupted_last_entry_witness: "WasInterrupted (twoLines promptJSON markerJSON) ''/t''"
proof -
  have "conversationLine markerJSON" "markedUserLine markerJSON" by code_simp+
  with interrupted_last_entry [of "twoLines promptJSON markerJSON" "''/t''" _ "[promptJSON]" markerJSON "[]"] scan_two(3)
  show ?thesis by (simp add: twoLines_def)
qed

text \<open>
  A status read out of an outcome error is a client or server error code, never anything else.
\<close>

theorem outcome_status_range:
  assumes "OutcomeErrorStatus t = Some n"
  shows "400 \<le> n \<and> n \<le> 599"
  using assms leadingStatus_range scanStatus_range
  by (auto simp: OutcomeErrorStatus_def Let_def split: option.splits)

theorem outcome_status_range_witness:
  "\<exists>n. OutcomeErrorStatus ''HTTP 502: bad gateway'' = Some n \<and> 400 \<le> n \<and> n \<le> 599"
proof -
  have "OutcomeErrorStatus ''HTTP 502: bad gateway'' = Some 502" by code_simp
  with outcome_status_range [OF this] show ?thesis by blast
qed

end
