(* ===== verification/Probe.thy ===== *)
theory Probe
  imports GoPrelude GoJson
begin

text \<open>
  \<^verbatim>\<open>internal/transcript/probe.go\<close>: the tracker of the one in-flight liveness probe. Every method
  takes the tracker's lock, so each is one atomic function; the outcome observer is called after
  the lock is released, and the functions here return the calls it receives.
\<close>

section \<open>The tracker\<close>

definition ProbeAnswerPrefix :: string where
  "ProbeAnswerPrefix = ''TATARA-ALIVE''"

datatype ProbeState = ProbePending | ProbeDelivered | ProbeAnswered

datatype ProbeOutcome = OutAnswered | OutDeliveredUnanswered | OutNeverDelivered

record ProbeStatus =
  pID :: string
  pState :: ProbeState
  pSentAt :: time
  pEnqueuedAt :: time
  pDeliveredAt :: time
  pAnsweredAt :: time
  pAnswer :: string

record probeRecord =
  prStatus :: ProbeStatus
  prText :: string
  prFinished :: bool

record ProbeTracker =
  ptCur :: "probeRecord option"

text \<open>One call of the observer: the outcome and, for an answer, its latency.\<close>

type_synonym emission = "ProbeOutcome \<times> duration"

definition NewProbeTracker :: ProbeTracker where
  "NewProbeTracker = \<lparr>ptCur = None\<rparr>"

definition finishLocked :: "ProbeTracker \<Rightarrow> ProbeTracker \<times> emission list" where
  "finishLocked p =
     (case ptCur p of
        None \<Rightarrow> (p, [])
      | Some c \<Rightarrow>
          if prFinished c then (p, [])
          else (p\<lparr>ptCur := Some (c\<lparr>prFinished := True\<rparr>)\<rparr>,
            [case pState (prStatus c) of
               ProbeAnswered \<Rightarrow> (OutAnswered, pAnsweredAt (prStatus c) - pSentAt (prStatus c))
             | ProbeDelivered \<Rightarrow> (OutDeliveredUnanswered, 0)
             | ProbePending \<Rightarrow> (OutNeverDelivered, 0)]))"

definition probe_Register ::
  "string \<Rightarrow> string \<Rightarrow> time \<Rightarrow> ProbeTracker \<Rightarrow> ProbeTracker \<times> emission list" where
  "probe_Register pid txt at p =
     (let (p', es) = finishLocked p
      in (p'\<lparr>ptCur := Some \<lparr>prStatus = \<lparr>pID = pid, pState = ProbePending, pSentAt = at,
            pEnqueuedAt = zero_time, pDeliveredAt = zero_time, pAnsweredAt = zero_time,
            pAnswer = []\<rparr>, prText = trimSpace txt, prFinished = False\<rparr>\<rparr>, es))"

definition probe_Discard :: "string \<Rightarrow> ProbeTracker \<Rightarrow> ProbeTracker" where
  "probe_Discard pid p =
     (case ptCur p of
        Some c \<Rightarrow> if pID (prStatus c) = pid then p\<lparr>ptCur := None\<rparr> else p
      | None \<Rightarrow> p)"

definition probe_Finalize :: "ProbeTracker \<Rightarrow> ProbeTracker \<times> emission list" where
  "probe_Finalize p = finishLocked p"

definition probe_Status :: "string \<Rightarrow> ProbeTracker \<Rightarrow> ProbeStatus option" where
  "probe_Status pid p =
     (case ptCur p of
        None \<Rightarrow> None
      | Some c \<Rightarrow> if pID (prStatus c) \<noteq> pid then None else Some (prStatus c))"

definition probe_Current :: "ProbeTracker \<Rightarrow> ProbeStatus option" where
  "probe_Current p = map_option prStatus (ptCur p)"

definition probe_PendingSince :: "ProbeTracker \<Rightarrow> time option" where
  "probe_PendingSince p =
     (case ptCur p of
        None \<Rightarrow> None
      | Some c \<Rightarrow> if pState (prStatus c) \<noteq> ProbePending then None else Some (pSentAt (prStatus c)))"

definition probe_NoteEnqueue :: "string \<Rightarrow> time \<Rightarrow> ProbeTracker \<Rightarrow> ProbeTracker \<times> bool" where
  "probe_NoteEnqueue content at p =
     (case ptCur p of
        None \<Rightarrow> (p, False)
      | Some c \<Rightarrow>
          if prText c = [] \<or> trimSpace content \<noteq> prText c then (p, False)
          else if pEnqueuedAt (prStatus c) = zero_time
          then (p\<lparr>ptCur := Some (c\<lparr>prStatus := (prStatus c)\<lparr>pEnqueuedAt := at\<rparr>\<rparr>)\<rparr>, True)
          else (p, True))"

definition probe_NoteRemoval :: "time \<Rightarrow> ProbeTracker \<Rightarrow> ProbeTracker" where
  "probe_NoteRemoval at p =
     (case ptCur p of
        None \<Rightarrow> p
      | Some c \<Rightarrow>
          if pState (prStatus c) \<noteq> ProbePending then p
          else p\<lparr>ptCur := Some (c\<lparr>prStatus :=
                 (prStatus c)\<lparr>pState := ProbeDelivered, pDeliveredAt := at\<rparr>\<rparr>)\<rparr>)"

definition probe_NoteAssistantText ::
  "string \<Rightarrow> time \<Rightarrow> ProbeTracker \<Rightarrow> ProbeTracker \<times> emission list \<times> duration option" where
  "probe_NoteAssistantText txt at p =
     (case ptCur p of
        None \<Rightarrow> (p, [], None)
      | Some c \<Rightarrow>
          if pState (prStatus c) \<noteq> ProbeDelivered then (p, [], None)
          else if at < pDeliveredAt (prStatus c) then (p, [], None)
          else if \<not> hasPrefix (trimSpace txt) ProbeAnswerPrefix then (p, [], None)
          else (let c' = c\<lparr>prStatus := (prStatus c)\<lparr>pState := ProbeAnswered, pAnsweredAt := at,
                           pAnswer := trimSpace txt\<rparr>\<rparr>;
                    (p', es) = finishLocked (p\<lparr>ptCur := Some c'\<rparr>)
                in (p', es, Some (at - pSentAt (prStatus c)))))"

text \<open>\<^verbatim>\<open>queueContentText\<close>: a JSON string's value, any other payload's raw text.\<close>

definition queueContentText :: "string \<Rightarrow> string" where
  "queueContentText raw =
     (if raw = [] then []
      else (case unmarshal decString raw [] of Some s \<Rightarrow> s | None \<Rightarrow> raw))"

section \<open>Runs of the tracker\<close>

datatype probe_op =
    PRegister string string time
  | PDiscard string
  | PFinalize
  | PEnqueue string time
  | PRemoval time
  | PText string time

fun probe_step :: "ProbeTracker \<Rightarrow> probe_op \<Rightarrow> ProbeTracker \<times> emission list" where
  "probe_step p (PRegister pid txt at) = probe_Register pid txt at p"
| "probe_step p (PDiscard pid) = (probe_Discard pid p, [])"
| "probe_step p PFinalize = probe_Finalize p"
| "probe_step p (PEnqueue content at) = (fst (probe_NoteEnqueue content at p), [])"
| "probe_step p (PRemoval at) = (probe_NoteRemoval at p, [])"
| "probe_step p (PText txt at) =
     (let (p', es, _) = probe_NoteAssistantText txt at p in (p', es))"

lemmas probe_defs =
  probe_Register_def probe_Discard_def probe_Finalize_def finishLocked_def
  probe_NoteEnqueue_def probe_NoteRemoval_def probe_NoteAssistantText_def

text \<open>The probe whose outcome is still owed.\<close>

definition openProbes :: "ProbeTracker \<Rightarrow> nat" where
  "openProbes p = (case ptCur p of None \<Rightarrow> 0 | Some c \<Rightarrow> if prFinished c then 0 else 1)"

definition registers :: "probe_op \<Rightarrow> nat" where
  "registers op = (case op of PRegister _ _ _ \<Rightarrow> 1 | _ \<Rightarrow> 0)"

definition discards :: "ProbeTracker \<Rightarrow> probe_op \<Rightarrow> nat" where
  "discards p op =
     (case op of
        PDiscard pid \<Rightarrow> (case ptCur p of
           None \<Rightarrow> 0
         | Some c \<Rightarrow> if pID (prStatus c) = pid \<and> \<not> prFinished c then 1 else 0)
      | _ \<Rightarrow> 0)"

text \<open>
  The interface its clients (the session, the tailer) rely on: whatever order the methods are
  called in, a step either leaves an owed outcome owed, reports it, or drops it with a failed
  write. The accounting of whole runs is proved once from this law.
\<close>

locale outcome_ledger =
  fixes step :: "'s \<Rightarrow> 'op \<Rightarrow> 's \<times> 'e list"
    and owed :: "'s \<Rightarrow> nat"
    and opened :: "'op \<Rightarrow> nat"
    and dropped :: "'s \<Rightarrow> 'op \<Rightarrow> nat"
  assumes ledger: "owed (fst (step s op)) + length (snd (step s op)) + dropped s op
                   = owed s + opened op"
begin

primrec run :: "'s \<Rightarrow> 'op list \<Rightarrow> 's \<times> 'e list \<times> nat" where
  "run s [] = (s, [], 0)"
| "run s (op # ops) =
     (let (s1, es) = step s op; (s2, es2, d) = run s1 ops in (s2, es @ es2, dropped s op + d))"

lemma run_ledger:
  "run s ops = (s', es, d) \<Longrightarrow>
   owed s' + length es + d = owed s + sum_list (map opened ops)"
proof (induction ops arbitrary: s s' es d)
  case (Cons op ops)
  obtain s1 e1 where s1: "step s op = (s1, e1)" by (cases "step s op")
  obtain s2 e2 d2 where s2: "run s1 ops = (s2, e2, d2)" by (cases "run s1 ops") auto
  from Cons.prems s1 s2 have eqs: "s' = s2" "es = e1 @ e2" "d = dropped s op + d2" by auto
  from Cons.IH [OF s2] ledger [of s op] s1 eqs show ?case by simp
qed simp

end

interpretation probe_ledger: outcome_ledger probe_step openProbes registers discards
proof
  fix p op
  show "openProbes (fst (probe_step p op)) + length (snd (probe_step p op)) + discards p op
        = openProbes p + registers op"
    by (cases op; cases "ptCur p")
      (auto simp: probe_defs openProbes_def registers_def discards_def Let_def
        split: ProbeState.splits)
qed

text \<open>What the tracker's fields say of each other, in every state a run can reach.\<close>

definition wf_probe :: "ProbeTracker \<Rightarrow> bool" where
  "wf_probe p \<longleftrightarrow>
     (\<forall>c. ptCur p = Some c \<longrightarrow>
        (pState (prStatus c) = ProbeAnswered \<longrightarrow>
           prFinished c \<and> pDeliveredAt (prStatus c) \<le> pAnsweredAt (prStatus c)
           \<and> hasPrefix (pAnswer (prStatus c)) ProbeAnswerPrefix)
        \<and> (pState (prStatus c) \<noteq> ProbeAnswered \<longrightarrow> pAnswer (prStatus c) = []))"

lemma wf_probe_step: "wf_probe p \<Longrightarrow> wf_probe (fst (probe_step p op))"
  by (cases op; cases "ptCur p")
    (auto simp: wf_probe_def probe_defs Let_def split: ProbeState.splits)

text \<open>Within one probe the state only moves forward.\<close>

fun probeRank :: "ProbeState \<Rightarrow> nat" where
  "probeRank ProbePending = 0"
| "probeRank ProbeDelivered = 1"
| "probeRank ProbeAnswered = 2"

lemma probe_step_mono:
  assumes "registers op = 0" "probe_Current p = Some st"
    "probe_Current (fst (probe_step p op)) = Some st'"
  shows "pID st' = pID st \<and> pSentAt st' = pSentAt st \<and> probeRank (pState st) \<le> probeRank (pState st')"
  using assms
  by (cases op; cases "ptCur p")
    (auto simp: probe_Current_def registers_def probe_defs Let_def split: if_splits ProbeState.splits)

section \<open>Properties\<close>

text \<open>A run of the tracker: its final state, the outcomes reported and the number of probes dropped.\<close>

fun probeRun :: "ProbeTracker \<Rightarrow> probe_op list \<Rightarrow> ProbeTracker \<times> emission list \<times> nat" where
  "probeRun p [] = (p, [], 0)"
| "probeRun p (op # ops) =
     (let (p1, es) = probe_step p op; (p2, es2, d) = probeRun p1 ops in (p2, es @ es2, discards p op + d))"

lemma probeRun_ledger: "probeRun p ops = probe_ledger.run p ops"
  by (induction ops arbitrary: p) (simp_all add: split_def)

lemma probeRun_wf: "wf_probe p \<Longrightarrow> wf_probe (fst (probeRun p ops))"
  by (induction ops arbitrary: p) (simp_all add: split_def Let_def wf_probe_step)

text \<open>
  Every probe is accounted for once: over any sequence of the tracker's operations, the probes
  registered are those whose outcome was reported, those dropped because their write failed, and the
  at most one still open.
\<close>

theorem probe_accounting:
  assumes "probeRun NewProbeTracker ops = (p, es, d)"
  shows "openProbes p + length es + d = sum_list (map registers ops) \<and> openProbes p \<le> 1"
  using probe_ledger.run_ledger [OF assms [unfolded probeRun_ledger]]
  by (auto simp: openProbes_def NewProbeTracker_def split: option.split)

theorem probe_accounting_witness:
  "(let (p, es, d) = probeRun NewProbeTracker [PRegister ''p1'' ''hi'' 1, PRegister ''p2'' ''hi'' 2, PDiscard ''p2'']
    in openProbes p + length es + d) = 2"
proof -
  obtain p es d where r: "probeRun NewProbeTracker [PRegister ''p1'' ''hi'' 1, PRegister ''p2'' ''hi'' 2, PDiscard ''p2''] = (p, es, d)"
    by (metis prod.exhaust)
  from probe_accounting [OF r] r show ?thesis by (simp add: registers_def)
qed

text \<open>
  An answered probe was delivered before it was answered, its answer starts with the marker the
  probe asks for, and its outcome has been reported; a probe that is not answered has no answer.
\<close>

theorem probe_answers:
  assumes "ptCur (fst (probeRun NewProbeTracker ops)) = Some c"
  shows "if pState (prStatus c) = ProbeAnswered
         then prFinished c \<and> pDeliveredAt (prStatus c) \<le> pAnsweredAt (prStatus c)
              \<and> hasPrefix (pAnswer (prStatus c)) ProbeAnswerPrefix
         else pAnswer (prStatus c) = []"
proof -
  have "wf_probe (fst (probeRun NewProbeTracker ops))"
    by (rule probeRun_wf) (simp add: wf_probe_def NewProbeTracker_def)
  with assms show ?thesis by (simp add: wf_probe_def)
qed

theorem probe_answers_witness:
  "map_option (\<lambda>c. pAnswer (prStatus c))
     (ptCur (fst (probeRun NewProbeTracker [PRegister ''p1'' ''hi'' 1, PRemoval 3, PText ''TATARA-ALIVE ok'' 4])))
   = Some ''TATARA-ALIVE ok''
   \<and> hasPrefix ''TATARA-ALIVE ok'' ProbeAnswerPrefix"
proof
  show a: "map_option (\<lambda>c. pAnswer (prStatus c))
     (ptCur (fst (probeRun NewProbeTracker [PRegister ''p1'' ''hi'' 1, PRemoval 3, PText ''TATARA-ALIVE ok'' 4])))
   = Some ''TATARA-ALIVE ok''"
    by (simp add: probe_defs NewProbeTracker_def trimSpace_def isSpace_def hasPrefix_def ProbeAnswerPrefix_def)
  then obtain c where c: "ptCur (fst (probeRun NewProbeTracker [PRegister ''p1'' ''hi'' 1, PRemoval 3, PText ''TATARA-ALIVE ok'' 4])) = Some c"
    "pAnswer (prStatus c) = ''TATARA-ALIVE ok''" unfolding map_option_eq_Some by blast
  show "hasPrefix ''TATARA-ALIVE ok'' ProbeAnswerPrefix"
    using probe_answers [OF c(1)] c(2) by (simp split: if_splits)
qed

end
