(* ===== verification/Redact.thy ===== *)
theory Redact
  imports GoPrelude
begin

text \<open>
  \<^verbatim>\<open>internal/transcript/redact.go\<close>: the redactor and what a scrubbed text cannot contain any more.
  The pairs come from ranging over a Go map, so they arrive in any order; the association list a
  redactor is built from stands for that order.
\<close>

type_synonym secretPair = "string \<times> string"

type_synonym Redactor = "secretPair list"

definition NewRedactor :: "secretPair list \<Rightarrow> Redactor" where
  "NewRedactor values =
     sort_key (\<lambda>p. - int (length (snd p))) (filter (\<lambda>p. \<not> length (snd p) < 8) values)"

definition redaction :: "string \<Rightarrow> string" where
  "redaction name = ''[REDACTED:'' @ name @ '']''"

definition Scrub :: "Redactor \<Rightarrow> string \<Rightarrow> string" where
  "Scrub r s = foldl (\<lambda>s p. replaceAll s (snd p) (redaction (fst p))) s r"

section \<open>Occurrences and separators\<close>

lemma strContains_mono: "strContains s v \<Longrightarrow> strContains (a @ s @ b) v"
  unfolding strContains_iff by (metis append.assoc)

text \<open>An occurrence of a text without \<open>c\<close> lies on one side of any \<open>c\<close>.\<close>

lemma strContains_sep:
  assumes "c \<notin> set v"
  shows "strContains (a @ c # b) v \<longleftrightarrow> strContains a v \<or> strContains b v"
proof
  assume "strContains (a @ c # b) v"
  then obtain x y where xy: "a @ c # b = x @ v @ y" unfolding strContains_iff by blast
  then consider us where "a = x @ us" "us @ c # b = v @ y" | us where "a @ us = x" "c # b = us @ v @ y"
    unfolding append_eq_append_conv2 by auto
  then show "strContains a v \<or> strContains b v"
  proof cases
    case 1
    from 1(2) obtain ws where "us = v @ ws \<or> (us @ ws = v \<and> c # b = ws @ y)"
      unfolding append_eq_append_conv2 by blast
    then show ?thesis
    proof
      assume "us = v @ ws"
      with 1(1) show ?thesis unfolding strContains_iff by auto
    next
      assume ws: "us @ ws = v \<and> c # b = ws @ y"
      with assms have "ws = []" by (cases ws) auto
      with ws 1(1) show ?thesis unfolding strContains_iff by (metis append.right_neutral)
    qed
  next
    case 2
    show ?thesis
    proof (cases us)
      case Nil
      with 2 assms have "v = []" by (cases v) auto
      then show ?thesis unfolding strContains_iff by (metis append_Nil)
    next
      case (Cons d us')
      with 2 show ?thesis unfolding strContains_iff by auto
    qed
  qed
next
  assume "strContains a v \<or> strContains b v"
  then show "strContains (a @ c # b) v"
    using strContains_mono [of a v "[]" "c # b"] strContains_mono [of b v "a @ [c]" "[]"] by auto
qed

section \<open>Scrubbing\<close>

text \<open>
  A secret value is separable when it cannot be part of a replacement: it has no bracket and is
  not inside the replacement's own words.
\<close>

definition separable :: "Redactor \<Rightarrow> string \<Rightarrow> bool" where
  "separable r v \<longleftrightarrow> CHR ''['' \<notin> set v \<and> CHR '']'' \<notin> set v
     \<and> list_all (\<lambda>p. \<not> strContains (''REDACTED:'' @ fst p) v) r"

lemma redaction_split:
  assumes "CHR ''['' \<notin> set v" "CHR '']'' \<notin> set v" "\<not> strContains (''REDACTED:'' @ n) v"
  shows "strContains (a @ redaction n @ b) v \<longleftrightarrow> strContains a v \<or> strContains b v"
proof -
  have "a @ redaction n @ b = a @ CHR ''['' # (''REDACTED:'' @ n) @ CHR '']'' # b"
    by (simp add: redaction_def)
  then show ?thesis
    using strContains_sep [OF assms(1), of a "(''REDACTED:'' @ n) @ CHR '']'' # b"]
      strContains_sep [OF assms(2), of "''REDACTED:'' @ n" b] assms(3) by simp
qed

text \<open>
  One replacement: it removes the value it replaces, and brings back none that was absent. The
  induction carries the text already emitted, which holds no occurrence of its own.
\<close>

lemma replaceAll_absent:
  assumes sep: "CHR ''['' \<notin> set v" "CHR '']'' \<notin> set v" "\<not> strContains (''REDACTED:'' @ n) v"
    and "old \<noteq> []" "\<not> strContains (a @ s) v"
  shows "\<not> strContains (a @ replaceAll s old (redaction n)) v"
  using assms(5)
proof (induction s arbitrary: a rule: length_induct)
  case (1 s)
  show ?case
  proof (cases "s = []")
    case True
    with 1(2) show ?thesis by (simp add: replaceAll.simps)
  next
    case False
    show ?thesis
    proof (cases "hasPrefix s old")
      case True
      then obtain t where t: "s = old @ t" by (auto simp: hasPrefix_iff)
      have lt: "length t < length s" using t \<open>old \<noteq> []\<close> by simp
      have na: "\<not> strContains a v" "\<not> strContains ([] @ t) v"
        using 1(2) t strContains_mono [of a v "[]" s] strContains_mono [of t v "a @ old" "[]"] by auto
      have "\<not> strContains ([] @ replaceAll t old (redaction n)) v" using 1(1) lt na(2) by blast
      with na(1) True False t \<open>old \<noteq> []\<close> show ?thesis
        by (subst replaceAll.simps) (simp add: redaction_split [OF sep])
    next
      case no: False
      obtain c t where ct: "s = c # t" using False by (cases s) auto
      then have "\<not> strContains ((a @ [c]) @ replaceAll t old (redaction n)) v"
        using 1(1) 1(2) by (metis append.assoc append_Cons append_Nil length_Cons lessI)
      with no False ct \<open>old \<noteq> []\<close> show ?thesis by (subst replaceAll.simps) simp
    qed
  qed
qed

definition startsLate :: "string \<Rightarrow> string \<Rightarrow> string \<Rightarrow> bool" where
  "startsLate v a s \<longleftrightarrow> (\<forall>x y. a @ s = x @ v @ y \<longrightarrow> length a \<le> length x)"

lemma startsLate_absent:
  assumes "startsLate v a s" "v \<noteq> []"
  shows "\<not> strContains a v"
proof
  assume "strContains a v"
  then obtain x y where xy: "a = x @ v @ y" unfolding strContains_iff by blast
  then have "length a \<le> length x" using assms(1) unfolding startsLate_def by (metis append.assoc)
  with xy assms(2) show False by simp
qed

lemma startsLate_snoc:
  assumes "startsLate v a (c # t)" "\<not> hasPrefix (c # t) v"
  shows "startsLate v (a @ [c]) t"
  unfolding startsLate_def
proof (intro allI impI)
  fix x y
  assume "(a @ [c]) @ t = x @ v @ y"
  then have eq: "a @ c # t = x @ v @ y" by simp
  then have le: "length a \<le> length x" using assms(1) unfolding startsLate_def by blast
  have "length x \<noteq> length a" using eq assms(2) by (auto simp: hasPrefix_iff append_eq_append_conv)
  with le show "length (a @ [c]) \<le> length x" by simp
qed

lemma replaceAll_removes:
  assumes sep: "CHR ''['' \<notin> set v" "CHR '']'' \<notin> set v" "\<not> strContains (''REDACTED:'' @ n) v"
    and "v \<noteq> []" "startsLate v a s"
  shows "\<not> strContains (a @ replaceAll s v (redaction n)) v"
  using assms(5)
proof (induction s arbitrary: a rule: length_induct)
  case (1 s)
  note na = startsLate_absent [OF 1(2) \<open>v \<noteq> []\<close>]
  show ?case
  proof (cases "hasPrefix s v")
    case True
    then obtain t where t: "s = v @ t" by (auto simp: hasPrefix_iff)
    have "startsLate v [] t" by (simp add: startsLate_def)
    moreover have "length t < length s" using t \<open>v \<noteq> []\<close> by simp
    ultimately have "\<not> strContains ([] @ replaceAll t v (redaction n)) v" using 1(1) by blast
    with na True t \<open>v \<noteq> []\<close> show ?thesis
      by (subst replaceAll.simps) (simp add: redaction_split [OF sep])
  next
    case no: False
    show ?thesis
    proof (cases s)
      case Nil
      with na show ?thesis by (simp add: replaceAll.simps)
    next
      case (Cons c t)
      then have "\<not> strContains ((a @ [c]) @ replaceAll t v (redaction n)) v"
        using 1(1) startsLate_snoc 1(2) no by (metis length_Cons lessI)
      with no Cons \<open>v \<noteq> []\<close> show ?thesis by (subst replaceAll.simps) simp
    qed
  qed
qed

lemma Scrub_Nil [simp]: "Scrub [] s = s"
  by (simp add: Scrub_def)

lemma Scrub_Cons [simp]: "Scrub (p # r) s = Scrub r (replaceAll s (snd p) (redaction (fst p)))"
  by (simp add: Scrub_def)

lemma separable_Cons: "separable (p # r) v \<longleftrightarrow>
    separable r v \<and> \<not> strContains (''REDACTED:'' @ fst p) v"
  by (auto simp: separable_def)

lemma separableD: "separable r v \<Longrightarrow> CHR ''['' \<notin> set v" "separable r v \<Longrightarrow> CHR '']'' \<notin> set v"
  by (auto simp: separable_def)

lemma Scrub_keeps_absent:
  assumes "separable r v" "list_all (\<lambda>p. snd p \<noteq> []) r" "\<not> strContains s v"
  shows "\<not> strContains (Scrub r s) v"
  using assms
proof (induction r arbitrary: s)
  case (Cons p r)
  then have "\<not> strContains ([] @ replaceAll s (snd p) (redaction (fst p))) v"
    by (intro replaceAll_absent) (auto simp: separable_Cons dest: separableD)
  with Cons show ?case by (simp add: separable_Cons)
qed simp

lemma Scrub_removes:
  assumes "(n, v) \<in> set r" "separable r v" "list_all (\<lambda>p. snd p \<noteq> []) r"
  shows "\<not> strContains (Scrub r s) v"
  using assms
proof (induction r arbitrary: s)
  case (Cons p r)
  show ?case
  proof (cases "p = (n, v)")
    case True
    with Cons.prems have "\<not> strContains ([] @ replaceAll s v (redaction n)) v"
      by (intro replaceAll_removes) (auto simp: separable_Cons startsLate_def dest: separableD)
    with True Cons.prems show ?thesis by (simp add: Scrub_keeps_absent separable_Cons)
  next
    case False
    with Cons show ?thesis by (simp add: separable_Cons)
  qed
qed simp

lemma NewRedactor_set: "set (NewRedactor vs) = {p \<in> set vs. 8 \<le> length (snd p)}"
  by (auto simp: NewRedactor_def)

lemma Scrub_registered:
  assumes "(n, v) \<in> set vs" "8 \<le> length v" "separable (NewRedactor vs) v"
  shows "\<not> strContains (Scrub (NewRedactor vs) s) v"
proof (rule Scrub_removes [OF _ assms(3)])
  show "(n, v) \<in> set (NewRedactor vs)" using assms(1,2) by (simp add: NewRedactor_set)
  show "list_all (\<lambda>p. snd p \<noteq> []) (NewRedactor vs)" by (auto simp: list_all_iff NewRedactor_set)
qed

section \<open>Properties\<close>

text \<open>
  A registered secret of at least eight bytes does not survive scrubbing, in whatever order the
  secrets were registered, as long as it has no bracket and does not occur in the words of a
  replacement.
\<close>

theorem scrub_no_secret:
  assumes "(n, v) \<in> set vs" "8 \<le> length v" "separable (NewRedactor vs) v"
  shows "\<not> strContains (Scrub (NewRedactor vs) s) v"
  using assms by (rule Scrub_registered)

theorem scrub_no_secret_witness:
  "\<not> strContains (Scrub (NewRedactor [(''A_KEY'', ''abcdefgh''), (''B_TOKEN'', ''xxabcdefghxx'')]) ''k=xxabcdefghxx abcdefgh'') ''abcdefgh''"
  by (rule scrub_no_secret [of "''A_KEY''"]) (simp_all, code_simp)

end
