(* ===== verification/Tailer.thy ===== *)
theory Tailer
  imports Redact Probe TurnStore Transcript
begin

text \<open>
  \<^verbatim>\<open>internal/transcript/tailer.go\<close>: the queue tracker, the handling of one transcript line, the
  internal-issue accumulator and the loop that follows the file. Log calls are not modelled.
  The turn id, the clock and the text of a decoding error are arguments; the session's activity
  hook and the probe observer appear as the calls they receive.
\<close>

section \<open>Timestamps\<close>

text \<open>
  \<^verbatim>\<open>time.Parse(time.RFC3339, s)\<close>: a four digit year, two digit fields (one digit is enough for
  the hour), an optional fraction after a period or comma, and \<^verbatim>\<open>Z\<close> or a numeric zone. The result
  is in nanoseconds since the zero time, 0001-01-01T00:00:00Z.
\<close>

definition num2 :: "string \<Rightarrow> (nat \<times> string) option" where
  "num2 s = (case s of
     a # b # r \<Rightarrow> if isDigit a \<and> isDigit b then Some (natOfDigits 0 [a, b], r) else None
   | _ \<Rightarrow> None)"

definition num1or2 :: "string \<Rightarrow> (nat \<times> string) option" where
  "num1or2 s = (case num2 s of
     Some x \<Rightarrow> Some x
   | None \<Rightarrow> (case s of a # r \<Rightarrow> if isDigit a then Some (natOfDigits 0 [a], r) else None | [] \<Rightarrow> None))"

definition num4 :: "string \<Rightarrow> (nat \<times> string) option" where
  "num4 s = (if 4 \<le> length s \<and> list_all isDigit (take 4 s)
             then Some (natOfDigits 0 (take 4 s), drop 4 s) else None)"

definition lit :: "char \<Rightarrow> string \<Rightarrow> string option" where
  "lit c s = (case s of d # r \<Rightarrow> if c = d then Some r else None | [] \<Rightarrow> None)"

definition fraction :: "string \<Rightarrow> nat \<times> string" where
  "fraction s = (case s of
     c # d # r \<Rightarrow>
       if (c = CHR ''.'' \<or> c = CHR '','') \<and> isDigit d then
         (let ds = takeWhile isDigit (d # r); n = take 9 ds
          in (natOfDigits 0 n * 10 ^ (9 - length n), dropWhile isDigit (d # r)))
       else (0, s)
   | _ \<Rightarrow> (0, s))"

text \<open>The zone's offset in seconds, at the end of the text.\<close>

definition zoneOffset :: "string \<Rightarrow> int option" where
  "zoneOffset s =
     (if s = ''Z'' then Some 0
      else (case s of
        [sg, h1, h2, c, m1, m2] \<Rightarrow>
          if (sg = CHR ''+'' \<or> sg = CHR ''-'') \<and> c = CHR '':'' \<and> list_all isDigit [h1, h2, m1, m2] then
            (let h = natOfDigits 0 [h1, h2]; m = natOfDigits 0 [m1, m2];
                 offs = int (h * 3600 + m * 60)
             in if 24 < h \<or> 60 < m then None else Some (if sg = CHR ''-'' then - offs else offs))
          else None
      | _ \<Rightarrow> None))"

definition leapYear :: "nat \<Rightarrow> bool" where
  "leapYear y \<longleftrightarrow> y mod 4 = 0 \<and> (y mod 100 \<noteq> 0 \<or> y mod 400 = 0)"

definition daysIn :: "nat \<Rightarrow> nat \<Rightarrow> nat" where
  "daysIn y m = (if m = 2 then (if leapYear y then 29 else 28)
                 else if m = 4 \<or> m = 6 \<or> m = 9 \<or> m = 11 then 30 else 31)"

definition daysBefore :: "nat \<Rightarrow> nat \<Rightarrow> int" where
  "daysBefore y m =
     (let p = int y - 1
      in 365 * p + p div 4 - p div 100 + p div 400 + int (sum_list (map (daysIn y) [1..<m])))"

definition parseRFC3339 :: "string \<Rightarrow> time option" where
  "parseRFC3339 s0 =
     Option.bind (num4 s0) (\<lambda>(y, s). Option.bind (lit (CHR ''-'') s) (\<lambda>s.
     Option.bind (num2 s) (\<lambda>(mo, s). Option.bind (lit (CHR ''-'') s) (\<lambda>s.
     Option.bind (num2 s) (\<lambda>(d, s). Option.bind (lit (CHR ''T'') s) (\<lambda>s.
     Option.bind (num1or2 s) (\<lambda>(h, s). Option.bind (lit (CHR '':'') s) (\<lambda>s.
     Option.bind (num2 s) (\<lambda>(mi, s). Option.bind (lit (CHR '':'') s) (\<lambda>s.
     Option.bind (num2 s) (\<lambda>(se, s).
       (let (ns, z) = fraction s
        in Option.bind (zoneOffset z) (\<lambda>off.
             if 1 \<le> mo \<and> mo \<le> 12 \<and> 1 \<le> d \<and> d \<le> daysIn y mo \<and> h < 24 \<and> mi < 60 \<and> se < 60
             then Some (seconds ((daysBefore y mo + int d - 1) * 86400
                          + int (h * 3600 + mi * 60 + se) - off) + int ns)
             else None)))))))))))))"

section \<open>The queue tracker\<close>

record queuedItem =
  qKey :: string
  qAt :: time

definition maxPendingQueueItems :: nat where "maxPendingQueueItems = 128"

type_synonym queueTracker = "queuedItem list"

definition queue_enqueue :: "string \<Rightarrow> time \<Rightarrow> queueTracker \<Rightarrow> queueTracker" where
  "queue_enqueue key at q =
     (let q' = q @ [\<lparr>qKey = key, qAt = at\<rparr>]
      in if maxPendingQueueItems < length q' then drop (length q' - maxPendingQueueItems) q' else q')"

fun dropFirst :: "('a \<Rightarrow> bool) \<Rightarrow> 'a list \<Rightarrow> 'a list option" where
  "dropFirst P [] = None"
| "dropFirst P (x # xs) = (if P x then Some xs else map_option ((#) x) (dropFirst P xs))"

definition queue_remove :: "string \<Rightarrow> queueTracker \<Rightarrow> queueTracker" where
  "queue_remove key q =
     (if q = [] then q
      else if key = [] then []
      else (case dropFirst (\<lambda>it. qKey it = key) q of Some q' \<Rightarrow> q' | None \<Rightarrow> tl q))"

definition queue_PendingSince :: "queueTracker \<Rightarrow> time option" where
  "queue_PendingSince q = (case q of [] \<Rightarrow> None | it # _ \<Rightarrow> Some (qAt it))"

section \<open>Metric labels\<close>

definition internalIssueToolName :: string where
  "internalIssueToolName = ''mcp__tatara__report_internal_issue''"

definition knownIssueCategories :: "string list" where
  "knownIssueCategories = [''tool_error'', ''directive_contradiction'', ''workspace_broken'',
     ''memory_inconsistent'', ''graph_inconsistent'', ''auth'', ''other'']"

definition knownIssueSeverities :: "string list" where
  "knownIssueSeverities = [''warn'', ''error'']"

definition tataraToolPrefix :: string where "tataraToolPrefix = ''mcp__tatara__''"

definition taskToolName :: string where "taskToolName = ''Task''"

definition knownBuiltinTools :: "string list" where
  "knownBuiltinTools = [''Bash'', ''Read'', ''Edit'', ''Write'', ''Glob'', ''Grep'', ''Task'',
     ''TodoWrite'', ''WebFetch'', ''WebSearch'', ''NotebookEdit'']"

definition clampToolName :: "string \<Rightarrow> string" where
  "clampToolName name =
     (if name \<in> set knownBuiltinTools then name
      else if hasPrefix name tataraToolPrefix then name else ''other'')"

definition knownQueueOps :: "string list" where
  "knownQueueOps = [''enqueue'', ''remove'', ''dequeue'']"

definition clampQueueOp :: "string \<Rightarrow> string" where
  "clampQueueOp op' = (if op' \<in> set knownQueueOps then op' else ''other'')"

definition knownNonMessageTypes :: "string list" where
  "knownNonMessageTypes = [''system'', ''summary'', ''user'', ''assistant'', ''queue-operation'',
     ''attachment'', ''file-history-snapshot'']"

definition clampNonMessageType :: "string \<Rightarrow> string" where
  "clampNonMessageType t = (if t \<in> set knownNonMessageTypes then t else ''other'')"

section \<open>The tailer\<close>

record tailerWiring =
  wCounter :: bool
  wIssueCounter :: bool
  wToolCalls :: bool
  wQueueOps :: bool
  wActivity :: bool
  wProbes :: bool

record Tailer =
  tRedactor :: Redactor
  tWired :: tailerWiring
  tQueue :: queueTracker
  tTaskUseIDs :: "string set"
  tTaskTurnID :: string
  tTaskCalls :: int
  tToolNames :: "string \<Rightarrow> string option"
  tTcTurnID :: string
  tIssues :: "InternalIssueReport list"
  tIiTurnID :: string
  tReadPos :: int
  cStream :: "string counters"
  cIssues :: "(string \<times> string) counters"
  cToolCalls :: "(string \<times> string) counters"
  cQueueOps :: "string counters"

definition NewTailer :: "Redactor \<Rightarrow> tailerWiring \<Rightarrow> Tailer" where
  "NewTailer r w = \<lparr>tRedactor = r, tWired = w, tQueue = [], tTaskUseIDs = {}, tTaskTurnID = [],
     tTaskCalls = 0, tToolNames = Map.empty, tTcTurnID = [], tIssues = [], tIiTurnID = [],
     tReadPos = 0, cStream = (\<lambda>_. 0), cIssues = (\<lambda>_. 0), cToolCalls = (\<lambda>_. 0),
     cQueueOps = (\<lambda>_. 0)\<rparr>"

text \<open>The wiring of the session's own tailer, and that of a subagent's.\<close>

definition mainWiring :: tailerWiring where
  "mainWiring = \<lparr>wCounter = True, wIssueCounter = True, wToolCalls = True, wQueueOps = True,
     wActivity = True, wProbes = True\<rparr>"

definition subagentWiring :: tailerWiring where
  "subagentWiring = \<lparr>wCounter = True, wIssueCounter = False, wToolCalls = True, wQueueOps = True,
     wActivity = True, wProbes = False\<rparr>"

definition OutstandingTaskCalls :: "Tailer \<Rightarrow> int" where
  "OutstandingTaskCalls t = tTaskCalls t"

definition QueuePendingSince :: "Tailer \<Rightarrow> time option" where
  "QueuePendingSince t = queue_PendingSince (tQueue t)"

definition incCounter :: "string \<Rightarrow> Tailer \<Rightarrow> Tailer" where
  "incCounter l t = (if wCounter (tWired t) then t\<lparr>cStream := inc l (cStream t)\<rparr> else t)"

definition incIssue :: "string \<times> string \<Rightarrow> Tailer \<Rightarrow> Tailer" where
  "incIssue l t = (if wIssueCounter (tWired t) then t\<lparr>cIssues := inc l (cIssues t)\<rparr> else t)"

subsection \<open>Internal issues\<close>

definition accumulateInternalIssue :: "string \<Rightarrow> InternalIssueReport \<Rightarrow> Tailer \<Rightarrow> Tailer" where
  "accumulateInternalIssue turnID rep t =
     (let t1 = (if turnID \<noteq> tIiTurnID t then t\<lparr>tIssues := [], tIiTurnID := turnID\<rparr> else t)
      in t1\<lparr>tIssues := tIssues t1 @ [rep]\<rparr>)"

definition tailer_DrainInternalIssues :: "string \<Rightarrow> Tailer \<Rightarrow> InternalIssueReport list \<times> Tailer" where
  "tailer_DrainInternalIssues turnID t =
     (if turnID = [] \<or> turnID \<noteq> tIiTurnID t then ([], t)
      else (tIssues t, t\<lparr>tIssues := [], tIiTurnID := []\<rparr>))"

definition decInternalIssueInput :: "InternalIssueReport decoder" where
  "decInternalIssueInput = decStruct
     [(''category'', fieldDec iiCategory iiCategory_update decString),
      (''severity'', fieldDec iiSeverity iiSeverity_update decString),
      (''description'', fieldDec iiDescription iiDescription_update decString),
      (''offending_tool'', fieldDec iiOffendingTool iiOffendingTool_update decString),
      (''resource_id'', fieldDec iiResourceID iiResourceID_update decString)]"

abbreviation zeroReport :: InternalIssueReport where
  "zeroReport \<equiv> \<lparr>iiCategory = [], iiSeverity = [], iiDescription = [], iiOffendingTool = [],
                  iiResourceID = []\<rparr>"

definition clampSeverity :: "string \<Rightarrow> string" where
  "clampSeverity s = (if s \<in> set knownIssueSeverities then s else ''error'')"

definition clampCategory :: "string \<Rightarrow> string" where
  "clampCategory c = (if c \<in> set knownIssueCategories then c else ''other'')"

text \<open>\<open>err\<close> gives the text of the decoding error of a payload.\<close>

definition emitInternalIssue :: "(string \<Rightarrow> string) \<Rightarrow> string \<Rightarrow> string \<Rightarrow> Tailer \<Rightarrow> Tailer" where
  "emitInternalIssue err turnID rawInput t =
     (case unmarshal decInternalIssueInput rawInput zeroReport of
        None \<Rightarrow>
          accumulateInternalIssue turnID
            \<lparr>iiCategory = ''other'', iiSeverity = ''error'',
             iiDescription = ''internal issue report: unparseable input: '' @ err rawInput,
             iiOffendingTool = [], iiResourceID = []\<rparr>
            (incIssue (''other'', ''error'') t)
      | Some inp \<Rightarrow>
          (let sev = clampSeverity (iiSeverity inp); cat = clampCategory (iiCategory inp);
               scrub = Scrub (tRedactor t)
           in accumulateInternalIssue turnID
                \<lparr>iiCategory = cat, iiSeverity = sev, iiDescription = scrub (iiDescription inp),
                 iiOffendingTool = scrub (iiOffendingTool inp),
                 iiResourceID = scrub (iiResourceID inp)\<rparr>
                (incIssue (cat, sev) t)))"

subsection \<open>One transcript line\<close>

record transcriptMsg =
  msRole :: string
  msContent :: "string list"
  msStopReason :: string
  msUsage :: string

record transcriptEntry =
  enType :: string
  enTimestamp :: string
  enMessage :: "transcriptMsg option"
  enOperation :: string
  enContent :: string

text \<open>The fields only logged, \<^verbatim>\<open>uuid\<close>, \<^verbatim>\<open>sessionId\<close>, \<^verbatim>\<open>parentUuid\<close> and \<^verbatim>\<open>isSidechain\<close>, still have to decode.\<close>

definition checkOnly :: "'a \<Rightarrow> 'a decoder \<Rightarrow> 's decoder" where
  "checkOnly z d raw v s = map_option (\<lambda>_. s) (d raw v z)"

definition decTranscriptMsg :: "transcriptMsg decoder" where
  "decTranscriptMsg = decStruct
     [(''role'', fieldDec msRole msRole_update decString),
      (''content'', fieldDec msContent msContent_update (decSlice [] decRaw)),
      (''stop_reason'', fieldDec msStopReason msStopReason_update decString),
      (''usage'', fieldDec msUsage msUsage_update decRaw)]"

definition decTranscriptEntry :: "transcriptEntry decoder" where
  "decTranscriptEntry = decStruct
     [(''type'', fieldDec enType enType_update decString),
      (''uuid'', checkOnly [] decString),
      (''sessionId'', checkOnly [] decString),
      (''timestamp'', fieldDec enTimestamp enTimestamp_update decString),
      (''message'', fieldDec enMessage enMessage_update (decPtr
          \<lparr>msRole = [], msContent = [], msStopReason = [], msUsage = []\<rparr> decTranscriptMsg)),
      (''operation'', fieldDec enOperation enOperation_update decString),
      (''content'', fieldDec enContent enContent_update decRaw),
      (''isSidechain'', checkOnly False decBool),
      (''parentUuid'', checkOnly [] decString)]"

definition unmarshalEntry :: "string \<Rightarrow> transcriptEntry option" where
  "unmarshalEntry raw = unmarshal decTranscriptEntry raw
     \<lparr>enType = [], enTimestamp = [], enMessage = None, enOperation = [], enContent = []\<rparr>"

definition entryTime :: "time \<Rightarrow> transcriptEntry \<Rightarrow> time" where
  "entryTime now e =
     (if enTimestamp e \<noteq> []
      then (case parseRFC3339 (enTimestamp e) of Some ts \<Rightarrow> ts | None \<Rightarrow> now) else now)"

record contentBlock =
  cbType :: string
  cbText :: string
  cbThinking :: string
  cbID :: string
  cbName :: string
  cbInput :: string
  cbToolUseID :: string
  cbIsError :: bool

definition decContentBlock :: "contentBlock decoder" where
  "decContentBlock = decStruct
     [(''type'', fieldDec cbType cbType_update decString),
      (''text'', fieldDec cbText cbText_update decString),
      (''thinking'', fieldDec cbThinking cbThinking_update decString),
      (''id'', fieldDec cbID cbID_update decString),
      (''name'', fieldDec cbName cbName_update decString),
      (''input'', fieldDec cbInput cbInput_update decRaw),
      (''tool_use_id'', fieldDec cbToolUseID cbToolUseID_update decString),
      (''is_error'', fieldDec cbIsError cbIsError_update decBool),
      (''content'', checkOnly [] decRaw)]"

definition unmarshalBlock :: "string \<Rightarrow> contentBlock option" where
  "unmarshalBlock raw = unmarshal decContentBlock raw
     \<lparr>cbType = [], cbText = [], cbThinking = [], cbID = [], cbName = [], cbInput = [],
      cbToolUseID = [], cbIsError = False\<rparr>"

text \<open>What a line changes: the tailer, the shared probe tracker, the observer's calls.\<close>

type_synonym lineState = "Tailer \<times> ProbeTracker \<times> emission list"

definition classifyProbeEnqueue ::
  "time \<Rightarrow> transcriptEntry \<Rightarrow> Tailer \<Rightarrow> ProbeTracker \<Rightarrow> ProbeTracker \<times> bool" where
  "classifyProbeEnqueue now e t p =
     (if \<not> wProbes (tWired t) \<or> enType e \<noteq> ''queue-operation'' \<or> clampQueueOp (enOperation e) \<noteq> ''enqueue''
      then (p, False)
      else probe_NoteEnqueue (queueContentText (enContent e)) (entryTime now e) p)"

definition processQueueOperation ::
  "time \<Rightarrow> transcriptEntry \<Rightarrow> Tailer \<Rightarrow> ProbeTracker \<Rightarrow> Tailer \<times> ProbeTracker" where
  "processQueueOperation now e t p =
     (let o' = clampQueueOp (enOperation e);
          t1 = (if wQueueOps (tWired t) then t\<lparr>cQueueOps := inc o' (cQueueOps t)\<rparr> else t)
      in if o' = ''enqueue'' then (t1\<lparr>tQueue := queue_enqueue (enContent e) (entryTime now e) (tQueue t1)\<rparr>, p)
         else if o' = ''remove'' \<or> o' = ''dequeue'' then
           (t1\<lparr>tQueue := queue_remove (enContent e) (tQueue t1)\<rparr>,
            if wProbes (tWired t) then probe_NoteRemoval (entryTime now e) p else p)
         else (t1, p))"

definition taskUse :: "contentBlock \<Rightarrow> Tailer \<Rightarrow> Tailer" where
  "taskUse b t =
     (if cbName b = taskToolName \<and> cbID b \<noteq> [] \<and> cbID b \<notin> tTaskUseIDs t
      then t\<lparr>tTaskUseIDs := insert (cbID b) (tTaskUseIDs t), tTaskCalls := tTaskCalls t + 1\<rparr>
      else t)"

definition taskResult :: "contentBlock \<Rightarrow> Tailer \<Rightarrow> Tailer" where
  "taskResult b t =
     (if cbToolUseID b \<in> tTaskUseIDs t
      then t\<lparr>tTaskUseIDs := tTaskUseIDs t - {cbToolUseID b}, tTaskCalls := tTaskCalls t - 1\<rparr>
      else t)"

definition toolUse :: "contentBlock \<Rightarrow> Tailer \<Rightarrow> Tailer" where
  "toolUse b t =
     (if wToolCalls (tWired t)
      then t\<lparr>tToolNames := (tToolNames t)(cbID b \<mapsto> clampToolName (cbName b))\<rparr> else t)"

definition toolResult :: "contentBlock \<Rightarrow> Tailer \<Rightarrow> Tailer" where
  "toolResult b t =
     (if wToolCalls (tWired t) then
        (let outcome = (if cbIsError b then ''error'' else ''success'')
         in case tToolNames t (cbToolUseID b) of
              Some name \<Rightarrow> t\<lparr>tToolNames := (tToolNames t)(cbToolUseID b := None),
                            cToolCalls := inc (name, outcome) (cToolCalls t)\<rparr>
            | None \<Rightarrow> t\<lparr>cToolCalls := inc (''other'', outcome) (cToolCalls t)\<rparr>)
      else t)"

definition processBlock ::
  "(string \<Rightarrow> string) \<Rightarrow> time \<Rightarrow> string \<Rightarrow> transcriptEntry \<Rightarrow> transcriptMsg \<Rightarrow> lineState \<Rightarrow> string \<Rightarrow> lineState" where
  "processBlock err now turnID e msg st rawBlock =
     (let (t, p, es) = st
      in case unmarshalBlock rawBlock of
           None \<Rightarrow> (incCounter ''raw'' t, p, es)
         | Some b \<Rightarrow>
             if cbType b = ''text'' then
               (let t1 = incCounter ''text'' t
                in if wProbes (tWired t) \<and> msRole msg = ''assistant''
                   then (let (p', es', _) = probe_NoteAssistantText (cbText b) (entryTime now e) p
                         in (t1, p', es @ es'))
                   else (t1, p, es))
             else if cbType b = ''thinking'' then
               (incCounter (if cbThinking b = [] then ''raw'' else ''thinking'') t, p, es)
             else if cbType b = ''tool_use'' then
               (let t1 = toolUse b (taskUse b (incCounter ''tool_use'' t))
                in (if cbName b = internalIssueToolName
                    then emitInternalIssue err turnID (cbInput b) t1 else t1, p, es))
             else if cbType b = ''tool_result'' then
               (toolResult b (taskResult b (incCounter ''tool_result'' t)), p, es)
             else (incCounter ''raw'' t, p, es))"

definition trimEOL :: "string \<Rightarrow> string" where
  "trimEOL raw = rev (dropWhile (\<lambda>c. c = CHR 0x0A \<or> c = CHR 0x0D) (rev raw))"

definition onTurnChange :: "string \<Rightarrow> Tailer \<Rightarrow> Tailer" where
  "onTurnChange turnID t =
     (let t1 = (if wToolCalls (tWired t) \<and> turnID \<noteq> tTcTurnID t
                then t\<lparr>tToolNames := Map.empty, tTcTurnID := turnID\<rparr> else t)
      in if turnID \<noteq> tTaskTurnID t1
         then t1\<lparr>tTaskUseIDs := {}, tTaskCalls := 0, tTaskTurnID := turnID\<rparr> else t1)"

definition processMessage ::
  "(string \<Rightarrow> string) \<Rightarrow> time \<Rightarrow> string \<Rightarrow> transcriptEntry \<Rightarrow> lineState \<Rightarrow> lineState" where
  "processMessage err now turnID e st =
     (case enMessage e of
        None \<Rightarrow> (let (t, p, es) = st in (incCounter (clampNonMessageType (enType e)) t, p, es))
      | Some msg \<Rightarrow>
          (let (t, p, es) = foldl (processBlock err now turnID e msg) st (msContent msg)
           in (if msStopReason msg \<noteq> [] then incCounter ''message_end'' t else t, p, es)))"

text \<open>The activity hook's call of a line, if it makes one: the turn and whether the probe caused it.\<close>

type_synonym activity = "(string \<times> bool) option"

definition fireActivity :: "Tailer \<Rightarrow> string \<Rightarrow> bool \<Rightarrow> activity" where
  "fireActivity t turnID po = (if wActivity (tWired t) \<and> turnID \<noteq> [] then Some (turnID, po) else None)"

definition processLine ::
  "(string \<Rightarrow> string) \<Rightarrow> time \<Rightarrow> string \<Rightarrow> string \<Rightarrow> Tailer \<Rightarrow> ProbeTracker \<Rightarrow> lineState \<times> activity" where
  "processLine err now turnID raw0 t p =
     (let raw = trimEOL raw0
      in if raw = [] then ((t, p, []), None)
         else (case unmarshalEntry raw of
            None \<Rightarrow> ((incCounter ''raw'' (onTurnChange turnID t), p, []), fireActivity t turnID False)
          | Some e \<Rightarrow>
              (let (p1, po) = classifyProbeEnqueue now e t p;
                   t1 = onTurnChange turnID t;
                   (t2, p2) = (if enType e = ''queue-operation''
                               then processQueueOperation now e t1 p1 else (t1, p1))
               in (processMessage err now turnID e (t2, p2, []), fireActivity t turnID po))))"

section \<open>Following the file\<close>

text \<open>
  One iteration of \<^verbatim>\<open>Follow\<close>'s loop is driven by what the operating system answers: a line with its
  newline, the bytes before the end of the file (then whether the file was replaced and whether
  it reopens), or an error. \<open>fHanded\<close> is a ghost: the byte strings given to \<^verbatim>\<open>processLine\<close>
  since the file was last opened; \<open>fRead\<close> those read since then.
\<close>

datatype readEvent =
    ReadLine string
  | ReadEOF string bool bool
  | ReadError string bool

record followState =
  fTail :: Tailer
  fProbes :: ProbeTracker
  fPartial :: string
  fEmits :: "emission list"
  fActs :: "activity list"
  fHanded :: "string list"
  fRead :: "string list"

definition handLine ::
  "(string \<Rightarrow> string) \<Rightarrow> time \<Rightarrow> string \<Rightarrow> string \<Rightarrow> followState \<Rightarrow> followState" where
  "handLine err now turnID full fl =
     (let ((t, p, es), act) = processLine err now turnID full (fTail fl) (fProbes fl)
      in fl\<lparr>fTail := t\<lparr>tReadPos := tReadPos t + int (length full)\<rparr>, fProbes := p, fPartial := [],
            fEmits := fEmits fl @ es, fActs := fActs fl @ [act], fHanded := fHanded fl @ [full]\<rparr>)"

definition openFile :: "bool \<Rightarrow> followState \<Rightarrow> followState" where
  "openFile ok fl =
     (if ok then fl\<lparr>fTail := (fTail fl)\<lparr>tReadPos := 0\<rparr>, fHanded := [], fRead := []\<rparr> else fl)"

definition bufferPartial ::
  "nat \<Rightarrow> (string \<Rightarrow> string) \<Rightarrow> time \<Rightarrow> string \<Rightarrow> string \<Rightarrow> followState \<Rightarrow> followState" where
  "bufferPartial cap err now turnID chunk fl =
     (if chunk = [] then fl
      else (let part = fPartial fl @ chunk; fl1 = fl\<lparr>fPartial := part, fRead := fRead fl @ [chunk]\<rparr>
            in if cap \<le> length part then handLine err now turnID part fl1 else fl1))"

text \<open>
  \<open>cap\<close> is \<^const>\<open>maxPartialBytes\<close> in the code. A replaced file drops the partial line even when
  the reopening fails, and so does a read error.
\<close>

fun followStep ::
  "nat \<Rightarrow> (string \<Rightarrow> string) \<Rightarrow> time \<Rightarrow> string \<Rightarrow> readEvent \<Rightarrow> followState \<Rightarrow> followState" where
  "followStep cap err now turnID (ReadLine l) fl =
     (if l = [] then fl
      else handLine err now turnID (fPartial fl @ l) (fl\<lparr>fRead := fRead fl @ [l]\<rparr>))"
| "followStep cap err now turnID (ReadEOF chunk replaced reopens) fl =
     (let fl1 = bufferPartial cap err now turnID chunk fl
      in if replaced then openFile reopens (fl1\<lparr>fPartial := []\<rparr>) else fl1)"
| "followStep cap err now turnID (ReadError chunk reopens) fl =
     (let fl1 = bufferPartial cap err now turnID chunk fl
      in openFile reopens (fl1\<lparr>fPartial := []\<rparr>))"

fun followRun ::
  "nat \<Rightarrow> (string \<Rightarrow> string) \<Rightarrow> (time \<times> string \<times> readEvent) list \<Rightarrow> followState \<Rightarrow> followState" where
  "followRun cap err [] fl = fl"
| "followRun cap err ((now, turnID, ev) # evs) fl = followRun cap err evs (followStep cap err now turnID ev fl)"

definition followInit :: "Tailer \<Rightarrow> ProbeTracker \<Rightarrow> followState" where
  "followInit t p = openFile True \<lparr>fTail = t, fProbes = p, fPartial = [], fEmits = [], fActs = [],
     fHanded = [], fRead = []\<rparr>"

text \<open>
  \<^verbatim>\<open>CaughtUpTo\<close> polls the position until it is reached or the deadline has passed; the polls
  give the position and the time of each round.
\<close>

fun CaughtUpTo :: "int \<Rightarrow> time \<Rightarrow> (int \<times> time) list \<Rightarrow> bool option" where
  "CaughtUpTo target deadline [] = None"
| "CaughtUpTo target deadline ((pos, now) # polls) =
     (if target \<le> pos then Some True
      else if deadline < now then Some False
      else CaughtUpTo target deadline polls)"

section \<open>Invariants\<close>

text \<open>The label sets the metrics promise to stay inside.\<close>

definition streamLabels :: "string set" where
  "streamLabels = {''raw'', ''text'', ''thinking'', ''tool_use'', ''tool_result'', ''message_end'', ''other''}
                  \<union> set knownNonMessageTypes"

definition issueLabels :: "(string \<times> string) set" where
  "issueLabels = set knownIssueCategories \<times> set knownIssueSeverities"

definition toolLabel :: "string \<Rightarrow> bool" where
  "toolLabel l \<longleftrightarrow> l = ''other'' \<or> l \<in> set knownBuiltinTools \<or> hasPrefix l tataraToolPrefix"

definition support :: "'l counters \<Rightarrow> 'l set" where
  "support c = {l. c l \<noteq> 0}"

lemma support_inc [simp]: "support (inc l c) = insert l (support c)"
  by (auto simp: support_def inc_def)

definition wf_tailer :: "Tailer \<Rightarrow> bool" where
  "wf_tailer t \<longleftrightarrow>
     length (tQueue t) \<le> maxPendingQueueItems
     \<and> finite (tTaskUseIDs t) \<and> tTaskCalls t = int (card (tTaskUseIDs t))
     \<and> support (cStream t) \<subseteq> streamLabels
     \<and> support (cQueueOps t) \<subseteq> insert ''other'' (set knownQueueOps)
     \<and> support (cIssues t) \<subseteq> issueLabels
     \<and> (\<forall>i n. tToolNames t i = Some n \<longrightarrow> toolLabel n)
     \<and> (\<forall>l \<in> support (cToolCalls t). toolLabel (fst l) \<and> snd l \<in> {''error'', ''success''})
     \<and> list_all (\<lambda>r. (iiCategory r, iiSeverity r) \<in> issueLabels) (tIssues t)"

lemma wf_NewTailer: "wf_tailer (NewTailer r w)"
  by (simp add: wf_tailer_def NewTailer_def support_def)

lemma queue_enqueue_bound: "length (queue_enqueue k at q) \<le> maxPendingQueueItems \<or> length q > maxPendingQueueItems"
  by (auto simp: queue_enqueue_def Let_def)

lemma dropFirst_length: "dropFirst P xs = Some ys \<Longrightarrow> length ys < length xs"
  by (induction xs arbitrary: ys) (auto split: if_splits)

lemma queue_remove_shrinks: "q \<noteq> [] \<Longrightarrow> length (queue_remove k q) < length q"
  by (auto simp: queue_remove_def split: option.splits dest: dropFirst_length)

lemma queue_remove_bound: "length (queue_remove k q) \<le> length q"
  using queue_remove_shrinks [of q k] by (cases "q = []") (auto simp: queue_remove_def)

lemma clampSeverity_known [simp]: "clampSeverity s \<in> set knownIssueSeverities"
  by (simp add: clampSeverity_def knownIssueSeverities_def)

lemma clampCategory_known [simp]: "clampCategory s \<in> set knownIssueCategories"
  by (simp add: clampCategory_def knownIssueCategories_def)

lemma clampToolName_label [simp]: "toolLabel (clampToolName n)"
  by (simp add: clampToolName_def toolLabel_def)

lemma clampQueueOp_known [simp]: "clampQueueOp q \<in> insert ''other'' (set knownQueueOps)"
  by (simp add: clampQueueOp_def)

lemma clampNonMessageType_known [simp]: "clampNonMessageType l \<in> streamLabels"
  by (simp add: clampNonMessageType_def streamLabels_def)

lemma streamLabels_const [simp]:
  "''raw'' \<in> streamLabels" "''text'' \<in> streamLabels" "''thinking'' \<in> streamLabels"
  "''tool_use'' \<in> streamLabels" "''tool_result'' \<in> streamLabels" "''message_end'' \<in> streamLabels"
  by (simp_all add: streamLabels_def)

lemma wf_incCounter [simp]: "wf_tailer t \<Longrightarrow> l \<in> streamLabels \<Longrightarrow> wf_tailer (incCounter l t)"
  by (simp add: wf_tailer_def incCounter_def)

lemma wf_incIssue [simp]: "wf_tailer t \<Longrightarrow> l \<in> issueLabels \<Longrightarrow> wf_tailer (incIssue l t)"
  by (simp add: wf_tailer_def incIssue_def)

lemma wf_accumulate [simp]:
  "wf_tailer t \<Longrightarrow> (iiCategory r, iiSeverity r) \<in> issueLabels \<Longrightarrow> wf_tailer (accumulateInternalIssue i r t)"
  by (simp add: wf_tailer_def accumulateInternalIssue_def Let_def)

lemma otherError_label [simp]: "(''other'', ''error'') \<in> issueLabels"
  by (simp add: issueLabels_def knownIssueCategories_def knownIssueSeverities_def)

lemma clamped_label [simp]: "(clampCategory c, clampSeverity s) \<in> issueLabels"
  by (simp add: issueLabels_def)

lemma wf_emitInternalIssue [simp]: "wf_tailer t \<Longrightarrow> wf_tailer (emitInternalIssue err i raw t)"
  by (simp add: emitInternalIssue_def Let_def split: option.split)

lemma wf_taskUse [simp]: "wf_tailer t \<Longrightarrow> wf_tailer (taskUse b t)"
  by (simp add: wf_tailer_def taskUse_def)

lemma wf_taskResult [simp]: "wf_tailer t \<Longrightarrow> wf_tailer (taskResult b t)"
  using card_gt_0_iff [of "tTaskUseIDs t"]
  by (auto simp: wf_tailer_def taskResult_def card_Diff_singleton of_nat_diff)

lemma wf_toolUse [simp]: "wf_tailer t \<Longrightarrow> wf_tailer (toolUse b t)"
  by (simp add: wf_tailer_def toolUse_def)

lemma wf_toolResult [simp]: "wf_tailer t \<Longrightarrow> wf_tailer (toolResult b t)"
  by (auto simp: wf_tailer_def toolResult_def Let_def toolLabel_def split: option.split)

lemma wf_onTurnChange [simp]: "wf_tailer t \<Longrightarrow> wf_tailer (onTurnChange i t)"
  by (simp add: wf_tailer_def onTurnChange_def Let_def)

lemma wf_drain [simp]: "wf_tailer t \<Longrightarrow> wf_tailer (snd (tailer_DrainInternalIssues i t))"
  by (simp add: wf_tailer_def tailer_DrainInternalIssues_def)

lemma wf_queueOperation [simp]: "wf_tailer t \<Longrightarrow> wf_tailer (fst (processQueueOperation now e t p))"
  using queue_enqueue_bound [of "enContent e" "entryTime now e" "tQueue t"]
    queue_remove_bound [of "enContent e" "tQueue t"] clampQueueOp_known [of "enOperation e"]
  by (auto simp: wf_tailer_def processQueueOperation_def Let_def)

lemma wf_processBlock [simp]: "wf_tailer (fst st) \<Longrightarrow> wf_tailer (fst (processBlock err now i e msg st raw))"
  by (cases st) (simp add: processBlock_def Let_def split: option.split prod.split)

lemma wf_foldl_processBlock [simp]:
  "wf_tailer (fst st) \<Longrightarrow> wf_tailer (fst (foldl (processBlock err now i e msg) st bs))"
  by (induction bs arbitrary: st) simp_all

lemma wf_processMessage [simp]: "wf_tailer (fst st) \<Longrightarrow> wf_tailer (fst (processMessage err now i e st))"
proof (cases "enMessage e")
  case None
  assume "wf_tailer (fst st)"
  with None show ?thesis by (cases st) (simp add: processMessage_def)
next
  case (Some msg)
  assume "wf_tailer (fst st)"
  then have "wf_tailer (fst (foldl (processBlock err now i e msg) st (msContent msg)))" by simp
  with Some show ?thesis
    by (cases "foldl (processBlock err now i e msg) st (msContent msg)")
      (simp add: processMessage_def)
qed

lemma wf_processLine: "wf_tailer t \<Longrightarrow> wf_tailer (fst (fst (processLine err now i raw t p)))"
  using wf_queueOperation [of "onTurnChange i t" now]
  by (auto simp: processLine_def Let_def split: option.split prod.split)
    (metis fst_conv wf_onTurnChange wf_processMessage wf_queueOperation)+

section \<open>The read position\<close>

lemma readPos_frame [frame]:
  "tReadPos (incCounter l t) = tReadPos t"
  "tReadPos (incIssue il t) = tReadPos t"
  "tReadPos (accumulateInternalIssue i r t) = tReadPos t"
  "tReadPos (taskUse b t) = tReadPos t"
  "tReadPos (taskResult b t) = tReadPos t"
  "tReadPos (toolUse b t) = tReadPos t"
  "tReadPos (toolResult b t) = tReadPos t"
  "tReadPos (onTurnChange i t) = tReadPos t"
  "tReadPos (fst (processQueueOperation now e t p)) = tReadPos t"
  by (simp_all add: incCounter_def incIssue_def accumulateInternalIssue_def taskUse_def
      taskResult_def toolUse_def toolResult_def onTurnChange_def processQueueOperation_def Let_def
      split: option.split)

lemma readPos_emit [frame]: "tReadPos (emitInternalIssue err i raw t) = tReadPos t"
  by (simp add: emitInternalIssue_def Let_def frame split: option.split)

lemma readPos_block [frame]: "tReadPos (fst (processBlock err now i e msg st raw)) = tReadPos (fst st)"
  by (cases st) (simp add: processBlock_def Let_def frame split: option.split prod.split)

lemma readPos_blocks [frame]:
  "tReadPos (fst (foldl (processBlock err now i e msg) st bs)) = tReadPos (fst st)"
  by (induction bs arbitrary: st) (simp_all add: frame)

lemma readPos_message [frame]: "tReadPos (fst (processMessage err now i e st)) = tReadPos (fst st)"
proof (cases "enMessage e")
  case None
  then show ?thesis by (cases st) (simp add: processMessage_def frame)
next
  case (Some msg)
  with readPos_blocks [of err now i e msg st "msContent msg"] show ?thesis
    by (cases "foldl (processBlock err now i e msg) st (msContent msg)")
      (simp add: processMessage_def frame)
qed

lemma readPos_line [frame]: "tReadPos (fst (fst (processLine err now i raw t p))) = tReadPos t"
proof -
  have "tReadPos t2 = tReadPos t" if "processQueueOperation now e (onTurnChange i t) q = (t2, p2)"
    for e q t2 p2
    using readPos_frame(9) [of now e "onTurnChange i t" q] readPos_frame(8) [of i t] that by simp
  then show ?thesis
    by (auto simp: processLine_def Let_def readPos_message readPos_frame(1,8)
        split: option.split prod.split)
qed

lemma handLine_simps [simp]:
  "fHanded (handLine err now i full fl) = fHanded fl @ [full]"
  "fRead (handLine err now i full fl) = fRead fl"
  "fPartial (handLine err now i full fl) = []"
  "tReadPos (fTail (handLine err now i full fl)) = tReadPos (fTail fl) + int (length full)"
  using readPos_line [of err now i full "fTail fl" "fProbes fl"]
  by (auto simp: handLine_def Let_def split: prod.split)

definition posInv :: "followState \<Rightarrow> bool" where
  "posInv fl \<longleftrightarrow> tReadPos (fTail fl) = int (length (concat (fHanded fl)))"

lemma posInv_step: "posInv fl \<Longrightarrow> posInv (followStep cap err now i ev fl)"
  by (cases ev) (auto simp: posInv_def openFile_def bufferPartial_def Let_def)

lemma posInv_run: "posInv fl \<Longrightarrow> posInv (followRun cap err evs fl)"
  by (induction cap err evs fl rule: followRun.induct) (auto simp: posInv_step)

lemma posInv_init: "posInv (followInit t p)"
  by (simp add: posInv_def followInit_def openFile_def)

text \<open>The events of a file that is neither replaced nor failing, and the bytes they deliver.\<close>

fun quietEvent :: "readEvent \<Rightarrow> bool" where
  "quietEvent (ReadLine _) = True"
| "quietEvent (ReadEOF _ replaced _) = (\<not> replaced)"
| "quietEvent (ReadError _ _) = False"

fun eventBytes :: "readEvent \<Rightarrow> string" where
  "eventBytes (ReadLine l) = l"
| "eventBytes (ReadEOF c _ _) = c"
| "eventBytes (ReadError c _) = c"

definition accounted :: "followState \<Rightarrow> string \<Rightarrow> bool" where
  "accounted fl s \<longleftrightarrow> concat (fHanded fl) @ fPartial fl = s"

lemma accounted_step:
  "accounted fl s \<Longrightarrow> quietEvent ev \<Longrightarrow> accounted (followStep cap err now i ev fl) (s @ eventBytes ev)"
  by (cases ev) (auto simp: accounted_def bufferPartial_def Let_def)

lemma accounted_run:
  assumes "accounted fl s" "list_all (\<lambda>(_, _, ev). quietEvent ev) evs"
  shows "accounted (followRun cap err evs fl) (s @ concat (map (\<lambda>(_, _, ev). eventBytes ev) evs))"
  using assms
proof (induction cap err evs fl arbitrary: s rule: followRun.induct)
  case (2 cap err now i ev evs fl)
  from 2(3) have q: "quietEvent ev" "list_all (\<lambda>(_, _, ev). quietEvent ev) evs" by auto
  from 2(1) [OF accounted_step [OF 2(2) q(1)] q(2)] show ?case by simp
qed simp

lemma accounted_init: "accounted (followInit t p) []"
  by (simp add: accounted_def followInit_def openFile_def)

text \<open>The buffered partial line never reaches the cap.\<close>

lemma partial_step: "length (fPartial fl) < cap \<Longrightarrow> length (fPartial (followStep cap err now i ev fl)) < cap"
  by (cases ev) (auto simp: openFile_def bufferPartial_def Let_def)

lemma partial_run: "length (fPartial fl) < cap \<Longrightarrow> length (fPartial (followRun cap err evs fl)) < cap"
  by (induction cap err evs fl rule: followRun.induct) (auto simp: partial_step)

section \<open>The issue accumulator as an interface\<close>

text \<open>
  What the drain of a finished turn may rely on, whoever keeps the reports: a turn's reports come
  out once, in the order they came in, and another turn's never do.
\<close>

locale issue_accumulator =
  fixes accum :: "string \<Rightarrow> 'r \<Rightarrow> 's \<Rightarrow> 's"
    and drain :: "string \<Rightarrow> 's \<Rightarrow> 'r list \<times> 's"
  assumes drain_accum: "i \<noteq> [] \<Longrightarrow> fst (drain i (accum i r s)) = fst (drain i s) @ [r]"
    and drain_other: "i \<noteq> j \<Longrightarrow> fst (drain j (accum i r s)) = []"
    and drain_again: "fst (drain j (snd (drain i s))) = (if i = j then [] else fst (drain j s))"
begin

lemma drain_all:
  "i \<noteq> [] \<Longrightarrow> fst (drain i (foldl (\<lambda>s r. accum i r s) s rs)) = fst (drain i s) @ rs"
  by (induction rs arbitrary: s) (simp_all add: drain_accum)

lemma drain_switch:
  "i \<noteq> j \<Longrightarrow> rs \<noteq> [] \<Longrightarrow> fst (drain j (foldl (\<lambda>s r. accum i r s) s rs)) = []"
  by (induction rs rule: rev_induct) (simp_all add: drain_other)

end

interpretation tailer_issues: issue_accumulator accumulateInternalIssue tailer_DrainInternalIssues
  by unfold_locales
    (auto simp: accumulateInternalIssue_def tailer_DrainInternalIssues_def Let_def)

section \<open>Properties\<close>

text \<open>A transcript as the tailer sees it: lines with the turn and the clock at the time of each.\<close>

fun tailLines ::
  "(string \<Rightarrow> string) \<Rightarrow> (string \<times> string \<times> time) list \<Rightarrow> Tailer \<Rightarrow> ProbeTracker \<Rightarrow> Tailer \<times> ProbeTracker" where
  "tailLines err [] t p = (t, p)"
| "tailLines err ((raw, turnID, now) # ls) t p =
     (let ((t', p', _), _) = processLine err now turnID raw t p in tailLines err ls t' p')"

lemma wf_tailLines: "wf_tailer t \<Longrightarrow> wf_tailer (fst (tailLines err ls t p))"
proof (induction err ls t p rule: tailLines.induct)
  case (2 err raw i now ls t p)
  obtain t' p' es act where pl: "processLine err now i raw t p = ((t', p', es), act)" by (metis prod.exhaust)
  from wf_processLine [OF 2(2), of err now i raw p] have "wf_tailer t'" by (simp add: pl)
  with 2(1) pl show ?case by simp
qed simp


text \<open>
  The read position never runs ahead of the work: while the file is neither replaced nor failing, the
  bytes handed to the line handler are exactly the file's first \<^verbatim>\<open>readPos\<close> bytes, in order and without
  gap, and what was read beyond them waits in a partial line shorter than the cap. So once the position
  has reached the file's size at a turn's end, every line of that turn has been handled.
\<close>

theorem follow_accounts:
  assumes "list_all (\<lambda>(_, _, ev). quietEvent ev) evs" "0 < cap"
  shows "let fl = followRun cap err evs (followInit t p);
             file = concat (map (\<lambda>(_, _, ev). eventBytes ev) evs); n = nat (tReadPos (fTail fl))
         in concat (fHanded fl) = take n file \<and> fPartial fl = drop n file \<and> length (fPartial fl) < cap
          \<and> (int sz \<le> tReadPos (fTail fl) \<longrightarrow> take sz (concat (fHanded fl)) = take sz file)"
proof -
  let ?fl = "followRun cap err evs (followInit t p)"
  let ?file = "concat (map (\<lambda>(_, _, ev). eventBytes ev) evs)"
  have acc: "concat (fHanded ?fl) @ fPartial ?fl = ?file"
    using accounted_run [OF accounted_init assms(1), of cap err t p] by (simp add: accounted_def)
  have pos: "tReadPos (fTail ?fl) = int (length (concat (fHanded ?fl)))"
    using posInv_run [OF posInv_init, of cap err evs t p] by (simp add: posInv_def)
  have "length (fPartial (followInit t p)) < cap" using assms(2) by (simp add: followInit_def openFile_def)
  then have "length (fPartial ?fl) < cap" by (rule partial_run)
  moreover have "concat (fHanded ?fl) = take (length (concat (fHanded ?fl))) ?file"
    "fPartial ?fl = drop (length (concat (fHanded ?fl))) ?file"
    by (simp_all add: acc [symmetric])
  moreover have "take sz (concat (fHanded ?fl)) = take sz ?file" if "int sz \<le> tReadPos (fTail ?fl)"
    using that pos by (simp add: acc [symmetric])
  ultimately show ?thesis unfolding Let_def pos nat_int by blast
qed

theorem follow_accounts_witness:
  "concat (fHanded (followRun 16 (\<lambda>_. []) [(0, [], ReadLine (''x'' @ [CHR 0x0A])), (1, [], ReadEOF ''par'' False False)]
     (followInit (NewTailer [] mainWiring) NewProbeTracker))) = take 2 (''x'' @ [CHR 0x0A] @ ''par'')"
proof -
  let ?evs = "[(0, [], ReadLine (''x'' @ [CHR 0x0A])), (1, [], ReadEOF ''par'' False False)]"
  let ?fl = "followRun 16 (\<lambda>_. []) ?evs (followInit (NewTailer [] mainWiring) NewProbeTracker)"
  have "list_all (\<lambda>(_, _, ev). quietEvent ev) ?evs" by simp
  moreover have "tReadPos (fTail ?fl) = 2" by code_simp
  ultimately show ?thesis
    using follow_accounts [of ?evs 16 "\<lambda>_. []" "NewTailer [] mainWiring" NewProbeTracker] unfolding Let_def
    by (simp only: case_prod_conv list.map concat.simps eventBytes.simps append_Nil2 nat_numeral) simp
qed

text \<open>
  A turn's reports reach its drain exactly once and in order: draining after any number of reports of
  that turn gives what was there and then all of them, a second drain gives nothing, and the reports of
  one turn never come out for another.
\<close>

theorem reports_drained_once:
  assumes "i \<noteq> []" "i \<noteq> j"
  shows "let t' = foldl (\<lambda>t r. accumulateInternalIssue i r t) t rs
         in fst (tailer_DrainInternalIssues i t') = fst (tailer_DrainInternalIssues i t) @ rs
          \<and> fst (tailer_DrainInternalIssues i (snd (tailer_DrainInternalIssues i t'))) = []
          \<and> (rs \<noteq> [] \<longrightarrow> fst (tailer_DrainInternalIssues j t') = [])"
  using tailer_issues.drain_all [OF assms(1)] tailer_issues.drain_again tailer_issues.drain_switch [OF assms(2)]
  by (simp add: Let_def)

theorem reports_drained_once_witness:
  "fst (tailer_DrainInternalIssues ''t1''
      (foldl (\<lambda>t r. accumulateInternalIssue ''t1'' r t) (NewTailer [] mainWiring) [zeroReport])) = [zeroReport]"
proof -
  have "fst (tailer_DrainInternalIssues ''t1'' (NewTailer [] mainWiring)) = []"
    by (simp add: tailer_DrainInternalIssues_def NewTailer_def)
  with reports_drained_once [of "''t1''" "''t2''" "NewTailer [] mainWiring" "[zeroReport]"] show ?thesis
    unfolding Let_def by simp
qed

text \<open>
  Only the echo of the wrapper's own probe is kept from counting as activity: a line reported as
  caused by the probe is a queue operation that enqueues exactly the registered probe's text, up to
  surrounding white space.
\<close>

theorem probe_echo_only:
  assumes "snd (processLine err now turnID raw t p) = Some (i, True)"
  shows "\<exists>e c. unmarshalEntry (trimEOL raw) = Some e \<and> enType e = ''queue-operation''
    \<and> enOperation e = ''enqueue'' \<and> ptCur p = Some c \<and> i = turnID
    \<and> trimSpace (queueContentText (enContent e)) = prText c"
proof -
  have cl: "clampQueueOp q = ''enqueue'' \<longleftrightarrow> q = ''enqueue''" for q
    by (auto simp: clampQueueOp_def knownQueueOps_def)
  obtain e where e: "unmarshalEntry (trimEOL raw) = Some e" and i: "i = turnID"
    and c: "snd (classifyProbeEnqueue now e t p)"
    using assms by (auto simp: processLine_def Let_def fireActivity_def split: if_splits option.splits prod.splits)
  from c have "enType e = ''queue-operation''" "enOperation e = ''enqueue''"
    "snd (probe_NoteEnqueue (queueContentText (enContent e)) (entryTime now e) p)"
    by (auto simp: classifyProbeEnqueue_def cl split: if_splits)
  with e i show ?thesis by (auto simp: probe_NoteEnqueue_def split: option.splits if_splits)
qed

definition probeEchoJSON :: string where
  \<open>probeEchoJSON = ''{"type":"queue-operation","operation":"enqueue","content":"alive?"}''\<close>

theorem probe_echo_only_witness:
  "\<exists>e. unmarshalEntry (trimEOL probeEchoJSON) = Some e \<and> enOperation e = ''enqueue''"
proof -
  have "snd (processLine (\<lambda>_. []) 5 ''t1'' probeEchoJSON (NewTailer [] mainWiring)
      (fst (probe_Register ''p1'' ''alive?'' 4 NewProbeTracker))) = Some (''t1'', True)"
    by code_simp
  from probe_echo_only [OF this] show ?thesis by blast
qed

end
