(* ===== verification/Session.thy ===== *)
theory Session
  imports Complex_Main TurnStore Ring Transcript Probe Tailer
begin

text \<open>
  \<^verbatim>\<open>internal/session\<close>: the manager of one interactive process. Its fields are guarded by one mutex;
  a definition here is one critical section together with the lock-free statements that follow
  it, and the operations are compositions of such sections. Writes to the PTY, the clock, fresh
  ids, spawned processes and the file system are arguments: a write's argument is its error, if
  it has one. Metric counters count the calls made on them.
\<close>

section \<open>Configuration and metrics\<close>

record SubmitSequence =
  PasteStart :: string
  PasteEnd :: string
  SubmitKey :: string

definition DefaultSubmitSeq :: SubmitSequence where
  "DefaultSubmitSeq = \<lparr>PasteStart = ESC # ''[200~'', PasteEnd = ESC # ''[201~'', SubmitKey = [CHR 0x0D]\<rparr>"

record Config =
  cWorkspace :: string
  cHomeDir :: string
  cModel :: string
  cEffort :: string
  cRepo :: string
  cTurnTimeout :: duration
  cPodTTL :: duration
  cBootTimeout :: duration
  cSubmitDelay :: duration
  cSubmitSeq :: SubmitSequence
  cMaxRestarts :: int
  cKind :: string
  cRepoName :: string
  cProject :: string

definition claudeArgs :: "Config \<Rightarrow> bool \<Rightarrow> string list" where
  "claudeArgs c resume =
     (if cModel c \<noteq> [] then [''--model'', cModel c] else [])
     @ (if cEffort c \<noteq> [] then [''--effort'', cEffort c] else [])
     @ (if resume then [''--continue''] else [])"

record HookResult =
  hSessionID :: string
  hFinalText :: string
  hResultJSON :: string
  hUsage :: string
  hStopReason :: string
  hTranscriptPath :: string
  hTurnTokens :: "TurnTokens list"

text \<open>One \<^verbatim>\<open>Add\<close> on a token or cost counter: the metric, its labels and the amount.\<close>

type_synonym meterAdd = "string \<times> string list \<times> rat"

record Metrics =
  mxTurns :: "string counters"
  mxInFlight :: int
  mxDurations :: "duration list"
  mxRefusals :: "string counters"
  mxHookReceived :: nat
  mxHookOutcome :: "string counters"
  mxRestarts :: nat
  mxResumes :: "(string \<times> string) counters"
  mxStalls :: nat
  mxProbes :: "string counters"
  mxProbeOutcomes :: "ProbeOutcome counters"
  mxProbeAnswers :: "duration list"
  mxInterrupts :: "string counters"
  mxAdds :: "meterAdd list"
  mxDrainTimeouts :: nat

definition newMetrics :: Metrics where
  "newMetrics = \<lparr>mxTurns = (\<lambda>_. 0), mxInFlight = 0, mxDurations = [], mxRefusals = (\<lambda>_. 0),
     mxHookReceived = 0, mxHookOutcome = (\<lambda>_. 0), mxRestarts = 0, mxResumes = (\<lambda>_. 0),
     mxStalls = 0, mxProbes = (\<lambda>_. 0), mxProbeOutcomes = (\<lambda>_. 0), mxProbeAnswers = [],
     mxInterrupts = (\<lambda>_. 0), mxAdds = [], mxDrainTimeouts = 0\<rparr>"

section \<open>The manager\<close>

datatype State = Booting | Ready | Busy | Dead

text \<open>The timer of a turn: the turn its function was built for, and when it fires unless stopped.\<close>

record turnTimer =
  tmTurn :: string
  tmFires :: "time option"

text \<open>
  Processes and contexts are numbered. \<open>gDone\<close> records the calls of \<^verbatim>\<open>OnTurnDone\<close>, \<open>gPanicked\<close>
  the turns whose call was lost to a panicking counter, \<open>gPty\<close> the bytes written to each
  process, \<open>gFollows\<close> the \<^verbatim>\<open>Follow\<close> calls of the session's tailer with their context, and
  \<open>gDiscover\<close> the discovery goroutines that have not found a file yet.
\<close>

record Manager =
  mCfg :: Config
  mStore :: Store
  mMet :: Metrics
  mStartedAt :: time
  mHandoffAdmitted :: bool
  mW :: "nat option"
  mProc :: "nat option"
  mRing :: ringBuffer
  mStopping :: bool
  mState :: State
  mCurrent :: string
  mLastCompleted :: string
  mCurrentStarted :: time
  mCurrentSessionID :: string
  mStallSince :: time
  mTimer :: "turnTimer option"
  mTurnsCompleted :: nat
  mTurnsSucceeded :: nat
  mTranscriptPath :: string
  mRestarts :: nat
  mTailer :: "Tailer option"
  mParentDone :: bool
  mCtx :: nat
  mCtxNext :: nat
  mCancelled :: "nat set"
  mTailerStarted :: bool
  mSubagentsStarted :: bool
  mLastSubagent :: time
  mProbes :: ProbeTracker
  gDone :: "Record list"
  gPanicked :: "string list"
  gPty :: "(nat \<times> string) list"
  gFollows :: "(nat \<times> string) list"
  gDiscover :: "nat list"
  gOnRestart :: nat

definition withDefaults :: "Config \<Rightarrow> Config" where
  "withDefaults c =
     c\<lparr>cBootTimeout := (if cBootTimeout c \<le> 0 then seconds 60 else cBootTimeout c),
       cSubmitDelay := (if cSubmitDelay c \<le> 0 then millis 400 else cSubmitDelay c),
       cMaxRestarts := (if cMaxRestarts c \<le> 0 then 3 else cMaxRestarts c)\<rparr>"

definition session_New :: "Config \<Rightarrow> Store \<Rightarrow> time \<Rightarrow> Manager" where
  "session_New c st start =
     \<lparr>mCfg = withDefaults c, mStore = st, mMet = newMetrics, mStartedAt = start,
      mHandoffAdmitted = False, mW = None, mProc = None, mRing = newRing, mStopping = False,
      mState = Booting, mCurrent = [], mLastCompleted = [], mCurrentStarted = zero_time,
      mCurrentSessionID = [], mStallSince = zero_time, mTimer = None, mTurnsCompleted = 0,
      mTurnsSucceeded = 0, mTranscriptPath = [], mRestarts = 0, mTailer = None,
      mParentDone = False, mCtx = 0, mCtxNext = 0, mCancelled = {}, mTailerStarted = False,
      mSubagentsStarted = False, mLastSubagent = zero_time, mProbes = NewProbeTracker, gDone = [],
      gPanicked = [], gPty = [], gFollows = [], gDiscover = [], gOnRestart = 0\<rparr>"

datatype session_error =
    ErrBusy
  | ErrPodTTLExpired
  | ErrSessionDead
  | ErrSessionNotReady
  | ErrWritePaste
  | ErrWriteSubmit
  | ErrProbeUnavailable State
  | ErrInterruptUnavailable State
  | ErrWriteInterrupt
  | ErrNoTurn
  | ErrRecovery State
  | ErrStaleHook
  | ErrStore
  | ErrSpawn string
  | ErrShuttingDown
  | NilWriter

text \<open>\<^const>\<open>NilWriter\<close> is the panic of a write through a nil \<^verbatim>\<open>ptyWriter\<close>.\<close>

definition setMet :: "(Metrics \<Rightarrow> Metrics) \<Rightarrow> Manager \<Rightarrow> Manager" where
  "setMet f m = m\<lparr>mMet := f (mMet m)\<rparr>"

definition stopTimer :: "Manager \<Rightarrow> Manager" where
  "stopTimer m = m\<lparr>mTimer := map_option (\<lambda>t. t\<lparr>tmFires := None\<rparr>) (mTimer m)\<rparr>"

definition resetTimer :: "time \<Rightarrow> Manager \<Rightarrow> Manager" where
  "resetTimer now m =
     m\<lparr>mTimer := map_option (\<lambda>t. t\<lparr>tmFires := Some (now + cTurnTimeout (mCfg m))\<rparr>) (mTimer m)\<rparr>"

definition ptyWrite :: "nat option \<Rightarrow> string \<Rightarrow> string option \<Rightarrow> Manager \<Rightarrow> Manager" where
  "ptyWrite w s e m =
     (case (w, e) of (Some p, None) \<Rightarrow> m\<lparr>gPty := gPty m @ [(p, s)]\<rparr> | _ \<Rightarrow> m)"

definition recordProbeOutcomes :: "emission list \<Rightarrow> Manager \<Rightarrow> Manager" where
  "recordProbeOutcomes es m =
     foldl (\<lambda>m (o', lat). setMet (\<lambda>x. x\<lparr>mxProbeOutcomes := inc o' (mxProbeOutcomes x),
              mxProbeAnswers := (if o' = OutAnswered then mxProbeAnswers x @ [lat] else mxProbeAnswers x)\<rparr>) m)
       m es"

section \<open>Ending a turn\<close>

definition clearCurrentLocked :: "State \<Rightarrow> Manager \<Rightarrow> Manager" where
  "clearCurrentLocked next m =
     setMet (\<lambda>x. x\<lparr>mxInFlight := 0\<rparr>)
       (m\<lparr>mLastCompleted := mCurrent m, mCurrent := [], mTurnsCompleted := mTurnsCompleted m + 1,
          mState := next, mStallSince := zero_time\<rparr>)"

definition fireDone :: "Record option \<Rightarrow> Manager \<Rightarrow> Manager" where
  "fireDone rec m = (case rec of Some r \<Rightarrow> m\<lparr>gDone := gDone m @ [r]\<rparr> | None \<Rightarrow> m)"

definition observeTurn :: "string \<Rightarrow> duration \<Rightarrow> Manager \<Rightarrow> Manager" where
  "observeTurn label d m =
     setMet (\<lambda>x. x\<lparr>mxTurns := inc label (mxTurns x), mxDurations := mxDurations x @ [d]\<rparr>) m"

subsection \<open>Metering\<close>

text \<open>
  A JSON number as a \<^verbatim>\<open>float64\<close>, rounding left out: a number beyond the largest finite value is a
  decoding error, one below half the smallest is zero.
\<close>

definition ratOfText :: "string \<Rightarrow> rat" where
  "ratOfText t =
     (let neg = hasPrefix t ''-''; u = (if neg then tl t else t);
          ip = takeWhile isDigit u; r1 = dropWhile isDigit u;
          fp = (case r1 of c # r \<Rightarrow> if c = CHR ''.'' then takeWhile isDigit r else [] | [] \<Rightarrow> []);
          r2 = (case r1 of c # r \<Rightarrow> if c = CHR ''.'' then dropWhile isDigit r else r1 | [] \<Rightarrow> []);
          ex = (case r2 of
                  [] \<Rightarrow> 0
                | _ # r \<Rightarrow> if hasPrefix r ''-'' then - int (natOfDigits 0 (tl r))
                          else if hasPrefix r ''+'' then int (natOfDigits 0 (tl r))
                          else int (natOfDigits 0 r));
          e = ex - int (length fp);
          mant = (of_nat (natOfDigits 0 (ip @ fp)) :: rat);
          v = (if 0 \<le> e then mant * 10 ^ nat e else mant / 10 ^ nat (- e))
      in if neg then - v else v)"

definition decFloat64 :: "rat decoder" where
  "decFloat64 raw v old =
     (case v of
        JNull \<Rightarrow> Some old
      | JNum t \<Rightarrow> (let x = ratOfText t
                  in if 2 ^ 1024 - 2 ^ 970 \<le> \<bar>x\<bar> then None
                     else if \<bar>x\<bar> \<le> 1 / 2 ^ 1075 then Some 0 else Some x)
      | _ \<Rightarrow> None)"

definition turnCost :: "string \<Rightarrow> rat option" where
  "turnCost resultJSON =
     (if resultJSON = [] then None
      else (case unmarshal (decStruct [(''total_cost_usd'', decPtr 0 decFloat64)]) resultJSON None of
              None \<Rightarrow> None
            | Some c \<Rightarrow> c))"

definition tokenAdds :: "Config \<Rightarrow> TurnTokens \<Rightarrow> meterAdd list" where
  "tokenAdds c t =
     (let model = (if ttModel t = [] then ''unknown'' else ttModel t);
          add = (\<lambda>ty n. (''ccw_turn_tokens_total'', [ty, model, cKind c, cRepoName c, cProject c], of_int n))
      in [add ''input'' (ttInput t), add ''output'' (ttOutput t),
          add ''cache_read'' (ttCacheRead t), add ''cache_creation'' (ttCacheCreation t)])"

definition meterAdds :: "Config \<Rightarrow> HookResult \<Rightarrow> meterAdd list" where
  "meterAdds c r =
     concat (map (tokenAdds c) (hTurnTokens r))
     @ (case turnCost (hResultJSON r) of
          None \<Rightarrow> []
        | Some x \<Rightarrow> [(''ccw_turn_cost_usd_total'', [cKind c, cRepoName c, cProject c], x)])"

text \<open>
  \<open>addOk x\<close> says that the metrics library's \<^verbatim>\<open>Counter.Add(x)\<close> returns; otherwise it panics and the
  adds after it, and whatever the caller does next, are not reached. The second result tells
  which happened.
\<close>

definition meterTokens :: "(rat \<Rightarrow> bool) \<Rightarrow> HookResult \<Rightarrow> Manager \<Rightarrow> Manager \<times> bool" where
  "meterTokens addOk r m =
     (let adds = meterAdds (mCfg m) r; done = takeWhile (\<lambda>(_, _, x). addOk x) adds
      in (setMet (\<lambda>x. x\<lparr>mxAdds := mxAdds x @ done\<rparr>) m, length done = length adds))"

definition meterThenDone :: "(rat \<Rightarrow> bool) \<Rightarrow> HookResult \<Rightarrow> string \<Rightarrow> Manager \<Rightarrow> Manager" where
  "meterThenDone addOk r tid m =
     (let rec = store_Get tid (mStore m); (m', ok) = meterTokens addOk r m
      in if ok then fireDone rec m' else m'\<lparr>gPanicked := gPanicked m' @ [tid]\<rparr>)"

section \<open>Admission and submission\<close>

definition podDeadline :: "Manager \<Rightarrow> time" where
  "podDeadline m = (if cPodTTL (mCfg m) \<le> 0 then zero_time else mStartedAt m + cPodTTL (mCfg m))"

definition hardCap :: "Manager \<Rightarrow> time" where
  "hardCap m = podDeadline m + (2 * cTurnTimeout (mCfg m) + seconds 60)"

definition admit :: "bool \<Rightarrow> time \<Rightarrow> Manager \<Rightarrow> bool \<times> Manager" where
  "admit handoff now m =
     (if podDeadline m = zero_time then (True, m)
      else if now < podDeadline m then (True, m)
      else if handoff \<and> now < hardCap m \<and> \<not> mHandoffAdmitted m then (True, m\<lparr>mHandoffAdmitted := True\<rparr>)
      else (False, m))"

definition refuse :: "Manager \<Rightarrow> Manager" where
  "refuse m = setMet (\<lambda>x. x\<lparr>mxRefusals := inc ''pod_ttl_expired'' (mxRefusals x)\<rparr>) m"

definition reserve ::
  "string \<Rightarrow> string \<Rightarrow> string \<Rightarrow> time \<Rightarrow> Manager \<Rightarrow> (session_error + string) \<times> Manager" where
  "reserve txt url tid now m =
     (if mState m = Dead then (Inl ErrSessionDead, m)
      else if mState m = Booting then (Inl ErrSessionNotReady, m)
      else if mCurrent m \<noteq> [] then (Inl ErrBusy, m)
      else (Inr tid,
            setMet (\<lambda>x. x\<lparr>mxInFlight := 1\<rparr>)
              (m\<lparr>mStore := store_Create tid txt url now (mStore m), mCurrent := tid,
                 mCurrentStarted := now, mState := Busy\<rparr>)))"

definition failSubmitWrite :: "string \<Rightarrow> string \<Rightarrow> string \<Rightarrow> time \<Rightarrow> Manager \<Rightarrow> Manager" where
  "failSubmitWrite tid stage werr now m =
     (if mCurrent m \<noteq> tid then m
      else (case store_Fail tid (stage @ '': '' @ werr) now (mStore m) of
              Inl _ \<Rightarrow> m
            | Inr st \<Rightarrow>
                observeTurn ''failed'' (now - mCurrentStarted m)
                  (clearCurrentLocked Ready (m\<lparr>mStore := st\<rparr>))))"

definition armTimer :: "string \<Rightarrow> time \<Rightarrow> Manager \<Rightarrow> Manager" where
  "armTimer tid now m =
     m\<lparr>mTimer := Some \<lparr>tmTurn = tid, tmFires = Some (now + cTurnTimeout (mCfg m))\<rparr>,
       mStallSince := zero_time\<rparr>"

section \<open>The transcript tailer's lifecycle\<close>

definition ctxLive :: "Manager \<Rightarrow> nat \<Rightarrow> bool" where
  "ctxLive m c \<longleftrightarrow> c \<notin> mCancelled m \<and> \<not> mParentDone m"

definition StartTailer :: "bool \<Rightarrow> secretPair list \<Rightarrow> Manager \<Rightarrow> Manager" where
  "StartTailer enabled secrets m =
     (if \<not> enabled then m
      else m\<lparr>mTailer := Some (NewTailer (NewRedactor secrets) mainWiring),
             mCtx := mCtxNext m, mCtxNext := mCtxNext m + 1\<rparr>)"

definition ProjectDirName :: "string \<Rightarrow> string" where
  "ProjectDirName cwd =
     map (\<lambda>(c, _). if (97 \<le> c \<and> c \<le> 122) \<or> (65 \<le> c \<and> c \<le> 90) \<or> (48 \<le> c \<and> c \<le> 57)
                   then char_of c else CHR ''-'') (runes cwd)"

definition ensureTailerFollowing :: "Manager \<Rightarrow> Manager" where
  "ensureTailerFollowing m =
     (if mTailer m = None \<or> mTailerStarted m then m
      else if cHomeDir (mCfg m) = [] \<or> cWorkspace (mCfg m) = [] then m
      else m\<lparr>mTailerStarted := True, gDiscover := gDiscover m @ [mCtx m], mSubagentsStarted := True\<rparr>)"

text \<open>The end of a discovery goroutine: it found \<open>path\<close>, or its context ended first.\<close>

definition discovered :: "nat \<Rightarrow> string option \<Rightarrow> Manager \<Rightarrow> Manager" where
  "discovered c found m =
     (let m1 = m\<lparr>gDiscover := remove1 c (gDiscover m)\<rparr>
      in case found of
           None \<Rightarrow> m1
         | Some path \<Rightarrow>
             if mTranscriptPath m \<noteq> [] \<and> mTranscriptPath m \<noteq> path then m1
             else m1\<lparr>mTranscriptPath := path, gFollows := gFollows m1 @ [(c, path)]\<rparr>)"

definition newestFile :: "(string \<times> time option) list \<Rightarrow> string option" where
  "newestFile paths =
     (let best = foldl (\<lambda>b (p, mt). case mt of
                   None \<Rightarrow> b
                 | Some t \<Rightarrow> if fst b = [] \<or> snd b < t then (p, t) else b) ([], zero_time) paths
      in if fst best \<noteq> [] then Some (fst best) else None)"

text \<open>A poll of the transcript directory: whether the context has ended, and the glob's answer.\<close>

fun awaitTranscriptFile :: "(bool \<times> (string \<times> time option) list option) list \<Rightarrow> string option option" where
  "awaitTranscriptFile [] = None"
| "awaitTranscriptFile ((ended, glob) # polls) =
     (if ended then Some None
      else (case glob of
              None \<Rightarrow> Some None
            | Some ms \<Rightarrow> (case newestFile ms of
                 Some p \<Rightarrow> Some (Some p)
               | None \<Rightarrow> awaitTranscriptFile polls)))"

definition followHookPath :: "string \<Rightarrow> Manager \<Rightarrow> Manager" where
  "followHookPath path m =
     (if path = [] then m
      else (let prev = mTranscriptPath m; m1 = m\<lparr>mTranscriptPath := path\<rparr>
            in if mTailer m = None then m1
               else if \<not> mTailerStarted m
               then m1\<lparr>mTailerStarted := True, gFollows := gFollows m1 @ [(mCtx m, path)]\<rparr>
               else if path \<noteq> prev \<and> \<not> mParentDone m
               then m1\<lparr>mCancelled := insert (mCtx m) (mCancelled m1), mCtx := mCtxNext m,
                       mCtxNext := mCtxNext m + 1, gFollows := gFollows m1 @ [(mCtxNext m, path)]\<rparr>
               else m1))"

text \<open>
  \<^verbatim>\<open>followSubagents\<close>: the transcripts it starts a tailer on, in order. A poll says whether the context
  has ended and what the glob matched.
\<close>

fun followSubagents :: "string list \<Rightarrow> (bool \<times> string list option) list \<Rightarrow> string list" where
  "followSubagents seen [] = []"
| "followSubagents seen ((ended, glob) # polls) =
     (if ended then []
      else (case glob of
              None \<Rightarrow> []
            | Some ms \<Rightarrow>
                (let new = foldl (\<lambda>acc p. if p \<in> set (seen @ acc) then acc else acc @ [p]) [] ms
                 in new @ followSubagents (seen @ new) polls)))"

definition logTranscriptEnabled :: "string \<Rightarrow> bool" where
  "logTranscriptEnabled v \<longleftrightarrow> toLower (trimSpace v) \<noteq> ''false''"

text \<open>
  The environment as \<^verbatim>\<open>os.Environ\<close> lists it. \<^verbatim>\<open>os.LookupEnv\<close> gives the first entry of a name.
\<close>

definition toUpper :: "string \<Rightarrow> string" where
  "toUpper s = map (\<lambda>c. if 97 \<le> byte c \<and> byte c \<le> 122 then char_of (byte c - 32) else c) s"

definition splitEnv :: "string \<Rightarrow> (string \<times> string) option" where
  "splitEnv kv = map_option (\<lambda>i. (take i kv, drop (i + 1) kv)) (strIndex kv ''='')"

definition secretPatterns :: "string list" where
  "secretPatterns = [''_TOKEN'', ''_SECRET'', ''_KEY'', ''_PASSWORD'']"

definition explicitSecrets :: "string list" where
  "explicitSecrets = [''ANTHROPIC_API_KEY'', ''CLAUDE_CODE_OAUTH_TOKEN'', ''OPENAI_API_KEY'', ''GIT_TOKEN'']"

definition secretsFromEnv :: "string list \<Rightarrow> string \<Rightarrow> string option" where
  "secretsFromEnv environ =
     (let kvs = List.map_filter splitEnv environ;
          byPattern = foldl (\<lambda>out (k, v). if list_ex (hasSuffix (toUpper k)) secretPatterns
                               then out(k \<mapsto> v) else out) Map.empty kvs
      in foldl (\<lambda>out k. case map_of kvs k of Some v \<Rightarrow> out(k \<mapsto> v) | None \<Rightarrow> out) byPattern explicitSecrets)"

section \<open>Submit\<close>

definition Submit ::
  "string \<Rightarrow> string \<Rightarrow> bool \<Rightarrow> time \<Rightarrow> string \<Rightarrow> time \<Rightarrow> string option \<Rightarrow> string option \<Rightarrow> time
   \<Rightarrow> Manager \<Rightarrow> (session_error + string) \<times> Manager" where
  "Submit txt url handoff nowA tid now eP eS nowT m =
     (let (ok, m1) = admit handoff nowA m
      in if \<not> ok then (Inl ErrPodTTLExpired, refuse m1)
         else (case reserve txt url tid now m1 of
            (Inl e, m2) \<Rightarrow> (Inl e, m2)
          | (Inr i, m2) \<Rightarrow>
              if mW m2 = None then (Inl NilWriter, m2)
              else (let seq = cSubmitSeq (mCfg m2); w = mW m2;
                        m3 = ptyWrite w (PasteStart seq @ txt @ PasteEnd seq) eP m2
                    in case eP of
                         Some err \<Rightarrow> (Inl ErrWritePaste, failSubmitWrite i ''write pty paste'' err now m3)
                       | None \<Rightarrow>
                           (let m4 = ptyWrite w (SubmitKey seq) eS m3
                            in case eS of
                                 Some err \<Rightarrow> (Inl ErrWriteSubmit, failSubmitWrite i ''write pty submit'' err now m4)
                               | None \<Rightarrow> (Inr i, ensureTailerFollowing (armTimer i nowT m4))))))"

section \<open>Activity and stalls\<close>

definition currentTurnID :: "Manager \<Rightarrow> string" where
  "currentTurnID m = (if mCurrent m \<noteq> [] then mCurrent m else mLastCompleted m)"

definition onTailerActivity :: "string \<Rightarrow> bool \<Rightarrow> time \<Rightarrow> Manager \<Rightarrow> Manager" where
  "onTailerActivity tid probeOriginated now m =
     (if probeOriginated then m
      else if tid = [] \<or> tid \<noteq> mCurrent m \<or> mTimer m = None then m
      else resetTimer now
             (m\<lparr>mStore := snd (store_Touch tid now (mStore m)), mStallSince := zero_time\<rparr>))"

definition markStallSuspected :: "string \<Rightarrow> time \<Rightarrow> Manager \<Rightarrow> Manager" where
  "markStallSuspected tid now m =
     (if mCurrent m \<noteq> tid \<or> mTimer m = None then m
      else setMet (\<lambda>x. x\<lparr>mxStalls := mxStalls x + 1\<rparr>)
             (resetTimer now
               (m\<lparr>mStallSince := (if mStallSince m = zero_time then now else mStallSince m)\<rparr>)))"

definition onSubagentActivity :: "bool \<Rightarrow> time \<Rightarrow> Manager \<Rightarrow> Manager" where
  "onSubagentActivity probeOriginated now m =
     (if probeOriginated then m else m\<lparr>mLastSubagent := now\<rparr>)"

text \<open>One line of the session's own transcript: the tailer, the probe tracker, then the hook.\<close>

definition tailLine :: "(string \<Rightarrow> string) \<Rightarrow> time \<Rightarrow> string \<Rightarrow> Manager \<Rightarrow> Manager" where
  "tailLine err now raw m =
     (case mTailer m of
        None \<Rightarrow> m
      | Some t \<Rightarrow>
          (let ((t', p', es), act) = processLine err now (currentTurnID m) raw t (mProbes m);
               m1 = recordProbeOutcomes es (m\<lparr>mTailer := Some t', mProbes := p'\<rparr>)
           in case act of None \<Rightarrow> m1 | Some (i, po) \<Rightarrow> onTailerActivity i po now m1))"

section \<open>Probes\<close>

definition DefaultProbeText :: string where
  "DefaultProbeText = ''Do not stop what you are doing. Reply with exactly TATARA-ALIVE <one sentence about what you are doing right now>.''"

definition unavailable :: "Manager \<Rightarrow> bool" where
  "unavailable m \<longleftrightarrow> mW m = None \<or> mStopping m \<or> mState m = Dead \<or> mState m = Booting"

definition probeText :: "string \<Rightarrow> string" where
  "probeText txt = (if trimSpace txt = [] then DefaultProbeText else txt)"

definition probeRegister :: "string \<Rightarrow> string \<Rightarrow> time \<Rightarrow> Manager \<Rightarrow> Manager" where
  "probeRegister pid txt now m =
     (let (p, es) = probe_Register pid txt now (mProbes m) in recordProbeOutcomes es (m\<lparr>mProbes := p\<rparr>))"

definition probeFailed :: "string \<Rightarrow> Manager \<Rightarrow> Manager" where
  "probeFailed pid m =
     setMet (\<lambda>x. x\<lparr>mxProbes := inc ''write_fail'' (mxProbes x)\<rparr>)
       (m\<lparr>mProbes := probe_Discard pid (mProbes m)\<rparr>)"

definition session_Probe ::
  "string \<Rightarrow> string \<Rightarrow> time \<Rightarrow> string option \<Rightarrow> string option \<Rightarrow> Manager \<Rightarrow> (session_error + string) \<times> Manager" where
  "session_Probe txt0 pid now eP eS m =
     (let txt = probeText txt0
      in if unavailable m
         then (Inl (ErrProbeUnavailable (mState m)),
               setMet (\<lambda>x. x\<lparr>mxProbes := inc ''unavailable'' (mxProbes x)\<rparr>) m)
         else (let seq = cSubmitSeq (mCfg m); w = mW m;
                   m1 = probeRegister pid txt now m;
                   m2 = ptyWrite w (PasteStart seq @ txt @ PasteEnd seq) eP m1
               in case eP of
                    Some _ \<Rightarrow> (Inl ErrWritePaste, probeFailed pid m2)
                  | None \<Rightarrow>
                      (let m3 = ptyWrite w (SubmitKey seq) eS m2
                       in case eS of
                            Some _ \<Rightarrow> (Inl ErrWriteSubmit, probeFailed pid m3)
                          | None \<Rightarrow> (Inr pid, setMet (\<lambda>x. x\<lparr>mxProbes := inc ''ok'' (mxProbes x)\<rparr>) m3))))"

definition session_ProbeStatus :: "string \<Rightarrow> Manager \<Rightarrow> ProbeStatus option" where
  "session_ProbeStatus pid m = probe_Status pid (mProbes m)"

section \<open>Complete: the Stop hook\<close>

definition hookOutcome :: "string \<Rightarrow> Manager \<Rightarrow> Manager" where
  "hookOutcome l m = setMet (\<lambda>x. x\<lparr>mxHookOutcome := inc l (mxHookOutcome x)\<rparr>) m"

definition hookReceived :: "Manager \<Rightarrow> Manager" where
  "hookReceived m = setMet (\<lambda>x. x\<lparr>mxHookReceived := mxHookReceived x + 1\<rparr>) m"

definition noteSession :: "string \<Rightarrow> Manager \<Rightarrow> Manager" where
  "noteSession sid m = (if sid \<noteq> [] \<and> mCurrentSessionID m = [] then m\<lparr>mCurrentSessionID := sid\<rparr> else m)"

definition succeedLocked :: "Manager \<Rightarrow> Manager" where
  "succeedLocked m =
     (let m' = clearCurrentLocked Ready m
      in m'\<lparr>mTurnsSucceeded := mTurnsSucceeded m' + 1, mRestarts := 0, mCurrentSessionID := []\<rparr>)"

definition session_Complete ::
  "(rat \<Rightarrow> bool) \<Rightarrow> HookResult \<Rightarrow> time \<Rightarrow> Manager \<Rightarrow> session_error option \<times> Manager" where
  "session_Complete addOk r now m0 =
     (let m = hookReceived m0; tid = mCurrent m; started = mCurrentStarted m
      in if tid = [] then (Some ErrNoTurn, hookOutcome ''no_turn'' m)
         else if mState m = Dead \<or> mState m = Booting
         then (Some (ErrRecovery (mState m)), hookOutcome ''rejected'' m)
         else if hSessionID r \<noteq> [] \<and> mCurrentSessionID m \<noteq> [] \<and> hSessionID r \<noteq> mCurrentSessionID m
         then (Some ErrStaleHook, hookOutcome ''rejected'' m)
         else (let m2 = followHookPath (hTranscriptPath r) (stopTimer (noteSession (hSessionID r) m))
               in case store_Complete tid (hFinalText r) (hResultJSON r) (hUsage r) (hStopReason r) now (mStore m2) of
                    Inl _ \<Rightarrow> (Some ErrStore, hookOutcome ''store_error'' m2)
                  | Inr st \<Rightarrow>
                      (None, meterThenDone addOk r tid
                               (observeTurn ''complete'' (now - started)
                                 (hookOutcome ''ok'' (succeedLocked (m2\<lparr>mStore := st\<rparr>)))))))"

section \<open>Interrupt\<close>

definition InterruptSeq :: string where "InterruptSeq = [ESC]"

definition session_Interrupt :: "string option \<Rightarrow> Manager \<Rightarrow> (session_error + string) \<times> Manager" where
  "session_Interrupt e m =
     (let label = (\<lambda>l. setMet (\<lambda>x. x\<lparr>mxInterrupts := inc l (mxInterrupts x)\<rparr>))
      in if unavailable m then (Inl (ErrInterruptUnavailable (mState m)), label ''unavailable'' m)
         else (let m1 = ptyWrite (mW m) InterruptSeq e m
               in case e of
                    Some _ \<Rightarrow> (Inl ErrWriteInterrupt, label ''write_fail'' m1)
                  | None \<Rightarrow> (Inr (mCurrent m), label ''ok'' m1)))"

definition tokensOrNone :: "filesystem \<Rightarrow> string \<Rightarrow> TurnTokens list" where
  "tokensOrNone fs path = (case SumTurnTokens fs path of Inr tt \<Rightarrow> tt | Inl _ \<Rightarrow> [])"

definition meterOnly :: "string \<Rightarrow> TurnTokens list \<Rightarrow> HookResult" where
  "meterOnly usage tokens = \<lparr>hSessionID = [], hFinalText = [], hResultJSON = [], hUsage = usage,
     hStopReason = [], hTranscriptPath = [], hTurnTokens = tokens\<rparr>"

definition completeAfterInterrupt ::
  "(rat \<Rightarrow> bool) \<Rightarrow> filesystem \<Rightarrow> string \<Rightarrow> string \<Rightarrow> time \<Rightarrow> Manager \<Rightarrow> Manager" where
  "completeAfterInterrupt addOk fs tid path now m =
     (let (finalText, usage, _) = (case LastAssistant fs path of Inr la \<Rightarrow> la | Inl _ \<Rightarrow> ([], [], []));
          tokens = tokensOrNone fs path
      in if mCurrent m \<noteq> tid then m
         else (let m1 = stopTimer m
               in case store_Interrupt tid finalText usage now (mStore m1) of
                    Inl _ \<Rightarrow> m1
                  | Inr st \<Rightarrow>
                      (let m2 = (clearCurrentLocked Ready (m1\<lparr>mStore := st\<rparr>))\<lparr>mCurrentSessionID := []\<rparr>;
                           m3 = observeTurn ''interrupted'' (now - mCurrentStarted m) m2
                       in meterThenDone addOk (meterOnly usage tokens) tid m3)))"

definition interruptSettleTimeout :: duration where "interruptSettleTimeout = seconds 30"

text \<open>
  The loop of \<^verbatim>\<open>awaitInterruptedTurn\<close>, one element per round: the manager's fields it reads under
  the lock, what the transcript says, and the time.
\<close>

record interruptPoll =
  ipCurrent :: string
  ipPath :: string
  ipStopping :: bool
  ipFS :: filesystem
  ipNow :: time

datatype interruptEnd = IGone | IMarked string | IUnconfirmed | IPolling

fun awaitInterruptedTurn :: "string \<Rightarrow> time \<Rightarrow> interruptPoll list \<Rightarrow> interruptEnd" where
  "awaitInterruptedTurn tid deadline [] = IPolling"
| "awaitInterruptedTurn tid deadline (p # ps) =
     (if ipStopping p \<or> ipCurrent p \<noteq> tid then IGone
      else if ipPath p \<noteq> [] \<and> WasInterrupted (ipFS p) (ipPath p) then IMarked (ipPath p)
      else if \<not> ipNow p < deadline then IUnconfirmed
      else awaitInterruptedTurn tid deadline ps)"

section \<open>Crash recovery\<close>

definition failTurn :: "string \<Rightarrow> string \<Rightarrow> time \<Rightarrow> Manager \<Rightarrow> Manager" where
  "failTurn tid reason now m =
     (if mCurrent m \<noteq> tid then m
      else (let m1 = stopTimer m
            in case store_Fail tid reason now (mStore m1) of
                 Inl _ \<Rightarrow> m1
               | Inr st \<Rightarrow>
                   (let m2 = (clearCurrentLocked Dead (m1\<lparr>mStore := st\<rparr>))\<lparr>mCurrentSessionID := []\<rparr>;
                        m3 = observeTurn ''failed'' (now - mCurrentStarted m) m2
                    in fireDone (store_Get tid (mStore m3)) m3)))"

definition completeFromTranscript ::
  "(rat \<Rightarrow> bool) \<Rightarrow> filesystem \<Rightarrow> string \<Rightarrow> time \<Rightarrow> string \<Rightarrow> string \<Rightarrow> string \<Rightarrow> string \<Rightarrow> time \<Rightarrow> Manager \<Rightarrow> Manager" where
  "completeFromTranscript addOk fs tid started path finalText usage stopReason now m =
     (let tokens = tokensOrNone fs path
      in if mCurrent m \<noteq> tid then m
         else (let m1 = stopTimer m
               in case store_Complete tid finalText [] usage stopReason now (mStore m1) of
                    Inl _ \<Rightarrow> m1
                  | Inr st \<Rightarrow>
                      (let m4 = observeTurn ''complete'' (now - started) (succeedLocked (m1\<lparr>mStore := st\<rparr>));
                           rec = store_Get tid (mStore m4);
                           (m5, ok) = meterTokens addOk (meterOnly usage tokens) m4
                       in if ok
                          then fireDone rec (setMet (\<lambda>x. x\<lparr>mxResumes :=
                                 inc (''ok'', ''complete_from_transcript'') (mxResumes x)\<rparr>) m5)
                          else m5\<lparr>gPanicked := gPanicked m5 @ [tid]\<rparr>)))"

definition resumeMetric :: "string \<Rightarrow> string \<Rightarrow> Manager \<Rightarrow> Manager" where
  "resumeMetric res mode m = setMet (\<lambda>x. x\<lparr>mxResumes := inc (res, mode) (mxResumes x)\<rparr>) m"

definition installResumeTimer :: "string \<Rightarrow> string \<Rightarrow> time \<Rightarrow> Manager \<Rightarrow> Manager" where
  "installResumeTimer tid mode now m =
     (if mCurrent m \<noteq> tid then m
      else resumeMetric ''ok'' mode ((armTimer tid now m)\<lparr>mState := Busy\<rparr>))"

definition nudge :: "string \<Rightarrow> nat option \<Rightarrow> string option \<Rightarrow> time \<Rightarrow> Manager \<Rightarrow> Manager" where
  "nudge tid w e now m =
     (let m1 = ptyWrite w (SubmitKey (cSubmitSeq (mCfg m))) e m
      in case e of
           Some err \<Rightarrow> failTurn tid (''resume write submit: '' @ err) now (resumeMetric ''write_fail'' ''nudge'' m1)
         | None \<Rightarrow> installResumeTimer tid ''nudge'' now m1)"

definition resubmitOriginalPrompt ::
  "string \<Rightarrow> nat option \<Rightarrow> string option \<Rightarrow> string option \<Rightarrow> time \<Rightarrow> Manager \<Rightarrow> Manager" where
  "resubmitOriginalPrompt tid w eP eS now m =
     (case store_Get tid (mStore m) of
        None \<Rightarrow> nudge tid w eS now m
      | Some rec \<Rightarrow>
          if rText rec = [] then nudge tid w eS now m
          else (let seq = cSubmitSeq (mCfg m);
                    m1 = ptyWrite w (PasteStart seq @ rText rec @ PasteEnd seq) eP m
                in case eP of
                     Some err \<Rightarrow> failTurn tid (''resume write paste: '' @ err) now (resumeMetric ''write_fail'' ''resubmit'' m1)
                   | None \<Rightarrow>
                       (let m2 = ptyWrite w (SubmitKey seq) eS m1
                        in case eS of
                             Some err \<Rightarrow> failTurn tid (''resume write submit: '' @ err) now (resumeMetric ''write_fail'' ''resubmit'' m2)
                           | None \<Rightarrow> installResumeTimer tid ''resubmit'' now m2)))"

text \<open>What the restored transcript says: the finished turn's result, or nothing to complete from.\<close>

definition finishedInTranscript :: "filesystem \<Rightarrow> string \<Rightarrow> lastAssistant option" where
  "finishedInTranscript fs path =
     (if path = [] then None
      else (case LastMessage fs path of
              Inl _ \<Rightarrow> None
            | Inr (role, stop) \<Rightarrow>
                if role = ''assistant'' \<and> stop \<noteq> [] \<and> stop \<noteq> ''tool_use''
                then (case LastAssistant fs path of Inr la \<Rightarrow> Some la | Inl _ \<Rightarrow> None)
                else None))"

definition resumeTurn ::
  "(rat \<Rightarrow> bool) \<Rightarrow> filesystem \<Rightarrow> string \<Rightarrow> bool \<Rightarrow> string option \<Rightarrow> string option \<Rightarrow> time \<Rightarrow> Manager \<Rightarrow> Manager" where
  "resumeTurn addOk fs tid resumed eP eS now m =
     (if mCurrent m \<noteq> tid \<or> mState m \<noteq> Ready then m
      else if mW m = None then m
      else if \<not> resumed then resubmitOriginalPrompt tid (mW m) eP eS now m
      else (case finishedInTranscript fs (mTranscriptPath m) of
              Some (finalText, usage, sr) \<Rightarrow>
                completeFromTranscript addOk fs tid (mCurrentStarted m) (mTranscriptPath m) finalText usage sr now m
            | None \<Rightarrow> nudge tid (mW m) eS now m))"

text \<open>
  \<^verbatim>\<open>transcriptExistsOnDisk\<close>: \<open>jsonl\<close> is the number of matches of the transcript directory's glob,
  \<^const>\<open>None\<close> when the glob fails.
\<close>

definition transcriptExistsOnDisk :: "nat option \<Rightarrow> Manager \<Rightarrow> bool" where
  "transcriptExistsOnDisk jsonl m =
     (if cHomeDir (mCfg m) = [] \<or> cWorkspace (mCfg m) = [] then False
      else (case jsonl of None \<Rightarrow> False | Some n \<Rightarrow> n \<noteq> 0))"

definition shouldResume :: "nat option \<Rightarrow> Manager \<Rightarrow> bool" where
  "shouldResume jsonl m =
     (if 0 < mTurnsCompleted m \<or> mTranscriptPath m \<noteq> [] then True else transcriptExistsOnDisk jsonl m)"

text \<open>The first critical section of \<^verbatim>\<open>watch\<close>, after the process has exited and no shutdown is on.\<close>

definition watchExit :: "Manager \<Rightarrow> Manager" where
  "watchExit m =
     (if mStopping m then m\<lparr>mState := Dead\<rparr>
      else (stopTimer m)\<lparr>mRestarts := mRestarts m + 1, mState := Dead\<rparr>)"

definition installProc :: "nat \<Rightarrow> Manager \<Rightarrow> Manager" where
  "installProc p m = m\<lparr>mProc := Some p, mW := Some p\<rparr>"

text \<open>\<open>spawned\<close> is the new process or the text of the spawn error.\<close>

definition relaunchInstall :: "string + nat \<Rightarrow> Manager \<Rightarrow> session_error option \<times> Manager" where
  "relaunchInstall spawned m =
     (case spawned of
        Inl e \<Rightarrow> (Some (ErrSpawn e), m)
      | Inr p \<Rightarrow>
          if mStopping m then (Some ErrShuttingDown, m)
          else (None, (installProc p m)\<lparr>mState := Booting, mRing := ring_reset (mRing m)\<rparr>))"

definition bootReady :: "nat \<Rightarrow> Manager \<Rightarrow> Manager" where
  "bootReady p m = (if mState m = Booting \<and> mProc m = Some p then m\<lparr>mState := Ready\<rparr> else m)"

definition onRestart :: "bool \<Rightarrow> Manager \<Rightarrow> Manager" where
  "onRestart resume m = (if resume then m\<lparr>gOnRestart := gOnRestart m + 1\<rparr> else m)"

definition relaunchReason :: "session_error \<Rightarrow> string" where
  "relaunchReason e = ''claude relaunch failed: ''
     @ (case e of ErrSpawn t \<Rightarrow> t | _ \<Rightarrow> ''session is shutting down'')"

definition budgetReason :: "(int \<Rightarrow> string) \<Rightarrow> Manager \<Rightarrow> string" where
  "budgetReason showInt m =
     ''claude died; restart budget ('' @ showInt (cMaxRestarts (mCfg m)) @ '') exhausted''"

text \<open>
  \<^verbatim>\<open>watch\<close> from the exit of a process to the end of its recovery, with nothing else running in
  between; \<open>boots\<close> says whether \<^verbatim>\<open>bootWait\<close> ends by marking the session ready.
\<close>

definition watch ::
  "(rat \<Rightarrow> bool) \<Rightarrow> (int \<Rightarrow> string) \<Rightarrow> filesystem \<Rightarrow> nat option \<Rightarrow> string + nat \<Rightarrow> bool \<Rightarrow>
   string option \<Rightarrow> string option \<Rightarrow> time \<Rightarrow> Manager \<Rightarrow> Manager" where
  "watch addOk showInt fs jsonl spawned boots eP eS now m =
     (if mStopping m then watchExit m
      else (let inFlight = mCurrent m; m1 = watchExit m
            in if cMaxRestarts (mCfg m) < int (mRestarts m1)
               then (if inFlight \<noteq> [] then failTurn inFlight (budgetReason showInt m1) now m1 else m1)
               else (let m2 = setMet (\<lambda>x. x\<lparr>mxRestarts := mxRestarts x + 1\<rparr>) m1;
                         resume = shouldResume jsonl m2
                     in case relaunchInstall spawned m2 of
                          (Some e, m3) \<Rightarrow>
                            (let m4 = m3\<lparr>mState := Dead\<rparr>
                             in if inFlight \<noteq> [] then failTurn inFlight (relaunchReason e) now m4 else m4)
                        | (None, m3) \<Rightarrow>
                            (let m4 = (if boots then bootReady (the (mProc m3)) m3 else m3);
                                 m5 = onRestart resume m4
                             in if inFlight \<noteq> [] then resumeTurn addOk fs inFlight resume eP eS now m5 else m5))))"

section \<open>Boot\<close>

definition minBoot :: duration where "minBoot = seconds 4"
definition idleReady :: duration where "idleReady = millis 1500"

text \<open>One round of \<^verbatim>\<open>bootWait\<close>'s loop: what it reads of the manager, the context, the ring and the clock.\<close>

record bootPoll =
  bpGone :: bool
  bpCtxDone :: bool
  bpNow :: time
  bpRing :: ringBuffer

datatype bootEnd = BootAborted | BootSettled bool | BootPolling

fun bootWait ::
  "time \<Rightarrow> time \<Rightarrow> nat \<Rightarrow> time \<Rightarrow> bool \<Rightarrow> bootPoll list \<Rightarrow> string list \<times> bootEnd" where
  "bootWait start deadline lastWritten lastChange accepted [] = ([], BootPolling)"
| "bootWait start deadline lastWritten lastChange accepted (b # bs) =
     (if bpGone b \<or> bpCtxDone b then ([], BootAborted)
      else if \<not> bpNow b < deadline then ([], BootSettled accepted)
      else if \<not> accepted \<and> ring_contains ''Bypass Permissions mode'' (bpRing b) then
        (let (ws, e) = bootWait start deadline lastWritten lastChange True bs
         in ((ESC # ''[B'') # [CHR 0x0D] # ws, e))
      else
        (let w = ring_written (bpRing b);
             (lw, lc) = (if w \<noteq> lastWritten then (w, bpNow b) else (lastWritten, lastChange))
         in if minBoot \<le> bpNow b - start \<and> idleReady \<le> bpNow b - lc then ([], BootSettled accepted)
            else bootWait start deadline lw lc accepted bs))"

section \<open>Reading the manager, and shutdown\<close>

record Snapshot =
  snState :: State
  snTurnsCompleted :: nat
  snTurnsFinished :: nat
  snModel :: string
  snRepo :: string
  snLastActivityAt :: time
  snContractVersion :: nat
  snLastSubagentActivityAt :: time
  snOutstandingSubagentCalls :: int
  snProbePendingSince :: time
  snStallSuspectedSince :: time

definition ContractVersion :: nat where "ContractVersion = 4"

definition session_Snapshot :: "Manager \<Rightarrow> Snapshot" where
  "session_Snapshot m =
     \<lparr>snState = mState m, snTurnsCompleted = mTurnsSucceeded m, snTurnsFinished = mTurnsCompleted m,
      snModel = cModel (mCfg m), snRepo = cRepo (mCfg m),
      snLastActivityAt =
        (if mCurrent m \<noteq> []
         then (case store_Get (mCurrent m) (mStore m) of Some r \<Rightarrow> rLastActivityAt r | None \<Rightarrow> zero_time)
         else zero_time),
      snContractVersion = ContractVersion,
      snLastSubagentActivityAt = mLastSubagent m,
      snOutstandingSubagentCalls =
        (case mTailer m of Some t \<Rightarrow> OutstandingTaskCalls t | None \<Rightarrow> 0),
      snProbePendingSince =
        (case probe_PendingSince (mProbes m) of Some t \<Rightarrow> t | None \<Rightarrow> zero_time),
      snStallSuspectedSince = mStallSince m\<rparr>"

definition Alive :: "Manager \<Rightarrow> bool" where
  "Alive m \<longleftrightarrow> mState m \<noteq> Dead \<and> mState m \<noteq> Booting"

text \<open>
  \<open>caughtUp\<close> is \<^const>\<open>None\<close> when the transcript cannot be stat'ed, and otherwise what
  \<^verbatim>\<open>CaughtUpTo\<close> answered.
\<close>

definition session_DrainInternalIssues ::
  "bool option \<Rightarrow> string \<Rightarrow> Manager \<Rightarrow> InternalIssueReport list \<times> Manager" where
  "session_DrainInternalIssues caughtUp turnID m =
     (case mTailer m of
        None \<Rightarrow> ([], m)
      | Some t \<Rightarrow>
          (let m1 = (if caughtUp = Some False
                     then setMet (\<lambda>x. x\<lparr>mxDrainTimeouts := mxDrainTimeouts x + 1\<rparr>) m else m);
               (out, t') = tailer_DrainInternalIssues turnID t
           in (out, m1\<lparr>mTailer := Some t'\<rparr>)))"

definition session_Shutdown :: "string option \<Rightarrow> Manager \<Rightarrow> Manager" where
  "session_Shutdown eCtrlC m =
     (let m1 = m\<lparr>mStopping := True, mState := Dead,
                 mCancelled := (if mTailer m = None then mCancelled m else insert (mCtx m) (mCancelled m))\<rparr>;
          (p, es) = probe_Finalize (mProbes m1);
          m2 = recordProbeOutcomes es (m1\<lparr>mProbes := p\<rparr>)
      in ptyWrite (mW m) [CHR 0x03] eCtrlC m2)"

end
