(* ===== verification/SessionInv.thy ===== *)
theory SessionInv
  imports Session
begin

text \<open>
  The manager under every interleaving of its goroutines. A critical section may run in any state
  its goroutine can meet, so each is an event that is enabled nearly everywhere; the guards are
  the ones the callers establish (a fresh turn id, a discovery goroutine that exists). What the
  sections preserve is proved per section and lifted to all reachable states by rule induction.
\<close>

section \<open>Events\<close>

datatype mevent =
    EStartTailer bool "secretPair list"
  | EStart nat
  | ERead string
  | EBootReady nat
  | EAdmit bool time
  | EReserve string string string time
  | EWrite "nat option" string "string option"
  | EFailSubmit string bool string time
  | EArm string time
  | EEnsureTailer
  | EDiscovered nat "string option"
  | ELine string time
  | EActivity string bool time
  | EStall string time
  | ESubagent bool time
  | EProbe string string time
  | EProbeFailed string
  | EComplete HookResult time
  | EAfterInterrupt filesystem string string time
  | EWatchExit
  | ERelaunch "string + nat"
  | EMarkDead
  | EFailTurn string string time
  | EFromTranscript filesystem string time string string string string time
  | EResumeTimer string string time
  | ERestartHook bool
  | EDrain "bool option" string
  | EParentDone
  | EShutdown "string option"

definition submitStage :: "bool \<Rightarrow> string" where
  "submitStage paste = (if paste then ''write pty paste'' else ''write pty submit'')"

fun exec :: "(rat \<Rightarrow> bool) \<Rightarrow> (string \<Rightarrow> string) \<Rightarrow> mevent \<Rightarrow> Manager \<Rightarrow> Manager" where
  "exec addOk err (EStartTailer on secrets) m = StartTailer on secrets m"
| "exec addOk err (EStart p) m = installProc p m"
| "exec addOk err (ERead bs) m = m\<lparr>mRing := ring_Write bs (mRing m)\<rparr>"
| "exec addOk err (EBootReady p) m = bootReady p m"
| "exec addOk err (EAdmit h now) m = (let (ok, m') = admit h now m in if ok then m' else refuse m')"
| "exec addOk err (EReserve txt url tid now) m = snd (reserve txt url tid now m)"
| "exec addOk err (EWrite w s e) m = ptyWrite w s e m"
| "exec addOk err (EFailSubmit tid paste werr now) m = failSubmitWrite tid (submitStage paste) werr now m"
| "exec addOk err (EArm tid now) m = armTimer tid now m"
| "exec addOk err EEnsureTailer m = ensureTailerFollowing m"
| "exec addOk err (EDiscovered c found) m = discovered c found m"
| "exec addOk err (ELine raw now) m = tailLine err now raw m"
| "exec addOk err (EActivity tid po now) m = onTailerActivity tid po now m"
| "exec addOk err (EStall tid now) m = markStallSuspected tid now m"
| "exec addOk err (ESubagent po now) m = onSubagentActivity po now m"
| "exec addOk err (EProbe pid txt now) m = probeRegister pid txt now m"
| "exec addOk err (EProbeFailed pid) m = probeFailed pid m"
| "exec addOk err (EComplete r now) m = snd (session_Complete addOk r now m)"
| "exec addOk err (EAfterInterrupt fs tid path now) m = completeAfterInterrupt addOk fs tid path now m"
| "exec addOk err EWatchExit m = watchExit m"
| "exec addOk err (ERelaunch sp) m = snd (relaunchInstall sp m)"
| "exec addOk err EMarkDead m = m\<lparr>mState := Dead\<rparr>"
| "exec addOk err (EFailTurn tid reason now) m = failTurn tid reason now m"
| "exec addOk err (EFromTranscript fs tid started path ft us sr now) m =
     completeFromTranscript addOk fs tid started path ft us sr now m"
| "exec addOk err (EResumeTimer tid mode now) m = installResumeTimer tid mode now m"
| "exec addOk err (ERestartHook b) m = onRestart b m"
| "exec addOk err (EDrain c tid) m = snd (session_DrainInternalIssues c tid m)"
| "exec addOk err EParentDone m = m\<lparr>mParentDone := True\<rparr>"
| "exec addOk err (EShutdown e) m = session_Shutdown e m"

fun enabled :: "mevent \<Rightarrow> Manager \<Rightarrow> bool" where
  "enabled (EStartTailer _ _) m = (mTailer m = None)"
| "enabled (EReserve _ _ tid _) m = (tid \<noteq> [] \<and> byID (mStore m) tid = None)"
| "enabled (EFailSubmit tid _ _ _) m = (tid \<noteq> [])"
| "enabled (EDiscovered c _) m = (c \<in> set (gDiscover m))"
| "enabled (EStall tid _) m = (tid \<noteq> [])"
| "enabled (EAfterInterrupt _ tid _ _) m = (tid \<noteq> [])"
| "enabled (EFailTurn tid _ _) m = (tid \<noteq> [])"
| "enabled (EFromTranscript _ tid _ _ _ _ _ _) m = (tid \<noteq> [])"
| "enabled (EResumeTimer tid _ _) m = (tid \<noteq> [])"
| "enabled _ m = True"

inductive mstep :: "(rat \<Rightarrow> bool) \<Rightarrow> (string \<Rightarrow> string) \<Rightarrow> Manager \<Rightarrow> mevent \<Rightarrow> Manager \<Rightarrow> bool"
  for addOk err where
  step: "enabled ev m \<Longrightarrow> mstep addOk err m ev (exec addOk err ev m)"

inductive reachable :: "(rat \<Rightarrow> bool) \<Rightarrow> (string \<Rightarrow> string) \<Rightarrow> Manager \<Rightarrow> bool"
  for addOk err where
  init: "reachable addOk err (session_New c NewStore start)"
| after: "reachable addOk err m \<Longrightarrow> mstep addOk err m ev m' \<Longrightarrow> reachable addOk err m'"

inductive_simps mstep_iff: "mstep addOk err m ev m'"
inductive_cases mstepE: "mstep addOk err m ev m'"

text \<open>Runs of concrete events, for evaluation.\<close>

fun runEvents :: "(rat \<Rightarrow> bool) \<Rightarrow> (string \<Rightarrow> string) \<Rightarrow> mevent list \<Rightarrow> Manager \<Rightarrow> Manager option" where
  "runEvents addOk err [] m = Some m"
| "runEvents addOk err (ev # evs) m =
     (if enabled ev m then runEvents addOk err evs (exec addOk err ev m) else None)"

lemma reachable_run:
  "reachable addOk err m \<Longrightarrow> runEvents addOk err evs m = Some m' \<Longrightarrow> reachable addOk err m'"
  by (induction evs arbitrary: m) (auto split: if_splits intro: reachable.after mstep.step)

lemma reachable_induct_inv:
  assumes "reachable addOk err m"
    and "\<And>c start. P (session_New c NewStore start)"
    and "\<And>m ev. reachable addOk err m \<Longrightarrow> P m \<Longrightarrow> enabled ev m \<Longrightarrow> P (exec addOk err ev m)"
  shows "P m"
  using assms(1) by induction (auto simp: mstep_iff assms(2,3))

section \<open>What a section leaves alone\<close>

text \<open>The fields the turn slot consists of.\<close>

definition core :: "Manager \<Rightarrow> Store \<times> string \<times> nat \<times> nat \<times> int \<times> string" where
  "core m = (mStore m, mCurrent m, mTurnsCompleted m, mTurnsSucceeded m, mxInFlight (mMet m),
             mCurrentSessionID m)"

lemma coreD:
  assumes "core m = core m'"
  shows "mStore m = mStore m'" "mCurrent m = mCurrent m'" "mTurnsCompleted m = mTurnsCompleted m'"
    "mTurnsSucceeded m = mTurnsSucceeded m'" "mxInFlight (mMet m) = mxInFlight (mMet m')"
    "mCurrentSessionID m = mCurrentSessionID m'"
  using assms by (auto simp: core_def)

lemma recordProbeOutcomes_eq:
  "\<exists>x. recordProbeOutcomes es m = m\<lparr>mMet := x\<rparr> \<and> mxInFlight x = mxInFlight (mMet m)"
proof (induction es arbitrary: m)
  case Nil
  have "recordProbeOutcomes [] m = m\<lparr>mMet := mMet m\<rparr>" by (simp add: recordProbeOutcomes_def)
  then show ?case by blast
next
  case (Cons e es)
  obtain o' lat where e: "e = (o', lat)" by (cases e)
  let ?m = "setMet (\<lambda>x. x\<lparr>mxProbeOutcomes := inc o' (mxProbeOutcomes x),
      mxProbeAnswers := (if o' = OutAnswered then mxProbeAnswers x @ [lat] else mxProbeAnswers x)\<rparr>) m"
  have "recordProbeOutcomes (e # es) m = recordProbeOutcomes es ?m"
    by (simp add: recordProbeOutcomes_def e)
  with Cons.IH [of ?m] show ?case by (auto simp: setMet_def)
qed

lemma recordProbeOutcomes_frame [frame]:
  "core (recordProbeOutcomes es m) = core m"
  "mState (recordProbeOutcomes es m) = mState m"
  "mW (recordProbeOutcomes es m) = mW m"
  "mProc (recordProbeOutcomes es m) = mProc m"
  "mTimer (recordProbeOutcomes es m) = mTimer m"
  "mStallSince (recordProbeOutcomes es m) = mStallSince m"
  "mStopping (recordProbeOutcomes es m) = mStopping m"
  "mCfg (recordProbeOutcomes es m) = mCfg m"
  "mTailer (recordProbeOutcomes es m) = mTailer m"
  "mTailerStarted (recordProbeOutcomes es m) = mTailerStarted m"
  "mCtx (recordProbeOutcomes es m) = mCtx m"
  "mCtxNext (recordProbeOutcomes es m) = mCtxNext m"
  "mCancelled (recordProbeOutcomes es m) = mCancelled m"
  "mParentDone (recordProbeOutcomes es m) = mParentDone m"
  "gDone (recordProbeOutcomes es m) = gDone m"
  "gPanicked (recordProbeOutcomes es m) = gPanicked m"
  "gFollows (recordProbeOutcomes es m) = gFollows m"
  "gDiscover (recordProbeOutcomes es m) = gDiscover m"
  "mCurrent (recordProbeOutcomes es m) = mCurrent m"
  "mStore (recordProbeOutcomes es m) = mStore m"
  using recordProbeOutcomes_eq [of es m] by (auto simp: core_def)

lemmas section_defs =
  setMet_def StartTailer_def installProc_def bootReady_def admit_def refuse_def ptyWrite_def
  armTimer_def ensureTailerFollowing_def discovered_def resetTimer_def stopTimer_def
  markStallSuspected_def onSubagentActivity_def probeFailed_def watchExit_def relaunchInstall_def
  installResumeTimer_def resumeMetric_def onRestart_def hookOutcome_def

section \<open>The turn slot\<close>

text \<open>
  A record is running exactly when it is the current turn; the two turn counters count the
  terminal and the completed records; the gauge says whether there is a current turn; and no
  session id outlives the section that recorded it.
\<close>

definition core_inv :: "Manager \<Rightarrow> bool" where
  "core_inv m \<longleftrightarrow>
     wf_store (mStore m)
     \<and> (\<forall>i. recState (mStore m) i = Some Running \<longleftrightarrow> mCurrent m \<noteq> [] \<and> i = mCurrent m)
     \<and> mTurnsCompleted m = nTerminal (mStore m) \<and> mTurnsSucceeded m = nComplete (mStore m)
     \<and> mxInFlight (mMet m) = (if mCurrent m = [] then 0 else 1)
     \<and> mCurrentSessionID m = []"

lemma core_inv_frame: "core m' = core m \<Longrightarrow> core_inv m \<Longrightarrow> core_inv m'"
  using coreD [of m' m] by (simp add: core_inv_def)

lemma core_inv_New: "core_inv (session_New c NewStore start)"
  by (simp add: core_inv_def session_New_def newMetrics_def recState_def nTerminal_def nComplete_def)
    (simp add: NewStore_def)

text \<open>The shape every terminal section has on the slot.\<close>

lemma core_inv_resolved:
  assumes inv: "core_inv m" and cur: "mCurrent m = tid" "tid \<noteq> []"
    and fin: "turn_finisher fin out" "fin tid now (mStore m) = Inr st"
    and res: "core m' = (st, [], mTurnsCompleted m + 1,
                mTurnsSucceeded m + (if out = Complete then 1 else 0), 0, [])"
  shows "core_inv m'"
proof -
  note F = turn_finisher.finish_wf [OF fin(1) _ fin(2)]
    turn_finisher.finish_counts [OF fin(1) _ _ fin(2)]
    turn_finisher.finish_recState [OF fin]
    turn_finisher.outcome_terminal [OF fin(1)]
  have run: "recState (mStore m) tid = Some Running" "wf_store (mStore m)"
    using inv cur unfolding core_inv_def by auto
  have only: "recState (mStore m) i \<noteq> Some Running" if "i \<noteq> tid" for i
    using inv cur that unfolding core_inv_def by auto
  from res have m': "mStore m' = st" "mCurrent m' = []" "mTurnsCompleted m' = mTurnsCompleted m + 1"
    "mTurnsSucceeded m' = mTurnsSucceeded m + (if out = Complete then 1 else 0)"
    "mxInFlight (mMet m') = 0" "mCurrentSessionID m' = []"
    by (auto simp: core_def)
  show ?thesis
    using inv F(1) [OF run(2)] F(2,3) [OF run(2,1)] F(4,5) only
    unfolding core_inv_def m' by auto
qed

lemma core_reserve:
  assumes "core_inv m" "tid \<noteq> []" "byID (mStore m) tid = None"
  shows "core_inv (snd (reserve txt url tid now m))"
proof (cases "mState m = Dead \<or> mState m = Booting \<or> mCurrent m \<noteq> []")
  case True
  with assms show ?thesis by (auto simp: reserve_def)
next
  case False
  have rs: "recState (store_Create tid txt url now (mStore m)) i
      = (if i = tid then Some Running else recState (mStore m) i)" for i
    by (simp add: recState_def turn_simps)
  have idle: "recState (mStore m) i \<noteq> Some Running" for i
    using assms(1) False unfolding core_inv_def by auto
  have wf: "wf_store (mStore m)" using assms(1) by (simp add: core_inv_def)
  show ?thesis
    using False assms(1) wf_store_Create [OF wf assms(2,3)] counts_Create [OF wf assms(3)] rs idle assms(2)
    by (simp add: reserve_def core_inv_def setMet_def)
qed

lemma core_touch:
  assumes "core_inv m" "mStore m' = snd (store_Touch tid now (mStore m))"
    "mCurrent m' = mCurrent m" "mTurnsCompleted m' = mTurnsCompleted m"
    "mTurnsSucceeded m' = mTurnsSucceeded m" "mxInFlight (mMet m') = mxInFlight (mMet m)"
    "mCurrentSessionID m' = mCurrentSessionID m"
  shows "core_inv m'"
  using assms wf_store_Touch [of "mStore m" tid now] by (simp add: core_inv_def)

lemma core_frame [frame]:
  "core (setMet (mxAdds_update f) m) = core m"
  "core (setMet (mxHookReceived_update f2) m) = core m"
  "core (StartTailer on secrets m) = core m"
  "core (installProc p m) = core m"
  "core (bootReady p m) = core m"
  "core (snd (admit h now m)) = core m"
  "core (refuse m) = core m"
  "core (ptyWrite w s e m) = core m"
  "core (armTimer tid now m) = core m"
  "core (ensureTailerFollowing m) = core m"
  "core (discovered c found m) = core m"
  "core (resetTimer now m) = core m"
  "core (stopTimer m) = core m"
  "core (markStallSuspected tid now m) = core m"
  "core (onSubagentActivity po now m) = core m"
  "core (probeFailed pid m) = core m"
  "core (watchExit m) = core m"
  "core (snd (relaunchInstall sp m)) = core m"
  "core (installResumeTimer tid mode now m) = core m"
  "core (resumeMetric r mode m) = core m"
  "core (onRestart b m) = core m"
  "core (hookOutcome l m) = core m"
  "core (followHookPath path m) = core m"
  "core (fireDone rr m) = core m"
  by (simp_all add: core_def section_defs followHookPath_def fireDone_def Let_def
      split: option.split sum.split)

lemma core_meterThenDone [frame]: "core (meterThenDone addOk r tid m) = core m"
  by (simp add: meterThenDone_def meterTokens_def Let_def fireDone_def core_def setMet_def
      split: option.split)

lemma core_observe [frame]: "core (observeTurn l d m) = core m"
  by (simp add: observeTurn_def core_def setMet_def)

lemma core_cleared:
  "core ((clearCurrentLocked next (m\<lparr>mStore := st\<rparr>))) =
   (st, [], mTurnsCompleted m + 1, mTurnsSucceeded m, 0, mCurrentSessionID m)"
  by (simp add: core_def clearCurrentLocked_def setMet_def)

lemma core_inv_failSubmit:
  assumes "core_inv m" "tid \<noteq> []"
  shows "core_inv (failSubmitWrite tid stage werr now m)"
proof (cases "mCurrent m = tid \<and> byID (mStore m) tid \<noteq> None")
  case False
  with assms show ?thesis
    by (auto simp: failSubmitWrite_def fail_fin.finish_unknown split: sum.split)
next
  case True
  then obtain st where st: "store_Fail tid (stage @ '': '' @ werr) now (mStore m) = Inr st"
    using fail_fin.finish_known by blast
  have sid: "mCurrentSessionID m = []" using assms(1) by (simp add: core_inv_def)
  show ?thesis
    by (rule core_inv_resolved [OF assms(1) _ assms(2) fail_fin.turn_finisher_axioms st])
      (use True st sid in \<open>simp_all add: failSubmitWrite_def core_observe core_cleared\<close>)
qed

lemma core_inv_failTurn:
  assumes "core_inv m" "tid \<noteq> []"
  shows "core_inv (failTurn tid reason now m)"
proof (cases "mCurrent m = tid \<and> byID (mStore m) tid \<noteq> None")
  case False
  with assms core_inv_frame [OF core_frame(13) assms(1)] show ?thesis
    by (auto simp: failTurn_def fail_fin.finish_unknown stopTimer_def Let_def split: sum.split)
next
  case True
  then obtain st where st: "store_Fail tid reason now (mStore m) = Inr st"
    using fail_fin.finish_known by blast
  show ?thesis
    by (rule core_inv_resolved [OF assms(1) _ assms(2) fail_fin.turn_finisher_axioms st])
      (use True st in \<open>simp_all add: failTurn_def stopTimer_def Let_def core_def fireDone_def
         observeTurn_def clearCurrentLocked_def setMet_def split: option.split\<close>)
qed

lemma core_inv_afterInterrupt:
  assumes "core_inv m" "tid \<noteq> []"
  shows "core_inv (completeAfterInterrupt addOk fs tid path now m)"
proof -
  obtain ft us sr where la: "(case LastAssistant fs path of Inr la \<Rightarrow> la | Inl _ \<Rightarrow> ([], [], [])) = (ft, us, sr)"
    by (metis prod.exhaust)
  show ?thesis
  proof (cases "mCurrent m = tid \<and> byID (mStore m) tid \<noteq> None")
    case False
    with la assms core_inv_frame [OF core_frame(13) assms(1)] show ?thesis
      by (auto simp: completeAfterInterrupt_def interrupt_fin.finish_unknown stopTimer_def Let_def
          split: sum.split)
  next
    case True
    then obtain st where st: "store_Interrupt tid ft us now (mStore m) = Inr st"
      using interrupt_fin.finish_known by blast
    show ?thesis
      by (rule core_inv_resolved [OF assms(1) _ assms(2) interrupt_fin.turn_finisher_axioms st])
        (use True la st in \<open>simp_all add: completeAfterInterrupt_def stopTimer_def Let_def
           core_meterThenDone core_observe, simp add: core_def clearCurrentLocked_def setMet_def\<close>)
  qed
qed

lemma core_inv_fromTranscript:
  assumes "core_inv m" "tid \<noteq> []"
  shows "core_inv (completeFromTranscript addOk fs tid started path ft us sr now m)"
proof (cases "mCurrent m = tid \<and> byID (mStore m) tid \<noteq> None")
  case False
  with assms core_inv_frame [OF core_frame(13) assms(1)] show ?thesis
    by (auto simp: completeFromTranscript_def complete_fin.finish_unknown stopTimer_def Let_def
        split: sum.split)
next
  case True
  then obtain st where st: "store_Complete tid ft [] us sr now (mStore m) = Inr st"
    using complete_fin.finish_known by blast
  show ?thesis
    by (rule core_inv_resolved [OF assms(1) _ assms(2) complete_fin.turn_finisher_axioms st])
      (use True st in \<open>simp_all add: completeFromTranscript_def stopTimer_def Let_def core_def
         meterTokens_def fireDone_def observeTurn_def succeedLocked_def clearCurrentLocked_def
         setMet_def split: option.split\<close>)
qed

lemma hookPath_frame [frame]:
  "mStore (followHookPath path m) = mStore m"
  "mTurnsCompleted (followHookPath path m) = mTurnsCompleted m"
  "mTurnsSucceeded (followHookPath path m) = mTurnsSucceeded m"
  "mCurrent (followHookPath path m) = mCurrent m"
  "mState (followHookPath path m) = mState m"
  "mW (followHookPath path m) = mW m"
  "mProc (followHookPath path m) = mProc m"
  "gDone (followHookPath path m) = gDone m"
  "gPanicked (followHookPath path m) = gPanicked m"
  "mMet (followHookPath path m) = mMet m"
  by (simp_all add: followHookPath_def Let_def)

text \<open>The three ways \<^verbatim>\<open>Complete\<close> can end, given the slot's invariant.\<close>

lemma session_Complete_cases:
  assumes "core_inv m"
  obtains (idle) "mCurrent m = []"
      "session_Complete addOk r now m = (Some ErrNoTurn, hookOutcome ''no_turn'' (hookReceived m))"
  | (recovery) "mCurrent m \<noteq> []" "mState m \<in> {Dead, Booting}"
      "session_Complete addOk r now m = (Some (ErrRecovery (mState m)), hookOutcome ''rejected'' (hookReceived m))"
  | (finished) st m2 where "mCurrent m \<noteq> []" "mState m \<in> {Ready, Busy}"
      "store_Complete (mCurrent m) (hFinalText r) (hResultJSON r) (hUsage r) (hStopReason r) now (mStore m) = Inr st"
      "m2 = followHookPath (hTranscriptPath r) (stopTimer (noteSession (hSessionID r) (hookReceived m)))"
      "session_Complete addOk r now m =
         (None, meterThenDone addOk r (mCurrent m)
            (observeTurn ''complete'' (now - mCurrentStarted m)
              (hookOutcome ''ok'' (succeedLocked (m2\<lparr>mStore := st\<rparr>)))))"
proof -
  have hr: "mCurrent (hookReceived m) = mCurrent m" "mState (hookReceived m) = mState m"
    "mCurrentSessionID (hookReceived m) = []" "mCurrentStarted (hookReceived m) = mCurrentStarted m"
    using assms by (simp_all add: hookReceived_def setMet_def core_inv_def)
  show thesis
  proof (cases "mCurrent m = []")
    case True
    then show thesis by (intro idle) (simp_all add: session_Complete_def hr)
  next
    case busy: False
    show thesis
    proof (cases "mState m = Dead \<or> mState m = Booting")
      case True
      with busy show thesis by (intro recovery) (auto simp: session_Complete_def hr Let_def)
    next
      case False
      then have live: "mState m \<in> {Ready, Busy}" by (cases "mState m") auto
      have "byID (mStore m) (mCurrent m) \<noteq> None"
        using assms busy unfolding core_inv_def recState_def by auto
      then obtain st where st: "store_Complete (mCurrent m) (hFinalText r) (hResultJSON r) (hUsage r)
          (hStopReason r) now (mStore m) = Inr st"
        using complete_fin.finish_known by blast
      have "mStore (stopTimer (noteSession sid (hookReceived m))) = mStore m" for sid
        by (simp add: stopTimer_def noteSession_def hookReceived_def setMet_def)
      with busy live False st show thesis
        by (intro finished) (auto simp: session_Complete_def hr hookPath_frame Let_def)
    qed
  qed
qed

lemma core_hookReceived [frame]: "core (hookReceived m) = core m"
  by (simp add: core_def hookReceived_def setMet_def)

lemma core_succeed:
  "core (succeedLocked (m\<lparr>mStore := st\<rparr>)) = (st, [], mTurnsCompleted m + 1, mTurnsSucceeded m + 1, 0, [])"
  by (simp add: core_def succeedLocked_def clearCurrentLocked_def setMet_def)

lemma noteSession_frame [frame]:
  "mTurnsCompleted (stopTimer (noteSession sid (hookReceived m))) = mTurnsCompleted m"
  "mTurnsSucceeded (stopTimer (noteSession sid (hookReceived m))) = mTurnsSucceeded m"
  by (simp_all add: stopTimer_def noteSession_def hookReceived_def setMet_def)

lemma core_inv_Complete:
  assumes "core_inv m"
  shows "core_inv (snd (session_Complete addOk r now m))"
  using assms
proof (cases rule: session_Complete_cases [of m addOk r now])
  case (finished st m2)
  show ?thesis
    by (rule core_inv_resolved [OF assms refl finished(1) complete_fin.turn_finisher_axioms finished(3)])
      (simp add: finished(4,5) core_meterThenDone core_observe core_frame(22) core_succeed
        hookPath_frame noteSession_frame)
qed (simp_all add: core_inv_frame [OF _ assms] core_frame core_hookReceived)

lemma core_tailLine:
  assumes "core_inv m"
  shows "core_inv (tailLine err now raw m)"
proof -
  have act: "core_inv (onTailerActivity i po now m')" if "core_inv m'" for i po m'
    using that
    by (auto simp: onTailerActivity_def resetTimer_def intro: core_touch)
  have upd: "core (m\<lparr>mTailer := t, mProbes := p\<rparr>) = core m" for t p
    by (simp add: core_def)
  have "core_inv (recordProbeOutcomes es (m\<lparr>mTailer := t, mProbes := p\<rparr>))" for es t p
    using assms by (auto intro: core_inv_frame simp: recordProbeOutcomes_frame(1) upd)
  with act assms show ?thesis
    by (auto simp: tailLine_def Let_def split: option.split prod.split)
qed

lemma core_activity: "core_inv m \<Longrightarrow> core_inv (onTailerActivity tid po now m)"
  by (auto simp: onTailerActivity_def resetTimer_def intro: core_touch)

lemma core_exec_rest [frame]:
  "core (probeRegister pid txt now m) = core m"
  "core (snd (session_DrainInternalIssues c tid m)) = core m"
  "core (session_Shutdown e m) = core m"
  "core (m\<lparr>mRing := r\<rparr>) = core m"
  "core (m\<lparr>mState := s\<rparr>) = core m"
  "core (m\<lparr>mParentDone := b\<rparr>) = core m"
proof -
  have upd: "core (m\<lparr>mProbes := p\<rparr>) = core m" for m p by (simp add: core_def)
  show "core (probeRegister pid txt now m) = core m"
    by (simp add: probeRegister_def recordProbeOutcomes_frame(1) upd split: prod.split)
  show "core (snd (session_DrainInternalIssues c tid m)) = core m"
    by (simp add: session_DrainInternalIssues_def core_def setMet_def Let_def split: option.split prod.split)
  show "core (session_Shutdown e m) = core m"
    by (simp add: session_Shutdown_def Let_def core_frame(8) recordProbeOutcomes_frame(1) upd
        split: prod.split) (simp add: core_def)
qed (simp_all add: core_def)

lemma core_inv_exec:
  assumes "core_inv m" "enabled ev m"
  shows "core_inv (exec addOk err ev m)"
  using assms
proof (cases ev)
  case (EAdmit h now)
  then show ?thesis
    using core_inv_frame [OF core_frame(6) assms(1), of h now]
      core_inv_frame [OF core_frame(7), of "snd (admit h now m)"]
    by (simp add: split_def Let_def)
qed (use assms in \<open>simp_all add: core_reserve core_inv_failSubmit core_tailLine core_activity
       core_inv_Complete core_inv_afterInterrupt core_inv_failTurn core_inv_fromTranscript
       core_inv_frame [OF _ assms(1)] core_frame core_exec_rest\<close>)

lemma reachable_core: "reachable addOk err m \<Longrightarrow> core_inv m"
  by (rule reachable_induct_inv) (auto intro: core_inv_New core_inv_exec)

section \<open>Resolved turns\<close>

text \<open>
  A terminal record never changes again, and no id is ever reused for another record: the
  record of a turn, once resolved, is the same in every later state.
\<close>

definition keepsTerminal :: "Manager \<Rightarrow> Manager \<Rightarrow> bool" where
  "keepsTerminal m m' \<longleftrightarrow>
     (\<forall>i r. byID (mStore m) i = Some r \<and> terminal r \<longrightarrow> byID (mStore m') i = Some r)"

lemma keepsTerminal_frame: "mStore m' = mStore m \<Longrightarrow> keepsTerminal m m'"
  by (simp add: keepsTerminal_def)

lemma current_running:
  assumes "core_inv m" "byID (mStore m) i = Some r"
  shows "terminal r \<longleftrightarrow> i \<noteq> mCurrent m \<or> mCurrent m = []"
proof -
  have "recState (mStore m) i = Some (rState r)" using assms(2) by (simp add: recState_def)
  moreover have "recState (mStore m) i = Some Running \<longleftrightarrow> mCurrent m \<noteq> [] \<and> i = mCurrent m"
    using assms(1) unfolding core_inv_def by blast
  ultimately show ?thesis by (auto simp: terminal_def)
qed

lemma keepsTerminal_finish:
  assumes "core_inv m" "turn_finisher fin out" "mCurrent m \<noteq> []"
    and eq: "mStore m' = (case fin (mCurrent m) now (mStore m) of Inl _ \<Rightarrow> mStore m | Inr st \<Rightarrow> st)"
  shows "keepsTerminal m m'"
  unfolding keepsTerminal_def
proof (intro allI impI)
  fix i r
  assume r: "byID (mStore m) i = Some r \<and> terminal r"
  then have "i \<noteq> mCurrent m" using current_running [OF assms(1)] assms(3) by blast
  with turn_finisher.finish_other [OF assms(2)] r eq
  show "byID (mStore m') i = Some r" by (auto split: sum.splits)
qed

lemma store_meterThenDone [frame]:
  "mStore (meterThenDone addOk r tid m) = mStore m"
  using core_meterThenDone [of addOk r tid m] by (auto dest: coreD)

lemma store_observe [frame]: "mStore (observeTurn l d m) = mStore m"
  using core_observe by (rule coreD)

lemma keepsTerminal_failSubmit:
  assumes "core_inv m" "tid \<noteq> []"
  shows "keepsTerminal m (failSubmitWrite tid stage werr now m)"
proof (cases "mCurrent m = tid")
  case True
  with assms show ?thesis
    by (intro keepsTerminal_finish [OF assms(1) fail_fin.turn_finisher_axioms
        [where msg = "stage @ '': '' @ werr"], where now = now])
      (auto simp: failSubmitWrite_def store_observe clearCurrentLocked_def setMet_def split: sum.split)
qed (simp add: failSubmitWrite_def keepsTerminal_frame)

lemma keepsTerminal_failTurn:
  assumes "core_inv m" "tid \<noteq> []"
  shows "keepsTerminal m (failTurn tid reason now m)"
proof (cases "mCurrent m = tid")
  case True
  with assms show ?thesis
    by (intro keepsTerminal_finish [OF assms(1) fail_fin.turn_finisher_axioms
        [where msg = reason], where now = now])
      (auto simp: failTurn_def Let_def fireDone_def observeTurn_def stopTimer_def
        clearCurrentLocked_def setMet_def split: sum.split option.split)
qed (simp add: failTurn_def keepsTerminal_frame)

lemma keepsTerminal_afterInterrupt:
  assumes "core_inv m" "tid \<noteq> []"
  shows "keepsTerminal m (completeAfterInterrupt addOk fs tid path now m)"
proof -
  obtain ft us sr where la: "(case LastAssistant fs path of Inr la \<Rightarrow> la | Inl _ \<Rightarrow> ([], [], [])) = (ft, us, sr)"
    by (metis prod.exhaust)
  show ?thesis
  proof (cases "mCurrent m = tid")
    case True
    with assms la show ?thesis
      by (intro keepsTerminal_finish [OF assms(1) interrupt_fin.turn_finisher_axioms
          [where ft = ft and us = us], where now = now])
        (auto simp: completeAfterInterrupt_def Let_def store_meterThenDone store_observe
          stopTimer_def clearCurrentLocked_def setMet_def split: sum.split)
  qed (simp add: completeAfterInterrupt_def la keepsTerminal_frame)
qed

lemma keepsTerminal_fromTranscript:
  assumes "core_inv m" "tid \<noteq> []"
  shows "keepsTerminal m (completeFromTranscript addOk fs tid started path ft us sr now m)"
proof (cases "mCurrent m = tid")
  case True
  with assms show ?thesis
    by (intro keepsTerminal_finish [OF assms(1) complete_fin.turn_finisher_axioms
        [where ft = ft and rj = "[]" and us = us and sr = sr], where now = now])
      (auto simp: completeFromTranscript_def Let_def meterTokens_def fireDone_def observeTurn_def
        stopTimer_def succeedLocked_def clearCurrentLocked_def setMet_def
        split: sum.split option.split)
qed (simp add: completeFromTranscript_def keepsTerminal_frame)

lemma keepsTerminal_Complete:
  assumes "core_inv m"
  shows "keepsTerminal m (snd (session_Complete addOk r now m))"
  using assms
proof (cases rule: session_Complete_cases [of m addOk r now])
  case (finished st m2)
  then show ?thesis
    by (intro keepsTerminal_finish [OF assms complete_fin.turn_finisher_axioms [where ft = "hFinalText r"
        and rj = "hResultJSON r" and us = "hUsage r" and sr = "hStopReason r"], where now = now])
      (simp_all add: store_meterThenDone store_observe hookOutcome_def succeedLocked_def
        clearCurrentLocked_def setMet_def Let_def)
qed (simp_all add: keepsTerminal_frame hookOutcome_def hookReceived_def setMet_def)

lemma keepsTerminal_activity: "keepsTerminal m (onTailerActivity tid po now m)"
  by (auto simp: keepsTerminal_def onTailerActivity_def resetTimer_def turn_simps terminal_def
      split: option.split)

lemma keepsTerminal_trans: "keepsTerminal a b \<Longrightarrow> keepsTerminal b c \<Longrightarrow> keepsTerminal a c"
  by (simp add: keepsTerminal_def)

lemma keepsTerminal_tailLine: "keepsTerminal m (tailLine err now raw m)"
proof -
  have base: "keepsTerminal m (recordProbeOutcomes es (m\<lparr>mTailer := t, mProbes := p\<rparr>))" for es t p
    by (intro keepsTerminal_frame) (simp add: recordProbeOutcomes_frame)
  show ?thesis
    by (auto simp: tailLine_def Let_def keepsTerminal_frame base split: option.split prod.split
        intro!: keepsTerminal_trans [OF base keepsTerminal_activity])
qed

lemma keepsTerminal_core: "core m' = core m \<Longrightarrow> keepsTerminal m m'"
  by (intro keepsTerminal_frame) (auto dest: coreD)

lemma keepsTerminal_exec:
  assumes "core_inv m" "enabled ev m"
  shows "keepsTerminal m (exec addOk err ev m)"
  using assms
proof (cases ev)
  case (EAdmit h now)
  then show ?thesis
    by (auto simp: admit_def refuse_def setMet_def Let_def intro: keepsTerminal_frame)
next
  case (EReserve tx url tid now)
  with assms show ?thesis
    by (auto simp: reserve_def setMet_def keepsTerminal_def turn_simps)
qed (use assms in \<open>simp_all add: keepsTerminal_failSubmit keepsTerminal_tailLine keepsTerminal_activity
       keepsTerminal_Complete keepsTerminal_afterInterrupt keepsTerminal_failTurn
       keepsTerminal_fromTranscript keepsTerminal_core core_frame core_exec_rest\<close>)

section \<open>The completion callback\<close>

text \<open>
  \<^verbatim>\<open>OnTurnDone\<close> gets the stored record of a resolved turn, at most once per turn. A resolved turn
  without a call is one whose prompt could not be written (its submitter got the error) or one
  whose metering panicked.
\<close>

definition done_inv :: "Manager \<Rightarrow> bool" where
  "done_inv m \<longleftrightarrow>
     (\<forall>r \<in> set (gDone m). byID (mStore m) (rID r) = Some r \<and> terminal r)
     \<and> (\<forall>i \<in> set (gPanicked m). \<exists>r. byID (mStore m) i = Some r \<and> terminal r)
     \<and> distinct (map rID (gDone m) @ gPanicked m)
     \<and> (\<forall>i r. byID (mStore m) i = Some r \<and> terminal r \<longrightarrow>
          i \<in> rID ` set (gDone m) \<or> i \<in> set (gPanicked m) \<or> hasPrefix (rError r) ''write pty '')"

definition doneView :: "Manager \<Rightarrow> Store \<times> Record list \<times> string list" where
  "doneView m = (mStore m, gDone m, gPanicked m)"

lemma done_inv_frame: "doneView m' = doneView m \<Longrightarrow> done_inv m \<Longrightarrow> done_inv m'"
  by (simp add: done_inv_def doneView_def)

lemma done_inv_New: "done_inv (session_New c NewStore start)"
  by (simp add: done_inv_def session_New_def NewStore_def)

lemma done_inv_keep:
  assumes "done_inv m" "keepsTerminal m m'" "gDone m' = gDone m" "gPanicked m' = gPanicked m"
    and "\<And>i r. byID (mStore m') i = Some r \<Longrightarrow> terminal r \<Longrightarrow>
           (\<exists>r0. byID (mStore m) i = Some r0 \<and> terminal r0) \<or> hasPrefix (rError r) ''write pty ''"
  shows "done_inv m'"
proof -
  have same: "r = r0" if "byID (mStore m') i = Some r" "byID (mStore m) i = Some r0" "terminal r0" for i r r0
    using assms(2) that unfolding keepsTerminal_def by fastforce
  have kept: "byID (mStore m') i = Some r" if "byID (mStore m) i = Some r" "terminal r" for i r
    using assms(2) that unfolding keepsTerminal_def by blast
  show ?thesis
    unfolding done_inv_def
  proof (intro conjI allI impI ballI)
    fix r assume "r \<in> set (gDone m')"
    with assms(1,3) kept show "byID (mStore m') (rID r) = Some r" "terminal r"
      unfolding done_inv_def by auto
  next
    fix i assume "i \<in> set (gPanicked m')"
    with assms(1,4) kept show "\<exists>r. byID (mStore m') i = Some r \<and> terminal r"
      unfolding done_inv_def by metis
  next
    show "distinct (map rID (gDone m') @ gPanicked m')" using assms(1,3,4) unfolding done_inv_def by simp
  next
    fix i r assume ir: "byID (mStore m') i = Some r \<and> terminal r"
    then consider r0 where "byID (mStore m) i = Some r0" "terminal r0" | "hasPrefix (rError r) ''write pty ''"
      using assms(5) by blast
    then show "i \<in> rID ` set (gDone m') \<or> i \<in> set (gPanicked m') \<or> hasPrefix (rError r) ''write pty ''"
      using assms(1,3,4) same ir unfolding done_inv_def by cases metis+
  qed
qed

text \<open>A section that resolves the current turn and then calls back, or panics before it can.\<close>

lemma done_inv_resolved:
  assumes inv: "core_inv m" "done_inv m" and cur: "mCurrent m = tid" "tid \<noteq> []"
    and fin: "turn_finisher fin out" "fin tid now (mStore m) = Inr st" and st: "mStore m' = st"
    and fire: "gDone m' = gDone m @ [the (byID st tid)] \<and> gPanicked m' = gPanicked m
               \<or> gDone m' = gDone m \<and> gPanicked m' = gPanicked m @ [tid]"
  shows "done_inv m'"
proof -
  have wf: "wf_store st" using inv(1) turn_finisher.finish_wf [OF fin(1) _ fin(2)] unfolding core_inv_def by blast
  obtain r' where r': "byID st tid = Some r'" "rID r' = tid" "terminal r'"
    using turn_finisher.finish_state [OF fin] turn_finisher.outcome_terminal [OF fin(1)] wf
    unfolding recState_def wf_store_def wf_record_def terminal_def by fastforce
  have keep: "keepsTerminal m m'"
    by (rule keepsTerminal_finish [OF inv(1) fin(1), where now = now]) (use cur fin st in auto)
  have other: "byID st i = byID (mStore m) i" if "i \<noteq> tid" for i
    using turn_finisher.finish_other [OF fin that] .
  have fresh: "tid \<notin> rID ` set (gDone m)" "tid \<notin> set (gPanicked m)"
    using inv cur current_running [OF inv(1)] unfolding done_inv_def by fastforce+
  have old: "\<forall>r \<in> set (gDone m). byID st (rID r) = Some r \<and> terminal r"
    "\<forall>i \<in> set (gPanicked m). \<exists>r. byID st i = Some r \<and> terminal r"
    using inv(2) keep st unfolding done_inv_def keepsTerminal_def by auto
  have old2: "i \<in> rID ` set (gDone m) \<or> i \<in> set (gPanicked m) \<or> hasPrefix (rError r) ''write pty ''"
    if "byID st i = Some r" "terminal r" "i \<noteq> tid" for i r
    using inv(2) that other unfolding done_inv_def by auto
  have each: "i \<in> rID ` set (gDone m') \<or> i \<in> set (gPanicked m') \<or> hasPrefix (rError r) ''write pty ''"
    if "byID st i = Some r" "terminal r" for i r
  proof (cases "i = tid")
    case True
    with fire r' show ?thesis by auto
  next
    case False
    from old2 [OF that this] fire show ?thesis by auto
  qed
  have dist: "distinct (map rID (gDone m) @ gPanicked m)" using inv(2) unfolding done_inv_def by blast
  show ?thesis
    unfolding done_inv_def st
  proof (intro conjI)
    show "\<forall>i r. byID st i = Some r \<and> terminal r \<longrightarrow>
        i \<in> rID ` set (gDone m') \<or> i \<in> set (gPanicked m') \<or> hasPrefix (rError r) ''write pty ''"
      using each by blast
    have "distinct (map rID (gDone m) @ tid # gPanicked m)" using dist fresh by auto
    then show "distinct (map rID (gDone m') @ gPanicked m')"
      using fire r'(1,2) by (elim disjE conjE) simp_all
  qed (use fire old r' in auto)
qed

lemma meterThenDone_fires:
  "(gDone (meterThenDone addOk r tid m) = gDone m @ (case byID (mStore m) tid of Some x \<Rightarrow> [x] | None \<Rightarrow> [])
      \<and> gPanicked (meterThenDone addOk r tid m) = gPanicked m)
   \<or> (gDone (meterThenDone addOk r tid m) = gDone m
      \<and> gPanicked (meterThenDone addOk r tid m) = gPanicked m @ [tid])"
  by (simp add: meterThenDone_def meterTokens_def Let_def fireDone_def setMet_def store_Get_def
      split: option.split)

lemma finish_filed:
  "turn_finisher fin out \<Longrightarrow> fin tid now s = Inr st \<Longrightarrow> \<exists>x. byID st tid = Some x"
  by (drule (1) turn_finisher.finish_state) (auto simp: recState_def)

lemma done_frame_core:
  assumes "core m' = core m" "gDone m' = gDone m" "gPanicked m' = gPanicked m" "done_inv m"
  shows "done_inv m'"
  using assms coreD(1) [OF assms(1)] by (auto intro: done_inv_frame simp: doneView_def)

lemma ghost_frame [frame]:
  "gDone (observeTurn l d m) = gDone m" "gPanicked (observeTurn l d m) = gPanicked m"
  "gDone (hookOutcome l m) = gDone m" "gPanicked (hookOutcome l m) = gPanicked m"
  "gDone (hookReceived m) = gDone m" "gPanicked (hookReceived m) = gPanicked m"
  "gDone (stopTimer m) = gDone m" "gPanicked (stopTimer m) = gPanicked m"
  "gDone (noteSession sid m) = gDone m" "gPanicked (noteSession sid m) = gPanicked m"
  "gDone (clearCurrentLocked next m) = gDone m" "gPanicked (clearCurrentLocked next m) = gPanicked m"
  "gDone (succeedLocked m) = gDone m" "gPanicked (succeedLocked m) = gPanicked m"
  by (simp_all add: observeTurn_def hookOutcome_def hookReceived_def stopTimer_def noteSession_def
      clearCurrentLocked_def succeedLocked_def setMet_def Let_def)

lemma store_frame [frame]:
  "mStore (hookOutcome l m) = mStore m" "mStore (stopTimer m) = mStore m"
  "mStore (clearCurrentLocked next m) = mStore m" "mStore (succeedLocked m) = mStore m"
  by (simp_all add: hookOutcome_def stopTimer_def clearCurrentLocked_def succeedLocked_def setMet_def Let_def)

lemma done_Complete:
  assumes "core_inv m" "done_inv m"
  shows "done_inv (snd (session_Complete addOk r now m))"
  using assms(1)
proof (cases rule: session_Complete_cases [of m addOk r now])
  case (finished st m2)
  let ?m = "observeTurn ''complete'' (now - mCurrentStarted m) (hookOutcome ''ok'' (succeedLocked (m2\<lparr>mStore := st\<rparr>)))"
  have v: "mStore ?m = st" "gDone ?m = gDone m" "gPanicked ?m = gPanicked m"
    by (simp_all add: finished(4) ghost_frame hookPath_frame store_frame store_observe)
  show ?thesis
    by (rule done_inv_resolved [OF assms refl finished(1) complete_fin.turn_finisher_axioms finished(3)])
      (use meterThenDone_fires [of addOk r "mCurrent m" ?m]
         finish_filed [OF complete_fin.turn_finisher_axioms finished(3)] v
       in \<open>auto simp: finished(5) store_meterThenDone\<close>)
qed (simp_all add: done_frame_core [OF _ _ _ assms(2)] core_frame core_hookReceived ghost_frame)

lemma done_afterInterrupt:
  assumes "core_inv m" "done_inv m" "tid \<noteq> []"
  shows "done_inv (completeAfterInterrupt addOk fs tid path now m)"
proof -
  obtain ft us sr where la: "(case LastAssistant fs path of Inr la \<Rightarrow> la | Inl _ \<Rightarrow> ([], [], [])) = (ft, us, sr)"
    by (metis prod.exhaust)
  show ?thesis
  proof (cases "mCurrent m = tid \<and> (\<exists>st. store_Interrupt tid ft us now (mStore m) = Inr st)")
    case False
    with la assms(2) done_frame_core [OF core_frame(13) ghost_frame(7,8) assms(2)] show ?thesis
      by (auto simp: completeAfterInterrupt_def Let_def store_frame split: sum.split)
  next
    case True
    then obtain st where st: "store_Interrupt tid ft us now (mStore m) = Inr st" by blast
    let ?m = "observeTurn ''interrupted'' (now - mCurrentStarted m)
      ((clearCurrentLocked Ready ((stopTimer m)\<lparr>mStore := st\<rparr>))\<lparr>mCurrentSessionID := []\<rparr>)"
    have v: "mStore ?m = st" "gDone ?m = gDone m" "gPanicked ?m = gPanicked m"
      by (simp_all add: ghost_frame store_frame store_observe)
    have "completeAfterInterrupt addOk fs tid path now m
        = meterThenDone addOk (meterOnly us (tokensOrNone fs path)) tid ?m"
      using True la st by (simp add: completeAfterInterrupt_def Let_def store_frame)
    then show ?thesis
      by (intro done_inv_resolved [OF assms(1,2) _ assms(3) interrupt_fin.turn_finisher_axioms st])
        (use True meterThenDone_fires [of addOk "meterOnly us (tokensOrNone fs path)" tid ?m]
           finish_filed [OF interrupt_fin.turn_finisher_axioms st] v
         in \<open>auto simp: store_meterThenDone\<close>)
  qed
qed

lemma done_fromTranscript:
  assumes "core_inv m" "done_inv m" "tid \<noteq> []"
  shows "done_inv (completeFromTranscript addOk fs tid started path ft us sr now m)"
proof (cases "mCurrent m = tid \<and> (\<exists>st. store_Complete tid ft [] us sr now (mStore m) = Inr st)")
  case False
  with assms(2) done_frame_core [OF core_frame(13) ghost_frame(7,8) assms(2)] show ?thesis
    by (auto simp: completeFromTranscript_def Let_def store_frame split: sum.split)
next
  case True
  then obtain st where st: "store_Complete tid ft [] us sr now (mStore m) = Inr st" by blast
  show ?thesis
    by (rule done_inv_resolved [OF assms(1,2) _ assms(3) complete_fin.turn_finisher_axioms st])
      (use True st finish_filed [OF complete_fin.turn_finisher_axioms st]
       in \<open>auto simp: completeFromTranscript_def Let_def meterTokens_def fireDone_def setMet_def
             store_frame store_observe ghost_frame store_Get_def\<close>)
qed

lemma done_failTurn:
  assumes "core_inv m" "done_inv m" "tid \<noteq> []"
  shows "done_inv (failTurn tid reason now m)"
proof (cases "mCurrent m = tid \<and> (\<exists>st. store_Fail tid reason now (mStore m) = Inr st)")
  case False
  with assms(2) done_frame_core [OF core_frame(13) ghost_frame(7,8) assms(2)] show ?thesis
    by (auto simp: failTurn_def Let_def store_frame split: sum.split)
next
  case True
  then obtain st where st: "store_Fail tid reason now (mStore m) = Inr st" by blast
  show ?thesis
    by (rule done_inv_resolved [OF assms(1,2) _ assms(3) fail_fin.turn_finisher_axioms st])
      (use True st finish_filed [OF fail_fin.turn_finisher_axioms st]
       in \<open>auto simp: failTurn_def Let_def fireDone_def store_frame store_observe ghost_frame store_Get_def\<close>)
qed

lemma done_failSubmit:
  assumes "core_inv m" "done_inv m" "tid \<noteq> []"
  shows "done_inv (failSubmitWrite tid (submitStage paste) werr now m)"
proof (rule done_inv_keep [OF assms(2) keepsTerminal_failSubmit [OF assms(1,3)]])
  fix i r
  assume "byID (mStore (failSubmitWrite tid (submitStage paste) werr now m)) i = Some r" "terminal r"
  then show "(\<exists>r0. byID (mStore m) i = Some r0 \<and> terminal r0) \<or> hasPrefix (rError r) ''write pty ''"
    by (auto simp: failSubmitWrite_def store_observe store_frame store_Fail_def submitStage_def
        hasPrefix_iff split: if_splits option.splits)
qed (auto simp: failSubmitWrite_def ghost_frame split: sum.split)

lemma done_activity:
  assumes "done_inv m"
  shows "done_inv (onTailerActivity tid po now m)"
proof (rule done_inv_keep [OF assms keepsTerminal_activity])
  fix i r
  assume "byID (mStore (onTailerActivity tid po now m)) i = Some r" "terminal r"
  then show "(\<exists>r0. byID (mStore m) i = Some r0 \<and> terminal r0) \<or> hasPrefix (rError r) ''write pty ''"
    by (auto simp: onTailerActivity_def resetTimer_def store_Touch_def terminal_def
        split: if_splits option.splits)
qed (simp_all add: onTailerActivity_def resetTimer_def)

lemma done_tailLine:
  assumes "done_inv m"
  shows "done_inv (tailLine err now raw m)"
proof -
  have base: "done_inv (recordProbeOutcomes es (m\<lparr>mTailer := t, mProbes := p\<rparr>))" for es t p
    by (rule done_inv_frame [OF _ assms]) (simp add: doneView_def recordProbeOutcomes_frame)
  show ?thesis
    by (auto simp: tailLine_def Let_def assms base split: option.split prod.split
        intro!: done_activity [OF base])
qed

lemma done_reserve:
  assumes "done_inv m" "byID (mStore m) tid = None"
  shows "done_inv (snd (reserve tx url tid now m))"
proof (rule done_inv_keep [OF assms(1)])
  show "keepsTerminal m (snd (reserve tx url tid now m))"
    using assms(2) by (auto simp: reserve_def setMet_def keepsTerminal_def turn_simps)
  fix i r
  assume "byID (mStore (snd (reserve tx url tid now m))) i = Some r" "terminal r"
  then show "(\<exists>r0. byID (mStore m) i = Some r0 \<and> terminal r0) \<or> hasPrefix (rError r) ''write pty ''"
    by (auto simp: reserve_def setMet_def turn_simps terminal_def split: if_splits)
qed (simp_all add: reserve_def setMet_def)

lemma ghost_rest [frame]:
  "gDone (StartTailer on secrets m) = gDone m" "gPanicked (StartTailer on secrets m) = gPanicked m"
  "gDone (installProc p m) = gDone m" "gPanicked (installProc p m) = gPanicked m"
  "gDone (bootReady p m) = gDone m" "gPanicked (bootReady p m) = gPanicked m"
  "gDone (ptyWrite w s e m) = gDone m" "gPanicked (ptyWrite w s e m) = gPanicked m"
  "gDone (armTimer tid now m) = gDone m" "gPanicked (armTimer tid now m) = gPanicked m"
  "gDone (ensureTailerFollowing m) = gDone m" "gPanicked (ensureTailerFollowing m) = gPanicked m"
  "gDone (discovered c found m) = gDone m" "gPanicked (discovered c found m) = gPanicked m"
  "gDone (markStallSuspected tid now m) = gDone m" "gPanicked (markStallSuspected tid now m) = gPanicked m"
  "gDone (onSubagentActivity po now m) = gDone m" "gPanicked (onSubagentActivity po now m) = gPanicked m"
  "gDone (probeFailed pid m) = gDone m" "gPanicked (probeFailed pid m) = gPanicked m"
  "gDone (probeRegister pid tx now m) = gDone m" "gPanicked (probeRegister pid tx now m) = gPanicked m"
  "gDone (watchExit m) = gDone m" "gPanicked (watchExit m) = gPanicked m"
  "gDone (snd (relaunchInstall sp m)) = gDone m" "gPanicked (snd (relaunchInstall sp m)) = gPanicked m"
  "gDone (installResumeTimer tid mode now m) = gDone m" "gPanicked (installResumeTimer tid mode now m) = gPanicked m"
  "gDone (onRestart b m) = gDone m" "gPanicked (onRestart b m) = gPanicked m"
  "gDone (snd (session_DrainInternalIssues c2 tid m)) = gDone m"
  "gPanicked (snd (session_DrainInternalIssues c2 tid m)) = gPanicked m"
  "gDone (session_Shutdown e m) = gDone m" "gPanicked (session_Shutdown e m) = gPanicked m"
  by (simp_all add: section_defs probeRegister_def session_DrainInternalIssues_def
      session_Shutdown_def recordProbeOutcomes_frame Let_def split: option.split sum.split prod.split)

lemma done_inv_exec:
  assumes "core_inv m" "done_inv m" "enabled ev m"
  shows "done_inv (exec addOk err ev m)"
  using assms
proof (cases ev)
  case (EAdmit h now)
  then show ?thesis
    by (intro done_inv_frame [OF _ assms(2)])
      (auto simp: doneView_def admit_def refuse_def setMet_def Let_def)
qed (use assms in \<open>simp_all add: done_Complete done_afterInterrupt done_fromTranscript done_failTurn
       done_failSubmit done_activity done_tailLine done_reserve
       done_frame_core [OF _ _ _ assms(2)] core_frame core_exec_rest ghost_rest\<close>)

lemma reachable_done: "reachable addOk err m \<Longrightarrow> done_inv m"
  by (rule reachable_induct_inv) (auto intro: done_inv_New done_inv_exec reachable_core)

section \<open>The lifecycle\<close>

text \<open>
  Writer and process are the same; a session that takes turns or has one has a writer; a busy
  session has a turn, and only a turn in flight is suspected of a stall.
\<close>

definition life_inv :: "Manager \<Rightarrow> bool" where
  "life_inv m \<longleftrightarrow>
     mW m = mProc m
     \<and> (mState m \<in> {Ready, Busy} \<or> mCurrent m \<noteq> [] \<longrightarrow> mProc m \<noteq> None)
     \<and> (mState m = Busy \<longrightarrow> mCurrent m \<noteq> [])
     \<and> (mStallSince m \<noteq> zero_time \<longrightarrow> mCurrent m \<noteq> [])"

definition lifeView :: "Manager \<Rightarrow> nat option \<times> nat option \<times> State \<times> string \<times> time" where
  "lifeView m = (mW m, mProc m, mState m, mCurrent m, mStallSince m)"

lemma life_inv_frame: "lifeView m' = lifeView m \<Longrightarrow> life_inv m \<Longrightarrow> life_inv m'"
  by (simp add: life_inv_def lifeView_def)

lemma life_frame [frame]:
  "lifeView (StartTailer on secrets m) = lifeView m"
  "lifeView (refuse m) = lifeView m"
  "lifeView (snd (admit h now m)) = lifeView m"
  "lifeView (ptyWrite w s e m) = lifeView m"
  "lifeView (ensureTailerFollowing m) = lifeView m"
  "lifeView (discovered c found m) = lifeView m"
  "lifeView (stopTimer m) = lifeView m"
  "lifeView (onSubagentActivity po now m) = lifeView m"
  "lifeView (probeFailed pid m) = lifeView m"
  "lifeView (probeRegister pid tx now m) = lifeView m"
  "lifeView (onRestart b m) = lifeView m"
  "lifeView (hookOutcome l m) = lifeView m"
  "lifeView (hookReceived m) = lifeView m"
  "lifeView (noteSession sid m) = lifeView m"
  "lifeView (followHookPath path m) = lifeView m"
  "lifeView (fireDone rr m) = lifeView m"
  "lifeView (observeTurn l d m) = lifeView m"
  "lifeView (meterThenDone addOk hr tid m) = lifeView m"
  "lifeView (snd (session_DrainInternalIssues c2 tid m)) = lifeView m"
  "lifeView (recordProbeOutcomes es m) = lifeView m"
  by (simp_all add: lifeView_def section_defs followHookPath_def fireDone_def observeTurn_def
      meterThenDone_def meterTokens_def hookReceived_def noteSession_def probeRegister_def
      session_DrainInternalIssues_def recordProbeOutcomes_frame Let_def
      split: option.split prod.split)

lemma life_cleared:
  "life_inv m \<Longrightarrow> mCurrent m \<noteq> [] \<Longrightarrow> next \<in> {Ready, Dead} \<Longrightarrow> life_inv (clearCurrentLocked next m)"
  by (auto simp: life_inv_def clearCurrentLocked_def setMet_def)

lemma life_upd [simp]:
  "life_inv (m\<lparr>mStore := st\<rparr>) \<longleftrightarrow> life_inv m"
  "life_inv (m\<lparr>mCurrentSessionID := sid\<rparr>) \<longleftrightarrow> life_inv m"
  "life_inv (m\<lparr>mTurnsSucceeded := n\<rparr>) \<longleftrightarrow> life_inv m"
  "life_inv (m\<lparr>mRestarts := k\<rparr>) \<longleftrightarrow> life_inv m"
  "life_inv (m\<lparr>mRing := rg\<rparr>) \<longleftrightarrow> life_inv m"
  "life_inv (m\<lparr>mParentDone := b\<rparr>) \<longleftrightarrow> life_inv m"
  "life_inv (m\<lparr>mTailer := t, mProbes := p\<rparr>) \<longleftrightarrow> life_inv m"
  by (simp_all add: life_inv_def)

lemma life_via [simp]:
  "life_inv (stopTimer m) \<longleftrightarrow> life_inv m"
  "life_inv (hookOutcome l m) \<longleftrightarrow> life_inv m"
  "life_inv (hookReceived m) \<longleftrightarrow> life_inv m"
  "life_inv (noteSession sid m) \<longleftrightarrow> life_inv m"
  "life_inv (followHookPath path m) \<longleftrightarrow> life_inv m"
  "life_inv (fireDone rr m) \<longleftrightarrow> life_inv m"
  "life_inv (observeTurn l d m) \<longleftrightarrow> life_inv m"
  "life_inv (meterThenDone addOk hr tid m) \<longleftrightarrow> life_inv m"
  "life_inv (recordProbeOutcomes es m) \<longleftrightarrow> life_inv m"
  by (auto intro: life_inv_frame life_frame life_frame [symmetric])

lemma life_succeed: "life_inv m \<Longrightarrow> mCurrent m \<noteq> [] \<Longrightarrow> life_inv (succeedLocked m)"
  using life_cleared [of m Ready] by (simp add: succeedLocked_def Let_def)

lemma current_frame [frame]:
  "mCurrent (stopTimer m) = mCurrent m" "mCurrent (noteSession sid m) = mCurrent m"
  "mCurrent (hookReceived m) = mCurrent m"
  by (simp_all add: stopTimer_def noteSession_def hookReceived_def setMet_def)

lemma life_Complete:
  assumes "core_inv m" "life_inv m"
  shows "life_inv (snd (session_Complete addOk r now m))"
  using assms(1)
proof (cases rule: session_Complete_cases [of m addOk r now])
  case (finished st m2)
  then have "life_inv m2" "mCurrent m2 \<noteq> []"
    using assms(2) by (simp_all add: hookPath_frame current_frame)
  with finished show ?thesis by (simp add: life_succeed)
qed (simp_all add: assms(2))

lemma life_activity: "life_inv m \<Longrightarrow> life_inv (onTailerActivity tid po now m)"
  by (simp add: life_inv_def onTailerActivity_def resetTimer_def)

lemma life_tailLine: "life_inv m \<Longrightarrow> life_inv (tailLine err now raw m)"
  by (auto simp: tailLine_def Let_def life_activity split: option.split prod.split)

lemma life_resolvers:
  assumes "life_inv m" "tid \<noteq> []"
  shows "life_inv (failSubmitWrite tid stage werr now m)"
    and "life_inv (failTurn tid reason now m)"
    and "life_inv (completeAfterInterrupt addOk fs tid path now m)"
  using assms
  by (auto simp: failSubmitWrite_def failTurn_def completeAfterInterrupt_def Let_def current_frame
      split: sum.split prod.split intro!: life_cleared)

lemma life_fromTranscript:
  assumes "life_inv m" "tid \<noteq> []"
  shows "life_inv (completeFromTranscript addOk fs tid started path ft us sr now m)"
proof -
  have met: "life_inv (m'\<lparr>mMet := x\<rparr>) \<longleftrightarrow> life_inv m'"
    "life_inv (m'\<lparr>mMet := x, gPanicked := g\<rparr>) \<longleftrightarrow> life_inv m'" for m' x g
    by (simp_all add: life_inv_def)
  show ?thesis
    using assms
    by (auto simp: completeFromTranscript_def Let_def meterTokens_def setMet_def met current_frame
        split: sum.split intro!: life_succeed)
qed

lemma life_inv_exec:
  assumes "core_inv m" "life_inv m" "enabled ev m"
  shows "life_inv (exec addOk err ev m)"
  using assms
proof (cases ev)
  case (EAdmit h now)
  then show ?thesis
    by (intro life_inv_frame [OF _ assms(2)])
      (simp add: Let_def split_def life_frame)
next
  case (EShutdown e)
  have "life_inv (m\<lparr>mStopping := True, mState := Dead, mCancelled := c, mProbes := p\<rparr>)"
    "life_inv (m\<lparr>mStopping := True, mState := Dead, mProbes := p\<rparr>)" for c p
    using assms(2) by (auto simp: life_inv_def)
  with EShutdown show ?thesis
    by (auto simp: session_Shutdown_def Let_def split: prod.split intro!: life_inv_frame [OF life_frame(4)])
next
  case (EReserve tx url tid now)
  with assms(2,3) show ?thesis
    by (cases "mState m") (auto simp: life_inv_def reserve_def setMet_def)
qed (use assms in \<open>auto simp: life_Complete life_tailLine life_activity life_resolvers life_fromTranscript
       life_inv_frame [OF _ assms(2)] life_frame,
     auto simp: life_inv_def section_defs reserve_def Let_def split: if_splits sum.splits\<close>)

lemma life_inv_New: "life_inv (session_New c NewStore start)"
  by (simp add: life_inv_def session_New_def)

lemma reachable_life: "reachable addOk err m \<Longrightarrow> life_inv m"
  by (rule reachable_induct_inv) (auto intro: life_inv_New life_inv_exec reachable_core)

section \<open>The tailer\<close>

text \<open>
  Every context but the current one has been cancelled, and of the discovery goroutines and
  \<^verbatim>\<open>Follow\<close> calls that hold the current one there is at most one, once the tailer has started.
\<close>

definition holders :: "Manager \<Rightarrow> nat" where
  "holders m = countIf (\<lambda>f. fst f = mCtx m) (gFollows m) + countIf (\<lambda>c. c = mCtx m) (gDiscover m)"

definition tail_inv :: "Manager \<Rightarrow> bool" where
  "tail_inv m \<longleftrightarrow>
     (\<forall>c < mCtxNext m. c = mCtx m \<or> c \<in> mCancelled m)
     \<and> (mTailer m \<noteq> None \<longrightarrow> mCtx m < mCtxNext m)
     \<and> (\<forall>f \<in> set (gFollows m). fst f < mCtxNext m) \<and> (\<forall>c \<in> set (gDiscover m). c < mCtxNext m)
     \<and> holders m \<le> (if mTailerStarted m then 1 else 0)
     \<and> (mTailer m = None \<longrightarrow> mCtxNext m = 0 \<and> \<not> mTailerStarted m)"

type_synonym tailView_t =
  "bool \<times> nat \<times> nat \<times> nat set \<times> bool \<times> (nat \<times> string) list \<times> nat list"

definition tailView :: "Manager \<Rightarrow> tailView_t" where
  "tailView m = (mTailer m = None, mCtx m, mCtxNext m, mCancelled m, mTailerStarted m, gFollows m, gDiscover m)"

lemma tail_inv_frame: "tailView m' = tailView m \<Longrightarrow> tail_inv m \<Longrightarrow> tail_inv m'"
  by (simp add: tail_inv_def tailView_def holders_def)

lemma tail_inv_New: "tail_inv (session_New c NewStore start)"
  by (simp add: tail_inv_def session_New_def holders_def)

lemma countIf_zero: "(\<And>x. x \<in> set xs \<Longrightarrow> \<not> P x) \<Longrightarrow> countIf P xs = 0"
  by (induction xs) (auto simp: countIf_def)

lemma countIf_remove1:
  "c \<in> set xs \<Longrightarrow> countIf P (remove1 c xs) + (if P c then 1 else 0) = countIf P xs"
  by (induction xs) (auto simp: countIf_def)

lemma countIf_mono: "(\<And>x. x \<in> set xs \<Longrightarrow> P x \<Longrightarrow> Q x) \<Longrightarrow> countIf P xs \<le> countIf Q xs"
  by (induction xs) (auto simp: countIf_def le_SucI)

lemma tail_StartTailer:
  assumes "tail_inv m" "mTailer m = None"
  shows "tail_inv (StartTailer on secrets m)"
proof -
  have "gFollows m = [] \<and> gDiscover m = []"
    using assms unfolding tail_inv_def by (cases "gFollows m"; cases "gDiscover m") auto
  with assms show ?thesis by (auto simp: tail_inv_def StartTailer_def holders_def)
qed

lemma tail_ensure: "tail_inv m \<Longrightarrow> tail_inv (ensureTailerFollowing m)"
  by (auto simp: tail_inv_def ensureTailerFollowing_def holders_def)

lemma tail_discovered:
  assumes "tail_inv m" "c \<in> set (gDiscover m)"
  shows "tail_inv (discovered c found m)"
proof -
  have sub: "set (remove1 c (gDiscover m)) \<subseteq> set (gDiscover m)" by (rule set_remove1_subset)
  have cnt: "countIf (\<lambda>d. d = mCtx m) (remove1 c (gDiscover m)) + (if c = mCtx m then 1 else 0)
      = countIf (\<lambda>d. d = mCtx m) (gDiscover m)"
    using countIf_remove1 [OF assms(2), of "\<lambda>d. d = mCtx m"] by simp
  have lt: "c < mCtxNext m" using assms by (simp add: tail_inv_def)
  show ?thesis
    using assms(1) sub cnt lt
    by (auto simp: tail_inv_def discovered_def holders_def Let_def split: option.split if_splits)
qed

lemma tail_hookPath:
  assumes "tail_inv m"
  shows "tail_inv (followHookPath path m)"
proof -
  have "countIf (\<lambda>f. fst f = mCtxNext m) (gFollows m) = 0" "countIf (\<lambda>c. c = mCtxNext m) (gDiscover m) = 0"
    using assms by (auto simp: tail_inv_def intro!: countIf_zero)
  with assms show ?thesis
    by (auto simp: tail_inv_def followHookPath_def holders_def Let_def less_Suc_eq)
qed

lemma tail_frame [frame]:
  "tailView (refuse m) = tailView m"
  "tailView (snd (admit h now m)) = tailView m"
  "tailView (installProc p m) = tailView m"
  "tailView (bootReady p m) = tailView m"
  "tailView (snd (reserve tx url tid now m)) = tailView m"
  "tailView (ptyWrite w s e m) = tailView m"
  "tailView (armTimer tid now m) = tailView m"
  "tailView (stopTimer m) = tailView m"
  "tailView (markStallSuspected tid now m) = tailView m"
  "tailView (onSubagentActivity po now m) = tailView m"
  "tailView (onTailerActivity tid po now m) = tailView m"
  "tailView (probeFailed pid m) = tailView m"
  "tailView (probeRegister pid tx now m) = tailView m"
  "tailView (watchExit m) = tailView m"
  "tailView (snd (relaunchInstall sp m)) = tailView m"
  "tailView (installResumeTimer tid mode now m) = tailView m"
  "tailView (onRestart b m) = tailView m"
  "tailView (hookOutcome l m) = tailView m"
  "tailView (hookReceived m) = tailView m"
  "tailView (noteSession sid m) = tailView m"
  "tailView (fireDone rr m) = tailView m"
  "tailView (observeTurn l d m) = tailView m"
  "tailView (meterThenDone addOk hr tid m) = tailView m"
  "tailView (clearCurrentLocked next m) = tailView m"
  "tailView (succeedLocked m) = tailView m"
  "tailView (snd (session_DrainInternalIssues c2 tid m)) = tailView m"
  "tailView (recordProbeOutcomes es m) = tailView m"
  by (simp_all add: tailView_def section_defs reserve_def fireDone_def observeTurn_def
      meterThenDone_def meterTokens_def hookReceived_def noteSession_def probeRegister_def
      onTailerActivity_def clearCurrentLocked_def succeedLocked_def
      session_DrainInternalIssues_def recordProbeOutcomes_frame Let_def
      split: option.split prod.split sum.split)

lemma tail_upd [frame]:
  "tailView (m\<lparr>mStore := st\<rparr>) = tailView m"
  "tailView (m\<lparr>mCurrentSessionID := sid\<rparr>) = tailView m"
  "tailView (m\<lparr>mRing := rg\<rparr>) = tailView m"
  "tailView (m\<lparr>mState := stt\<rparr>) = tailView m"
  "tailView (m\<lparr>mParentDone := b\<rparr>) = tailView m"
  "tailView (m\<lparr>mMet := x\<rparr>) = tailView m"
  "tailView (m\<lparr>gPanicked := g\<rparr>) = tailView m"
  by (simp_all add: tailView_def)

lemma tail_resolvers [frame]:
  "tailView (failSubmitWrite tid stage werr now m) = tailView m"
  "tailView (failTurn tid reason now m) = tailView m"
  "tailView (completeAfterInterrupt addOk fs tid path now m) = tailView m"
  "tailView (completeFromTranscript addOk fs tid started path ft us sr now m) = tailView m"
  by (simp_all add: failSubmitWrite_def failTurn_def completeAfterInterrupt_def
      completeFromTranscript_def meterTokens_def setMet_def Let_def tail_frame tail_upd
      split: sum.split prod.split)

lemma tail_tailLine [frame]: "tailView (tailLine err now raw m) = tailView m"
proof -
  have "mTailer m \<noteq> None \<Longrightarrow> tailView (m\<lparr>mTailer := Some t, mProbes := p\<rparr>) = tailView m" for t p
    by (simp add: tailView_def)
  then show ?thesis
    by (auto simp: tailLine_def Let_def tail_frame split: option.split prod.split)
qed

lemma tail_Complete:
  assumes "core_inv m" "tail_inv m"
  shows "tail_inv (snd (session_Complete addOk r now m))"
  using assms(1)
proof (cases rule: session_Complete_cases [of m addOk r now])
  case (finished st m2)
  have "tail_inv (stopTimer (noteSession (hSessionID r) (hookReceived m)))"
    by (rule tail_inv_frame [OF _ assms(2)]) (simp add: tail_frame)
  then have "tail_inv m2" unfolding finished(4) by (rule tail_hookPath)
  then show ?thesis
    by (rule tail_inv_frame [rotated]) (simp add: finished(5) tail_frame tail_upd)
qed (simp_all add: tail_inv_frame [OF _ assms(2)] tail_frame)

lemma tail_Shutdown:
  assumes "tail_inv m"
  shows "tail_inv (session_Shutdown e m)"
proof -
  let ?m = "m\<lparr>mStopping := True, mState := Dead,
     mCancelled := (if mTailer m = None then mCancelled m else insert (mCtx m) (mCancelled m))\<rparr>"
  have "tail_inv ?m" using assms by (auto simp: tail_inv_def holders_def)
  moreover have "tailView (session_Shutdown e m) = tailView ?m"
    by (simp add: session_Shutdown_def Let_def tail_frame split: prod.split) (simp add: tailView_def)
  ultimately show ?thesis using tail_inv_frame by blast
qed

lemma tail_inv_exec:
  assumes "core_inv m" "tail_inv m" "enabled ev m"
  shows "tail_inv (exec addOk err ev m)"
  using assms
proof (cases ev)
  case (EAdmit h now)
  then show ?thesis
    by (intro tail_inv_frame [OF _ assms(2)]) (simp add: Let_def split_def tail_frame)
qed (use assms in \<open>simp_all add: tail_StartTailer tail_ensure tail_discovered tail_Complete tail_Shutdown
       tail_inv_frame [OF _ assms(2)] tail_frame tail_upd tail_resolvers tail_tailLine\<close>)

lemma reachable_tail: "reachable addOk err m \<Longrightarrow> tail_inv m"
  by (rule reachable_induct_inv) (auto intro: tail_inv_New tail_inv_exec reachable_core)

lemma live_follows:
  assumes "tail_inv m"
  shows "countIf (\<lambda>f. ctxLive m (fst f)) (gFollows m) \<le> 1"
proof -
  have "ctxLive m (fst f) \<Longrightarrow> fst f = mCtx m" if "f \<in> set (gFollows m)" for f
    using assms that by (auto simp: tail_inv_def ctxLive_def)
  then have "countIf (\<lambda>f. ctxLive m (fst f)) (gFollows m) \<le> countIf (\<lambda>f. fst f = mCtx m) (gFollows m)"
    by (intro countIf_mono)
  with assms show ?thesis by (auto simp: tail_inv_def holders_def split: if_splits)
qed

end
