(* ===== verification/SessionProps.thy ===== *)
theory SessionProps
  imports SessionInv
begin

text \<open>
  What the session promises: the properties of the turn slot in every reachable state, and the
  behaviour of each operation on each of its branches.
\<close>

section \<open>A concrete session\<close>

definition demoConfig :: Config where
  "demoConfig = \<lparr>cWorkspace = ''/workspace'', cHomeDir = ''/home/agent'', cModel = ''opus'',
     cEffort = [], cRepo = [], cTurnTimeout = seconds 1800, cPodTTL = seconds 3600, cBootTimeout = 0,
     cSubmitDelay = 0, cSubmitSeq = DefaultSubmitSeq, cMaxRestarts = 0, cKind = ''implement'',
     cRepoName = ''r'', cProject = ''p''\<rparr>"

definition demoHook :: HookResult where
  "demoHook = \<lparr>hSessionID = ''s1'', hFinalText = ''done'', hResultJSON = [], hUsage = [],
     hStopReason = ''end_turn'', hTranscriptPath = ''/t.jsonl'', hTurnTokens = []\<rparr>"

definition demoStart :: Manager where
  "demoStart = session_New demoConfig NewStore (seconds 1000)"

abbreviation demoAdd :: "rat \<Rightarrow> bool" where "demoAdd \<equiv> (\<lambda>x. 0 \<le> x)"

abbreviation demoErr :: "string \<Rightarrow> string" where "demoErr \<equiv> (\<lambda>_. ''bad json'')"

text \<open>A booted session with one turn in flight, and the same after its Stop hook.\<close>

definition demoEvents :: "mevent list" where
  "demoEvents = [EStartTailer True [], EStart 1, EBootReady 1, EReserve ''hi'' [] ''t1'' (seconds 1001)]"

definition demoBusy :: Manager where
  "demoBusy = the (runEvents demoAdd demoErr demoEvents demoStart)"

definition demoIdle :: Manager where
  "demoIdle = the (runEvents demoAdd demoErr (demoEvents @ [EComplete demoHook (seconds 1050)]) demoStart)"

lemma runEvents_reachable:
  assumes "\<not> Option.is_none (runEvents addOk err evs (session_New c NewStore start))"
  shows "reachable addOk err (the (runEvents addOk err evs (session_New c NewStore start)))"
  using assms reachable_run [OF reachable.init]
  by (cases "runEvents addOk err evs (session_New c NewStore start)") auto

lemma demoBusy_reachable: "reachable demoAdd demoErr demoBusy"
  unfolding demoBusy_def demoStart_def by (rule runEvents_reachable) code_simp

lemma demoIdle_reachable: "reachable demoAdd demoErr demoIdle"
  unfolding demoIdle_def demoStart_def by (rule runEvents_reachable) code_simp

lemma demo_values:
  "mCurrent demoBusy = ''t1''" "mState demoBusy = Busy" "mCurrent demoIdle = []" "mState demoIdle = Ready"
  by code_simp+

section \<open>The turn slot in every reachable state\<close>

text \<open>
  C36. In every reachable state the turn store is well formed: the listed ids are distinct and are exactly
  those of the records, each record is filed under its own id, and a record has an end time exactly
  when it is terminal.
\<close>

theorem store_well_formed:
  assumes "reachable addOk err m"
  shows "wf_store (mStore m)"
  using reachable_core [OF assms] by (simp add: core_inv_def)

theorem store_well_formed_witness: "wf_store (mStore demoBusy)"
  using store_well_formed [OF demoBusy_reachable] .

text \<open>
  C1. In every reachable state at most one turn is running, and it is the one the manager holds as
  current: whatever the goroutines interleave, a record is in the running state exactly when its
  id is the current turn's.
\<close>

theorem single_turn_slot:
  assumes "reachable addOk err m"
  shows "recState (mStore m) i = Some Running \<longleftrightarrow> mCurrent m \<noteq> [] \<and> i = mCurrent m"
  using reachable_core [OF assms] unfolding core_inv_def by blast

theorem single_turn_slot_witness:
  "(recState (mStore demoBusy) ''t1'' = Some Running) = (mCurrent demoBusy \<noteq> [] \<and> ''t1'' = mCurrent demoBusy)"
  by (rule single_turn_slot [OF demoBusy_reachable])

text \<open>
  The session's snapshot counts what the store holds: \<^verbatim>\<open>turnsFinished\<close> is the number of terminal
  records and \<^verbatim>\<open>turnsCompleted\<close> the number of successful ones, in every reachable state; the
  store is well formed, so listing it never dereferences a missing record.
\<close>

theorem snapshot_counts:
  assumes "reachable addOk err m"
  shows "wf_store (mStore m) \<and> snTurnsFinished (session_Snapshot m) = nTerminal (mStore m)
         \<and> snTurnsCompleted (session_Snapshot m) = nComplete (mStore m)"
  using reachable_core [OF assms] by (simp add: core_inv_def session_Snapshot_def)

theorem snapshot_counts_witness:
  "wf_store (mStore demoIdle) \<and> snTurnsFinished (session_Snapshot demoIdle) = nTerminal (mStore demoIdle)
   \<and> snTurnsCompleted (session_Snapshot demoIdle) = nComplete (mStore demoIdle)"
  by (rule snapshot_counts [OF demoIdle_reachable])

text \<open>
  C2. The completion callback: in every reachable state no turn has been reported twice, every
  report is the stored, terminal record, and every resolved turn has been reported unless its
  prompt could not be written to the terminal or its metering panicked.
\<close>

theorem done_once:
  assumes "reachable addOk err m"
  shows "distinct (map rID (gDone m))
    \<and> (\<forall>r. r \<in> set (gDone m) \<longrightarrow> byID (mStore m) (rID r) = Some r \<and> terminal r)
    \<and> (\<forall>i r. byID (mStore m) i = Some r \<and> terminal r \<longrightarrow>
         i \<in> rID ` set (gDone m) \<or> i \<in> set (gPanicked m) \<or> hasPrefix (rError r) ''write pty '')"
  using reachable_done [OF assms] unfolding done_inv_def by simp

theorem done_once_witness: "distinct (map rID (gDone demoIdle)) \<and> length (gDone demoIdle) = 1"
proof
  show "distinct (map rID (gDone demoIdle))" using done_once [OF demoIdle_reachable] by blast
  show "length (gDone demoIdle) = 1" by code_simp
qed

text \<open>
  C13. A resolved turn is final: no step of any goroutine changes a terminal record.
\<close>

theorem terminal_final:
  assumes "reachable addOk err m" "mstep addOk err m ev m'"
    "byID (mStore m) i = Some r" "terminal r"
  shows "byID (mStore m') i = Some r"
  using assms keepsTerminal_exec [OF reachable_core [OF assms(1)]]
  unfolding keepsTerminal_def mstep_iff by auto

theorem terminal_final_witness:
  "byID (mStore (exec demoAdd demoErr (EReserve ''again'' [] ''t2'' (seconds 1060)) demoIdle)) ''t1''
   = byID (mStore demoIdle) ''t1''"
proof -
  have en: "enabled (EReserve ''again'' [] ''t2'' (seconds 1060)) demoIdle"
    unfolding enabled.simps by code_simp
  have "recState (mStore demoIdle) ''t1'' = Some Complete" by code_simp
  then obtain r where "byID (mStore demoIdle) ''t1'' = Some r" "terminal r"
    by (auto simp: recState_def terminal_def)
  with terminal_final [OF demoIdle_reachable mstep.step [OF en]] show ?thesis by simp
qed

section \<open>Submission\<close>

lemma admit_frame [frame]:
  "mState (snd (admit h now m)) = mState m" "mCurrent (snd (admit h now m)) = mCurrent m"
  "mW (snd (admit h now m)) = mW m" "mStore (snd (admit h now m)) = mStore m"
  "mCfg (snd (admit h now m)) = mCfg m" "gPty (snd (admit h now m)) = gPty m"
  "gDone (snd (admit h now m)) = gDone m"
  by (simp_all add: admit_def)

lemma Submit_refused:
  "\<not> fst (admit h nowA m) \<Longrightarrow>
   Submit tx url h nowA tid now eP eS nowT m = (Inl ErrPodTTLExpired, refuse (snd (admit h nowA m)))"
  by (simp add: Submit_def split_def)

lemma Submit_not_reserved:
  assumes "fst (admit h nowA m)" "mState m \<in> {Dead, Booting} \<or> mCurrent m \<noteq> []"
  shows "Submit tx url h nowA tid now eP eS nowT m
    = (Inl (if mState m = Dead then ErrSessionDead else if mState m = Booting then ErrSessionNotReady else ErrBusy),
       snd (admit h nowA m))"
  using assms by (auto simp: Submit_def reserve_def split_def admit_frame)

text \<open>The slot reserved, before the writes.\<close>

definition reserved :: "string \<Rightarrow> string \<Rightarrow> bool \<Rightarrow> time \<Rightarrow> string \<Rightarrow> time \<Rightarrow> Manager \<Rightarrow> Manager" where
  "reserved tx url h nowA tid now m = snd (reserve tx url tid now (snd (admit h nowA m)))"

lemma Submit_reserved:
  assumes "fst (admit h nowA m)" "mState m \<in> {Ready, Busy}" "mCurrent m = []" "mW m = Some p"
  shows "Submit tx url h nowA tid now eP eS nowT m =
    (let m2 = reserved tx url h nowA tid now m; seq = cSubmitSeq (mCfg m);
         m3 = ptyWrite (Some p) (PasteStart seq @ tx @ PasteEnd seq) eP m2
     in case eP of
          Some err \<Rightarrow> (Inl ErrWritePaste, failSubmitWrite tid ''write pty paste'' err now m3)
        | None \<Rightarrow>
            (let m4 = ptyWrite (Some p) (SubmitKey seq) eS m3
             in case eS of
                  Some err \<Rightarrow> (Inl ErrWriteSubmit, failSubmitWrite tid ''write pty submit'' err now m4)
                | None \<Rightarrow> (Inr tid, ensureTailerFollowing (armTimer tid nowT m4))))"
  using assms
  by (auto simp: Submit_def reserved_def reserve_def setMet_def split_def admit_frame Let_def split: option.split)

lemma reserved_fields:
  assumes "mState m \<in> {Ready, Busy}" "mCurrent m = []"
  shows "mStore (reserved tx url h nowA tid now m) = store_Create tid tx url now (mStore m)"
    "mCurrent (reserved tx url h nowA tid now m) = tid"
    "mState (reserved tx url h nowA tid now m) = Busy"
    "mCfg (reserved tx url h nowA tid now m) = mCfg m"
    "gPty (reserved tx url h nowA tid now m) = gPty m"
    "gDone (reserved tx url h nowA tid now m) = gDone m"
  using assms by (auto simp: reserved_def reserve_def setMet_def admit_frame)

lemma Submit_table:
  assumes "reachable addOk err m"
  shows "fst (Submit tx url h nowA tid now eP eS nowT m) =
      (if \<not> fst (admit h nowA m) then Inl ErrPodTTLExpired
       else if mState m = Dead then Inl ErrSessionDead
       else if mState m = Booting then Inl ErrSessionNotReady
       else if mCurrent m \<noteq> [] then Inl ErrBusy
       else if eP \<noteq> None then Inl ErrWritePaste
       else if eS \<noteq> None then Inl ErrWriteSubmit
       else Inr tid)
    \<and> (\<not> fst (admit h nowA m) \<or> mState m \<in> {Dead, Booting} \<or> mCurrent m \<noteq> [] \<longrightarrow>
         (let m' = snd (Submit tx url h nowA tid now eP eS nowT m)
          in mStore m' = mStore m \<and> mCurrent m' = mCurrent m \<and> mState m' = mState m \<and> gPty m' = gPty m))"
proof (cases "fst (admit h nowA m)")
  case False
  then show ?thesis by (simp add: Submit_refused refuse_def setMet_def admit_frame)
next
  case ok: True
  show ?thesis
  proof (cases "mState m \<in> {Dead, Booting} \<or> mCurrent m \<noteq> []")
    case True
    with ok show ?thesis by (auto simp: Submit_not_reserved admit_frame)
  next
    case False
    then have live: "mState m \<in> {Ready, Busy}" "mCurrent m = []" by (cases "mState m"; auto)+
    then obtain p where p: "mW m = Some p"
      using reachable_life [OF assms] unfolding life_inv_def by auto
    show ?thesis
      using ok live p by (auto simp: Submit_reserved Let_def split: option.split)
  qed
qed

text \<open>
  C14. The decision table of \<^verbatim>\<open>Submit\<close> in every reachable state: pod lifetime first, then a dead or
  booting session, then a turn in flight, then the two writes; the write never goes through a nil
  writer, and a refusal of the first four kinds leaves the store, the slot and the terminal alone.
\<close>

theorem submit_decision:
  assumes "reachable addOk err m"
  shows "fst (Submit tx url h nowA tid now eP eS nowT m) =
      (if \<not> fst (admit h nowA m) then Inl ErrPodTTLExpired
       else if mState m = Dead then Inl ErrSessionDead
       else if mState m = Booting then Inl ErrSessionNotReady
       else if mCurrent m \<noteq> [] then Inl ErrBusy
       else if eP \<noteq> None then Inl ErrWritePaste
       else if eS \<noteq> None then Inl ErrWriteSubmit
       else Inr tid)
    \<and> (\<not> fst (admit h nowA m) \<or> mState m \<in> {Dead, Booting} \<or> mCurrent m \<noteq> [] \<longrightarrow>
         (let m' = snd (Submit tx url h nowA tid now eP eS nowT m)
          in mStore m' = mStore m \<and> mCurrent m' = mCurrent m \<and> mState m' = mState m \<and> gPty m' = gPty m))"
  using assms by (rule Submit_table)

theorem submit_decision_witness:
  "fst (Submit ''x'' [] False (seconds 1060) ''t2'' (seconds 1060) None None (seconds 1061) demoBusy)
   = Inl ErrBusy"
proof -
  have "fst (admit False (seconds 1060) demoBusy)" by code_simp
  then show ?thesis
    using submit_decision [OF demoBusy_reachable, of "''x''" "[]" False "seconds 1060" "''t2''" "seconds 1060"
        None None "seconds 1061"]
    by (simp add: demo_values)
qed

text \<open>
  A submission that succeeds from a reachable state with a fresh id leaves exactly that turn
  running, and has written the bracketed paste and then the submit key to the live process, with
  nothing in between; the inactivity timer of that turn is armed.
\<close>

theorem submit_accepted:
  assumes "reachable addOk err m" "fst (Submit tx url h nowA tid now eP eS nowT m) = Inr i"
  shows "\<exists>p. mW m = Some p \<and> i = tid
    \<and> (let m' = snd (Submit tx url h nowA tid now eP eS nowT m); seq = cSubmitSeq (mCfg m)
       in recState (mStore m') tid = Some Running \<and> mCurrent m' = tid \<and> mState m' = Busy
        \<and> gPty m' = gPty m @ [(p, PasteStart seq @ tx @ PasteEnd seq), (p, SubmitKey seq)]
        \<and> mTimer m' = Some \<lparr>tmTurn = tid, tmFires = Some (nowT + cTurnTimeout (mCfg m))\<rparr>)"
proof -
  have ok: "fst (admit h nowA m)" using assms(2) by (cases "fst (admit h nowA m)") (auto simp: Submit_refused)
  have "\<not> (mState m \<in> {Dead, Booting} \<or> mCurrent m \<noteq> [])"
    using assms(2) Submit_not_reserved [OF ok] by fastforce
  then have live: "mState m \<in> {Ready, Busy}" "mCurrent m = []" by (cases "mState m"; auto)+
  then obtain p where p: "mW m = Some p"
    using reachable_life [OF assms(1)] unfolding life_inv_def by auto
  have e: "eP = None" "eS = None" "i = tid"
    using assms(2) ok live p by (auto simp: Submit_reserved Let_def split: option.splits)
  have "recState (store_Create tid tx url now (mStore m)) tid = Some Running"
    by (simp add: recState_def turn_simps)
  with ok live p e show ?thesis
    by (auto simp: Submit_reserved Let_def ptyWrite_def armTimer_def ensureTailerFollowing_def reserved_fields)
qed

theorem submit_accepted_witness:
  "recState (mStore (snd (Submit ''x'' [] False (seconds 1060) ''t2'' (seconds 1060) None None (seconds 1061) demoIdle))) ''t2''
   = Some Running"
proof -
  have "fst (Submit ''x'' [] False (seconds 1060) ''t2'' (seconds 1060) None None (seconds 1061) demoIdle) = Inr ''t2''"
    by code_simp
  from submit_accepted [OF demoIdle_reachable this] show ?thesis by (auto simp: Let_def)
qed

lemma failSubmitWrite_result:
  assumes "mCurrent m = tid" "byID (mStore m) tid = Some r"
  shows "map_option rError (byID (mStore (failSubmitWrite tid stage e now m)) tid) = Some (stage @ '': '' @ e)"
    "recState (mStore (failSubmitWrite tid stage e now m)) tid = Some Failed"
    "mCurrent (failSubmitWrite tid stage e now m) = []"
    "mState (failSubmitWrite tid stage e now m) = Ready"
    "gDone (failSubmitWrite tid stage e now m) = gDone m"
  using assms
  by (simp_all add: failSubmitWrite_def turn_simps observeTurn_def clearCurrentLocked_def
      setMet_def recState_def)

lemma ptyWrite_frame [frame]:
  "mCurrent (ptyWrite w b e m) = mCurrent m" "mStore (ptyWrite w b e m) = mStore m"
  "gDone (ptyWrite w b e m) = gDone m"
  by (simp_all add: ptyWrite_def split: option.split)

text \<open>
  A submission whose terminal write fails: its record is failed with the stage and the error,
  the slot is free again and the session ready, and nothing is reported to the callback, since the
  submitter gets the error.
\<close>

theorem submit_write_failed:
  assumes "mState m \<in> {Ready, Busy}" "mCurrent m = []" "fst (admit h nowA m)" "mW m = Some p"
    and "eP = Some e \<and> stage = ''write pty paste'' \<or> eP = None \<and> eS = Some e \<and> stage = ''write pty submit''"
  shows "let m' = snd (Submit tx url h nowA tid now eP eS nowT m)
         in map_option rError (byID (mStore m') tid) = Some (stage @ '': '' @ e)
          \<and> recState (mStore m') tid = Some Failed
          \<and> mCurrent m' = [] \<and> mState m' = Ready \<and> gDone m' = gDone m"
proof -
  have "byID (store_Create tid tx url now (mStore m)) tid = Some (newRecord tid tx url now)"
    by (simp add: store_Create_def)
  note * = failSubmitWrite_result [where tid = tid and r = "newRecord tid tx url now"]
    reserved_fields [OF assms(1,2)] ptyWrite_frame this
  from assms(5) show ?thesis
  proof (elim disjE conjE)
    assume "eP = Some e" "stage = ''write pty paste''"
    with Submit_reserved [OF assms(3,1,2,4)] show ?thesis by (simp only: Let_def snd_conv option.case *)
  next
    assume "eP = None" "eS = Some e" "stage = ''write pty submit''"
    with Submit_reserved [OF assms(3,1,2,4)] show ?thesis by (simp only: Let_def snd_conv option.case *)
  qed
qed

theorem submit_write_failed_witness:
  "recState (mStore (snd (Submit ''x'' [] False (seconds 1060) ''t2'' (seconds 1060) (Some ''EIO'') None 0 demoIdle))) ''t2''
   = Some Failed"
proof -
  have "mW demoIdle = Some 1" "fst (admit False (seconds 1060) demoIdle)" by code_simp+
  with submit_write_failed [of demoIdle False "seconds 1060" 1 "Some ''EIO''" "''EIO''" "''write pty paste''" None
      "''x''" "[]" "''t2''" "seconds 1060" 0] demo_values
  show ?thesis by (simp add: Let_def)
qed

section \<open>Admission past the pod's lifetime\<close>

text \<open>A sequence of admission requests, each with its handoff mark and its time.\<close>

fun admits :: "(bool \<times> time) list \<Rightarrow> Manager \<Rightarrow> (bool \<times> time \<times> bool) list" where
  "admits [] m = []"
| "admits ((h, now) # rs) m = (h, now, fst (admit h now m)) # admits rs (snd (admit h now m))"

lemma admit_deadlines [simp]:
  "podDeadline (snd (admit h now m)) = podDeadline m" "hardCap (snd (admit h now m)) = hardCap m"
  by (simp_all add: admit_def podDeadline_def hardCap_def)

lemma admits_used:
  assumes "podDeadline m \<noteq> zero_time" "mHandoffAdmitted m"
  shows "filter (\<lambda>(h, t, ok). ok \<and> podDeadline m \<le> t) (admits rs m) = []"
  using assms
proof (induction rs m rule: admits.induct)
  case (2 h now rs m)
  have "mHandoffAdmitted (snd (admit h now m))" "fst (admit h now m) \<Longrightarrow> now < podDeadline m"
    using 2(2,3) by (auto simp: admit_def split: if_splits)
  with 2 show ?case by (auto simp: split_def)
qed simp

text \<open>
  C23. With a bounded pod lifetime, whatever requests arrive in whatever order, at most one of those
  that arrive at or after the deadline is admitted; it is a handoff turn and arrives before the
  hard cap, \<^verbatim>\<open>2*TurnTimeout + 60s\<close> after the deadline.
\<close>

theorem one_handoff:
  assumes "podDeadline m \<noteq> zero_time"
  shows "length (filter (\<lambda>(h, t, ok). ok \<and> podDeadline m \<le> t) (admits rs m)) \<le> 1
    \<and> list_all (\<lambda>(h, t, ok). ok \<and> podDeadline m \<le> t \<longrightarrow> h \<and> t < hardCap m) (admits rs m)"
  using assms
proof (induction rs m rule: admits.induct)
  case (2 h now rs m)
  let ?m = "snd (admit h now m)"
  have IH: "length (filter (\<lambda>(h, t, ok). ok \<and> podDeadline m \<le> t) (admits rs ?m)) \<le> 1"
    "list_all (\<lambda>(h, t, ok). ok \<and> podDeadline m \<le> t \<longrightarrow> h \<and> t < hardCap m) (admits rs ?m)"
    using 2 by (auto simp: split_def)
  have late: "h \<and> now < hardCap m \<and> mHandoffAdmitted ?m" if "fst (admit h now m)" "podDeadline m \<le> now"
    using that 2(2) by (auto simp: admit_def split: if_splits)
  have "filter (\<lambda>(h, t, ok). ok \<and> podDeadline m \<le> t) (admits rs ?m) = []"
    if "fst (admit h now m)" "podDeadline m \<le> now"
    using admits_used [of ?m rs] late [OF that] 2(2) by auto
  with IH late show ?case by (auto simp: split_def)
qed simp

theorem one_handoff_witness:
  "podDeadline demoStart \<noteq> zero_time
   \<and> length (filter (\<lambda>(h, t, ok). ok \<and> podDeadline demoStart \<le> t)
       (admits [(True, seconds 10), (True, seconds 5000), (True, seconds 5001)] demoStart)) \<le> 1"
proof
  show d: "podDeadline demoStart \<noteq> zero_time" by code_simp
  show "length (filter (\<lambda>(h, t, ok). ok \<and> podDeadline demoStart \<le> t)
       (admits [(True, seconds 10), (True, seconds 5000), (True, seconds 5001)] demoStart)) \<le> 1"
    using one_handoff [OF d] by blast
qed

lemma admits_early:
  assumes "list_all (\<lambda>(h, t). t < podDeadline m) rs"
  shows "list_all (\<lambda>(h, t, ok). ok) (admits rs m)"
  using assms
proof (induction rs m rule: admits.induct)
  case (2 h now rs m)
  then have "admit h now m = (True, m)" by (simp add: admit_def)
  with 2 show ?case by simp
qed simp

lemma admits_append_early:
  assumes "list_all (\<lambda>(h, t). t < podDeadline m) rs"
  shows "admits (rs @ rs') m = admits rs m @ admits rs' m"
  using assms
proof (induction rs m rule: admits.induct)
  case (2 h now rs m)
  then have "admit h now m = (True, m)" by (simp add: admit_def)
  with 2 show ?case by simp
qed simp

text \<open>
  Handoff turns submitted before the deadline are ordinary turns: all are admitted, and however
  many there were, the first handoff between the deadline and the hard cap is admitted too.
\<close>

theorem early_handoff_keeps_allowance:
  assumes "list_all (\<lambda>(h, t). t < podDeadline m) rs" "\<not> mHandoffAdmitted m" "t < hardCap m"
  shows "list_all (\<lambda>(h, t, ok). ok) (admits (rs @ [(True, t)]) m)"
  using admits_early [OF assms(1)] assms(2,3)
  by (auto simp: admits_append_early [OF assms(1)] admit_def)

theorem early_handoff_keeps_allowance_witness:
  "list_all (\<lambda>(h, t, ok). ok) (admits ([(True, seconds 10), (True, seconds 20)] @ [(True, seconds 5000)]) demoStart)"
  by (rule early_handoff_keeps_allowance) code_simp+

definition admView :: "Manager \<Rightarrow> bool \<times> Config \<times> time" where
  "admView m = (mHandoffAdmitted m, mCfg m, mStartedAt m)"

lemma admView_frame [frame]:
  "admView (meterThenDone addOk r tid m) = admView m"
  "admView (hookOutcome l m) = admView m" "admView (hookReceived m) = admView m"
  "admView (observeTurn l d m) = admView m" "admView (succeedLocked m) = admView m"
  "admView (followHookPath path m) = admView m" "admView (stopTimer m) = admView m"
  "admView (noteSession sid m) = admView m" "admView (m\<lparr>mStore := st\<rparr>) = admView m"
  by (simp_all add: admView_def meterThenDone_def meterTokens_def fireDone_def setMet_def Let_def
      hookOutcome_def hookReceived_def observeTurn_def succeedLocked_def clearCurrentLocked_def
      followHookPath_def stopTimer_def noteSession_def split: option.split)

lemma Complete_admission [frame]: "admView (snd (session_Complete addOk r now m)) = admView m"
  by (simp add: session_Complete_def Let_def admView_frame split: sum.split)

text \<open>
  The allowance is spent by the attempt, not by the turn: a handoff submitted after the deadline
  while a turn is in flight is answered with "busy", and once that turn has completed every further
  handoff is refused for good, so the pod never takes its handoff turn.
\<close>

theorem busy_handoff_spends_allowance:
  assumes "podDeadline m \<noteq> zero_time" "podDeadline m \<le> now" "now < hardCap m"
    "\<not> mHandoffAdmitted m" "mState m = Busy" "mCurrent m \<noteq> []" "now \<le> later"
  shows "let (res, m1) = Submit tx url True now tid now eP eS nowT m;
             m2 = snd (session_Complete addOk r nowC m1)
         in res = Inl ErrBusy \<and> fst (Submit tx' url' True later tid' later eP' eS' nowT' m2) = Inl ErrPodTTLExpired"
proof -
  have a: "admit True now m = (True, m\<lparr>mHandoffAdmitted := True\<rparr>)" using assms by (simp add: admit_def)
  have s: "Submit tx url True now tid now eP eS nowT m = (Inl ErrBusy, m\<lparr>mHandoffAdmitted := True\<rparr>)"
    using assms a by (simp add: Submit_not_reserved)
  let ?m2 = "snd (session_Complete addOk r nowC (m\<lparr>mHandoffAdmitted := True\<rparr>))"
  have "podDeadline ?m2 = podDeadline m" "mHandoffAdmitted ?m2"
    using Complete_admission [of addOk r nowC "m\<lparr>mHandoffAdmitted := True\<rparr>"]
    by (simp_all add: podDeadline_def admView_def)
  then have "\<not> fst (admit True later ?m2)" using assms by (simp add: admit_def)
  with s show ?thesis by (simp add: Submit_refused)
qed

theorem busy_handoff_spends_allowance_witness:
  "fst (Submit ''h'' [] True (seconds 5100) ''t3'' (seconds 5100) None None 0
      (snd (session_Complete demoAdd demoHook (seconds 5050)
        (snd (Submit ''h'' [] True (seconds 5000) ''t2'' (seconds 5000) None None 0 demoBusy)))))
   = Inl ErrPodTTLExpired"
proof -
  have "podDeadline demoBusy \<noteq> zero_time" "podDeadline demoBusy \<le> seconds 5000"
    "seconds 5000 < hardCap demoBusy" "\<not> mHandoffAdmitted demoBusy" "seconds 5000 \<le> seconds 5100"
    by code_simp+
  moreover have "mCurrent demoBusy \<noteq> []" by (simp add: demo_values)
  ultimately show ?thesis
    using busy_handoff_spends_allowance [of demoBusy "seconds 5000" "seconds 5100" "''h''" "[]" "''t2''" None None 0
        demoAdd demoHook "seconds 5050" "''h''" "[]" "''t3''" None None 0] demo_values(2)
    by (simp add: split_def Let_def)
qed

section \<open>Stalls, activity and probes\<close>

text \<open>
  The inactivity timer only reports: firing it for the turn in flight changes neither the store,
  the slot, the state nor the counters; it stamps the start of the silence once, however often it
  fires, and arms the timer again a full timeout later.
\<close>

theorem stall_only_reports:
  assumes "mCurrent m = tid" "mTimer m = Some t" "now \<noteq> zero_time"
  shows "let m1 = markStallSuspected tid now m; m2 = markStallSuspected tid later m1
         in core m2 = core m \<and> mState m2 = mState m \<and> gDone m2 = gDone m \<and> gPty m2 = gPty m
          \<and> mStallSince m1 = (if mStallSince m = zero_time then now else mStallSince m)
          \<and> mStallSince m2 = mStallSince m1
          \<and> mTimer m2 = Some (t\<lparr>tmFires := Some (later + cTurnTimeout (mCfg m))\<rparr>)"
  using assms by (simp add: markStallSuspected_def resetTimer_def setMet_def core_def Let_def)

definition demoArmed :: Manager where
  "demoArmed = armTimer ''t1'' (seconds 1001) demoBusy"

theorem stall_only_reports_witness:
  "mStallSince (markStallSuspected ''t1'' (seconds 4700) (markStallSuspected ''t1'' (seconds 2801) demoArmed))
   = seconds 2801"
proof -
  have "mCurrent demoArmed = ''t1''" by (simp add: demoArmed_def armTimer_def demo_values)
  moreover have "mTimer demoArmed = Some \<lparr>tmTurn = ''t1'', tmFires = Some (seconds 1001 + cTurnTimeout (mCfg demoBusy))\<rparr>"
    by (simp add: demoArmed_def armTimer_def)
  moreover have "mStallSince demoArmed = zero_time" by (simp add: demoArmed_def armTimer_def)
  moreover have "seconds 2801 \<noteq> zero_time" by code_simp
  ultimately show ?thesis
    using stall_only_reports [of demoArmed "''t1''" _ "seconds 2801" "seconds 4700"] by (simp add: Let_def)
qed

text \<open>
  What counts as activity: a line of the turn in flight moves its last activity, clears a suspected
  stall and arms the timer a full timeout later; a line the wrapper's own probe caused, or a line of
  another turn, changes nothing at all.
\<close>

theorem activity_effect:
  assumes "core_inv m" "mCurrent m = tid" "tid \<noteq> []" "mTimer m = Some t"
  shows "let m' = onTailerActivity tid False now m
         in map_option rLastActivityAt (byID (mStore m') tid) = Some now \<and> mStallSince m' = zero_time
          \<and> mTimer m' = Some (t\<lparr>tmFires := Some (now + cTurnTimeout (mCfg m))\<rparr>)
          \<and> onTailerActivity tid True now m = m
          \<and> (\<forall>other po. other \<noteq> tid \<longrightarrow> onTailerActivity other po now m = m)"
proof -
  have "recState (mStore m) tid = Some Running" using assms unfolding core_inv_def by auto
  then obtain r where "byID (mStore m) tid = Some r" "rState r = Running" by (auto simp: recState_def)
  with assms show ?thesis
    by (auto simp: onTailerActivity_def resetTimer_def store_Touch_def)
qed

theorem activity_effect_witness:
  "onTailerActivity ''t1'' True (seconds 1500) demoArmed = demoArmed"
proof -
  have cd: "core demoArmed = core demoBusy" by (simp add: demoArmed_def core_frame)
  have c: "core_inv demoArmed" by (rule core_inv_frame [OF cd reachable_core [OF demoBusy_reachable]])
  have "mCurrent demoArmed = ''t1''" by (simp add: demoArmed_def armTimer_def demo_values)
  moreover have "mTimer demoArmed = Some \<lparr>tmTurn = ''t1'', tmFires = Some (seconds 1001 + cTurnTimeout (mCfg demoBusy))\<rparr>"
    by (simp add: demoArmed_def armTimer_def)
  ultimately show ?thesis
    using activity_effect [OF c, of "''t1''" _ "seconds 1500"] by (simp add: Let_def)
qed

definition turnView :: "Manager \<Rightarrow> (Store \<times> string \<times> nat \<times> nat \<times> int \<times> string) \<times> State \<times> turnTimer option \<times> time \<times> bool \<times> string" where
  "turnView m = (core m, mState m, mTimer m, mStallSince m, mHandoffAdmitted m, mLastCompleted m)"

lemma recordProbeOutcomes_turn [frame]: "turnView (recordProbeOutcomes es m) = turnView m"
proof -
  obtain x where "recordProbeOutcomes es m = m\<lparr>mMet := x\<rparr>" "mxInFlight x = mxInFlight (mMet m)"
    using recordProbeOutcomes_eq [of es m] by blast
  then show ?thesis by (simp add: turnView_def core_def)
qed

lemma probe_turn_frame [frame]:
  "turnView (setMet (mxProbes_update f) m) = turnView m"
  "turnView (ptyWrite w b e m) = turnView m"
  "turnView (probeFailed pid m) = turnView m"
  "turnView (m\<lparr>mProbes := p\<rparr>) = turnView m"
  by (simp_all add: turnView_def core_def setMet_def ptyWrite_def probeFailed_def split: option.split)

lemma probeRegister_turn [frame]: "turnView (probeRegister pid tx now m) = turnView m"
  by (simp add: probeRegister_def recordProbeOutcomes_turn probe_turn_frame split: prod.split)

text \<open>
  A probe is not a turn. Whatever its outcome, it leaves the turn slot, the store, the state, the
  timer, the stall stamp and the handoff allowance alone, and it never reports "busy": with a live
  session it is accepted while a turn is in flight.
\<close>

theorem probe_not_a_turn:
  shows "turnView (snd (session_Probe tx pid now eP eS m)) = turnView m
    \<and> fst (session_Probe tx pid now eP eS m) =
        (if unavailable m then Inl (ErrProbeUnavailable (mState m))
         else if eP \<noteq> None then Inl ErrWritePaste
         else if eS \<noteq> None then Inl ErrWriteSubmit
         else Inr pid)"
proof -
  have inc: "turnView (setMet (\<lambda>x. x\<lparr>mxProbes := inc l (mxProbes x)\<rparr>) m') = turnView m'" for l m'
    by (simp add: turnView_def core_def setMet_def)
  show ?thesis
    by (auto simp: session_Probe_def Let_def inc probe_turn_frame probeRegister_turn split: option.split)
qed

section \<open>The Stop hook\<close>

lemma Complete_table:
  assumes "reachable addOk err m"
  shows "fst (session_Complete addOk r now m) =
      (if mCurrent m = [] then Some ErrNoTurn
       else if mState m = Dead \<or> mState m = Booting then Some (ErrRecovery (mState m))
       else None)
    \<and> (fst (session_Complete addOk r now m) \<noteq> None \<longrightarrow>
         core (snd (session_Complete addOk r now m)) = core m
         \<and> gDone (snd (session_Complete addOk r now m)) = gDone m)
    \<and> (fst (session_Complete addOk r now m) = None \<longrightarrow>
         map_option (\<lambda>x. (rState x, rFinalText x, rStopReason x)) (byID (mStore (snd (session_Complete addOk r now m))) (mCurrent m))
           = Some (Complete, hFinalText r, hStopReason r)
         \<and> mCurrent (snd (session_Complete addOk r now m)) = [] \<and> mState (snd (session_Complete addOk r now m)) = Ready)"
  using reachable_core [OF assms]
proof (cases rule: session_Complete_cases [of m addOk r now])
  case (finished st m2)
  let ?m = "snd (session_Complete addOk r now m)"
  have v: "lifeView ?m = lifeView (succeedLocked (m2\<lparr>mStore := st\<rparr>))" "mStore ?m = st"
    by (simp_all add: finished(5) life_frame store_meterThenDone store_observe store_frame)
  have "mCurrent ?m = []" "mState ?m = Ready"
    using v(1) by (simp_all add: lifeView_def succeedLocked_def clearCurrentLocked_def setMet_def Let_def)
  moreover have "map_option (\<lambda>x. (rState x, rFinalText x, rStopReason x)) (byID st (mCurrent m))
      = Some (Complete, hFinalText r, hStopReason r)"
    using finished(3) by (auto simp: store_Complete_def split: option.splits)
  ultimately show ?thesis using finished v(2) by auto
qed (auto simp: core_frame core_hookReceived ghost_frame)

text \<open>
  The decision table of the Stop hook in every reachable state: without a turn in flight it is an
  error, during crash recovery it is rejected, and neither touches the store, the slot or the
  callback; in every other case the turn in flight completes with the hook's result. The rejection of
  a stale or duplicate hook is not in the table: its session id is never set when a hook arrives.
\<close>

theorem hook_decision:
  assumes "reachable addOk err m"
  shows "fst (session_Complete addOk r now m) =
      (if mCurrent m = [] then Some ErrNoTurn
       else if mState m = Dead \<or> mState m = Booting then Some (ErrRecovery (mState m))
       else None)
    \<and> (fst (session_Complete addOk r now m) \<noteq> None \<longrightarrow>
         core (snd (session_Complete addOk r now m)) = core m
         \<and> gDone (snd (session_Complete addOk r now m)) = gDone m)
    \<and> (fst (session_Complete addOk r now m) = None \<longrightarrow>
         map_option (\<lambda>x. (rState x, rFinalText x, rStopReason x)) (byID (mStore (snd (session_Complete addOk r now m))) (mCurrent m))
           = Some (Complete, hFinalText r, hStopReason r)
         \<and> mCurrent (snd (session_Complete addOk r now m)) = [] \<and> mState (snd (session_Complete addOk r now m)) = Ready)"
  using assms by (rule Complete_table)

theorem hook_decision_witness:
  "fst (session_Complete demoAdd demoHook (seconds 1050) demoBusy) = None"
  using hook_decision [OF demoBusy_reachable, of demoHook "seconds 1050"] by (simp add: demo_values)

text \<open>
  C30. The callback of an accepted Stop hook happens exactly when the metrics library takes every
  amount: then the completed record is appended to the reports, otherwise the turn is completed but
  never reported.
\<close>

theorem metering_decides_callback:
  assumes "reachable addOk err m" "fst (session_Complete addOk r now m) = None"
  shows "let m' = snd (session_Complete addOk r now m)
         in recState (mStore m') (mCurrent m) = Some Complete
          \<and> gDone m' = (if list_all (\<lambda>(_, _, x). addOk x) (meterAdds (mCfg m) r)
                       then gDone m @ [the (byID (mStore m') (mCurrent m))] else gDone m)"
  using reachable_core [OF assms(1)]
proof (cases rule: session_Complete_cases [of m addOk r now])
  case (finished st m2)
  let ?m4 = "observeTurn ''complete'' (now - mCurrentStarted m) (hookOutcome ''ok'' (succeedLocked (m2\<lparr>mStore := st\<rparr>)))"
  have cfg: "mCfg ?m4 = mCfg m"
    by (simp add: finished(4) observeTurn_def hookOutcome_def succeedLocked_def clearCurrentLocked_def
        setMet_def followHookPath_def stopTimer_def noteSession_def hookReceived_def Let_def)
  have v: "mStore ?m4 = st" "gDone ?m4 = gDone m"
    by (simp_all add: finished(4) ghost_frame hookPath_frame store_frame store_observe)
  have st: "recState st (mCurrent m) = Some Complete"
    using complete_fin.finish_state [OF finished(3)] .
  then obtain x where x: "byID st (mCurrent m) = Some x" by (auto simp: recState_def)
  have tw: "length (takeWhile P xs) = length xs \<longleftrightarrow> list_all P xs" for P :: "'a \<Rightarrow> bool" and xs
    by (metis list_all_iff takeWhile_eq_all_conv takeWhile_eq_take take_all_iff order_refl)
  show ?thesis
    using st x
    by (simp add: finished(5) meterThenDone_def meterTokens_def Let_def fireDone_def store_Get_def
        setMet_def cfg v tw)
qed (use assms(2) in simp_all)

theorem metering_decides_callback_witness:
  "gDone (snd (session_Complete demoAdd
      (demoHook\<lparr>hTurnTokens := [\<lparr>ttModel = [], ttInput = -1, ttOutput = 0, ttCacheRead = 0, ttCacheCreation = 0\<rparr>]\<rparr>)
      (seconds 1050) demoBusy)) = gDone demoBusy"
proof -
  let ?r = "demoHook\<lparr>hTurnTokens := [\<lparr>ttModel = [], ttInput = -1, ttOutput = 0, ttCacheRead = 0, ttCacheCreation = 0\<rparr>]\<rparr>"
  have a: "fst (session_Complete demoAdd ?r (seconds 1050) demoBusy) = None"
    and b: "\<not> list_all (\<lambda>(_, _, x). 0 \<le> x) (meterAdds (mCfg demoBusy) ?r)"
    by code_simp+
  show ?thesis using metering_decides_callback [OF demoBusy_reachable a] b unfolding Let_def by simp
qed

section \<open>Interrupt\<close>



text \<open>
  The wait for the marker ends: once a round's clock has reached the deadline it has an answer. It
  resolves the turn only if a round saw that very turn in flight and the marker as the last
  conversation entry of the transcript.
\<close>

theorem interrupt_wait:
  "((\<exists>q. q \<in> set ps \<and> deadline \<le> ipNow q) \<longrightarrow> awaitInterruptedTurn tid deadline ps \<noteq> IPolling)
   \<and> (awaitInterruptedTurn tid deadline ps = IMarked path \<longrightarrow>
        (\<exists>q. q \<in> set ps \<and> ipCurrent q = tid \<and> \<not> ipStopping q \<and> ipPath q = path \<and> WasInterrupted (ipFS q) path))"
  by (induction tid deadline ps rule: awaitInterruptedTurn.induct) auto

theorem interrupt_wait_witness:
  "awaitInterruptedTurn ''t1'' (seconds 30)
     [\<lparr>ipCurrent = ''t1'', ipPath = [], ipStopping = False, ipFS = Map.empty, ipNow = seconds 31\<rparr>] \<noteq> IPolling"
proof -
  let ?ps = "[\<lparr>ipCurrent = ''t1'', ipPath = [], ipStopping = False, ipFS = Map.empty, ipNow = seconds 31\<rparr>]"
  have "\<exists>q. q \<in> set ?ps \<and> seconds 30 \<le> ipNow q" by (simp add: seconds_def)
  with interrupt_wait [of ?ps "seconds 30" "''t1''"] show ?thesis by blast
qed

section \<open>The tailer\<close>

text \<open>
  C33. At most one \<^verbatim>\<open>Follow\<close> of the session's transcript is live in any reachable state, whether it was
  started by discovery, by the first Stop hook or by a changed path: the others hold a cancelled
  context.
\<close>

theorem one_live_follow:
  assumes "reachable addOk err m"
  shows "countIf (\<lambda>f. ctxLive m (fst f)) (gFollows m) \<le> 1"
  by (rule live_follows [OF reachable_tail [OF assms]])

theorem one_live_follow_witness:
  "countIf (\<lambda>f. ctxLive demoIdle (fst f)) (gFollows demoIdle) \<le> 1 \<and> gFollows demoIdle = [(0, ''/t.jsonl'')]"
  using one_live_follow [OF demoIdle_reachable] by (rule conjI) code_simp

section \<open>Crash recovery\<close>

lemma watchExit_frame [frame]:
  "core (watchExit m) = core m" "mCfg (watchExit m) = mCfg m" "gPty (watchExit m) = gPty m"
  "gDone (watchExit m) = gDone m" "mMet (watchExit m) = mMet m"
  "mTranscriptPath (watchExit m) = mTranscriptPath m" "mStopping (watchExit m) = mStopping m"
  by (simp_all add: watchExit_def stopTimer_def core_def)

lemma failTurn_result:
  assumes "mCurrent m = tid" "byID (mStore m) tid = Some r"
  shows "mState (failTurn tid reason now m) = Dead" "mCurrent (failTurn tid reason now m) = []"
    "map_option (\<lambda>x. (rState x, rError x)) (byID (mStore (failTurn tid reason now m)) tid) = Some (Failed, reason)"
    "gDone (failTurn tid reason now m) = gDone m @ [the (byID (mStore (failTurn tid reason now m)) tid)]"
    "mxRestarts (mMet (failTurn tid reason now m)) = mxRestarts (mMet m)"
    "gPty (failTurn tid reason now m) = gPty m"
  using assms
  by (simp_all add: failTurn_def Let_def turn_simps stopTimer_def fireDone_def observeTurn_def
      clearCurrentLocked_def setMet_def)

text \<open>
  The restart budget: when the process exits once more than \<^verbatim>\<open>MaxRestarts\<close> times since the last
  completed turn, no relaunch is counted, the session is dead, and a turn in flight is failed with the
  budget's reason and reported.
\<close>

theorem restart_budget:
  assumes "reachable addOk err m" "\<not> mStopping m" "cMaxRestarts (mCfg m) \<le> int (mRestarts m)"
  shows "let m' = watch addOk showInt fs jsonl spawned boots eP eS now m
         in mState m' = Dead \<and> mCurrent m' = [] \<and> mxRestarts (mMet m') = mxRestarts (mMet m) \<and> gPty m' = gPty m
          \<and> (mCurrent m \<noteq> [] \<longrightarrow>
               map_option (\<lambda>x. (rState x, rError x)) (byID (mStore m') (mCurrent m)) = Some (Failed, budgetReason showInt m)
               \<and> gDone m' = gDone m @ [the (byID (mStore m') (mCurrent m))])"
proof -
  have r: "int (mRestarts (watchExit m)) = int (mRestarts m) + 1" "mState (watchExit m) = Dead"
    using assms(2) by (simp_all add: watchExit_def)
  note cf = coreD [OF watchExit_frame(1), of m]
  have b: "budgetReason showInt (watchExit m) = budgetReason showInt m"
    by (simp add: budgetReason_def watchExit_frame)
  show ?thesis
  proof (cases "mCurrent m = []")
    case True
    then show ?thesis
      using assms(2,3) r cf by (simp add: watch_def Let_def watchExit_frame)
  next
    case False
    then have "byID (mStore m) (mCurrent m) \<noteq> None"
      using reachable_core [OF assms(1)] unfolding core_inv_def recState_def by auto
    then obtain x where x: "byID (mStore (watchExit m)) (mCurrent m) = Some x" using cf(1) by auto
    have w: "watch addOk showInt fs jsonl spawned boots eP eS now m
        = failTurn (mCurrent m) (budgetReason showInt m) now (watchExit m)"
      using assms(2,3) r False b by (simp add: watch_def Let_def watchExit_frame)
    show ?thesis
      using failTurn_result [OF cf(2) x] False by (simp add: w Let_def watchExit_frame)
  qed
qed

definition demoCrashed :: Manager where
  "demoCrashed = the (runEvents demoAdd demoErr (demoEvents @ [EWatchExit, EWatchExit, EWatchExit]) demoStart)"

theorem restart_budget_witness:
  "mState (watch demoAdd (\<lambda>_. ''3'') Map.empty None (Inr 2) True None None (seconds 1100) demoCrashed) = Dead"
proof -
  have "reachable demoAdd demoErr demoCrashed"
    unfolding demoCrashed_def demoStart_def by (rule runEvents_reachable) code_simp
  moreover have "\<not> mStopping demoCrashed" "cMaxRestarts (mCfg demoCrashed) \<le> int (mRestarts demoCrashed)"
    by code_simp+
  ultimately show ?thesis using restart_budget unfolding Let_def by blast
qed

text \<open>What a resumption writes to the new process when the writes succeed.\<close>

lemma installResumeTimer_result:
  assumes "mCurrent m = tid"
  shows "mState (installResumeTimer tid mode now m) = Busy" "mCurrent (installResumeTimer tid mode now m) = tid"
    "gPty (installResumeTimer tid mode now m) = gPty m" "mStore (installResumeTimer tid mode now m) = mStore m"
  using assms by (simp_all add: installResumeTimer_def resumeMetric_def armTimer_def setMet_def)

lemma completeFromTranscript_result:
  assumes "mCurrent m = tid" "byID (mStore m) tid = Some x"
  shows "map_option (\<lambda>x. (rState x, rFinalText x, rStopReason x))
      (byID (mStore (completeFromTranscript addOk fs tid started path ft us sr now m)) tid) = Some (Complete, ft, sr)"
    "gPty (completeFromTranscript addOk fs tid started path ft us sr now m) = gPty m"
    "mState (completeFromTranscript addOk fs tid started path ft us sr now m) = Ready"
  using assms
  by (simp_all add: completeFromTranscript_def Let_def turn_simps meterTokens_def fireDone_def
      stopTimer_def observeTurn_def succeedLocked_def clearCurrentLocked_def setMet_def)

text \<open>
  Resuming the turn in flight on a relaunched process: a turn the restored transcript shows finished
  is completed from it and nothing is typed; an unfinished one gets the bare submit key; and without a
  restored conversation the original prompt is pasted and submitted again, whole. Nothing else is
  written.
\<close>

theorem resume_writes:
  assumes "mState m = Ready" "mCurrent m = tid" "mW m = Some p" "byID (mStore m) tid = Some x"
  shows "let m' = resumeTurn addOk fs tid resumed None None now m; seq = cSubmitSeq (mCfg m)
         in (if \<not> resumed then
               gPty m' = gPty m @ (if rText x = [] then [(p, SubmitKey seq)]
                                   else [(p, PasteStart seq @ rText x @ PasteEnd seq), (p, SubmitKey seq)])
               \<and> mState m' = Busy \<and> mCurrent m' = tid
             else case finishedInTranscript fs (mTranscriptPath m) of
               Some (ft, us, sr) \<Rightarrow>
                 gPty m' = gPty m \<and> mState m' = Ready
                 \<and> map_option (\<lambda>x. (rState x, rFinalText x, rStopReason x)) (byID (mStore m') tid) = Some (Complete, ft, sr)
             | None \<Rightarrow> gPty m' = gPty m @ [(p, SubmitKey seq)] \<and> mState m' = Busy \<and> mCurrent m' = tid)"
proof (cases resumed)
  case False
  with assms show ?thesis
    by (auto simp: resumeTurn_def resubmitOriginalPrompt_def nudge_def store_Get_def Let_def
        installResumeTimer_result ptyWrite_frame) (simp_all add: ptyWrite_def)
next
  case True
  show ?thesis
  proof (cases "finishedInTranscript fs (mTranscriptPath m)")
    case None
    with True assms show ?thesis
      by (simp add: resumeTurn_def nudge_def Let_def installResumeTimer_result ptyWrite_frame)
        (simp add: ptyWrite_def)
  next
    case (Some la)
    then obtain ft us sr where "finishedInTranscript fs (mTranscriptPath m) = Some (ft, us, sr)" by (cases la) auto
    with True assms completeFromTranscript_result [OF assms(2,4)] show ?thesis
      by (simp add: resumeTurn_def Let_def)
  qed
qed

theorem resume_writes_witness:
  "gPty (resumeTurn demoAdd Map.empty ''t1'' False None None (seconds 1100)
      (bootReady 2 (snd (relaunchInstall (Inr 2) (watchExit demoBusy)))))
   = [(2, PasteStart DefaultSubmitSeq @ ''hi'' @ PasteEnd DefaultSubmitSeq), (2, SubmitKey DefaultSubmitSeq)]"
proof -
  let ?evs = "demoEvents @ [EWatchExit, ERelaunch (Inr 2), EBootReady 2]"
  let ?m = "the (runEvents demoAdd demoErr ?evs demoStart)"
  have eq: "gPty (resumeTurn demoAdd Map.empty ''t1'' False None None (seconds 1100)
      (bootReady 2 (snd (relaunchInstall (Inr 2) (watchExit demoBusy)))))
    = gPty (resumeTurn demoAdd Map.empty ''t1'' False None None (seconds 1100) ?m)" by code_simp
  have f: "mState ?m = Ready" "mCurrent ?m = ''t1''" "mW ?m = Some 2" "gPty ?m = []"
    "cSubmitSeq (mCfg ?m) = DefaultSubmitSeq" "map_option rText (byID (mStore ?m) ''t1'') = Some ''hi''" by code_simp+
  then obtain x where x: "byID (mStore ?m) ''t1'' = Some x" "rText x = ''hi''" by auto
  show ?thesis
    unfolding eq using resume_writes [OF f(1,2,3) x(1), of demoAdd Map.empty False "seconds 1100"] f(4,5) x(2)
    unfolding Let_def by simp
qed

text \<open>
  A process that dies in the pod's first turn, before any transcript exists, is relaunched without
  \<^verbatim>\<open>--continue\<close>, and its turn is pasted again into the new process and stays in flight.
\<close>

theorem first_turn_crash:
  assumes "reachable addOk err m" "\<not> mStopping m" "int (mRestarts m) < cMaxRestarts (mCfg m)"
    "mCurrent m = tid" "tid \<noteq> []" "mTurnsCompleted m = 0" "mTranscriptPath m = []"
    "jsonl = None \<or> jsonl = Some 0" "byID (mStore m) tid = Some x" "rText x \<noteq> []"
  shows "let m' = watch addOk showInt fs jsonl (Inr p) True None None now m; seq = cSubmitSeq (mCfg m)
         in claudeArgs (mCfg m) (shouldResume jsonl (watchExit m)) = claudeArgs (mCfg m) False
          \<and> gPty m' = gPty m @ [(p, PasteStart seq @ rText x @ PasteEnd seq), (p, SubmitKey seq)]
          \<and> mState m' = Busy \<and> mCurrent m' = tid"
proof -
  define m1 where "m1 = setMet (\<lambda>y. y\<lparr>mxRestarts := Suc (mxRestarts y)\<rparr>) (watchExit m)"
  define m5 where "m5 = bootReady p ((installProc p m1)\<lparr>mState := Booting, mRing := ring_reset (mRing m1)\<rparr>)"
  have no: "\<not> shouldResume jsonl (watchExit m)" "\<not> shouldResume jsonl m1"
    using assms by (auto simp: shouldResume_def transcriptExistsOnDisk_def watchExit_def stopTimer_def m1_def setMet_def)
  have "relaunchInstall (Inr p) m1 = (None, (installProc p m1)\<lparr>mState := Booting, mRing := ring_reset (mRing m1)\<rparr>)"
    using assms(2) by (simp add: relaunchInstall_def m1_def setMet_def watchExit_def stopTimer_def)
  moreover have "\<not> cMaxRestarts (mCfg m) < int (mRestarts (watchExit m))"
    using assms(2,3) by (simp add: watchExit_def)
  ultimately have w: "watch addOk showInt fs jsonl (Inr p) True None None now m = resumeTurn addOk fs tid False None None now m5"
    using assms(2,4,5) no(2)
    by (simp add: watch_def Let_def m1_def [symmetric] onRestart_def m5_def installProc_def)
  have f: "mState m5 = Ready" "mCurrent m5 = tid" "mW m5 = Some p" "byID (mStore m5) tid = Some x"
    "gPty m5 = gPty m" "mCfg m5 = mCfg m"
    using assms(2,4,9) by (simp_all add: m5_def bootReady_def installProc_def m1_def setMet_def watchExit_def stopTimer_def)
  have "claudeArgs (mCfg m) False = claudeArgs (mCfg m) (shouldResume jsonl (watchExit m))" using no(1) by simp
  with f no(1) assms(10) show ?thesis
    using w by (simp add: Let_def resumeTurn_def resubmitOriginalPrompt_def store_Get_def ptyWrite_frame
        installResumeTimer_result) (simp add: ptyWrite_def)
qed

theorem first_turn_crash_witness:
  "mState (watch demoAdd (\<lambda>_. []) Map.empty (Some 0) (Inr 2) True None None (seconds 1100) demoBusy) = Busy"
proof -
  have f: "\<not> mStopping demoBusy" "int (mRestarts demoBusy) < cMaxRestarts (mCfg demoBusy)"
    "mTurnsCompleted demoBusy = 0" "mTranscriptPath demoBusy = []"
    "map_option rText (byID (mStore demoBusy) ''t1'') = Some ''hi''" by code_simp+
  then obtain x where x: "byID (mStore demoBusy) ''t1'' = Some x" "rText x \<noteq> []" by auto
  show ?thesis
    using first_turn_crash [OF demoBusy_reachable f(1,2) demo_values(1) _ f(3,4) _ x] unfolding Let_def by blast
qed

text \<open>
  Shutdown does not keep the session dead: when the write of a submission in progress fails after
  the shutdown, the failure handler marks the session ready again, with its process gone.
\<close>

theorem shutdown_undone:
  assumes "core_inv m" "mCurrent m = tid" "tid \<noteq> []"
  shows "let m' = failSubmitWrite tid stage e now (session_Shutdown c m)
         in mStopping m' \<and> mState (session_Shutdown c m) = Dead \<and> mState m' = Ready \<and> Alive m'"
proof -
  let ?s = "session_Shutdown c m"
  have st: "mStopping ?s" "mState ?s = Dead"
    by (simp_all add: session_Shutdown_def Let_def recordProbeOutcomes_frame ptyWrite_def split: prod.split option.split)
  have cs: "mCurrent ?s = tid" "mStore ?s = mStore m" using coreD [OF core_exec_rest(3) [of c m]] assms(2) by auto
  have "byID (mStore m) tid \<noteq> None" using assms unfolding core_inv_def recState_def by auto
  then obtain x where "byID (mStore ?s) tid = Some x" using cs(2) by auto
  note r = failSubmitWrite_result [OF cs(1) this]
  have "mStopping (failSubmitWrite tid stage e now ?s) = mStopping ?s"
    by (simp add: failSubmitWrite_def observeTurn_def clearCurrentLocked_def setMet_def split: sum.split)
  with r st show ?thesis by (simp add: Alive_def)
qed

theorem shutdown_undone_witness:
  "Alive (failSubmitWrite ''t1'' ''write pty submit'' ''file already closed'' (seconds 1002) (session_Shutdown None demoBusy))"
  using shutdown_undone [OF reachable_core [OF demoBusy_reachable] demo_values(1)] unfolding Let_def by blast

section \<open>Boot\<close>

definition dialogKeys :: "string list" where
  "dialogKeys = [ESC # ''[B'', [CHR 0x0D]]"

lemma bootWait_accept:
  assumes "\<not> bpGone b" "\<not> bpCtxDone b" "bpNow b < deadline" "\<not> acc"
    "ring_contains ''Bypass Permissions mode'' (bpRing b)"
  shows "bootWait start deadline lw lc acc (b # bs)
    = (dialogKeys @ fst (bootWait start deadline lw lc True bs), snd (bootWait start deadline lw lc True bs))"
  using assms by (simp add: dialogKeys_def split_def Let_def)

lemma bootWait_poll:
  assumes "\<not> bpGone b" "\<not> bpCtxDone b" "bpNow b < deadline"
    "acc \<or> \<not> ring_contains ''Bypass Permissions mode'' (bpRing b)"
  obtains lw' lc' where "bootWait start deadline lw lc acc (b # bs)
    = (if minBoot \<le> bpNow b - start \<and> idleReady \<le> bpNow b - lc' then ([], BootSettled acc)
       else bootWait start deadline lw' lc' acc bs)"
proof (cases "ring_written (bpRing b) \<noteq> lw")
  case True
  show thesis by (rule that [of "bpNow b" "ring_written (bpRing b)"]) (use assms True in auto)
next
  case False
  show thesis by (rule that [of lc lw]) (use assms False in auto)
qed

text \<open>
  The boot wait: it has an answer once a round's clock has reached the deadline; it types the two
  keys of the dialog at most once; and it settles only at the deadline, or when at least four seconds
  have passed since the start.
\<close>

theorem boot_wait:
  "((\<exists>b. b \<in> set bs \<and> deadline \<le> bpNow b) \<longrightarrow> snd (bootWait start deadline lw lc acc bs) \<noteq> BootPolling)
   \<and> (fst (bootWait start deadline lw lc acc bs) = [] \<or> \<not> acc \<and> fst (bootWait start deadline lw lc acc bs) = dialogKeys)
   \<and> (snd (bootWait start deadline lw lc acc bs) = BootSettled a \<longrightarrow>
        (\<exists>b. b \<in> set bs \<and> (deadline \<le> bpNow b \<or> minBoot \<le> bpNow b - start)))"
proof (induction bs arbitrary: lw lc acc)
  case (Cons b bs)
  show ?case
  proof (cases "bpGone b \<or> bpCtxDone b \<or> \<not> bpNow b < deadline")
    case True
    then show ?thesis by auto
  next
    case live: False
    show ?thesis
    proof (cases "\<not> acc \<and> ring_contains ''Bypass Permissions mode'' (bpRing b)")
      case True
      with live have eq: "bootWait start deadline lw lc acc (b # bs)
          = (dialogKeys @ fst (bootWait start deadline lw lc True bs), snd (bootWait start deadline lw lc True bs))"
        by (intro bootWait_accept) auto
      show ?thesis using Cons.IH [of lw lc True] live True unfolding eq by auto
    next
      case False
      with live have nl: "\<not> bpGone b" "\<not> bpCtxDone b" "bpNow b < deadline"
        "acc \<or> \<not> ring_contains ''Bypass Permissions mode'' (bpRing b)" by auto
      obtain lw' lc' where eq: "bootWait start deadline lw lc acc (b # bs)
          = (if minBoot \<le> bpNow b - start \<and> idleReady \<le> bpNow b - lc' then ([], BootSettled acc)
             else bootWait start deadline lw' lc' acc bs)"
        using bootWait_poll [OF nl] by blast
      show ?thesis using Cons.IH [of lw' lc' acc] live unfolding eq by auto
    qed
  qed
qed simp

definition demoPoll :: "time \<Rightarrow> bootPoll" where
  "demoPoll t = \<lparr>bpGone = False, bpCtxDone = False, bpNow = t, bpRing = newRing\<rparr>"

theorem boot_wait_witness:
  "snd (bootWait 0 (seconds 60) 0 0 False [demoPoll (seconds 1), demoPoll (seconds 61)]) \<noteq> BootPolling"
proof -
  have "\<exists>b. b \<in> set [demoPoll (seconds 1), demoPoll (seconds 61)] \<and> seconds 60 \<le> bpNow b"
    by (intro exI [of _ "demoPoll (seconds 61)"]) (simp add: demoPoll_def seconds_def)
  with boot_wait show ?thesis by blast
qed

end
