(* ===== verification/AccountUsage.thy ===== *)
theory AccountUsage
  imports Session
begin

text \<open>
  The path of an account-usage snapshot: the status line command parses what the agent prints
  (\<^verbatim>\<open>cmd/cc-statusline\<close>), posts it to the loopback endpoint (\<^verbatim>\<open>internal/httpapi/accountusage.go\<close>),
  which keeps the newest one (\<^verbatim>\<open>internal/ratelimit\<close>), which the turn finaliser attaches to the
  callback (\<^verbatim>\<open>app.accountUsage\<close>). Percentages are rationals; the body of a request is given as
  the JSON decoder returns it, since its time stamps are text in RFC 3339 form.
\<close>

section \<open>ratelimit.Latest\<close>

record rlSnapshot =
  rlObservedAt :: time
  rlFiveHourPercent :: rat
  rlFiveHourReset :: time
  rlWeeklyPercent :: rat
  rlWeeklyReset :: time

record Latest =
  ltSnap :: rlSnapshot
  ltSet :: bool

definition zeroSnapshot :: rlSnapshot where
  "zeroSnapshot = \<lparr>rlObservedAt = zero_time, rlFiveHourPercent = 0, rlFiveHourReset = zero_time,
     rlWeeklyPercent = 0, rlWeeklyReset = zero_time\<rparr>"

definition zeroLatest :: Latest where
  "zeroLatest = \<lparr>ltSnap = zeroSnapshot, ltSet = False\<rparr>"

definition latest_Set :: "rlSnapshot \<Rightarrow> Latest \<Rightarrow> Latest" where
  "latest_Set s l =
     (if ltSet l \<and> \<not> rlObservedAt s > rlObservedAt (ltSnap l) then l
      else l\<lparr>ltSnap := s, ltSet := True\<rparr>)"

definition latest_Get :: "Latest \<Rightarrow> rlSnapshot \<times> bool" where
  "latest_Get l = (ltSnap l, ltSet l)"

section \<open>cc-statusline\<close>

record report =
  rpObservedAt :: time
  rpFiveHourPercent :: rat
  rpFiveHourResetUnix :: int
  rpWeeklyPercent :: rat
  rpWeeklyResetUnix :: int

record window =
  wnUsed :: rat
  wnResetsAt :: int

record rateLimits =
  rtFiveHour :: "window option"
  rtSevenDay :: "window option"

definition decWindow :: "window decoder" where
  "decWindow = decStruct [(''used_percentage'', fieldDec wnUsed wnUsed_update decFloat64),
                          (''resets_at'', fieldDec wnResetsAt wnResetsAt_update decInt64)]"

definition decRateLimits :: "rateLimits decoder" where
  "decRateLimits =
     decStruct [(''five_hour'', fieldDec rtFiveHour rtFiveHour_update (decPtr \<lparr>wnUsed = 0, wnResetsAt = 0\<rparr> decWindow)),
                (''seven_day'', fieldDec rtSevenDay rtSevenDay_update (decPtr \<lparr>wnUsed = 0, wnResetsAt = 0\<rparr> decWindow))]"

definition unmarshalStatus :: "string \<Rightarrow> rateLimits option option" where
  "unmarshalStatus b =
     unmarshal (decStruct [(''rate_limits'', decPtr \<lparr>rtFiveHour = None, rtSevenDay = None\<rparr> decRateLimits)]) b None"

definition reportOf :: "time \<Rightarrow> rateLimits \<Rightarrow> report" where
  "reportOf now rl =
     \<lparr>rpObservedAt = now,
      rpFiveHourPercent = (case rtFiveHour rl of None \<Rightarrow> 0 | Some w \<Rightarrow> wnUsed w),
      rpFiveHourResetUnix = (case rtFiveHour rl of None \<Rightarrow> 0 | Some w \<Rightarrow> wnResetsAt w),
      rpWeeklyPercent = (case rtSevenDay rl of None \<Rightarrow> 0 | Some w \<Rightarrow> wnUsed w),
      rpWeeklyResetUnix = (case rtSevenDay rl of None \<Rightarrow> 0 | Some w \<Rightarrow> wnResetsAt w)\<rparr>"

definition parsePayload :: "string \<Rightarrow> time \<Rightarrow> report option" where
  "parsePayload b now =
     (case unmarshalStatus b of
        None \<Rightarrow> None
      | Some None \<Rightarrow> None
      | Some (Some rl) \<Rightarrow>
          if rtFiveHour rl = None \<and> rtSevenDay rl = None then None else Some (reportOf now rl))"

text \<open>
  \<^verbatim>\<open>run\<close>: what it posts, and whether it reports an error, given the reply to a POST
  (\<^const>\<open>None\<close> when the request fails).
\<close>

definition statusline_run :: "string option \<Rightarrow> time \<Rightarrow> (report \<Rightarrow> int option) \<Rightarrow> report option \<times> bool" where
  "statusline_run stdin now send =
     (case stdin of
        None \<Rightarrow> (None, True)
      | Some raw \<Rightarrow>
          (case parsePayload raw now of
             None \<Rightarrow> (None, False)
           | Some rep \<Rightarrow>
               (Some rep, case send rep of None \<Rightarrow> True | Some status \<Rightarrow> status \<ge> 300)))"

section \<open>The loopback endpoint\<close>

text \<open>\<^verbatim>\<open>time.Unix(sec, 0)\<close> and \<^verbatim>\<open>t.Unix()\<close>: the epoch is 62135596800 seconds after the zero time.\<close>

definition timeUnix :: "int \<Rightarrow> time" where
  "timeUnix sec = seconds (sec + 62135596800)"

definition unixOf :: "time \<Rightarrow> int" where
  "unixOf t = t div 1000000000 - 62135596800"

definition unixOrZero :: "int \<Rightarrow> time" where
  "unixOrZero sec = (if sec \<le> 0 then zero_time else timeUnix sec)"

record usageAPI =
  uaRl :: "Latest option"
  uaReports :: "string counters"

definition countStatusline :: "string \<Rightarrow> usageAPI \<Rightarrow> usageAPI" where
  "countStatusline result a = a\<lparr>uaReports := inc result (uaReports a)\<rparr>"

definition snapshotOf :: "report \<Rightarrow> rlSnapshot" where
  "snapshotOf req =
     \<lparr>rlObservedAt = rpObservedAt req, rlFiveHourPercent = rpFiveHourPercent req,
      rlFiveHourReset = unixOrZero (rpFiveHourResetUnix req), rlWeeklyPercent = rpWeeklyPercent req,
      rlWeeklyReset = unixOrZero (rpWeeklyResetUnix req)\<rparr>"

definition api_accountUsage :: "report option \<Rightarrow> usageAPI \<Rightarrow> int \<times> usageAPI" where
  "api_accountUsage body a =
     (case body of
        None \<Rightarrow> (400, countStatusline ''bad_payload'' a)
      | Some req \<Rightarrow>
          if rpObservedAt req = zero_time then (400, countStatusline ''bad_payload'' a)
          else (204, countStatusline ''ok'' (a\<lparr>uaRl := map_option (latest_Set (snapshotOf req)) (uaRl a)\<rparr>)))"

section \<open>The callback's account usage\<close>

record accountUsagePayload =
  auObservedAt :: time
  auFiveHourPercent :: rat
  auFiveHourResetUnix :: int
  auWeeklyPercent :: rat
  auWeeklyResetUnix :: int

definition app_accountUsage :: "Latest option \<Rightarrow> accountUsagePayload option" where
  "app_accountUsage rl =
     (case rl of
        None \<Rightarrow> None
      | Some l \<Rightarrow>
          (let (s, ok) = latest_Get l
           in if \<not> ok then None
              else Some \<lparr>auObservedAt = rlObservedAt s, auFiveHourPercent = rlFiveHourPercent s,
                         auFiveHourResetUnix = (if rlFiveHourReset s \<noteq> zero_time then unixOf (rlFiveHourReset s) else 0),
                         auWeeklyPercent = rlWeeklyPercent s,
                         auWeeklyResetUnix = (if rlWeeklyReset s \<noteq> zero_time then unixOf (rlWeeklyReset s) else 0)\<rparr>))"

section \<open>Newest wins\<close>

text \<open>
  What a newest-wins holder promises: \<open>put\<close> keeps what is held unless the new item's key is
  larger. Any sequence of puts into an empty holder then holds an item with the largest key.
\<close>

locale newest_wins =
  fixes put :: "'a \<Rightarrow> 'h \<Rightarrow> 'h" and held :: "'h \<Rightarrow> 'a option" and key :: "'a \<Rightarrow> 'k::linorder" and empty :: 'h
  assumes held_empty: "held empty = None"
    and held_put: "held (put x h) =
          (case held h of None \<Rightarrow> Some x | Some y \<Rightarrow> Some (if key y < key x then x else y))"
begin

lemma held_puts:
  "case held (fold put xs h) of
     None \<Rightarrow> held h = None \<and> xs = []
   | Some s \<Rightarrow> (s \<in> set xs \<or> held h = Some s) \<and> (\<forall>x \<in> set xs. key x \<le> key s)
               \<and> (\<forall>y. held h = Some y \<longrightarrow> key y \<le> key s)"
proof (induction xs arbitrary: h)
  case Nil
  then show ?case by (simp split: option.split)
next
  case (Cons x xs)
  show ?case
    using Cons [of "put x h"]
    by (cases "held h") (auto simp: held_put split: option.splits if_splits)
qed

lemma held_newest:
  "held (fold put xs empty) = None \<longleftrightarrow> xs = []"
  "held (fold put xs empty) = Some s \<Longrightarrow> s \<in> set xs \<and> (\<forall>x \<in> set xs. key x \<le> key s)"
  using held_puts [where xs = xs and h = empty] held_empty
  by (cases "held (fold put xs empty)"; cases xs; auto)+

end

definition latestHeld :: "Latest \<Rightarrow> rlSnapshot option" where
  "latestHeld l = (case latest_Get l of (s, ok) \<Rightarrow> if ok then Some s else None)"

interpretation latest_nw: newest_wins latest_Set latestHeld rlObservedAt zeroLatest
  by unfold_locales (auto simp: latestHeld_def latest_Get_def latest_Set_def zeroLatest_def)


section \<open>Properties\<close>

text \<open>The bodies that reach the holder: decoded, with a time stamp.\<close>

definition validReports :: "report option list \<Rightarrow> report list" where
  "validReports bodies = [r. Some r \<leftarrow> bodies, rpObservedAt r \<noteq> zero_time]"

definition postAll :: "report option list \<Rightarrow> usageAPI \<Rightarrow> usageAPI" where
  "postAll bodies a = fold (\<lambda>b a. snd (api_accountUsage b a)) bodies a"

definition freshAPI :: usageAPI where
  "freshAPI = \<lparr>uaRl = Some zeroLatest, uaReports = (\<lambda>_. 0)\<rparr>"

lemma postAll_holder:
  "uaRl (postAll bodies a) = map_option (fold latest_Set (map snapshotOf (validReports bodies))) (uaRl a)"
proof (induction bodies arbitrary: a)
  case Nil
  then show ?case by (simp add: postAll_def validReports_def option.map_ident)
next
  case (Cons b bodies)
  have "postAll (b # bodies) a = postAll bodies (snd (api_accountUsage b a))" by (simp add: postAll_def)
  then show ?case
    by (cases b)
      (auto simp: Cons api_accountUsage_def countStatusline_def validReports_def option.map_comp o_def)
qed

lemma unix_round_trip [simp]:
  "unixOrZero n = zero_time \<longleftrightarrow> n \<le> 0"
  "0 < n \<Longrightarrow> unixOf (unixOrZero n) = n"
  by (auto simp: unixOrZero_def timeUnix_def unixOf_def seconds_def)

text \<open>
  The account usage a callback carries, after any sequence of bodies posted to the loopback endpoint of a
  fresh pod, malformed ones and ones without a time stamp included: it is absent if and only if no valid report
  was posted, so a fabricated "0% used" is never sent. Otherwise it is the report with the newest time stamp
  whatever order they arrived in: its percentages are those of that report, and a reset is carried as the same Unix
  second, or as 0 (unknown, left out of the body) when the report had none or a negative one.
\<close>

theorem account_usage_newest:
  "case app_accountUsage (uaRl (postAll bodies freshAPI)) of
     None \<Rightarrow> validReports bodies = []
   | Some p \<Rightarrow> \<exists>r. r \<in> set (validReports bodies)
       \<and> list_all (\<lambda>r'. rpObservedAt r' \<le> rpObservedAt r) (validReports bodies)
       \<and> p = \<lparr>auObservedAt = rpObservedAt r, auFiveHourPercent = rpFiveHourPercent r,
              auFiveHourResetUnix = max 0 (rpFiveHourResetUnix r),
              auWeeklyPercent = rpWeeklyPercent r, auWeeklyResetUnix = max 0 (rpWeeklyResetUnix r)\<rparr>"
proof -
  define l where "l = fold latest_Set (map snapshotOf (validReports bodies)) zeroLatest"
  have l: "uaRl (postAll bodies freshAPI) = Some l" by (simp add: postAll_holder freshAPI_def l_def)
  show ?thesis
  proof (cases "latestHeld l")
    case None
    then have "validReports bodies = []" using latest_nw.held_newest(1) by (simp add: l_def)
    with None show ?thesis
      by (simp add: l app_accountUsage_def latestHeld_def split_def split: if_splits)
  next
    case (Some s)
    then obtain r where "r \<in> set (validReports bodies)" "s = snapshotOf r"
      "\<forall>r' \<in> set (validReports bodies). rpObservedAt r' \<le> rpObservedAt r"
      using latest_nw.held_newest(2) [of "map snapshotOf (validReports bodies)" s]
      by (auto simp: l_def snapshotOf_def)
    moreover have "latest_Get l = (s, True)"
      using Some by (cases "latest_Get l") (auto simp: latestHeld_def split: if_splits)
    ultimately have "app_accountUsage (Some l) =
      Some \<lparr>auObservedAt = rpObservedAt r, auFiveHourPercent = rpFiveHourPercent r,
            auFiveHourResetUnix = max 0 (rpFiveHourResetUnix r),
            auWeeklyPercent = rpWeeklyPercent r, auWeeklyResetUnix = max 0 (rpWeeklyResetUnix r)\<rparr>"
      by (auto simp: app_accountUsage_def snapshotOf_def)
    moreover have "list_all (\<lambda>r'. rpObservedAt r' \<le> rpObservedAt r) (validReports bodies)"
      using \<open>\<forall>r' \<in> set (validReports bodies). rpObservedAt r' \<le> rpObservedAt r\<close> by (simp add: list_all_iff)
    ultimately show ?thesis
      unfolding l using \<open>r \<in> set (validReports bodies)\<close> by auto
  qed
qed

end
