(* ===== verification/GoNet.thy ===== *)
theory GoNet
  imports GoJson
begin

text \<open>
  What the callback guard uses of the package \<^verbatim>\<open>net\<close>: textual IP addresses and their
  classification. An address is its sixteen bytes, an IPv4 address being mapped into them.
\<close>

section \<open>IP addresses\<close>

definition decOctet :: "string \<Rightarrow> nat option" where
  "decOctet p =
     (if p = [] \<or> \<not> list_all isDigit p \<or> (length p > 1 \<and> hd p = CHR ''0'') \<or> natOfDigits 0 p > 255 then None
      else Some (natOfDigits 0 p))"

definition parseIPv4 :: "string \<Rightarrow> nat list option" where
  "parseIPv4 s = (let ps = splitOn (CHR ''.'') s in if length ps \<noteq> 4 then None else those (map decOctet ps))"

definition hexRun :: "string \<Rightarrow> string" where
  "hexRun s = takeWhile (\<lambda>c. hexVal c \<noteq> None) s"

fun hexNat :: "nat \<Rightarrow> string \<Rightarrow> nat" where
  "hexNat acc [] = acc"
| "hexNat acc (c # s) = hexNat (acc * 16 + (case hexVal c of Some d \<Rightarrow> d | None \<Rightarrow> 0)) s"

text \<open>
  The fields of an IPv6 address: the bytes so far, the place of the ellipsis, the text left. Each
  round adds two bytes or more, so eight rounds are enough.
\<close>

fun v6Fields :: "nat \<Rightarrow> nat list \<Rightarrow> nat option \<Rightarrow> string \<Rightarrow> (nat list \<times> nat option \<times> string) option" where
  "v6Fields 0 bs el s = Some (bs, el, s)"
| "v6Fields (Suc n) bs el s =
     (let h = hexRun s; r = drop (length h) s
      in if h = [] \<or> length h > 4 then None
         else if hasPrefix r ''.'' then
           (if (el = None \<and> length bs \<noteq> 12) \<or> length bs + 4 > 16 then None
            else map_option (\<lambda>v4. (bs @ v4, el, [])) (parseIPv4 s))
         else (let bs' = bs @ [hexNat 0 h div 256, hexNat 0 h mod 256]
               in case r of
                    [] \<Rightarrow> Some (bs', el, [])
                  | c # r1 \<Rightarrow>
                      if c \<noteq> CHR '':'' \<or> r1 = [] then None
                      else if hd r1 = CHR '':'' then
                        (if el \<noteq> None then None
                         else if tl r1 = [] then Some (bs', Some (length bs'), [])
                         else v6Fields n bs' (Some (length bs')) (tl r1))
                      else v6Fields n bs' el r1))"

definition parseIPv6 :: "string \<Rightarrow> nat list option" where
  "parseIPv6 s =
     (if CHR 0x25 \<in> set s then None
      else if s = ''::'' then Some (replicate 16 0)
      else (let dbl = hasPrefix s ''::''
            in case v6Fields 8 [] (if dbl then Some 0 else None) (if dbl then drop 2 s else s) of
                 None \<Rightarrow> None
               | Some (bs, el, r) \<Rightarrow>
                   if r \<noteq> [] then None
                   else if length bs < 16 then
                     map_option (\<lambda>e. take e bs @ replicate (16 - length bs) 0 @ drop e bs) el
                   else if el \<noteq> None then None else Some bs))"

definition v4Prefix :: "nat list" where
  "v4Prefix = replicate 10 0 @ [255, 255]"

definition ParseIP :: "string \<Rightarrow> nat list option" where
  "ParseIP s =
     (case find (\<lambda>c. c = CHR ''.'' \<or> c = CHR '':'' \<or> c = CHR 0x25) s of
        None \<Rightarrow> None
      | Some c \<Rightarrow> if c = CHR ''.'' then map_option (\<lambda>v4. v4Prefix @ v4) (parseIPv4 s)
                 else if c = CHR '':'' then parseIPv6 s else None)"

definition to4 :: "nat list \<Rightarrow> nat list option" where
  "to4 ip = (if take 12 ip = v4Prefix then Some (drop 12 ip) else None)"

definition IsLoopback :: "nat list \<Rightarrow> bool" where
  "IsLoopback ip = (case to4 ip of Some v \<Rightarrow> v ! 0 = 127 | None \<Rightarrow> ip = replicate 15 0 @ [1])"

definition IsUnspecified :: "nat list \<Rightarrow> bool" where
  "IsUnspecified ip \<longleftrightarrow> ip = v4Prefix @ replicate 4 0 \<or> ip = replicate 16 0"

text \<open>\<^verbatim>\<open>b & 0xf0\<close>, \<^verbatim>\<open>b & 0xfe\<close> and \<^verbatim>\<open>b & 0xc0\<close> of a byte, as the multiples they leave.\<close>

definition IsLinkLocalUnicast :: "nat list \<Rightarrow> bool" where
  "IsLinkLocalUnicast ip =
     (case to4 ip of
        Some v \<Rightarrow> v ! 0 = 169 \<and> v ! 1 = 254
      | None \<Rightarrow> ip ! 0 = 254 \<and> ip ! 1 div 64 * 64 = 128)"

definition IsPrivate :: "nat list \<Rightarrow> bool" where
  "IsPrivate ip =
     (case to4 ip of
        Some v \<Rightarrow> v ! 0 = 10 \<or> (v ! 0 = 172 \<and> v ! 1 div 16 * 16 = 16) \<or> (v ! 0 = 192 \<and> v ! 1 = 168)
      | None \<Rightarrow> ip ! 0 div 2 * 2 = 252)"

section \<open>Addresses are sixteen bytes\<close>

lemma hexVal_bound: "hexVal c = Some d \<Longrightarrow> d < 16"
  by (auto simp: hexVal_def isDigit_def split: if_splits)

lemma hexNat_bound: "hexNat acc s < (acc + 1) * 16 ^ length s"
proof (induction s arbitrary: acc)
  case (Cons c s)
  let ?d = "case hexVal c of Some d \<Rightarrow> d | None \<Rightarrow> 0"
  have "?d < 16" using hexVal_bound by (auto split: option.split)
  then have "acc * 16 + ?d + 1 \<le> (acc + 1) * 16" by simp
  then have le: "(acc * 16 + ?d + 1) * 16 ^ length s \<le> (acc + 1) * 16 * 16 ^ length s" by (rule mult_le_mono1)
  have "hexNat acc (c # s) = hexNat (acc * 16 + ?d) s" by simp
  also have "\<dots> < (acc * 16 + ?d + 1) * 16 ^ length s" by (rule Cons)
  also note le
  finally show ?case by (simp add: algebra_simps)
qed simp

lemma parseIPv4_bytes: "parseIPv4 s = Some v \<Longrightarrow> length v = 4 \<and> (\<forall>b \<in> set v. b < 256)"
proof -
  assume "parseIPv4 s = Some v"
  then have t: "those (map decOctet (splitOn (CHR ''.'') s)) = Some v" "length (splitOn (CHR ''.'') s) = 4"
    by (auto simp: parseIPv4_def Let_def split: if_splits)
  have "those (map decOctet ps) = Some v \<Longrightarrow> length v = length ps \<and> (\<forall>b \<in> set v. b < 256)" for ps v
    by (induction ps arbitrary: v) (auto simp: decOctet_def split: option.splits if_splits)
  from this [OF t(1)] t(2) show ?thesis by simp
qed

lemma field_bytes:
  assumes "length h \<le> 4"
  shows "hexNat 0 h div 256 < 256" "hexNat 0 h mod 256 < 256"
proof -
  have "hexNat 0 h < 16 ^ 4" using hexNat_bound [of 0 h] power_increasing [OF assms, of "16 :: nat"] by simp
  then show "hexNat 0 h div 256 < 256" "hexNat 0 h mod 256 < 256" by auto
qed

text \<open>One round: an embedded IPv4 address ends the text; otherwise two bytes are added.\<close>

lemma v6Fields_round:
  assumes "v6Fields (Suc n) bs el s = Some out"
  obtains (v4) v where "parseIPv4 s = Some v" "out = (bs @ v, el, [])" "length bs + 4 \<le> 16"
  | (two) a b el1 where "a < 256" "b < 256" "el1 = el \<or> el1 = Some (length bs + 2)"
      "out = (bs @ [a, b], el1, []) \<or> (\<exists>r. v6Fields n (bs @ [a, b]) el1 r = Some out)"
proof -
  define h where "h = hexRun s"
  define r where "r = drop (length h) s"
  have len: "length h \<le> 4" using assms by (auto simp: Let_def h_def split: if_splits)
  note u = assms [unfolded v6Fields.simps, folded h_def, unfolded Let_def, folded r_def]
  show thesis
  proof (cases "hasPrefix r ''.''")
    case True
    with u v4 show thesis by (auto split: if_splits)
  next
    case False
    with u two [OF field_bytes [OF len], of el] two [OF field_bytes [OF len], of "Some (length bs + 2)"] show thesis
      by (auto split: if_splits list.splits)
  qed
qed

lemma v6Fields_bytes:
  "v6Fields n bs el s = Some (bs', el', r) \<Longrightarrow> \<forall>b \<in> set bs. b < 256 \<Longrightarrow>
     (\<forall>e. el = Some e \<longrightarrow> e \<le> length bs) \<Longrightarrow> length bs + 2 * n \<le> 16 \<Longrightarrow>
   (\<forall>b \<in> set bs'. b < 256) \<and> length bs' \<le> 16 \<and> (\<forall>e. el' = Some e \<longrightarrow> e \<le> length bs')"
proof (induction n arbitrary: bs el s)
  case (Suc n)
  from Suc.prems(1) show ?case
  proof (cases rule: v6Fields_round [consumes 1, case_names v4 two])
    case (v4 v)
    with Suc.prems parseIPv4_bytes [of s v] show ?thesis by fastforce
  next
    case (two a b el1)
    then have ok: "\<forall>x \<in> set (bs @ [a, b]). x < 256" "\<forall>e. el1 = Some e \<longrightarrow> e \<le> length (bs @ [a, b])"
      "length (bs @ [a, b]) + 2 * n \<le> 16"
      using Suc.prems by fastforce+
    from two(4) show ?thesis
    proof
      assume "(bs', el', r) = (bs @ [a, b], el1, [])"
      with ok show ?thesis by auto
    next
      assume "\<exists>r'. v6Fields n (bs @ [a, b]) el1 r' = Some (bs', el', r)"
      with Suc.IH ok show ?thesis by blast
    qed
  qed
qed auto

lemma ParseIP_bytes: "ParseIP s = Some ip \<Longrightarrow> length ip = 16 \<and> (\<forall>b \<in> set ip. b < 256)"
proof -
  assume ip: "ParseIP s = Some ip"
  have v6: "parseIPv6 s = Some ip \<Longrightarrow> ?thesis"
  proof (cases "s = ''::''")
    case False
    assume p: "parseIPv6 s = Some ip"
    then obtain bs el r where f: "v6Fields 8 [] (if hasPrefix s ''::'' then Some 0 else None)
        (if hasPrefix s ''::'' then drop 2 s else s) = Some (bs, el, r)"
      using False by (auto simp: parseIPv6_def Let_def split: if_splits option.splits prod.splits)
    note b = v6Fields_bytes [OF f]
    show ?thesis using p f b False
      by (auto simp: parseIPv6_def Let_def split: if_splits dest!: in_set_takeD in_set_dropD)
  qed (auto simp: parseIPv6_def split: if_splits)
  show ?thesis
    using ip v6 parseIPv4_bytes
    by (fastforce simp: ParseIP_def v4Prefix_def split: option.splits if_splits)
qed


section \<open>Address blocks\<close>

text \<open>An address as a number, and membership in a block given by a prefix and its length.\<close>

definition ipVal :: "nat list \<Rightarrow> nat" where
  "ipVal ip = foldl (\<lambda>n b. n * 256 + b) 0 ip"

definition inBlock :: "nat \<Rightarrow> nat \<times> nat \<Rightarrow> bool" where
  "inBlock n bl \<longleftrightarrow> n div 2 ^ (128 - snd bl) = fst bl div 2 ^ (128 - snd bl)"

text \<open>The block of IPv4 addresses \<open>a.b.c.d/l\<close>, mapped into IPv6.\<close>

definition v4Block :: "nat list \<Rightarrow> nat \<Rightarrow> nat \<times> nat" where
  "v4Block v l = (ipVal (v4Prefix @ v), 96 + l)"

definition v6Block :: "nat \<Rightarrow> nat \<Rightarrow> nat \<times> nat" where
  "v6Block hi l = (hi * 2 ^ 112, l)"

text \<open>Loopback, unspecified, link-local and private, in both families.\<close>

definition blockedBlocks :: "(nat \<times> nat) list" where
  "blockedBlocks =
     [v4Block [127, 0, 0, 0] 8, (1, 128), v4Block [0, 0, 0, 0] 32, (0, 128),
      v4Block [169, 254, 0, 0] 16, v6Block 0xfe80 10,
      v4Block [10, 0, 0, 0] 8, v4Block [172, 16, 0, 0] 12, v4Block [192, 168, 0, 0] 16, v6Block 0xfc00 7]"

lemma foldl_val: "foldl (\<lambda>n b. n * 256 + b) (a :: nat) ip = a * 256 ^ length ip + foldl (\<lambda>n b. n * 256 + b) 0 ip"
proof (induction ip arbitrary: a)
  case (Cons b ip)
  show ?case using Cons [of "a * 256 + b"] Cons [of b] by (simp add: algebra_simps)
qed simp

lemma ipVal_append: "ipVal (a @ b) = ipVal a * 256 ^ length b + ipVal b"
  unfolding ipVal_def foldl_append by (rule foldl_val)

lemma ipVal_bound: "\<forall>b \<in> set ip. b < 256 \<Longrightarrow> ipVal ip < 256 ^ length ip"
proof (induction ip rule: rev_induct)
  case (snoc b ip)
  then have "ipVal ip + 1 \<le> 256 ^ length ip" "b < 256" by auto
  then have "(ipVal ip + 1) * 256 \<le> 256 ^ length ip * 256" by (intro mult_le_mono1)
  with \<open>b < 256\<close> show ?case by (simp add: ipVal_append) (simp add: ipVal_def)
qed (simp add: ipVal_def)

lemma ipVal_front:
  assumes "\<forall>b \<in> set ip. b < 256"
  shows "ipVal ip div 256 ^ (length ip - k) = ipVal (take k ip)"
proof (cases "k \<le> length ip")
  case True
  have "ipVal (drop k ip) < 256 ^ (length ip - k)"
    using ipVal_bound [of "drop k ip"] assms by (auto dest: in_set_dropD)
  moreover have "ipVal ip = ipVal (take k ip) * 256 ^ (length ip - k) + ipVal (drop k ip)"
    using ipVal_append [of "take k ip" "drop k ip"] by simp
  ultimately show ?thesis by simp
qed simp

lemma last_digit:
  assumes "x < 256" "y < (256 :: nat)"
  shows "a * 256 + x = b * 256 + y \<longleftrightarrow> a = b \<and> x = y"
proof
  assume e: "a * 256 + x = b * 256 + y"
  have "(a * 256 + x) div 256 = a" "(b * 256 + y) div 256 = b" using assms by simp_all
  with e have "a = b" by metis
  with e show "a = b \<and> x = y" by simp
qed simp

lemma ipVal_inj:
  "length a = length b \<Longrightarrow> \<forall>x \<in> set a. x < 256 \<Longrightarrow> \<forall>x \<in> set b. x < 256 \<Longrightarrow> ipVal a = ipVal b \<longleftrightarrow> a = b"
proof (induction a b rule: rev_induct2)
  case (4 x xs y ys)
  have l: "x < 256" "y < 256" "length xs = length ys" using 4 by auto
  have "ipVal (xs @ [x]) = ipVal xs * 256 + x" "ipVal (ys @ [y]) = ipVal ys * 256 + y"
    by (simp_all add: ipVal_append) (simp_all add: ipVal_def)
  moreover have "ipVal xs = ipVal ys \<longleftrightarrow> xs = ys" using 4 by auto
  ultimately show ?case using last_digit [OF l(1,2)] by simp
qed auto


lemma front_digits:
  fixes x b c d :: nat
  assumes "r \<le> 8" "b < 256" "d < 256"
  shows "(x * 256 + b) div 2 ^ (8 - r) = (c * 256 + d) div 2 ^ (8 - r)
     \<longleftrightarrow> x = c \<and> b div 2 ^ (8 - r) = d div 2 ^ (8 - r)"
proof -
  have p: "(256 :: nat) = 2 ^ r * 2 ^ (8 - r)" using assms(1) by (simp flip: power_add)
  have split: "(y * 256 + e) div 2 ^ (8 - r) = y * 2 ^ r + e div 2 ^ (8 - r)" for y e :: nat
  proof -
    have "y * 256 = (y * 2 ^ r) * 2 ^ (8 - r)" by (subst p) (simp add: mult.assoc)
    then have "(y * 256 + e) div 2 ^ (8 - r) = ((y * 2 ^ r) * 2 ^ (8 - r) + e) div 2 ^ (8 - r)" by (rule arg_cong)
    also have "\<dots> = y * 2 ^ r + e div 2 ^ (8 - r)" by (rule div_mult_self3) simp
    finally show ?thesis .
  qed
  have small: "e div 2 ^ (8 - r) < 2 ^ r" if "e < 256" for e :: nat
    using that p by (simp add: less_mult_imp_div_less)
  have "x * 2 ^ r + b div 2 ^ (8 - r) = c * 2 ^ r + d div 2 ^ (8 - r)
     \<Longrightarrow> x = c \<and> b div 2 ^ (8 - r) = d div 2 ^ (8 - r)"
  proof -
    assume e: "x * 2 ^ r + b div 2 ^ (8 - r) = c * 2 ^ r + d div 2 ^ (8 - r)"
    have "(x * 2 ^ r + b div 2 ^ (8 - r)) div 2 ^ r = x" "(c * 2 ^ r + d div 2 ^ (8 - r)) div 2 ^ r = c"
      using small assms(2,3) by simp_all
    with e have "x = c" by metis
    with e show ?thesis by simp
  qed
  then show ?thesis by (auto simp: split)
qed

text \<open>Membership in a block, byte by byte: the whole bytes agree and the leading bits of the next one.\<close>

lemma inBlock_bytes:
  assumes "length ip = 16" "length net = 16" "\<forall>b \<in> set ip. b < 256" "\<forall>b \<in> set net. b < 256" "k < 16" "r \<le> 8"
  shows "inBlock (ipVal ip) (ipVal net, 8 * k + r)
     \<longleftrightarrow> take k ip = take k net \<and> ip ! k div 2 ^ (8 - r) = net ! k div 2 ^ (8 - r)"
proof -
  have exp: "2 ^ (128 - (8 * k + r)) = (256 :: nat) ^ (15 - k) * 2 ^ (8 - r)"
  proof -
    have "128 - (8 * k + r) = 8 * (15 - k) + (8 - r)" using assms(5,6) by simp
    then show ?thesis by (simp add: power_add power_mult)
  qed
  have front: "ipVal l div 2 ^ (128 - (8 * k + r)) = (ipVal (take k l) * 256 + l ! k) div 2 ^ (8 - r)"
    if "length l = 16" "\<forall>b \<in> set l. b < 256" for l
  proof -
    have "ipVal l div 2 ^ (128 - (8 * k + r)) = ipVal l div 256 ^ (15 - k) div 2 ^ (8 - r)"
      by (simp add: exp div_mult2_eq)
    also have "ipVal l div 256 ^ (15 - k) = ipVal (take (Suc k) l)"
      using ipVal_front [OF that(2), of "Suc k"] that(1) by simp
    also have "take (Suc k) l = take k l @ [l ! k]" using that(1) assms(5) by (simp add: take_Suc_conv_app_nth)
    finally show ?thesis by (simp add: ipVal_append) (simp add: ipVal_def)
  qed
  have "ip ! k < 256" "net ! k < 256" using assms by auto
  moreover have "ipVal (take k ip) = ipVal (take k net) \<longleftrightarrow> take k ip = take k net"
    using assms by (intro ipVal_inj) (auto dest: in_set_takeD)
  ultimately show ?thesis
    unfolding inBlock_def fst_conv snd_conv front [OF assms(1,3)] front [OF assms(2,4)]
    using front_digits [OF assms(6)] by simp
qed

lemma ipVal_simps: "ipVal [] = 0" "ipVal (replicate n 0) = 0" "ipVal (a # l) = a * 256 ^ length l + ipVal l"
proof -
  show "ipVal [] = 0" by (simp add: ipVal_def)
  show "ipVal (replicate n 0) = 0" by (induction n) (simp_all add: ipVal_def)
  show "ipVal (a # l) = a * 256 ^ length l + ipVal l" using ipVal_append [of "[a]" l] by (simp add: ipVal_def)
qed

lemma block_nets:
  "v4Block v l = (ipVal (v4Prefix @ v), 96 + l)"
  "v6Block 0xfe80 10 = (ipVal (254 # 128 # replicate 14 0), 8 * 1 + 2)"
  "v6Block 0xfc00 7 = (ipVal (252 # replicate 15 0), 8 * 0 + 7)"
  "((1 :: nat), (128 :: nat)) = (ipVal (replicate 15 0 @ [1]), 8 * 15 + 8)"
  "((0 :: nat), (128 :: nat)) = (ipVal (replicate 16 0), 8 * 15 + 8)"
  by (simp_all add: v4Block_def v6Block_def ipVal_append ipVal_simps)

text \<open>The blocks as sixteen bytes: whole bytes first, then leading bits of the next.\<close>

lemma in_v4Block:
  assumes "length ip = 16" "\<forall>b \<in> set ip. b < 256" "length v = 4" "\<forall>b \<in> set v. b < 256" "j < 4" "r \<le> 8"
  shows "inBlock (ipVal ip) (v4Block v (8 * j + r))
     \<longleftrightarrow> take 12 ip = v4Prefix \<and> take j (drop 12 ip) = take j v \<and> drop 12 ip ! j div 2 ^ (8 - r) = v ! j div 2 ^ (8 - r)"
proof -
  have len: "length v4Prefix = 12" by (simp add: v4Prefix_def)
  have l: "96 + (8 * j + r) = 8 * (12 + j) + r" by simp
  have "inBlock (ipVal ip) (ipVal (v4Prefix @ v), 8 * (12 + j) + r)
     \<longleftrightarrow> take (12 + j) ip = take (12 + j) (v4Prefix @ v)
       \<and> ip ! (12 + j) div 2 ^ (8 - r) = (v4Prefix @ v) ! (12 + j) div 2 ^ (8 - r)"
    using assms len by (intro inBlock_bytes) (auto simp: v4Prefix_def)
  moreover have "take (12 + j) ip = take 12 ip @ take j (drop 12 ip)" by (rule take_add)
  ultimately show ?thesis
    using assms len unfolding v4Block_def l by (simp add: nth_append)
qed

lemma four_zeros: "length w = 4 \<Longrightarrow> take 3 w = [0, 0, 0] \<and> w ! 3 = 0 \<longleftrightarrow> w = replicate 4 (0 :: nat)"
  by (auto simp: length_Suc_conv numeral_eq_Suc)

lemma blocks_cover:
  assumes "length ip = 16" "\<forall>b \<in> set ip. b < 256"
  shows "(IsLoopback ip \<or> IsUnspecified ip \<or> IsLinkLocalUnicast ip \<or> IsPrivate ip)
     \<longleftrightarrow> list_ex (inBlock (ipVal ip)) blockedBlocks"
proof -
  let ?in = "inBlock (ipVal ip)"
  let ?m = "take 12 ip = v4Prefix"
  let ?v = "drop 12 ip"
  note v4 = in_v4Block [OF assms]
  have l4: "length ?v = 4" using assms(1) by simp
  have len: "length v4Prefix = 12" by (simp add: v4Prefix_def)
  have net: "?in (v4Block [a, 0, 0, 0] 8) \<longleftrightarrow> ?m \<and> ?v ! 0 = a" if "a < 256" for a
    using v4 [of "[a, 0, 0, 0]" 0 8] that by simp
  have pair: "?in (v4Block [a, b, 0, 0] 16) \<longleftrightarrow> ?m \<and> ?v ! 0 = a \<and> ?v ! 1 = b" if "a < 256" "b < 256" for a b
    using v4 [of "[a, b, 0, 0]" 1 8] that l4 by (simp add: take_Suc_conv_app_nth)
  have b172: "?in (v4Block [172, 16, 0, 0] 12) \<longleftrightarrow> ?m \<and> ?v ! 0 = 172 \<and> ?v ! 1 div 16 * 16 = 16"
    using v4 [of "[172, 16, 0, 0]" 1 4] l4 by (simp add: take_Suc_conv_app_nth)
  have z4: "?in (v4Block [0, 0, 0, 0] 32) \<longleftrightarrow> ip = v4Prefix @ replicate 4 0"
  proof -
    have "?in (v4Block [0, 0, 0, 0] 32) \<longleftrightarrow> ?m \<and> take 3 ?v = [0, 0, 0] \<and> ?v ! 3 = 0"
      using v4 [of "[0, 0, 0, 0]" 3 8] by simp
    also have "take 3 ?v = [0, 0, 0] \<and> ?v ! 3 = 0 \<longleftrightarrow> ?v = replicate 4 0"
      using four_zeros [OF l4] .
    also have "?m \<and> ?v = replicate 4 0 \<longleftrightarrow> ip = v4Prefix @ replicate 4 0"
      using len by (metis append_eq_conv_conj append_take_drop_id)
    finally show ?thesis .
  qed
  have exact: "?in (ipVal (l @ [b]), 8 * 15 + 8) \<longleftrightarrow> ip = l @ [b]"
    if "length l = 15" "\<forall>x \<in> set l. x < 256" "b < 256" for l b
  proof -
    have "?in (ipVal (l @ [b]), 8 * 15 + 8) \<longleftrightarrow> take 15 ip = l \<and> ip ! 15 = b"
      using inBlock_bytes [OF assms(1) _ assms(2), of "l @ [b]" 15 8] that by (auto simp: nth_append)
    moreover have "ip = take 15 ip @ [ip ! 15]"
      using assms(1) take_Suc_conv_app_nth [of 15 ip] by simp
    ultimately show ?thesis using that(1) by (metis append_eq_conv_conj nth_append_length)
  qed
  have one: "?in (1, 128) \<longleftrightarrow> ip = replicate 15 0 @ [1]"
    unfolding block_nets(4) by (rule exact) auto
  have zero: "?in (0, 128) \<longleftrightarrow> ip = replicate 16 0"
    using exact [of "replicate 15 0" 0] unfolding block_nets(5) by (simp add: numeral_eq_Suc)
  have fe80: "?in (v6Block 0xfe80 10) \<longleftrightarrow> ip ! 0 = 254 \<and> ip ! 1 div 64 * 64 = 128"
    using inBlock_bytes [OF assms(1) _ assms(2), of "254 # 128 # replicate 14 0" 1 2] assms(1)
    unfolding block_nets(2) by (simp add: take_Suc_conv_app_nth)
  have fc00: "?in (v6Block 0xfc00 7) \<longleftrightarrow> ip ! 0 div 2 * 2 = 252"
    using inBlock_bytes [OF assms(1) _ assms(2), of "252 # replicate 15 0" 0 7]
    unfolding block_nets(3) by simp
  have n: "?in (v4Block [127, 0, 0, 0] 8) \<longleftrightarrow> ?m \<and> ?v ! 0 = 127" "?in (v4Block [10, 0, 0, 0] 8) \<longleftrightarrow> ?m \<and> ?v ! 0 = 10"
    "?in (v4Block [169, 254, 0, 0] 16) \<longleftrightarrow> ?m \<and> ?v ! 0 = 169 \<and> ?v ! 1 = 254"
    "?in (v4Block [192, 168, 0, 0] 16) \<longleftrightarrow> ?m \<and> ?v ! 0 = 192 \<and> ?v ! 1 = 168"
    by (simp_all add: net pair)
  note blocks = n b172 z4 one zero fe80 fc00
  have nm: "?m \<Longrightarrow> ip ! 0 = 0 \<and> ip \<noteq> replicate 15 0 @ [1]"
  proof -
    assume m: "?m"
    have "ip ! 0 = take 12 ip ! 0" "ip ! 10 = take 12 ip ! 10" by simp_all
    with m have "ip ! 0 = 0" "ip ! 10 = 255" by (simp_all add: v4Prefix_def numeral_eq_Suc)
    then show ?thesis by (auto simp: nth_append)
  qed
  have "list_ex ?in blockedBlocks \<longleftrightarrow>
      (?m \<and> ?v ! 0 = 127) \<or> ip = replicate 15 0 @ [1] \<or> ip = v4Prefix @ replicate 4 0 \<or> ip = replicate 16 0
    \<or> (?m \<and> ?v ! 0 = 169 \<and> ?v ! 1 = 254) \<or> (ip ! 0 = 254 \<and> ip ! 1 div 64 * 64 = 128)
    \<or> (?m \<and> ?v ! 0 = 10) \<or> (?m \<and> ?v ! 0 = 172 \<and> ?v ! 1 div 16 * 16 = 16)
    \<or> (?m \<and> ?v ! 0 = 192 \<and> ?v ! 1 = 168) \<or> ip ! 0 div 2 * 2 = 252"
    unfolding blockedBlocks_def list_ex_Cons_iff list_ex_Nil_iff blocks by simp
  then show ?thesis
    unfolding IsLoopback_def IsUnspecified_def IsLinkLocalUnicast_def IsPrivate_def to4_def
    using nm by (cases "?m") auto
qed

end
