(* ===== verification/HttpApi.thy ===== *)
theory HttpApi
  imports SessionProps AccountUsage GoNet
begin

text \<open>
  \<^verbatim>\<open>internal/httpapi\<close> and \<^verbatim>\<open>internal/auth\<close>: the handlers behind the public and the loopback routes,
  the guard of callback URLs and the bearer-token middleware. The handlers call the session
  through the interface \<^verbatim>\<open>SessionController\<close>, a record of functions here; its contract is the
  locale \<open>session_controller\<close>, interpreted for the session manager. Matching a path to a route
  is the router library's work, so a request arrives with its route; URL parsing and token
  verification are parameters.
\<close>

section \<open>The callback guard\<close>

datatype url_error = InvalidURL | BadScheme string | LoopbackHost | UnspecifiedHost | LinkLocalHost | PrivateHost

text \<open>\<open>parse\<close> gives the scheme and the host name of a URL, \<^const>\<open>None\<close> for one that does not parse.\<close>

definition validateCallbackURL :: "(string \<Rightarrow> (string \<times> string) option) \<Rightarrow> string \<Rightarrow> url_error option" where
  "validateCallbackURL parse raw =
     (if raw = [] then None
      else (case parse raw of
              None \<Rightarrow> Some InvalidURL
            | Some (scheme, host) \<Rightarrow>
                if scheme \<noteq> ''https'' \<and> scheme \<noteq> ''http'' then Some (BadScheme scheme)
                else if host = ''localhost'' then Some LoopbackHost
                else (case ParseIP host of
                        None \<Rightarrow> None
                      | Some ip \<Rightarrow>
                          if IsLoopback ip then Some LoopbackHost
                          else if IsUnspecified ip then Some UnspecifiedHost
                          else if IsLinkLocalUnicast ip then Some LinkLocalHost
                          else if IsPrivate ip then Some PrivateHost
                          else None)))"

section \<open>Requests and replies\<close>

text \<open>\<^verbatim>\<open>json.NewDecoder(body).Decode\<close>: the first value of the body; what follows it is not read.\<close>

datatype 'a decoded = DecodeEOF | DecodeError | Decoded 'a

definition decodeFirst :: "'a decoder \<Rightarrow> 'a \<Rightarrow> string \<Rightarrow> 'a decoded" where
  "decodeFirst d z body =
     (if skipWs body = [] then DecodeEOF
      else (case parseVal (Suc (2 * length body)) (skipWs body) of
              None \<Rightarrow> DecodeError
            | Some (v, rest) \<Rightarrow>
                (case d (take (length (skipWs body) - length rest) (skipWs body)) v z of
                   None \<Rightarrow> DecodeError | Some x \<Rightarrow> Decoded x)))"

record postMessageReq =
  pmText :: string
  pmCallbackURL :: string
  pmHandoff :: bool

definition decPostMessageReq :: "postMessageReq decoder" where
  "decPostMessageReq =
     decStruct [(''text'', fieldDec pmText pmText_update decString),
                (''callbackUrl'', fieldDec pmCallbackURL pmCallbackURL_update decString),
                (''handoff'', fieldDec pmHandoff pmHandoff_update decBool)]"

definition decPostProbeReq :: "string decoder" where
  "decPostProbeReq = decStruct [(''text'', decString)]"

definition decTurnTokens :: "TurnTokens decoder" where
  "decTurnTokens =
     decStruct [(''model'', fieldDec ttModel ttModel_update decString), (''input'', fieldDec ttInput ttInput_update decInt64),
                (''output'', fieldDec ttOutput ttOutput_update decInt64),
                (''cacheRead'', fieldDec ttCacheRead ttCacheRead_update decInt64),
                (''cacheCreation'', fieldDec ttCacheCreation ttCacheCreation_update decInt64)]"

definition zeroTokens :: TurnTokens where
  "zeroTokens = \<lparr>ttModel = [], ttInput = 0, ttOutput = 0, ttCacheRead = 0, ttCacheCreation = 0\<rparr>"

definition zeroHookResult :: HookResult where
  "zeroHookResult = \<lparr>hSessionID = [], hFinalText = [], hResultJSON = [], hUsage = [], hStopReason = [],
     hTranscriptPath = [], hTurnTokens = []\<rparr>"

definition decHookResult :: "HookResult decoder" where
  "decHookResult =
     decStruct [(''sessionId'', fieldDec hSessionID hSessionID_update decString),
                (''finalText'', fieldDec hFinalText hFinalText_update decString),
                (''resultJson'', fieldDec hResultJSON hResultJSON_update decRaw),
                (''usage'', fieldDec hUsage hUsage_update decRaw),
                (''stopReason'', fieldDec hStopReason hStopReason_update decString),
                (''transcriptPath'', fieldDec hTranscriptPath hTranscriptPath_update decString),
                (''turnTokens'', fieldDec hTurnTokens hTurnTokens_update (decSlice zeroTokens decTurnTokens))]"

datatype httpBody = NoBody | TextBody string | URLError url_error | SessionError session_error
  | ErrorField string | TurnIDBody string | ProbeIDBody string | ProbeBody ProbeStatus
  | ListBody "Summary list" | RecordBody Record | SnapshotBody Snapshot | FileBody string

type_synonym response = "int \<times> httpBody"

text \<open>A panic in a handler, as the metrics middleware answers it.\<close>

definition panicResponse :: response where
  "panicResponse = (500, TextBody ''internal server error'')"

section \<open>The session controller\<close>

text \<open>\<^verbatim>\<open>Complete\<close> yields \<^const>\<open>None\<close> when it panics, otherwise its error.\<close>

record 'm SessionController =
  ctlSubmit :: "string \<Rightarrow> string \<Rightarrow> bool \<Rightarrow> 'm \<Rightarrow> (session_error + string) \<times> 'm"
  ctlComplete :: "HookResult \<Rightarrow> 'm \<Rightarrow> session_error option option \<times> 'm"
  ctlSnapshot :: "'m \<Rightarrow> Snapshot"
  ctlProbe :: "string \<Rightarrow> 'm \<Rightarrow> (session_error + string) \<times> 'm"
  ctlProbeStatus :: "string \<Rightarrow> 'm \<Rightarrow> ProbeStatus option"
  ctlInterrupt :: "'m \<Rightarrow> (session_error + string) \<times> 'm"
  ctlTranscriptPath :: "'m \<Rightarrow> string"
  ctlAlive :: "'m \<Rightarrow> bool"
  ctlShutdown :: "'m \<Rightarrow> 'm"
  ctlStore :: "'m \<Rightarrow> Store"

section \<open>Handlers\<close>

definition postMessage ::
  "'m SessionController \<Rightarrow> (string \<Rightarrow> (string \<times> string) option) \<Rightarrow> string \<Rightarrow> 'm \<Rightarrow> response \<times> 'm" where
  "postMessage ctl parse body m =
     (case decodeFirst decPostMessageReq \<lparr>pmText = [], pmCallbackURL = [], pmHandoff = False\<rparr> body of
        Decoded req \<Rightarrow>
          if pmText req = [] then ((400, TextBody ''text is required''), m)
          else (case validateCallbackURL parse (pmCallbackURL req) of
                  Some e \<Rightarrow> ((400, URLError e), m)
                | None \<Rightarrow>
                    (case ctlSubmit ctl (pmText req) (pmCallbackURL req) (pmHandoff req) m of
                       (Inl ErrPodTTLExpired, m1) \<Rightarrow> ((410, ErrorField ''pod ttl expired''), m1)
                     | (Inl ErrBusy, m1) \<Rightarrow> ((409, ErrorField ''a turn is in flight''), m1)
                     | (Inl NilWriter, m1) \<Rightarrow> (panicResponse, m1)
                     | (Inl e, m1) \<Rightarrow> ((503, SessionError e), m1)
                     | (Inr i, m1) \<Rightarrow> ((202, TurnIDBody i), m1)))
      | _ \<Rightarrow> ((400, TextBody ''text is required''), m))"

definition listMessages :: "'m SessionController \<Rightarrow> 'm \<Rightarrow> response \<times> 'm" where
  "listMessages ctl m =
     (case store_List (ctlStore ctl m) of None \<Rightarrow> (panicResponse, m) | Some ss \<Rightarrow> ((200, ListBody ss), m))"

definition getMessage :: "'m SessionController \<Rightarrow> string \<Rightarrow> 'm \<Rightarrow> response \<times> 'm" where
  "getMessage ctl turnID m =
     (case store_Get turnID (ctlStore ctl m) of
        None \<Rightarrow> ((404, TextBody ''not found''), m) | Some r \<Rightarrow> ((200, RecordBody r), m))"

definition getSession :: "'m SessionController \<Rightarrow> 'm \<Rightarrow> response \<times> 'm" where
  "getSession ctl m = ((200, SnapshotBody (ctlSnapshot ctl m)), m)"

definition getTranscript :: "'m SessionController \<Rightarrow> filesystem \<Rightarrow> 'm \<Rightarrow> response \<times> 'm" where
  "getTranscript ctl fs m =
     (let p = ctlTranscriptPath ctl m
      in if p = [] then ((404, TextBody ''no transcript yet''), m)
         else (case fs p of None \<Rightarrow> ((404, TextBody ''transcript unavailable''), m) | Some s \<Rightarrow> ((200, FileBody s), m)))"

definition postProbe :: "'m SessionController \<Rightarrow> string \<Rightarrow> 'm \<Rightarrow> response \<times> 'm" where
  "postProbe ctl body m =
     (case decodeFirst decPostProbeReq [] body of
        DecodeError \<Rightarrow> ((400, TextBody ''invalid json body''), m)
      | d \<Rightarrow>
          (case ctlProbe ctl (case d of Decoded t \<Rightarrow> t | _ \<Rightarrow> []) m of
             (Inl e, m1) \<Rightarrow> ((503, SessionError e), m1)
           | (Inr i, m1) \<Rightarrow>
               (case ctlProbeStatus ctl i m1 of
                  None \<Rightarrow> ((202, ProbeIDBody i), m1) | Some st \<Rightarrow> ((202, ProbeBody st), m1))))"

definition getProbe :: "'m SessionController \<Rightarrow> string \<Rightarrow> 'm \<Rightarrow> response \<times> 'm" where
  "getProbe ctl pid m =
     (case ctlProbeStatus ctl pid m of
        None \<Rightarrow> ((404, TextBody ''not found''), m) | Some st \<Rightarrow> ((200, ProbeBody st), m))"

definition postInterrupt :: "'m SessionController \<Rightarrow> 'm \<Rightarrow> response \<times> 'm" where
  "postInterrupt ctl m =
     (case ctlInterrupt ctl m of
        (Inl e, m1) \<Rightarrow> ((503, SessionError e), m1) | (Inr i, m1) \<Rightarrow> ((202, TurnIDBody i), m1))"

definition deleteSession :: "'m SessionController \<Rightarrow> 'm \<Rightarrow> response \<times> 'm" where
  "deleteSession ctl m = ((202, NoBody), ctlShutdown ctl m)"

definition readyz :: "'m SessionController \<Rightarrow> 'm \<Rightarrow> response" where
  "readyz ctl m = (if ctlAlive ctl m then (200, NoBody) else (503, TextBody ''not ready''))"

text \<open>
  The Stop hook's endpoint; the counter is \<^verbatim>\<open>HookOutcome\<close> under the label \<^verbatim>\<open>bad_payload\<close>. The
  loopback router recovers no panic: the connection is closed with no reply, \<^const>\<open>None\<close> here.
\<close>

definition turnComplete :: "'m SessionController \<Rightarrow> string \<Rightarrow> 'm \<times> nat \<Rightarrow> response option \<times> 'm \<times> nat" where
  "turnComplete ctl body mb =
     (case decodeFirst decHookResult zeroHookResult body of
        Decoded res \<Rightarrow>
          (case ctlComplete ctl res (fst mb) of
             (None, m1) \<Rightarrow> (None, m1, snd mb)
           | (Some (Some e), m1) \<Rightarrow> (Some (409, SessionError e), m1, snd mb)
           | (Some None, m1) \<Rightarrow> (Some (204, NoBody), m1, snd mb))
      | _ \<Rightarrow> (Some (400, TextBody ''bad payload''), fst mb, snd mb + 1))"

section \<open>Authentication\<close>

record authConfig =
  auIssuer :: string
  auAudience :: string

datatype auth_error = IssuerRequired | AudienceRequired

definition auth_Validate :: "authConfig \<Rightarrow> auth_error option" where
  "auth_Validate c =
     (if auIssuer c = [] then Some IssuerRequired else if auAudience c = [] then Some AudienceRequired else None)"

record Claims =
  clSubject :: string
  clPreferredUsername :: string
  clIssuer :: string

text \<open>
  What the OIDC library returns for a token it accepts: the subject and the issuer it verified and
  the claims it decodes, if it can.
\<close>

record idToken =
  itSubject :: string
  itIssuer :: string
  itClaims :: "Claims option"

definition auth_Verify :: "(string \<Rightarrow> idToken option) \<Rightarrow> string \<Rightarrow> Claims option" where
  "auth_Verify oidc raw =
     (case oidc raw of
        None \<Rightarrow> None
      | Some tok \<Rightarrow>
          (case itClaims tok of
             None \<Rightarrow> None
           | Some c \<Rightarrow>
               (let c1 = c\<lparr>clIssuer := itIssuer tok, clSubject := itSubject tok\<rparr>
                in if clSubject c1 = [] then None else Some c1)))"

definition bearerToken :: "string \<Rightarrow> string \<times> string" where
  "bearerToken h =
     (let prefix = ''Bearer ''
      in if h = [] then ([], ''missing_token'')
         else if length h < length prefix \<or> \<not> equalFold (take (length prefix) h) prefix then ([], ''invalid_scheme'')
         else (let tok = trimSpace (drop (length prefix) h)
               in if tok = [] then ([], ''missing_token'') else (tok, [])))"

text \<open>
  \<^verbatim>\<open>Middleware\<close> around a handler: the claims reach the handler's context. The counter is
  \<^verbatim>\<open>AuthTotal\<close>.
\<close>

definition authMiddleware ::
  "(string \<Rightarrow> idToken option) \<Rightarrow> string \<Rightarrow> (Claims \<Rightarrow> 'm \<Rightarrow> response \<times> 'm) \<Rightarrow> string counters \<times> 'm
   \<Rightarrow> response \<times> string counters \<times> 'm" where
  "authMiddleware oidc header next cm =
     (case bearerToken header of
        (raw, reason) \<Rightarrow>
          if raw = [] then ((401, TextBody ''missing bearer token''), inc ''rejected'' (fst cm), snd cm)
          else (case auth_Verify oidc raw of
                  None \<Rightarrow> ((401, TextBody ''invalid token''), inc ''rejected'' (fst cm), snd cm)
                | Some claims \<Rightarrow>
                    (case next claims (snd cm) of (resp, m1) \<Rightarrow> (resp, inc ''ok'' (fst cm), m1))))"

section \<open>The public router\<close>

datatype v1Route = PostMessages string | ListMessages | GetMessages string | GetSession | GetTranscript
  | PostProbe string | GetProbe string | PostInterrupt | DeleteSession

datatype route = V1 v1Route | Healthz | Readyz | MetricsRoute

definition mountV1 ::
  "'m SessionController \<Rightarrow> (string \<Rightarrow> (string \<times> string) option) \<Rightarrow> filesystem \<Rightarrow> v1Route \<Rightarrow> 'm \<Rightarrow> response \<times> 'm" where
  "mountV1 ctl parse fs r =
     (case r of
        PostMessages body \<Rightarrow> postMessage ctl parse body
      | ListMessages \<Rightarrow> listMessages ctl
      | GetMessages tid \<Rightarrow> getMessage ctl tid
      | GetSession \<Rightarrow> getSession ctl
      | GetTranscript \<Rightarrow> getTranscript ctl fs
      | PostProbe body \<Rightarrow> postProbe ctl body
      | GetProbe pid \<Rightarrow> getProbe ctl pid
      | PostInterrupt \<Rightarrow> postInterrupt ctl
      | DeleteSession \<Rightarrow> deleteSession ctl)"

text \<open>A verifier is configured or not; the registry's text stands for the metrics page.\<close>

definition Router ::
  "'m SessionController \<Rightarrow> (string \<Rightarrow> (string \<times> string) option) \<Rightarrow> filesystem \<Rightarrow> (string \<Rightarrow> idToken option) option
   \<Rightarrow> string \<Rightarrow> string \<Rightarrow> route \<Rightarrow> string counters \<times> 'm \<Rightarrow> response \<times> string counters \<times> 'm" where
  "Router ctl parse fs verifier metrics header r cm =
     (case r of
        V1 v \<Rightarrow>
          (case verifier of
             Some oidc \<Rightarrow> authMiddleware oidc header (\<lambda>_. mountV1 ctl parse fs v) cm
           | None \<Rightarrow> (case mountV1 ctl parse fs v (snd cm) of (resp, m1) \<Rightarrow> (resp, fst cm, m1)))
      | Healthz \<Rightarrow> ((200, NoBody), cm)
      | Readyz \<Rightarrow> (readyz ctl (snd cm), cm)
      | MetricsRoute \<Rightarrow> ((200, TextBody metrics), cm))"

section \<open>The session manager as a controller\<close>

text \<open>The clock, fresh ids and write errors the manager's operations see during one request.\<close>

record ctlInputs =
  ciNowA :: time
  ciTurnID :: string
  ciNow :: time
  ciPasteErr :: "string option"
  ciKeyErr :: "string option"
  ciNowT :: time
  ciProbeID :: string
  ciEscErr :: "string option"

definition completeOrPanic ::
  "(rat \<Rightarrow> bool) \<Rightarrow> HookResult \<Rightarrow> time \<Rightarrow> Manager \<Rightarrow> session_error option option \<times> Manager" where
  "completeOrPanic addOk r now m =
     (case session_Complete addOk r now m of
        (e, m1) \<Rightarrow> (if gPanicked m1 = gPanicked m then Some e else None, m1))"

definition managerCtl :: "(rat \<Rightarrow> bool) \<Rightarrow> ctlInputs \<Rightarrow> Manager SessionController" where
  "managerCtl addOk i =
     \<lparr>ctlSubmit = (\<lambda>t u h. Submit t u h (ciNowA i) (ciTurnID i) (ciNow i) (ciPasteErr i) (ciKeyErr i) (ciNowT i)),
      ctlComplete = (\<lambda>r. completeOrPanic addOk r (ciNow i)),
      ctlSnapshot = session_Snapshot,
      ctlProbe = (\<lambda>t. session_Probe t (ciProbeID i) (ciNow i) (ciPasteErr i) (ciKeyErr i)),
      ctlProbeStatus = session_ProbeStatus,
      ctlInterrupt = session_Interrupt (ciEscErr i),
      ctlTranscriptPath = mTranscriptPath,
      ctlAlive = Alive,
      ctlShutdown = session_Shutdown (ciEscErr i),
      ctlStore = mStore\<rparr>"

section \<open>The contract of a controller\<close>

text \<open>
  What the handlers rely on: \<open>inv\<close> is the invariant of the states in which a request arrives.
  A submission never writes through a nil writer, a refused one leaves the store alone, and so do
  probes, interrupts and the shutdown; the store can always be listed.
\<close>

locale session_controller =
  fixes ctl :: "'m SessionController" and inv :: "'m \<Rightarrow> bool"
  assumes submit_no_panic: "inv m \<Longrightarrow> fst (ctlSubmit ctl t u h m) \<noteq> Inl NilWriter"
    and submit_refused: "inv m \<Longrightarrow> fst (ctlSubmit ctl t u h m) \<in> {Inl ErrPodTTLExpired, Inl ErrBusy} \<Longrightarrow>
      ctlStore ctl (snd (ctlSubmit ctl t u h m)) = ctlStore ctl m"
    and probe_store: "ctlStore ctl (snd (ctlProbe ctl t m)) = ctlStore ctl m"
    and interrupt_store: "ctlStore ctl (snd (ctlInterrupt ctl m)) = ctlStore ctl m"
    and shutdown_store: "ctlStore ctl (ctlShutdown ctl m) = ctlStore ctl m"
    and listable: "inv m \<Longrightarrow> store_List (ctlStore ctl m) \<noteq> None"
begin

lemma post_message_out:
  assumes "inv m"
  shows "fst (fst (postMessage ctl parse body m)) \<in> {202, 400, 409, 410, 503}
    \<and> (fst (fst (postMessage ctl parse body m)) \<notin> {202, 503} \<longrightarrow>
         ctlStore ctl (snd (postMessage ctl parse body m)) = ctlStore ctl m)"
proof (cases "decodeFirst decPostMessageReq \<lparr>pmText = [], pmCallbackURL = [], pmHandoff = False\<rparr> body")
  case (Decoded req)
  let ?s = "ctlSubmit ctl (pmText req) (pmCallbackURL req) (pmHandoff req) m"
  have np: "fst ?s \<noteq> Inl NilWriter" using submit_no_panic [OF assms] .
  have ref: "fst ?s \<in> {Inl ErrPodTTLExpired, Inl ErrBusy} \<Longrightarrow> ctlStore ctl (snd ?s) = ctlStore ctl m"
    using submit_refused [OF assms] .
  obtain res m1 where s: "?s = (res, m1)" by (cases ?s)
  show ?thesis
    using np ref s Decoded unfolding postMessage_def
    by (auto split: option.split sum.split session_error.split)
qed (simp_all add: postMessage_def)

text \<open>No route of the public interface answers with a recovered panic, and only one changes the store.\<close>

lemma v1_out:
  assumes "inv m"
  shows "fst (fst (mountV1 ctl parse fs r m)) \<in> {200, 202, 400, 404, 409, 410, 503}
    \<and> (fst (fst (mountV1 ctl parse fs r m)) \<in> {409, 410} \<longrightarrow> (\<exists>body. r = PostMessages body))
    \<and> (ctlStore ctl (snd (mountV1 ctl parse fs r m)) \<noteq> ctlStore ctl m \<longrightarrow>
         (\<exists>body. r = PostMessages body) \<and> fst (fst (mountV1 ctl parse fs r m)) \<in> {202, 503})"
proof (cases r)
  case (PostMessages body)
  then show ?thesis using post_message_out [OF assms, of parse body] by (auto simp: mountV1_def)
next
  case ListMessages
  then show ?thesis using listable [OF assms] by (auto simp: mountV1_def listMessages_def)
next
  case (PostProbe body)
  have "ctlStore ctl (snd (ctlProbe ctl t m)) = ctlStore ctl m" for t by (rule probe_store)
  with PostProbe show ?thesis
    by (auto simp: mountV1_def postProbe_def split: decoded.split prod.split sum.split option.split)
       (metis snd_conv)+
next
  case PostInterrupt
  then show ?thesis using interrupt_store [of m]
    by (auto simp: mountV1_def postInterrupt_def split: prod.split sum.split)
qed (auto simp: mountV1_def getMessage_def getSession_def getTranscript_def getProbe_def deleteSession_def Let_def
       shutdown_store split: option.split)

end

section \<open>The session manager keeps the contract\<close>

lemma write_store [simp]: "mStore (ptyWrite w bs e m) = mStore m"
  by (simp add: ptyWrite_def split: option.split)

lemma control_store:
  "mStore (snd (session_Probe t pid now eP eS m)) = mStore m"
  "mStore (snd (session_Interrupt e m)) = mStore m"
  "mStore (session_Shutdown e m) = mStore m"
proof -
  show "mStore (snd (session_Probe t pid now eP eS m)) = mStore m"
    by (simp add: session_Probe_def Let_def setMet_def probeFailed_def probeRegister_def recordProbeOutcomes_frame
        split: option.split prod.split)
  show "mStore (snd (session_Interrupt e m)) = mStore m"
    by (simp add: session_Interrupt_def Let_def setMet_def split: option.split)
  show "mStore (session_Shutdown e m) = mStore m"
    by (simp add: session_Shutdown_def Let_def recordProbeOutcomes_frame split: prod.split)
qed

interpretation manager_ctl: session_controller "managerCtl addOk i" "reachable addOk err" for addOk i err
proof
  fix m t u h assume r: "reachable addOk err m"
  note table = Submit_table [OF r, of t u h "ciNowA i" "ciTurnID i" "ciNow i" "ciPasteErr i" "ciKeyErr i" "ciNowT i"]
  show "fst (ctlSubmit (managerCtl addOk i) t u h m) \<noteq> Inl NilWriter"
    using table by (auto simp: managerCtl_def)
  assume "fst (ctlSubmit (managerCtl addOk i) t u h m) \<in> {Inl ErrPodTTLExpired, Inl ErrBusy}"
  then show "ctlStore (managerCtl addOk i) (snd (ctlSubmit (managerCtl addOk i) t u h m)) = ctlStore (managerCtl addOk i) m"
    using table by (auto simp: managerCtl_def Let_def split: if_splits)
next
  fix m assume "reachable addOk err m"
  then have "wf_store (mStore m)" using reachable_core core_inv_def by blast
  then show "store_List (ctlStore (managerCtl addOk i) m) \<noteq> None"
    using store_List_order by (fastforce simp: managerCtl_def)
qed (simp_all add: managerCtl_def control_store)

section \<open>What the interface answers\<close>

text \<open>
  C26. On a reachable session no request of the public interface ends in a panic: the status is one of
  seven, conflict and gone are answers to a submission only, and the turn store changes only by a
  submission that is answered 202, or 503 after a failed write.
\<close>

theorem v1_answers:
  assumes "reachable addOk err m"
  shows "let out = mountV1 (managerCtl addOk i) parse fs r m
    in fst (fst out) \<in> {200, 202, 400, 404, 409, 410, 503}
     \<and> (fst (fst out) \<in> {409, 410} \<longrightarrow> (\<exists>body. r = PostMessages body))
     \<and> (mStore (snd out) \<noteq> mStore m \<longrightarrow> (\<exists>body. r = PostMessages body) \<and> fst (fst out) \<in> {202, 503})"
  using manager_ctl.v1_out [OF assms, of i parse fs r] by (simp add: Let_def managerCtl_def)

text \<open>A request body and the inputs of one request, for concrete runs.\<close>

definition demoBody :: string where
  "demoBody = ''{'' @ [CHR 0x22] @ ''text'' @ [CHR 0x22] @ '':'' @ [CHR 0x22] @ ''go on'' @ [CHR 0x22] @ ''}''"

definition demoInputs :: ctlInputs where
  "demoInputs = \<lparr>ciNowA = seconds 1060, ciTurnID = ''t2'', ciNow = seconds 1060, ciPasteErr = None, ciKeyErr = None,
     ciNowT = seconds 1061, ciProbeID = ''p1'', ciEscErr = None\<rparr>"

theorem v1_answers_witness:
  "fst (fst (mountV1 (managerCtl demoAdd demoInputs) (\<lambda>_. None) (\<lambda>_. None) ListMessages demoBusy)) \<notin> {409, 410}"
  using v1_answers [OF demoBusy_reachable, of demoInputs "\<lambda>_. None" "\<lambda>_. None" ListMessages] by (simp add: Let_def)

text \<open>
  A submission with a text and an acceptable callback: gone past the pod's deadline, unavailable
  when the session is dead, still booting or the write fails, conflict while a turn is in flight,
  and accepted with the fresh turn id otherwise.
\<close>

theorem post_message_table:
  assumes "reachable addOk err m"
    "decodeFirst decPostMessageReq \<lparr>pmText = [], pmCallbackURL = [], pmHandoff = False\<rparr> body = Decoded req"
    "pmText req \<noteq> []" "validateCallbackURL parse (pmCallbackURL req) = None"
  shows "fst (postMessage (managerCtl addOk i) parse body m) =
    (if \<not> fst (admit (pmHandoff req) (ciNowA i) m) then (410, ErrorField ''pod ttl expired'')
     else if mState m = Dead then (503, SessionError ErrSessionDead)
     else if mState m = Booting then (503, SessionError ErrSessionNotReady)
     else if mCurrent m \<noteq> [] then (409, ErrorField ''a turn is in flight'')
     else if ciPasteErr i \<noteq> None then (503, SessionError ErrWritePaste)
     else if ciKeyErr i \<noteq> None then (503, SessionError ErrWriteSubmit)
     else (202, TurnIDBody (ciTurnID i)))"
proof -
  let ?s = "Submit (pmText req) (pmCallbackURL req) (pmHandoff req) (ciNowA i) (ciTurnID i) (ciNow i) (ciPasteErr i)
    (ciKeyErr i) (ciNowT i) m"
  obtain res m1 where s: "?s = (res, m1)" by (cases ?s)
  have "res = fst ?s" by (simp add: s)
  also note Submit_table [OF assms(1), THEN conjunct1]
  finally have r: "res = (if \<not> fst (admit (pmHandoff req) (ciNowA i) m) then Inl ErrPodTTLExpired
       else if mState m = Dead then Inl ErrSessionDead else if mState m = Booting then Inl ErrSessionNotReady
       else if mCurrent m \<noteq> [] then Inl ErrBusy else if ciPasteErr i \<noteq> None then Inl ErrWritePaste
       else if ciKeyErr i \<noteq> None then Inl ErrWriteSubmit else Inr (ciTurnID i))" .
  have "fst (postMessage (managerCtl addOk i) parse body m) =
     fst (case (res, m1) of
            (Inl ErrPodTTLExpired, m1) \<Rightarrow> ((410, ErrorField ''pod ttl expired''), m1)
          | (Inl ErrBusy, m1) \<Rightarrow> ((409, ErrorField ''a turn is in flight''), m1)
          | (Inl NilWriter, m1) \<Rightarrow> (panicResponse, m1)
          | (Inl e, m1) \<Rightarrow> ((503, SessionError e), m1)
          | (Inr i, m1) \<Rightarrow> ((202, TurnIDBody i), m1))"
    unfolding postMessage_def assms(2) using assms(3,4) by (simp add: managerCtl_def s)
  then show ?thesis using r by simp
qed

theorem post_message_table_witness:
  "fst (postMessage (managerCtl demoAdd demoInputs) (\<lambda>_. None) demoBody demoBusy) = (409, ErrorField ''a turn is in flight'')
   \<and> fst (postMessage (managerCtl demoAdd demoInputs) (\<lambda>_. None) demoBody demoIdle) = (202, TurnIDBody ''t2'')"
proof -
  have d: "decodeFirst decPostMessageReq \<lparr>pmText = [], pmCallbackURL = [], pmHandoff = False\<rparr> demoBody
     = Decoded \<lparr>pmText = ''go on'', pmCallbackURL = [], pmHandoff = False\<rparr>" by code_simp
  have a: "fst (admit False (seconds 1060) demoBusy)" "fst (admit False (seconds 1060) demoIdle)" by code_simp+
  note t = post_message_table [OF _ d, where parse = "\<lambda>_. None" and i = demoInputs]
  show ?thesis
    using t [OF demoBusy_reachable] t [OF demoIdle_reachable] a
    by (simp add: validateCallbackURL_def demoInputs_def demo_values)
qed

text \<open>
  C27. The guard of callback URLs accepts exactly the empty URL and those with scheme http or https
  whose host is not the name \<^verbatim>\<open>localhost\<close> and, when it is a textual IP address, lies in none of the
  ten address blocks 127.0.0.0/8, ::1, 0.0.0.0, ::, 169.254.0.0/16, fe80::/10, 10.0.0.0/8,
  172.16.0.0/12, 192.168.0.0/16 and fc00::/7.
\<close>

theorem callback_guard:
  "validateCallbackURL parse raw = None \<longleftrightarrow>
     raw = [] \<or> (\<exists>scheme host. parse raw = Some (scheme, host) \<and> scheme \<in> {''http'', ''https''} \<and> host \<noteq> ''localhost''
       \<and> (case ParseIP host of None \<Rightarrow> True | Some ip \<Rightarrow> \<not> list_ex (inBlock (ipVal ip)) blockedBlocks))"
proof -
  have "(IsLoopback ip \<or> IsUnspecified ip \<or> IsLinkLocalUnicast ip \<or> IsPrivate ip)
      \<longleftrightarrow> list_ex (inBlock (ipVal ip)) blockedBlocks" if "ParseIP host = Some ip" for host ip
    using blocks_cover ParseIP_bytes [OF that] by blast
  then show ?thesis
    by (cases "parse raw") (fastforce simp: validateCallbackURL_def split: option.splits if_splits)+
qed

text \<open>
  Names and address forms that reach the loopback interface and pass the guard: the comparison with
  \<^verbatim>\<open>localhost\<close> is case-sensitive, a trailing dot defeats it, and the short, decimal and hexadecimal
  forms of an IPv4 address are host names to the parser.
\<close>

theorem guard_names:
  assumes "parse raw = Some (''http'', h)" "h \<in> {''LOCALHOST'', ''localhost.'', ''127.1'', ''2130706433'', ''0x7f.0.0.1''}"
  shows "validateCallbackURL parse raw = None"
proof -
  have "\<forall>h \<in> {''LOCALHOST'', ''localhost.'', ''127.1'', ''2130706433'', ''0x7f.0.0.1''}. ParseIP h = None \<and> h \<noteq> ''localhost''"
    by code_simp
  with assms show ?thesis unfolding validateCallbackURL_def by fastforce
qed

theorem guard_names_witness: "validateCallbackURL (\<lambda>u. Some (''http'', drop 7 u)) ''http://LOCALHOST'' = None"
  by (rule guard_names [where h = "''LOCALHOST''"]) simp_all

text \<open>The specification of an accepted request: a bearer token the provider verifies, for a non-empty subject.\<close>

definition authorised :: "(string \<Rightarrow> idToken option) \<Rightarrow> string \<Rightarrow> bool" where
  "authorised oidc header \<longleftrightarrow>
     equalFold (take 7 header) ''Bearer '' \<and> trimSpace (drop 7 header) \<noteq> []
     \<and> (case oidc (trimSpace (drop 7 header)) of
          None \<Rightarrow> False | Some tok \<Rightarrow> itClaims tok \<noteq> None \<and> itSubject tok \<noteq> [])"

lemma bearerToken_fst:
  "fst (bearerToken h) = (if equalFold (take 7 h) ''Bearer '' then trimSpace (drop 7 h) else [])"
proof -
  have len: "length (toLower s) = length s" for s by (simp add: toLower_def)
  have "equalFold (take 7 h) ''Bearer '' \<Longrightarrow> length (take 7 h) = length ''Bearer ''"
    unfolding equalFold_def by (metis len)
  moreover have "length ''Bearer '' = 7" by simp
  moreover have "\<not> equalFold [] ''Bearer ''" by (simp add: equalFold_def toLower_def)
  ultimately show ?thesis unfolding bearerToken_def Let_def by (cases "h = []") (auto simp del: list.size)
qed

lemma Router_v1:
  "case Router ctl parse fs (Some oidc) metrics header (V1 v) (c, m) of
      (resp, c', m') \<Rightarrow>
        if authorised oidc header then (resp, m') = mountV1 ctl parse fs v m \<and> c' = inc ''ok'' c
        else fst resp = 401 \<and> m' = m \<and> c' = inc ''rejected'' c"
proof -
  have a: "authorised oidc header \<longleftrightarrow> fst (bearerToken header) \<noteq> [] \<and> auth_Verify oidc (fst (bearerToken header)) \<noteq> None"
    unfolding authorised_def bearerToken_fst by (auto simp: auth_Verify_def Let_def split: option.split)
  obtain raw reason where b: "bearerToken header = (raw, reason)" by (cases "bearerToken header")
  obtain resp m1 where v: "mountV1 ctl parse fs v m = (resp, m1)" by (cases "mountV1 ctl parse fs v m")
  show ?thesis by (cases "auth_Verify oidc raw") (simp_all add: Router_def authMiddleware_def a b v)
qed

text \<open>
  C24. With a verifier configured every route under \<^verbatim>\<open>/v1\<close> runs its handler exactly on an authorised
  request; any other is answered 401, counted as rejected and leaves the session as it is. The three
  operator endpoints answer without a token and change nothing.
\<close>

theorem v1_requires_token:
  "(case Router ctl parse fs (Some oidc) metrics header (V1 v) (c, m) of
      (resp, c', m') \<Rightarrow>
        if authorised oidc header then (resp, m') = mountV1 ctl parse fs v m \<and> c' = inc ''ok'' c
        else fst resp = 401 \<and> m' = m \<and> c' = inc ''rejected'' c)
   \<and> list_all (\<lambda>r. snd (Router ctl parse fs (Some oidc) metrics header r (c, m)) = (c, m)
                 \<and> fst (fst (Router ctl parse fs (Some oidc) metrics header r (c, m))) \<in> {200, 503})
        [Healthz, Readyz, MetricsRoute]"
proof
  show "list_all (\<lambda>r. snd (Router ctl parse fs (Some oidc) metrics header r (c, m)) = (c, m)
                 \<and> fst (fst (Router ctl parse fs (Some oidc) metrics header r (c, m))) \<in> {200, 503})
        [Healthz, Readyz, MetricsRoute]"
    by (simp add: Router_def readyz_def)
  show "case Router ctl parse fs (Some oidc) metrics header (V1 v) (c, m) of
      (resp, c', m') \<Rightarrow>
        if authorised oidc header then (resp, m') = mountV1 ctl parse fs v m \<and> c' = inc ''ok'' c
        else fst resp = 401 \<and> m' = m \<and> c' = inc ''rejected'' c"
    by (rule Router_v1)
qed

end
