(* ===== verification/StopHook.thy ===== *)
theory StopHook
  imports HttpApi
begin

text \<open>
  \<^verbatim>\<open>cmd/cc-stop-hook\<close>: the command the agent runs when a turn stops. It assembles the result of the
  turn from its payload and the transcript and posts it to the loopback endpoint, with retries. The
  properties compose it with the endpoint and the session manager.
\<close>

section \<open>The result of a turn\<close>

record hookPayload =
  hpSessionID :: string
  hpTranscriptPath :: string
  hpLastAssistantMessage :: string

definition decHookPayload :: "hookPayload decoder" where
  "decHookPayload =
     decStruct [(''session_id'', fieldDec hpSessionID hpSessionID_update decString),
                (''transcript_path'', fieldDec hpTranscriptPath hpTranscriptPath_update decString),
                (''last_assistant_message'', fieldDec hpLastAssistantMessage hpLastAssistantMessage_update decString)]"

definition fromTranscript :: "filesystem \<Rightarrow> string \<Rightarrow> HookResult \<Rightarrow> HookResult" where
  "fromTranscript fs path res =
     (let res1 = (case LastAssistant fs path of
                    Inl _ \<Rightarrow> res
                  | Inr (t, usage, stop) \<Rightarrow>
                      res\<lparr>hUsage := usage, hStopReason := stop,
                          hFinalText := (if hFinalText res = [] then t else hFinalText res)\<rparr>)
      in case SumTurnTokens fs path of Inl _ \<Rightarrow> res1 | Inr tokens \<Rightarrow> res1\<lparr>hTurnTokens := tokens\<rparr>)"

definition buildResult :: "filesystem \<Rightarrow> string \<Rightarrow> string \<Rightarrow> HookResult option" where
  "buildResult fs payload resultJSONPath =
     (case unmarshal decHookPayload payload \<lparr>hpSessionID = [], hpTranscriptPath = [], hpLastAssistantMessage = []\<rparr> of
        None \<Rightarrow> None
      | Some hp \<Rightarrow>
          (let res = zeroHookResult\<lparr>hSessionID := hpSessionID hp, hFinalText := hpLastAssistantMessage hp,
                       hTranscriptPath := hpTranscriptPath hp\<rparr>;
               res1 = (if hpTranscriptPath hp \<noteq> [] then fromTranscript fs (hpTranscriptPath hp) res else res)
           in Some (case fs resultJSONPath of
                      Some b \<Rightarrow> if parseJson b \<noteq> None then res1\<lparr>hResultJSON := b\<rparr> else res1
                    | None \<Rightarrow> res1)))"

section \<open>Posting with retries\<close>

definition maxPostAttempts :: nat where "maxPostAttempts = 5"

text \<open>
  What becomes of one attempt: the request does not arrive, it is served but the reply is lost (a
  timeout, a closed connection), or its reply comes back.
\<close>

datatype delivery = Undelivered | ReplyLost | Replied

type_synonym 'm server = "nat \<Rightarrow> 'm \<Rightarrow> response option \<times> 'm"

datatype postErr = TransportErr nat | StatusErr nat int

text \<open>The loop: the server is given the number of the attempt; a handler that closes the connection replies nothing.\<close>

fun postLoop :: "'m server \<Rightarrow> (nat \<Rightarrow> delivery) \<Rightarrow> nat \<Rightarrow> nat \<Rightarrow> postErr option \<Rightarrow> 'm \<Rightarrow> postErr option \<times> 'm" where
  "postLoop serve net 0 attempt lastErr m = (lastErr, m)"
| "postLoop serve net (Suc left) attempt lastErr m =
     (case net attempt of
        Undelivered \<Rightarrow> postLoop serve net left (attempt + 1) (Some (TransportErr (attempt + 1))) m
      | ReplyLost \<Rightarrow> postLoop serve net left (attempt + 1) (Some (TransportErr (attempt + 1))) (snd (serve attempt m))
      | Replied \<Rightarrow>
          (case serve attempt m of
             (None, m1) \<Rightarrow> postLoop serve net left (attempt + 1) (Some (TransportErr (attempt + 1))) m1
           | (Some (status, _), m1) \<Rightarrow>
               if status \<ge> 300 then postLoop serve net left (attempt + 1) (Some (StatusErr (attempt + 1) status)) m1
               else (None, m1)))"

definition postWithRetry :: "'m server \<Rightarrow> (nat \<Rightarrow> delivery) \<Rightarrow> 'm \<Rightarrow> postErr option \<times> 'm" where
  "postWithRetry serve net m = postLoop serve net maxPostAttempts 0 None m"

text \<open>The endpoint on the session manager; \<open>inp\<close> gives the clock of each attempt.\<close>

definition hookServer :: "(rat \<Rightarrow> bool) \<Rightarrow> (nat \<Rightarrow> ctlInputs) \<Rightarrow> string \<Rightarrow> (Manager \<times> nat) server" where
  "hookServer addOk inp body attempt = turnComplete (managerCtl addOk (inp attempt)) body"

section \<open>Retries against the session\<close>

text \<open>What repeated posts could change of a session: its slot, store and counters, and the two ghost logs.\<close>

definition hookView :: "Manager \<Rightarrow> (Store \<times> string \<times> nat \<times> nat \<times> int \<times> string) \<times> Record list \<times> string list" where
  "hookView m = (core m, gDone m, gPanicked m)"

lemma idle_serve:
  assumes "core_inv m" "mCurrent m = []" "decodeFirst decHookResult zeroHookResult body = Decoded r"
  shows "\<exists>m1. hookServer addOk inp body k (m, n) = (Some (409, SessionError ErrNoTurn), m1, n) \<and> hookView m1 = hookView m"
  using assms(1)
proof (cases rule: session_Complete_cases [of m addOk r "ciNow (inp k)"])
  case idle
  then show ?thesis
    using assms(3)
    by (simp add: hookServer_def turnComplete_def managerCtl_def completeOrPanic_def hookView_def core_frame core_hookReceived
        ghost_frame)
qed (use assms in auto)

lemma hookView_core: "hookView m' = hookView m \<Longrightarrow> core_inv m \<Longrightarrow> core_inv m' \<and> mCurrent m' = mCurrent m"
  using core_inv_frame by (auto simp: hookView_def core_def)

lemma idle_loop:
  assumes "core_inv m" "mCurrent m = []" "decodeFirst decHookResult zeroHookResult body = Decoded r"
  shows "\<exists>e m'. postLoop (hookServer addOk inp body) net left k (Some lastErr) (m, n) = (Some e, m', n) \<and> hookView m' = hookView m"
  using assms(1,2)
proof (induction left arbitrary: k lastErr m)
  case (Suc left)
  obtain m1 where m1: "hookServer addOk inp body k (m, n) = (Some (409, SessionError ErrNoTurn), m1, n)" "hookView m1 = hookView m"
    using idle_serve [OF Suc.prems assms(3)] by blast
  then have i1: "core_inv m1" "mCurrent m1 = []" using hookView_core [OF m1(2)] Suc.prems by auto
  show ?case
    using Suc.IH [OF Suc.prems, of "k + 1"] Suc.IH [OF i1, of "k + 1"] m1 by (cases "net k") auto
qed simp

lemma busy_serve:
  assumes "core_inv m" "mCurrent m \<noteq> []" "mState m \<in> {Ready, Busy}" "decodeFirst decHookResult zeroHookResult body = Decoded r"
  shows "hookServer addOk inp body k (m, n) =
      (if gPanicked (snd (session_Complete addOk r (ciNow (inp k)) m)) = gPanicked m then Some (204, NoBody) else None,
       snd (session_Complete addOk r (ciNow (inp k)) m), n)"
    and "core_inv (snd (session_Complete addOk r (ciNow (inp k)) m))" "mCurrent (snd (session_Complete addOk r (ciNow (inp k)) m)) = []"
proof -
  show inv: "core_inv (snd (session_Complete addOk r (ciNow (inp k)) m))" by (rule core_inv_Complete [OF assms(1)])
  have c: "fst (session_Complete addOk r (ciNow (inp k)) m) = None \<and> mCurrent (snd (session_Complete addOk r (ciNow (inp k)) m)) = []"
    using assms(1)
  proof (cases rule: session_Complete_cases [of m addOk r "ciNow (inp k)"])
    case (finished st m2)
    let ?m = "snd (session_Complete addOk r (ciNow (inp k)) m)"
    have "lifeView ?m = lifeView (succeedLocked (m2\<lparr>mStore := st\<rparr>))" by (simp add: finished(5) life_frame)
    then have "mCurrent ?m = []" by (simp add: lifeView_def succeedLocked_def clearCurrentLocked_def setMet_def Let_def)
    then show ?thesis using finished(5) by simp
  qed (use assms in auto)
  then show "mCurrent (snd (session_Complete addOk r (ciNow (inp k)) m)) = []" by simp
  show "hookServer addOk inp body k (m, n) =
      (if gPanicked (snd (session_Complete addOk r (ciNow (inp k)) m)) = gPanicked m then Some (204, NoBody) else None,
       snd (session_Complete addOk r (ciNow (inp k)) m), n)"
    using c assms(4)
    by (simp add: hookServer_def turnComplete_def managerCtl_def completeOrPanic_def split_def)
qed

text \<open>The first of the attempts that arrives is the one that counts.\<close>

definition completedOnce ::
  "(rat \<Rightarrow> bool) \<Rightarrow> (nat \<Rightarrow> ctlInputs) \<Rightarrow> HookResult \<Rightarrow> Manager \<Rightarrow> (nat \<Rightarrow> delivery) \<Rightarrow> nat \<Rightarrow> nat
   \<Rightarrow> 'e option \<times> Manager \<times> nat \<Rightarrow> bool" where
  "completedOnce addOk inp r m net lo hi out \<longleftrightarrow>
     (\<exists>i. lo \<le> i \<and> i < hi \<and> net i \<noteq> Undelivered \<and> (\<forall>j. lo \<le> j \<and> j < i \<longrightarrow> net j = Undelivered)
        \<and> hookView (fst (snd out)) = hookView (snd (session_Complete addOk r (ciNow (inp i)) m))
        \<and> (fst out = None \<longleftrightarrow>
             net i = Replied \<and> gPanicked (snd (session_Complete addOk r (ciNow (inp i)) m)) = gPanicked m))"

lemma completedOnce_later:
  "completedOnce addOk inp r m net (Suc lo) hi out \<Longrightarrow> net lo = Undelivered \<Longrightarrow> completedOnce addOk inp r m net lo hi out"
  unfolding completedOnce_def by (metis Suc_leI Suc_leD le_neq_implies_less)

lemma busy_loop:
  assumes "core_inv m" "mCurrent m \<noteq> []" "mState m \<in> {Ready, Busy}" "decodeFirst decHookResult zeroHookResult body = Decoded r"
    "out = postLoop (hookServer addOk inp body) net left k lastErr (m, n)"
  shows "(\<forall>i. k \<le> i \<and> i < k + left \<longrightarrow> net i = Undelivered) \<and> snd out = (m, n) \<and> (left > 0 \<longrightarrow> fst out \<noteq> None)
    \<or> completedOnce addOk inp r m net k (k + left) out"
  using assms(5)
proof (induction left arbitrary: k lastErr)
  case (Suc left)
  let ?c = "snd (session_Complete addOk r (ciNow (inp k)) m)"
  note serve = busy_serve(1) [OF assms(1-4), of addOk inp k n]
  obtain e m' where idle: "postLoop (hookServer addOk inp body) net left (k + 1) (Some (TransportErr (k + 1))) (?c, n) = (Some e, m', n)"
    "hookView m' = hookView ?c"
    using idle_loop [OF busy_serve(2,3) [OF assms(1-4), of addOk inp k] assms(4)] by blast
  show ?case
  proof (cases "net k")
    case Undelivered
    then have o: "out = postLoop (hookServer addOk inp body) net left (k + 1) (Some (TransportErr (k + 1))) (m, n)"
      using Suc.prems by simp
    from Suc.IH [OF o] show ?thesis
    proof
      assume a: "(\<forall>i. k + 1 \<le> i \<and> i < k + 1 + left \<longrightarrow> net i = Undelivered) \<and> snd out = (m, n) \<and> (left > 0 \<longrightarrow> fst out \<noteq> None)"
      then have "\<forall>i. k \<le> i \<and> i < k + Suc left \<longrightarrow> net i = Undelivered"
        using Undelivered by (metis Suc_eq_plus1 Suc_leI add_Suc_shift le_neq_implies_less)
      moreover have "fst out \<noteq> None" using a o by (cases left) auto
      ultimately show ?thesis using a by simp
    next
      assume "completedOnce addOk inp r m net (k + 1) (k + 1 + left) out"
      then show ?thesis using completedOnce_later [of addOk inp r m net k "k + Suc left" out] Undelivered by simp
    qed
  next
    case ReplyLost
    then have "out = (Some e, m', n)" using Suc.prems serve idle by simp
    then show ?thesis using ReplyLost idle(2) unfolding completedOnce_def by (intro disjI2 exI [of _ k]) auto
  next
    case Replied
    then have "out = (if gPanicked ?c = gPanicked m then (None, ?c, n) else (Some e, m', n))" using Suc.prems serve idle by simp
    then show ?thesis using Replied idle(2) unfolding completedOnce_def by (intro disjI2 exI [of _ k]) auto
  qed
qed auto

text \<open>
  The retries complete the turn in flight at most once: the five attempts together have the effect of one
  completion at the first attempt that arrives, or none when no attempt arrives.
\<close>

lemma hook_completes_once:
  assumes "reachable addOk err m" "mCurrent m \<noteq> []" "mState m \<in> {Ready, Busy}"
    "decodeFirst decHookResult zeroHookResult body = Decoded r"
  shows "(\<forall>i < maxPostAttempts. net i = Undelivered) \<and> snd (postWithRetry (hookServer addOk inp body) net (m, n)) = (m, n)
      \<and> fst (postWithRetry (hookServer addOk inp body) net (m, n)) \<noteq> None
    \<or> completedOnce addOk inp r m net 0 maxPostAttempts (postWithRetry (hookServer addOk inp body) net (m, n))"
proof -
  have "core_inv m" using reachable_core [OF assms(1)] .
  from busy_loop [OF this assms(2-4) refl, where net = net and left = maxPostAttempts and k = 0]
  show ?thesis unfolding postWithRetry_def by (auto simp: maxPostAttempts_def)
qed


end
