(* ===== verification/GoPrint.thy ===== *)
theory GoPrint
  imports GoJson
begin

text \<open>
  \<^verbatim>\<open>json.Marshal\<close> and its inverse: strings with their escapes, integers, raw messages. What is printed is
  read back, by lemmas on the parser that hold whatever follows in the text.
\<close>

section \<open>Writing JSON\<close>

text \<open>
  \<^verbatim>\<open>json.Marshal\<close> of a string: quotes, backslashes and control characters escaped, and so are the
  three characters HTML gives a meaning, the two Unicode line separators and invalid bytes.
\<close>

definition hexDigit :: "nat \<Rightarrow> char" where
  "hexDigit n = char_of (if n < 10 then 48 + n else 87 + n)"

definition escapeByte :: "char \<Rightarrow> string" where
  "escapeByte c =
     (if c = quote \<or> c = backslash then [backslash, c]
      else if c = CHR 0x08 then [backslash, CHR ''b'']
      else if c = CHR 0x0C then [backslash, CHR ''f'']
      else if c = CHR 0x0A then [backslash, CHR ''n'']
      else if c = CHR 0x0D then [backslash, CHR ''r'']
      else if c = CHR 0x09 then [backslash, CHR ''t'']
      else if byte c < 32 \<or> c \<in> {CHR ''<'', CHR ''>'', CHR 0x26}
      then backslash # ''u00'' @ [hexDigit (byte c div 16), hexDigit (byte c mod 16)]
      else [c])"

function (sequential) quoteBody :: "string \<Rightarrow> string" where
  "quoteBody [] = []"
| "quoteBody (c # s) =
     (if byte c < 128 then escapeByte c @ quoteBody s
      else (case decodeRune (c # s) of
              (r, w) \<Rightarrow>
                if r = 65533 \<and> w \<le> 1 then backslash # ''ufffd'' @ quoteBody s
                else (if r = 8232 then backslash # ''u2028'' else if r = 8233 then backslash # ''u2029'' else take w (c # s))
                     @ quoteBody (drop (max 1 w) (c # s))))"
  by pat_completeness auto
termination
  by (relation "measure length") auto

definition jsonQuote :: "string \<Rightarrow> string" where
  "jsonQuote s = quote # quoteBody s @ [quote]"

section \<open>Reading a quoted string back\<close>

lemma hexDigit_val: "n < 16 \<Longrightarrow> hexVal (hexDigit n) = Some n"
  by (auto simp: hexDigit_def hexVal_def isDigit_def)

lemma encodeRune_byte: "byte c < 128 \<Longrightarrow> encodeRune (byte c) = [c]"
  by (simp add: encodeRune_def)

lemma unescapeU_byte:
  assumes "byte c < 128"
  shows "unescapeU (CHR ''0'' # CHR ''0'' # hexDigit (byte c div 16) # hexDigit (byte c mod 16) # r) = Some ([c], r)"
proof -
  have "hexVal (CHR ''0'') = Some 0" by code_simp
  moreover have "hexVal (hexDigit (byte c div 16)) = Some (byte c div 16)" "hexVal (hexDigit (byte c mod 16)) = Some (byte c mod 16)"
    using assms by (auto intro!: hexDigit_val)
  ultimately have "hex4 (CHR ''0'' # CHR ''0'' # hexDigit (byte c div 16) # hexDigit (byte c mod 16) # r) = Some (byte c, r)"
    by simp
  then show ?thesis using assms by (simp add: unescapeU_def encodeRune_byte)
qed

lemma parseStr_escape:
  assumes "byte c < 128"
  shows "parseStr (Suc n) (escapeByte c @ r) = map_option (\<lambda>(t, r'). (c # t, r')) (parseStr n r)"
proof -
  let ?short = "{quote, backslash, CHR 0x08, CHR 0x0C, CHR 0x0A, CHR 0x0D, CHR 0x09}"
  let ?hex = "byte c < 32 \<or> c \<in> {CHR ''<'', CHR ''>'', CHR 0x26}"
  show ?thesis
  proof (cases "c \<in> ?short")
    case True
    then show ?thesis by (auto simp: escapeByte_def simpleEscape_def case_prod_unfold)
  next
    case short: False
    show ?thesis
    proof (cases ?hex)
      case True
      with short have "escapeByte c = backslash # ''u00'' @ [hexDigit (byte c div 16), hexDigit (byte c mod 16)]"
        by (auto simp: escapeByte_def)
      then show ?thesis using unescapeU_byte [OF assms, of r] by (simp add: case_prod_unfold)
    next
      case False
      with short have "escapeByte c = [c]" by (auto simp: escapeByte_def)
      then show ?thesis using assms short False by (simp add: encodeRune_byte case_prod_unfold)
    qed
  qed
qed

lemma escapeByte_length: "length (escapeByte c) \<ge> 1"
  by (simp add: escapeByte_def)

section \<open>Well-formed UTF-8\<close>

text \<open>A rune that was decoded from a well-formed sequence.\<close>

definition goodRune :: "nat \<times> nat \<Rightarrow> bool" where
  "goodRune rw \<longleftrightarrow> \<not> (fst rw = 65533 \<and> snd rw \<le> 1)"

lemma shapes4:
  obtains "s = []" | c0 where "s = [c0]" | c0 c1 where "s = [c0, c1]" | c0 c1 c2 where "s = [c0, c1, c2]"
    | c0 c1 c2 c3 s' where "s = c0 # c1 # c2 # c3 # s'"
  by (metis list.exhaust)

lemma decodeRune_local:
  assumes "goodRune (decodeRune s)"
  shows "decodeRune (take (snd (decodeRune s)) s @ x) = decodeRune s" "snd (decodeRune s) \<le> length s"
proof -
  have "decodeRune (take (snd (decodeRune s)) s @ x) = decodeRune s \<and> snd (decodeRune s) \<le> length s"
  proof (cases s rule: shapes4)
    case (5 c0 c1 c2 c3 s')
    have "snd (decodeRune s) \<in> {1, 2, 3, 4}" using 5 by (auto simp: decodeRune_def split: if_splits)
    then show ?thesis using 5 assms by (auto simp: goodRune_def decodeRune_def split: list.splits if_splits)
  qed (use assms in \<open>auto simp: goodRune_def decodeRune_def split: list.splits if_splits\<close>)
  then show "decodeRune (take (snd (decodeRune s)) s @ x) = decodeRune s" "snd (decodeRune s) \<le> length s" by blast+
qed

lemma base64: "z < 64 \<Longrightarrow> (k * 64 + z) div 64 = k" "z < 64 \<Longrightarrow> (k * 64 + z) mod 64 = (z::nat)"
  by simp_all

lemma encode2: "194 \<le> a \<Longrightarrow> a \<le> 223 \<Longrightarrow> cont b \<Longrightarrow> encodeRune ((a - 192) * 64 + (b - 128)) = [char_of a, char_of b]"
proof -
  assume "194 \<le> a" "a \<le> 223" "cont b"
  then obtain x y where "a = 192 + x" "2 \<le> x" "x < 32" "b = 128 + y" "y < 64"
    unfolding cont_def using that [of "a - 192" "b - 128"] by auto
  then show ?thesis by (simp add: encodeRune_def)
qed

lemma encode3:
  assumes "224 \<le> a" "a \<le> 239" "cont b" "cont c" "a = 224 \<longrightarrow> 160 \<le> b" "a = 237 \<longrightarrow> b \<le> 159"
  shows "encodeRune ((a - 224) * 4096 + (b - 128) * 64 + (c - 128)) = [char_of a, char_of b, char_of c]"
proof -
  obtain x y z where v: "a = 224 + x" "x < 16" "b = 128 + y" "y < 64" "c = 128 + z" "z < 64"
    using assms(1-4) unfolding cont_def using that [of "a - 224" "b - 128" "c - 128"] by auto
  let ?r = "x * 4096 + y * 64 + z"
  have r: "?r = (x * 64 + y) * 64 + z" by simp
  have "?r div 64 mod 64 = y" "?r mod 64 = z" unfolding r using v by (simp_all only: base64)
  moreover have "?r div 4096 = x" "2048 \<le> ?r" "?r < 65536" using v assms(5) by auto
  moreover have "\<not> (55296 \<le> ?r \<and> ?r \<le> 57343)"
  proof
    assume r: "55296 \<le> ?r \<and> ?r \<le> 57343"
    then have "x = 13" using v by auto
    with r v assms(6) show False by auto
  qed
  ultimately show ?thesis using v by (simp add: encodeRune_def)
qed

lemma encode4:
  assumes "240 \<le> a" "a \<le> 244" "cont b" "cont c" "cont d" "a = 240 \<longrightarrow> 144 \<le> b" "a = 244 \<longrightarrow> b \<le> 143"
  shows "encodeRune ((a - 240) * 262144 + (b - 128) * 4096 + (c - 128) * 64 + (d - 128)) = [char_of a, char_of b, char_of c, char_of d]"
proof -
  obtain x y z u where v: "a = 240 + x" "x \<le> 4" "b = 128 + y" "y < 64" "c = 128 + z" "z < 64" "d = 128 + u" "u < 64"
    using assms(1-5) unfolding cont_def using that [of "a - 240" "b - 128" "c - 128" "d - 128"] by auto
  let ?r = "x * 262144 + y * 4096 + z * 64 + u"
  have r: "?r = ((x * 64 + y) * 64 + z) * 64 + u" by simp
  have "?r div 64 mod 64 = z" "?r mod 64 = u" unfolding r using v by (simp_all only: base64)
  moreover have "?r div 262144 = x" using v by auto
  moreover have "?r div 4096 mod 64 = y"
  proof -
    have "?r div 4096 = x * 64 + y" using v by auto
    then show ?thesis using v by (simp only: base64)
  qed
  moreover have "65536 \<le> ?r" using v assms(6) by (cases "x = 0") auto
  moreover have "?r \<le> 1114111" using v assms(7) by (cases "x = 4") auto
  ultimately show ?thesis using v by (simp add: encodeRune_def)
qed

lemma encode_decode:
  assumes "goodRune (decodeRune s)"
  shows "encodeRune (fst (decodeRune s)) = take (snd (decodeRune s)) s"
  using assms
  by (cases s rule: shapes4)
    (auto simp: goodRune_def decodeRune_def encode2 encode3 encode4 encodeRune_byte split: if_splits)

function validUtf8 :: "string \<Rightarrow> bool" where
  "validUtf8 s = (if s = [] then True else goodRune (decodeRune s) \<and> validUtf8 (drop (snd (decodeRune s)) s))"
  by pat_completeness auto
termination
  by (relation "measure length") (auto simp: decodeRune_width)

declare validUtf8.simps [simp del]

lemma validUtf8_Nil [simp]: "validUtf8 []"
  by (simp add: validUtf8.simps)

lemma validUtf8_Cons: "validUtf8 (c # s) \<longleftrightarrow> goodRune (decodeRune (c # s)) \<and> validUtf8 (drop (snd (decodeRune (c # s))) (c # s))"
  by (subst validUtf8.simps) simp

lemma validUtf8_ascii: "list_all (\<lambda>c. byte c < 128) s \<Longrightarrow> validUtf8 s"
  by (induction s) (auto simp: validUtf8_Cons goodRune_def)

lemma unescape_separator:
  "unescapeU (''2028'' @ r) = Some (encodeRune 8232, r)" "unescapeU (''2029'' @ r) = Some (encodeRune 8233, r)"
proof -
  have "hexVal (CHR ''2'') = Some 2" "hexVal (CHR ''0'') = Some 0" "hexVal (CHR ''8'') = Some 8" "hexVal (CHR ''9'') = Some 9"
    by code_simp+
  then show "unescapeU (''2028'' @ r) = Some (encodeRune 8232, r)" "unescapeU (''2029'' @ r) = Some (encodeRune 8233, r)"
    by (simp_all add: unescapeU_def)
qed

text \<open>One rune of a quoted string is read back, whatever follows.\<close>

lemma parseStr_rune:
  assumes "goodRune (decodeRune (c # s))" "\<not> byte c < 128"
  defines "r \<equiv> fst (decodeRune (c # s))" and "w \<equiv> snd (decodeRune (c # s))"
  shows "parseStr (Suc n) ((if r = 8232 then backslash # ''u2028'' else if r = 8233 then backslash # ''u2029'' else take w (c # s)) @ x)
     = map_option (\<lambda>(t, r'). (take w (c # s) @ t, r')) (parseStr n x)"
proof -
  have e: "encodeRune r = take w (c # s)" unfolding r_def w_def by (rule encode_decode [OF assms(1)])
  have plain: "parseStr (Suc n) (take w (c # s) @ x) = map_option (\<lambda>(t, r'). (take w (c # s) @ t, r')) (parseStr n x)"
  proof -
    have "w > 0" unfolding w_def by (simp add: decodeRune_width)
    then obtain y where y: "take w (c # s) @ x = c # y" by (cases w) auto
    have d: "decodeRune (take w (c # s) @ x) = (r, w)"
      using decodeRune_local(1) [OF assms(1), of x] by (simp add: r_def w_def)
    have "drop w (take w (c # s) @ x) = x"
      using decodeRune_local(2) [OF assms(1)] by (simp add: w_def)
    moreover have "c \<noteq> quote" "c \<noteq> backslash" using assms(2) by auto
    ultimately show ?thesis
      using d assms(2) e unfolding y by simp
  qed
  show ?thesis
    using plain e unescape_separator by (auto simp: map_option.compositionality comp_def case_prod_unfold)
qed

lemma quoteBody_rune:
  assumes "goodRune (decodeRune (c # s))" "\<not> byte c < 128"
  shows "quoteBody (c # s) =
    (if fst (decodeRune (c # s)) = 8232 then backslash # ''u2028''
     else if fst (decodeRune (c # s)) = 8233 then backslash # ''u2029'' else take (snd (decodeRune (c # s))) (c # s))
    @ quoteBody (drop (snd (decodeRune (c # s))) (c # s))"
proof -
  have "0 < snd (decodeRune (c # s))" by (rule decodeRune_width) simp
  then have "max 1 (snd (decodeRune (c # s))) = snd (decodeRune (c # s))" by simp
  moreover have "\<not> (fst (decodeRune (c # s)) = 65533 \<and> snd (decodeRune (c # s)) \<le> 1)" using assms(1) by (simp add: goodRune_def)
  ultimately show ?thesis using assms(2) by (simp only: quoteBody.simps case_prod_unfold if_False)
qed

lemma parseStr_quoted:
  "validUtf8 s \<Longrightarrow> length (quoteBody s) < n \<Longrightarrow> parseStr n (quoteBody s @ quote # x) = Some (s, x)"
proof (induction s arbitrary: n rule: validUtf8.induct)
  case (1 s)
  show ?case
  proof (cases s)
    case Nil
    with 1 show ?thesis by (cases n) auto
  next
    case (Cons c t)
    obtain k where k: "n = Suc k" using 1(3) by (cases n) auto
    have good: "goodRune (decodeRune s)" and rest: "validUtf8 (drop (snd (decodeRune s)) s)"
      using 1(2) Cons by (simp_all add: validUtf8_Cons)
    show ?thesis
    proof (cases "byte c < 128")
      case True
      then have d: "snd (decodeRune s) = 1" using Cons by simp
      have "length (quoteBody t) < k" using 1(3) True Cons k escapeByte_length [of c] by simp
      with 1(1) good rest Cons d have "parseStr k (quoteBody t @ quote # x) = Some (t, x)" by auto
      with True Cons k show ?thesis using parseStr_escape [OF True, of k "quoteBody t @ quote # x"] by simp
    next
      case False
      let ?w = "snd (decodeRune s)"
      let ?e = "if fst (decodeRune s) = 8232 then backslash # ''u2028''
         else if fst (decodeRune s) = 8233 then backslash # ''u2029'' else take ?w s"
      have q: "quoteBody s = ?e @ quoteBody (drop ?w s)" using quoteBody_rune [OF good [unfolded Cons] False] Cons by simp
      have "0 < length ?e" using decodeRune_width [of s] Cons by auto
      moreover have "length ?e + length (quoteBody (drop ?w s)) < Suc k" using 1(3) k unfolding q by (simp only: length_append)
      ultimately have "length (quoteBody (drop ?w s)) < k" by linarith
      with 1(1) good rest Cons have "parseStr k (quoteBody (drop ?w s) @ quote # x) = Some (drop ?w s, x)" by auto
      then show ?thesis
        using parseStr_rune [OF good [unfolded Cons] False, of k "quoteBody (drop ?w s) @ quote # x"]
        unfolding k q Cons [symmetric] by simp
    qed
  qed
qed

lemma parseVal_quoted:
  assumes "validUtf8 s"
  shows "parseVal (Suc n) (jsonQuote s @ r) = Some (JStr s, r)"
  using parseStr_quoted [OF assms, of "Suc (length (quoteBody s @ quote # r))" r] by (simp add: jsonQuote_def)

end
