(* ===== verification/GoWire.thy ===== *)
theory GoWire
  imports GoPrint
begin

text \<open>
  Facts on the parser that proofs about printed documents rest on: what each successful step of it found, and
  that a scalar is read the same whatever delimiter is behind it.
\<close>

section \<open>The text behind a value\<close>

text \<open>What may follow a value inside a document.\<close>

definition delim :: "string \<Rightarrow> bool" where
  "delim r \<longleftrightarrow> (case r of [] \<Rightarrow> True | c # _ \<Rightarrow> c \<in> {CHR '','', CHR ''}'', CHR '']''} \<or> isJsonWs c)"

definition contByte :: "char \<Rightarrow> bool" where
  "contByte c \<longleftrightarrow> cont (byte c)"

text \<open>A rune depends only on its first byte and the continuation bytes behind it.\<close>

lemma decodeRune_conts: "decodeRune (c # s) = decodeRune (c # takeWhile contByte s)"
proof (cases s rule: shapes4)
  case (5 c0 c1 c2 c3 s')
  show ?thesis unfolding 5
    by (cases "cont (byte c0)"; cases "cont (byte c1)"; cases "cont (byte c2)") (simp_all add: decodeRune_def contByte_def)
next
  case (4 c0 c1 c2)
  show ?thesis unfolding 4
    by (cases "cont (byte c0)"; cases "cont (byte c1)"; cases "cont (byte c2)") (simp_all add: decodeRune_def contByte_def)
next
  case (3 c0 c1)
  show ?thesis unfolding 3
    by (cases "cont (byte c0)"; cases "cont (byte c1)") (simp_all add: decodeRune_def contByte_def)
qed (simp_all add: decodeRune_def contByte_def)

lemma decodeRune_le: "s \<noteq> [] \<Longrightarrow> snd (decodeRune s) \<le> length s"
  by (cases s rule: shapes4) (auto simp: decodeRune_def split: if_splits)

text \<open>One step of reading a string.\<close>

lemma parseStr_step:
  assumes "parseStr (Suc n) s = Some (t, u)"
  obtains (close) "s = quote # u" "t = []"
  | (unicode) s' x rest t' where "s = backslash # CHR ''u'' # s'" "unescapeU s' = Some (x, rest)"
      "parseStr n rest = Some (t', u)" "t = x @ t'"
  | (escape) e x s' t' where "s = backslash # e # s'" "e \<noteq> CHR ''u''" "simpleEscape e = Some x"
      "parseStr n s' = Some (t', u)" "t = x # t'"
  | (rune) c s' t' where "s = c # s'" "c \<noteq> quote" "c \<noteq> backslash" "\<not> byte c < 32"
      "parseStr n (drop (snd (decodeRune s)) s) = Some (t', u)" "t = encodeRune (fst (decodeRune s)) @ t'"
proof (cases s)
  case Nil
  with assms show thesis by simp
next
  case (Cons c s')
  consider "c = quote" | "c = backslash" | "c \<noteq> quote" "c \<noteq> backslash" by blast
  then show thesis
  proof cases
    case 1
    with Cons assms close show thesis by simp
  next
    case 2
    with Cons assms unicode escape show thesis by (auto split: list.splits if_splits option.splits)
  next
    case 3
    with Cons assms obtain t' where "\<not> byte c < 32" "parseStr n (drop (snd (decodeRune s)) s) = Some (t', u)"
      "t = encodeRune (fst (decodeRune s)) @ t'"
      by (auto simp: case_prod_unfold Let_def split: if_splits)
    with Cons 3 rune show thesis by blast
  qed
qed

section \<open>Numbers\<close>

definition nonNum :: "string \<Rightarrow> bool" where
  "nonNum r \<longleftrightarrow> (case r of [] \<Rightarrow> True | c # _ \<Rightarrow> \<not> isDigit c \<and> c \<notin> {CHR ''.'', CHR ''e'', CHR ''E''})"

lemma delim_nonNum: "delim r \<Longrightarrow> nonNum r"
  by (auto simp: delim_def nonNum_def isDigit_def isJsonWs_def split: list.splits)

lemma parseDigits_extend: "parseDigits s = Some (d, u) \<Longrightarrow> nonNum r \<Longrightarrow> parseDigits (s @ r) = Some (d, u @ r)"
proof -
  assume a: "parseDigits s = Some (d, u)" "nonNum r"
  have "takeWhile isDigit r = []" "dropWhile isDigit r = r" using a(2) by (cases r; simp add: nonNum_def)+
  then have "takeWhile isDigit (s @ r) = takeWhile isDigit s \<and> dropWhile isDigit (s @ r) = dropWhile isDigit s @ r"
    by (induction s) auto
  with a(1) show ?thesis by (auto simp: parseDigits_def Let_def split: if_splits)
qed

lemma parseInt_extend: "parseInt s = Some (d, u) \<Longrightarrow> nonNum r \<Longrightarrow> parseInt (s @ r) = Some (d, u @ r)"
  using parseDigits_extend [of s d u r] by (cases s) (auto simp: parseInt_def split: if_splits)

lemma parseFrac_extend: "parseFrac s = Some (d, u) \<Longrightarrow> nonNum r \<Longrightarrow> parseFrac (s @ r) = Some (d, u @ r)"
proof (cases s)
  case Nil
  assume "parseFrac s = Some (d, u)" "nonNum r"
  with Nil show ?thesis by (cases r) (auto simp: parseFrac_def nonNum_def)
next
  case (Cons c s')
  assume "parseFrac s = Some (d, u)" "nonNum r"
  with Cons show ?thesis by (auto simp: parseFrac_def parseDigits_extend split: if_splits)
qed

lemma parseExp_extend:
  assumes "parseExp s = Some (d, u)" "nonNum r"
  shows "parseExp (s @ r) = Some (d, u @ r)"
proof (cases s)
  case Nil
  with assms show ?thesis by (cases r) (auto simp: parseExp_def nonNum_def)
next
  case (Cons c s')
  show ?thesis
  proof (cases "c \<in> {CHR ''e'', CHR ''E''}")
    case False
    with assms(1) Cons show ?thesis by (auto simp: parseExp_def)
  next
    case True
    then obtain g s2 where s': "s' = g # s2" using assms(1) Cons by (cases s') (auto simp: parseExp_def)
    show ?thesis
    proof (cases "g \<in> {CHR ''+'', CHR ''-''}")
      case sign: True
      then obtain d' where "parseDigits s2 = Some (d', u)" "d = c # g # d'"
        using assms(1) Cons True s' by (auto simp: parseExp_def)
      from parseDigits_extend [OF this(1) assms(2)] this(2) show ?thesis
        using True sign unfolding parseExp_def Cons s' by simp
    next
      case plain: False
      then obtain d' where "parseDigits s' = Some (d', u)" "d = c # d'"
        using assms(1) Cons True s' by (auto simp: parseExp_def)
      from parseDigits_extend [OF this(1) assms(2)] this(2) show ?thesis
        using True plain unfolding parseExp_def Cons s' by simp
    qed
  qed
qed

lemma parseNum_extend:
  assumes "parseNum s = Some (d, u)" "nonNum r"
  shows "parseNum (s @ r) = Some (d, u @ r)"
proof -
  obtain sign s1 where sign: "(case s of [] \<Rightarrow> ([], []) | c # r \<Rightarrow> if c = CHR ''-'' then ([c], r) else ([], s)) = (sign, s1)"
    using prod.exhaust_sel by blast
  obtain i s2 f s3 e where p: "parseInt s1 = Some (i, s2)" "parseFrac s2 = Some (f, s3)" "parseExp s3 = Some (e, u)" "d = sign @ i @ f @ e"
    using assms(1) sign by (auto simp: parseNum_def split: option.splits)
  have "s \<noteq> []" using p(1) sign by (cases s) (auto simp: parseInt_def)
  then have "(case s @ r of [] \<Rightarrow> ([], []) | c # r' \<Rightarrow> if c = CHR ''-'' then ([c], r') else ([], s @ r)) = (sign, s1 @ r)"
    using sign by (cases s) (auto split: if_splits)
  with p show ?thesis
    using parseInt_extend [OF p(1) assms(2)] parseFrac_extend [OF p(2) assms(2)] parseExp_extend [OF p(3) assms(2)]
    by (simp add: parseNum_def)
qed

section \<open>Values, elements and members\<close>

lemma parseNum_head: "parseNum s = Some (d, u) \<Longrightarrow> \<exists>c s'. s = c # s' \<and> (c = CHR ''-'' \<or> isDigit c)"
proof (cases s)
  case Nil
  assume "parseNum s = Some (d, u)"
  with Nil show ?thesis by (simp add: parseNum_def parseInt_def)
next
  case (Cons c s')
  assume "parseNum s = Some (d, u)"
  with Cons show ?thesis
    by (cases "isDigit c") (auto simp: parseNum_def parseInt_def parseDigits_def isDigit_def Let_def split: if_splits option.splits)
qed

text \<open>The value that starts with a given byte, neither a bracket nor a quote.\<close>

definition scalar :: "string \<Rightarrow> (json \<times> string) option" where
  "scalar s =
     (if hasPrefix s ''true'' then Some (JBool True, drop 4 s)
      else if hasPrefix s ''false'' then Some (JBool False, drop 5 s)
      else if hasPrefix s ''null'' then Some (JNull, drop 4 s)
      else map_option (\<lambda>(t, r'). (JNum t, r')) (parseNum s))"

lemma hasPrefix_extend:
  assumes "hasPrefix s p" "length p = n"
  shows "hasPrefix (s @ r) p \<and> drop n (s @ r) = drop n s @ r"
proof -
  have t: "take n s = p" using assms by (simp add: hasPrefix_def)
  then have "n \<le> length s" using assms(2) by (metis length_take min.bounded_iff order_refl)
  with t assms(2) show ?thesis by (simp add: hasPrefix_def)
qed

lemma scalar_extend:
  assumes "scalar s = Some (v, t)" "delim r"
  shows "scalar (s @ r) = Some (v, t @ r)"
proof -
  consider (true) "hasPrefix s ''true''" "v = JBool True" "t = drop 4 s"
    | (false) "hasPrefix s ''false''" "\<not> hasPrefix s ''true''" "v = JBool False" "t = drop 5 s"
    | (null) "hasPrefix s ''null''" "\<not> hasPrefix s ''true''" "\<not> hasPrefix s ''false''" "v = JNull" "t = drop 4 s"
    | (num) d where "parseNum s = Some (d, t)" "v = JNum d"
    using assms(1) by (auto simp: scalar_def split: if_splits)
  then show ?thesis
  proof cases
    case true
    then show ?thesis using hasPrefix_extend [OF true(1), of 4 r] by (simp add: scalar_def)
  next
    case false
    note x = hasPrefix_extend [OF false(1), of 5 r, simplified]
    have "hd (s @ r) = CHR ''f''" using x by (cases "s @ r") (simp_all add: hasPrefix_def)
    then have "\<not> hasPrefix (s @ r) ''true''" by (cases "s @ r") (auto simp: hasPrefix_def)
    then show ?thesis using x false by (simp add: scalar_def)
  next
    case null
    note x = hasPrefix_extend [OF null(1), of 4 r, simplified]
    have "hd (s @ r) = CHR ''n''" using x by (cases "s @ r") (simp_all add: hasPrefix_def)
    then have "\<not> hasPrefix (s @ r) ''true''" "\<not> hasPrefix (s @ r) ''false''" by (cases "s @ r"; auto simp: hasPrefix_def)+
    then show ?thesis using x null by (simp add: scalar_def)
  next
    case num
    obtain c s' where c: "s = c # s'" "c = CHR ''-'' \<or> isDigit c" using parseNum_head [OF num(1)] by blast
    then have "\<not> hasPrefix (s @ r) ''true''" "\<not> hasPrefix (s @ r) ''false''" "\<not> hasPrefix (s @ r) ''null''"
      by (auto simp: hasPrefix_def isDigit_def)
    then show ?thesis
      using parseNum_extend [OF num(1) delim_nonNum [OF assms(2)]] num(2) by (simp add: scalar_def)
  qed
qed

text \<open>One step of reading a value, an element list and a member list, with the text that is left.\<close>

lemma parseVal_step:
  "parseVal (Suc n) s =
     (case s of
        [] \<Rightarrow> None
      | c # r \<Rightarrow>
          if c = CHR ''{'' then
            (case skipWs r of
               [] \<Rightarrow> None
             | d # r' \<Rightarrow> if d = CHR ''}'' then Some (JObj [], r')
                        else map_option (\<lambda>(ms, t). (JObj ms, t)) (parseMembers n (d # r')))
          else if c = CHR ''['' then
            (case skipWs r of
               [] \<Rightarrow> None
             | d # r' \<Rightarrow> if d = CHR '']'' then Some (JArr [], r')
                        else map_option (\<lambda>(es, t). (JArr es, t)) (parseElems n (d # r')))
          else if c = quote then map_option (\<lambda>(t, r'). (JStr t, r')) (parseStr (Suc (length r)) r)
          else scalar s)"
  by (simp add: scalar_def split: list.split)

text \<open>What a successful step found.\<close>

lemma parseVal_found:
  assumes "parseVal (Suc n) s = Some (v, t)"
  obtains (noMembers) s' where "s = CHR ''{'' # s'" "skipWs s' = CHR ''}'' # t" "v = JObj []"
  | (members) s' e w ms where "s = CHR ''{'' # s'" "skipWs s' = e # w" "e \<noteq> CHR ''}''" "parseMembers n (e # w) = Some (ms, t)" "v = JObj ms"
  | (noElems) s' where "s = CHR ''['' # s'" "skipWs s' = CHR '']'' # t" "v = JArr []"
  | (elems) s' e w es where "s = CHR ''['' # s'" "skipWs s' = e # w" "e \<noteq> CHR '']''" "parseElems n (e # w) = Some (es, t)" "v = JArr es"
  | (str) s' x where "s = quote # s'" "parseStr (Suc (length s')) s' = Some (x, t)" "v = JStr x"
  | (other) c s' where "s = c # s'" "c \<notin> {CHR ''{'', CHR ''['', quote}" "scalar s = Some (v, t)"
proof (cases s)
  case (Cons c s')
  consider "c = CHR ''{''" | "c = CHR ''[''" | "c = quote" | "c \<notin> {CHR ''{'', CHR ''['', quote}" by blast
  then show thesis
  proof cases
    case 1
    with assms Cons noMembers members show thesis
      unfolding parseVal_step by (cases "skipWs s'") (auto split: if_splits simp del: parseMembers.simps)
  next
    case 2
    with assms Cons noElems elems show thesis
      unfolding parseVal_step by (cases "skipWs s'") (auto split: if_splits simp del: parseElems.simps)
  next
    case 3
    with assms Cons str show thesis unfolding parseVal_step by auto
  next
    case 4
    with assms Cons other show thesis unfolding parseVal_step by simp
  qed
qed (use assms in simp)

lemma parseElems_found:
  assumes "parseElems (Suc n) s = Some (es, t)"
  obtains (last) v u where "parseVal n s = Some (v, u)" "skipWs u = CHR '']'' # t" "es = [(take (length s - length u) s, v)]"
  | (more) v u w es' where "parseVal n s = Some (v, u)" "skipWs u = CHR '','' # w" "parseElems n (skipWs w) = Some (es', t)"
      "es = (take (length s - length u) s, v) # es'"
proof -
  obtain v u where v: "parseVal n s = Some (v, u)" using assms by (auto split: option.splits)
  obtain e w where "skipWs u = e # w" using assms v by (cases "skipWs u") auto
  with assms v last more show thesis by (auto simp: Let_def split: if_splits)
qed

lemma parseMembers_found:
  assumes "parseMembers (Suc n) s = Some (ms, t)"
  obtains (last) s0 k r0 r1 v u where "s = quote # s0" "parseStr (Suc (length s0)) s0 = Some (k, r0)" "skipWs r0 = CHR '':'' # r1"
      "parseVal n (skipWs r1) = Some (v, u)" "skipWs u = CHR ''}'' # t" "ms = [(k, take (length (skipWs r1) - length u) (skipWs r1), v)]"
  | (more) s0 k r0 r1 v u w ms' where "s = quote # s0" "parseStr (Suc (length s0)) s0 = Some (k, r0)" "skipWs r0 = CHR '':'' # r1"
      "parseVal n (skipWs r1) = Some (v, u)" "skipWs u = CHR '','' # w" "parseMembers n (skipWs w) = Some (ms', t)"
      "ms = (k, take (length (skipWs r1) - length u) (skipWs r1), v) # ms'"
proof -
  obtain s0 where s0: "s = quote # s0" using assms by (cases s) (auto split: if_splits)
  obtain k r0 where r0: "parseStr (Suc (length s0)) s0 = Some (k, r0)" using assms s0 by (auto split: option.splits)
  obtain r1 where r1: "skipWs r0 = CHR '':'' # r1" using assms s0 r0 by (cases "skipWs r0") (auto split: if_splits)
  obtain v u where v: "parseVal n (skipWs r1) = Some (v, u)" using assms s0 r0 r1 by (auto simp: Let_def split: option.splits)
  obtain e w where w: "skipWs u = e # w" using assms s0 r0 r1 v by (cases "skipWs u") (auto simp: Let_def)
  show thesis
  proof (cases "e = CHR ''}''")
    case True
    with assms s0 r0 r1 v w show thesis by (intro last [OF s0 r0 r1 v]) (auto simp: Let_def)
  next
    case False
    with assms s0 r0 r1 v w obtain ms' where "e = CHR '',''" "parseMembers n (skipWs w) = Some (ms', t)"
        "ms = (k, take (length (skipWs r1) - length u) (skipWs r1), v) # ms'"
      by (auto simp: Let_def split: if_splits)
    with more [OF s0 r0 r1 v] w show thesis by simp
  qed
qed


end
