(* ===== verification/GoMarshal.thy ===== *)
theory GoMarshal
  imports GoWire
begin

text \<open>
  \<^verbatim>\<open>json.Marshal\<close> of integers, structs, slices and raw messages: the decimal text of an integer, objects and
  arrays without blanks, and the compaction of a \<^verbatim>\<open>json.RawMessage\<close>, each with the lemma that the parser
  reads the value back.
\<close>

section \<open>Texts the parser reads as a value\<close>

text \<open>The text of a value: read with any fuel that suffices, whatever delimiter is behind it.\<close>

definition readsAs :: "string \<Rightarrow> json \<Rightarrow> bool" where
  "readsAs x j \<longleftrightarrow> x \<noteq> [] \<and> \<not> isJsonWs (hd x) \<and> (\<forall>m r. 2 * length x < m \<longrightarrow> delim r \<longrightarrow> parseVal m (x @ r) = Some (j, r))"

lemma readsAs_head: "readsAs x j \<Longrightarrow> skipWs (x @ r) = x @ r"
  by (cases x) (auto simp: readsAs_def skipWs_def)

lemma readsAs_parse: "readsAs x j \<Longrightarrow> 2 * length x < m \<Longrightarrow> delim r \<Longrightarrow> parseVal m (x @ r) = Some (j, r)"
  by (simp add: readsAs_def)

lemma readsAs_bracket:
  assumes "readsAs x j"
  obtains c y where "x = c # y" "\<not> isJsonWs c" "c \<noteq> CHR '']''" "c \<noteq> CHR ''}''"
proof -
  obtain c y where x: "x = c # y" "\<not> isJsonWs c" using assms by (cases x) (auto simp: readsAs_def)
  have p: "parseVal (Suc (2 * length x)) x = Some (j, [])"
    using readsAs_parse [OF assms, of "Suc (2 * length x)" "[]"] by (simp add: delim_def del: parseVal.simps)
  have "c \<notin> {CHR '']'', CHR ''}''}"
  proof
    assume c: "c \<in> {CHR '']'', CHR ''}''}"
    then have "parseNum x = None" using parseNum_head [of x] x(1) by (cases "parseNum x") (auto simp: isDigit_def)
    moreover have "\<not> hasPrefix x ''true''" "\<not> hasPrefix x ''false''" "\<not> hasPrefix x ''null''"
      using c unfolding x by (auto simp: hasPrefix_def)
    ultimately have "scalar x = None" by (simp add: scalar_def)
    with p c show False unfolding parseVal_step x(1) by auto
  qed
  with x that show thesis by simp
qed

lemma readsAs_whole:
  assumes "readsAs x j"
  shows "parseJson x = Some j"
  using readsAs_head [OF assms, of "[]"] readsAs_parse [OF assms, of "Suc (2 * length x)" "[]"]
  by (simp add: parseJson_def delim_def skipWs_def)

lemma readsAs_string:
  assumes "validUtf8 s"
  shows "readsAs (jsonQuote s) (JStr s)"
  unfolding readsAs_def
proof (intro conjI allI impI)
  fix m r assume "2 * length (jsonQuote s) < m"
  then obtain n where "m = Suc n" by (cases m) auto
  then show "parseVal m (jsonQuote s @ r) = Some (JStr s, r)" using parseVal_quoted [OF assms] by simp
qed (simp_all add: jsonQuote_def isJsonWs_def)

text \<open>A scalar: what it is does not depend on what is behind it.\<close>

lemma readsAs_scalar:
  assumes "scalar x = Some (v, [])" "x = c # s" "c \<notin> {CHR ''{'', CHR ''['', quote}" "\<not> isJsonWs c"
  shows "readsAs x v"
  unfolding readsAs_def
proof (intro conjI allI impI)
  fix m r assume "2 * length x < m" and d: "delim r"
  then obtain n where m: "m = Suc n" by (cases m) auto
  show "parseVal m (x @ r) = Some (v, r)"
    using scalar_extend [OF assms(1) d] assms(2,3) unfolding m parseVal_step by simp
qed (use assms in simp_all)

section \<open>Numbers\<close>

definition noDigit :: "string \<Rightarrow> bool" where
  "noDigit r \<longleftrightarrow> (case r of [] \<Rightarrow> True | c # _ \<Rightarrow> \<not> isDigit c)"

lemma parseDigits_iff:
  "parseDigits s = Some (d, u) \<longleftrightarrow> s = d @ u \<and> d \<noteq> [] \<and> list_all isDigit d \<and> noDigit u"
proof
  assume "parseDigits s = Some (d, u)"
  then have d: "d = takeWhile isDigit s" "u = dropWhile isDigit s" "d \<noteq> []" by (auto simp: parseDigits_def Let_def split: if_splits)
  have "noDigit (dropWhile isDigit s)" by (induction s) (auto simp: noDigit_def)
  moreover have "list_all isDigit d" unfolding d list_all_iff using set_takeWhileD by fast
  ultimately show "s = d @ u \<and> d \<noteq> [] \<and> list_all isDigit d \<and> noDigit u" using d by simp
next
  assume a: "s = d @ u \<and> d \<noteq> [] \<and> list_all isDigit d \<and> noDigit u"
  then have "takeWhile isDigit u = []" "dropWhile isDigit u = u" by (cases u; simp add: noDigit_def)+
  with a have "takeWhile isDigit s = d" "dropWhile isDigit s = u"
    by (simp_all add: list_all_iff)
  with a show "parseDigits s = Some (d, u)" by (simp add: parseDigits_def)
qed

definition plainByte :: "char \<Rightarrow> bool" where
  "plainByte c \<longleftrightarrow> \<not> isJsonWs c \<and> c \<noteq> quote"

lemma digits_plain: "list_all isDigit d \<Longrightarrow> list_all plainByte d"
  by (auto simp: list_all_iff plainByte_def isJsonWs_def isDigit_def)

lemma parseInt_part:
  assumes "parseInt s = Some (i, u)" "noDigit r"
  shows "s = i @ u \<and> parseInt (i @ r) = Some (i, r) \<and> list_all plainByte i"
proof (cases s)
  case (Cons c s')
  show ?thesis
  proof (cases "c = CHR ''0''")
    case True
    with assms Cons show ?thesis by (auto simp: parseInt_def plainByte_def isJsonWs_def)
  next
    case False
    then have d: "parseDigits s = Some (i, u)" using assms(1) Cons by (simp add: parseInt_def)
    then have i: "s = i @ u" "i \<noteq> []" "list_all isDigit i" by (auto simp: parseDigits_iff)
    then obtain i' where "i = c # i'" using Cons by (cases i) auto
    moreover have "parseDigits (i @ r) = Some (i, r)" using i assms(2) by (simp add: parseDigits_iff)
    ultimately show ?thesis using i False digits_plain [OF i(3)] by (simp add: parseInt_def)
  qed
qed (use assms in \<open>simp add: parseInt_def\<close>)

lemma parseFrac_part:
  assumes "parseFrac s = Some (f, u)" "nonNum r"
  shows "s = f @ u \<and> parseFrac (f @ r) = Some (f, r) \<and> list_all plainByte f \<and> (f = [] \<or> hd f = CHR ''.'')"
proof (cases "f = []")
  case True
  have "parseFrac r = Some ([], r)" using assms(2) by (cases r) (auto simp: parseFrac_def nonNum_def)
  with True assms(1) show ?thesis by (auto simp: parseFrac_def split: list.splits if_splits)
next
  case False
  then obtain c s' d where s: "s = c # s'" "c = CHR ''.''" "parseDigits s' = Some (d, u)" "f = c # d"
    using assms(1) by (auto simp: parseFrac_def split: list.splits if_splits)
  then have d: "s' = d @ u" "d \<noteq> []" "list_all isDigit d" by (auto simp: parseDigits_iff)
  have "noDigit r" using assms(2) by (cases r) (auto simp: noDigit_def nonNum_def)
  then have "parseDigits (d @ r) = Some (d, r)" using d by (simp add: parseDigits_iff)
  with s d show ?thesis by (simp add: parseFrac_def digits_plain plainByte_def isJsonWs_def)
qed

lemma parseExp_part:
  assumes "parseExp s = Some (e, u)"
  shows "s = e @ u \<and> parseExp e = Some (e, []) \<and> list_all plainByte e \<and> (e = [] \<or> hd e \<in> {CHR ''e'', CHR ''E''})"
proof (cases "e = []")
  case True
  with assms show ?thesis by (auto simp: parseExp_def split: list.splits if_splits)
next
  case False
  then obtain c s' where c: "s = c # s'" "c \<in> {CHR ''e'', CHR ''E''}"
    using assms by (auto simp: parseExp_def split: list.splits if_splits)
  then obtain g s2 where g: "s' = g # s2" using assms by (cases s') (auto simp: parseExp_def)
  have pc: "plainByte c" using c(2) by (auto simp: plainByte_def isJsonWs_def)
  show ?thesis
  proof (cases "g \<in> {CHR ''+'', CHR ''-''}")
    case True
    then obtain d where d: "parseDigits s2 = Some (d, u)" "e = c # g # d" using assms c g by (auto simp: parseExp_def)
    then have "parseDigits d = Some (d, [])" "s2 = d @ u" "list_all plainByte d"
      by (auto simp: parseDigits_iff noDigit_def digits_plain)
    moreover have "plainByte g" using True by (auto simp: plainByte_def isJsonWs_def)
    ultimately show ?thesis using c True d(2) g pc unfolding parseExp_def by simp
  next
    case False
    then obtain d where d: "parseDigits s' = Some (d, u)" "e = c # d" using assms c g by (auto simp: parseExp_def)
    then have d': "parseDigits d = Some (d, [])" "s' = d @ u" "list_all plainByte d" "d \<noteq> []"
      by (auto simp: parseDigits_iff noDigit_def digits_plain)
    then obtain d2 where "d = g # d2" using g by (cases d) auto
    with d' d(2) c False pc show ?thesis unfolding parseExp_def by simp
  qed
qed

lemma parseNum_part:
  assumes "parseNum s = Some (d, u)"
  shows "s = d @ u \<and> parseNum d = Some (d, []) \<and> list_all plainByte d"
proof -
  obtain sign s1 where sign: "(case s of [] \<Rightarrow> ([], []) | c # r \<Rightarrow> if c = CHR ''-'' then ([c], r) else ([], s)) = (sign, s1)"
    using prod.exhaust_sel by blast
  obtain i s2 f s3 e where p: "parseInt s1 = Some (i, s2)" "parseFrac s2 = Some (f, s3)" "parseExp s3 = Some (e, u)" "d = sign @ i @ f @ e"
    using assms sign by (auto simp: parseNum_def split: option.splits)
  have ne: "s \<noteq> []" using p(1) sign by (cases s) (auto simp: parseInt_def)
  then have s: "s = sign @ s1" "sign = [] \<and> s \<noteq> [] \<and> hd s \<noteq> CHR ''-'' \<or> sign = ''-''" using sign by (cases s; auto split: if_splits)+
  note e = parseExp_part [OF p(3)]
  have fe: "s2 = f @ s3 \<and> parseFrac (f @ e) = Some (f, e) \<and> list_all plainByte f \<and> (f = [] \<or> hd f = CHR ''.'')"
  proof (cases "e = []")
    case True
    then show ?thesis using parseFrac_part [OF p(2), of "[]"] by (simp add: nonNum_def)
  next
    case False
    then have h: "hd e \<in> {CHR ''e'', CHR ''E''}" using e by blast
    have "parseFrac e = Some ([], e)" "noDigit e" using h False by (cases e; auto simp: parseFrac_def noDigit_def isDigit_def)+
    note f = parseFrac_part [OF p(2), of "[]"]
    show ?thesis
    proof (cases "f = []")
      case True
      with f \<open>parseFrac e = Some ([], e)\<close> show ?thesis by (simp add: nonNum_def)
    next
      case f0: False
      then obtain d' where "f = CHR ''.'' # d'" using f by (cases f) (auto simp: nonNum_def)
      moreover have "parseDigits d' = Some (d', [])" using f calculation by (auto simp: nonNum_def parseFrac_def)
      ultimately have "parseFrac (f @ e) = Some (f, e)" using \<open>noDigit e\<close> by (auto simp: parseFrac_def parseDigits_iff)
      with f show ?thesis by (simp add: nonNum_def)
    qed
  qed
  have "noDigit (f @ e)" using fe e by (cases f; cases e) (auto simp: noDigit_def isDigit_def)
  note i = parseInt_part [OF p(1) this]
  have hdi: "i \<noteq> []" using p(1) by (auto simp: parseInt_def parseDigits_iff split: list.splits if_splits)
  have split: "(case d of [] \<Rightarrow> ([], []) | c # r \<Rightarrow> if c = CHR ''-'' then ([c], r) else ([], d)) = (sign, i @ f @ e)"
    using s(2) p(4) hdi s(1) i by (cases i) auto
  have "parseNum d = Some (d, [])" unfolding parseNum_def split using i fe e p(4) by simp
  moreover have "list_all plainByte sign" using s(2) by (auto simp: plainByte_def isJsonWs_def)
  ultimately show ?thesis using s(1) i fe e p(4) by simp
qed

text \<open>\<^verbatim>\<open>strconv.AppendInt(nil, i, 10)\<close>.\<close>

fun natText :: "nat \<Rightarrow> string" where
  "natText n = (if n < 10 then [char_of (48 + n)] else natText (n div 10) @ [char_of (48 + n mod 10)])"

declare natText.simps [simp del]

definition intText :: "int \<Rightarrow> string" where
  "intText i = (if i < 0 then ''-'' @ natText (nat (- i)) else natText (nat i))"

lemma natOfDigits_snoc: "natOfDigits acc (s @ [c]) = natOfDigits acc s * 10 + (byte c - 48)"
  by (induction s arbitrary: acc) auto

lemma digit_char: "m < (10::nat) \<Longrightarrow> isDigit (char_of (48 + m))"
  by (simp add: isDigit_def)

lemma natText_digits: "list_all isDigit (natText n) \<and> natText n \<noteq> []"
proof (induction n rule: natText.induct)
  case (1 n)
  then show ?case by (subst (1 2) natText.simps) (auto simp: digit_char)
qed

lemma natText_value: "natOfDigits 0 (natText n) = n"
proof (induction n rule: natText.induct)
  case (1 n)
  then show ?case by (subst natText.simps) (auto simp: natOfDigits_snoc)
qed

lemma natText_leading: "hd (natText n) = CHR ''0'' \<Longrightarrow> natText n = ''0''"
proof (induction n rule: natText.induct)
  case (1 n)
  show ?case
  proof (cases "n < 10")
    case True
    with 1(2) show ?thesis by (subst natText.simps) (simp add: natText.simps [of n])
  next
    case False
    then have n: "natText n = natText (n div 10) @ [char_of (48 + n mod 10)]" by (subst natText.simps) simp
    then have "hd (natText (n div 10)) = CHR ''0''" using 1(2) natText_digits [of "n div 10"] by simp
    then have "natOfDigits 0 (natText (n div 10)) = 0" using 1(1) False by simp
    with False show ?thesis by (simp add: natText_value)
  qed
qed

lemma natText_int: "parseInt (natText n) = Some (natText n, [])"
proof -
  obtain c s where c: "natText n = c # s" using natText_digits [of n] by (cases "natText n") auto
  show ?thesis
  proof (cases "c = CHR ''0''")
    case True
    with c natText_leading [of n] show ?thesis by (simp add: parseInt_def)
  next
    case False
    have "parseDigits (natText n) = Some (natText n, [])" using natText_digits by (simp add: parseDigits_iff noDigit_def)
    with False c show ?thesis by (simp add: parseInt_def)
  qed
qed

lemma natText_head: "\<exists>c s. natText n = c # s \<and> isDigit c"
  using natText_digits [of n] by (cases "natText n") auto

lemma intText_num: "parseNum (intText i) = Some (intText i, [])"
proof (cases "i < 0")
  case True
  then show ?thesis using natText_int by (simp add: parseNum_def intText_def parseFrac_def parseExp_def)
next
  case False
  obtain c s where c: "natText (nat i) = c # s" "isDigit c" using natText_head by blast
  then have "c \<noteq> CHR ''-''" by (auto simp: isDigit_def)
  with c False natText_int [of "nat i"] show ?thesis by (simp add: parseNum_def intText_def parseFrac_def parseExp_def)
qed

lemma readsAs_int: "readsAs (intText i) (JNum (intText i))"
proof -
  obtain c s where c: "intText i = c # s" "c = CHR ''-'' \<or> isDigit c" using parseNum_head [OF intText_num] by blast
  then have ne: "c \<notin> {CHR ''t'', CHR ''f'', CHR ''n'', CHR ''{'', CHR ''['', quote}" "\<not> isJsonWs c"
    by (auto simp: isDigit_def isJsonWs_def)
  then have "\<not> hasPrefix (intText i) ''true''" "\<not> hasPrefix (intText i) ''false''" "\<not> hasPrefix (intText i) ''null''"
    unfolding c(1) by (auto simp: hasPrefix_def)
  then have "scalar (intText i) = Some (JNum (intText i), [])" by (simp add: scalar_def intText_num)
  from readsAs_scalar [OF this c(1)] ne show ?thesis by simp
qed

definition isInt64 :: "int \<Rightarrow> bool" where
  "isInt64 i \<longleftrightarrow> -9223372036854775808 \<le> i \<and> i < 9223372036854775808"

lemma int64OfText_intText: "isInt64 i \<Longrightarrow> int64OfText (intText i) = Some i"
proof (cases "i < 0")
  case True
  assume "isInt64 i"
  with True show ?thesis using natText_digits [of "nat (- i)"]
    by (simp add: int64OfText_def intText_def hasPrefix_def natText_value isInt64_def)
next
  case False
  assume "isInt64 i"
  moreover obtain c s where c: "natText (nat i) = c # s" "isDigit c" using natText_head by blast
  then have "\<not> hasPrefix (natText (nat i)) ''-''" by (auto simp: hasPrefix_def isDigit_def)
  ultimately show ?thesis using False natText_digits [of "nat i"]
    by (simp add: int64OfText_def intText_def natText_value isInt64_def)
qed

section \<open>Structs and slices\<close>

text \<open>The members and the elements of a compact document, from the texts of their values.\<close>

fun membersText :: "(string \<times> string) list \<Rightarrow> string" where
  "membersText [] = []"
| "membersText [(k, x)] = jsonQuote k @ '':'' @ x"
| "membersText ((k, x) # m # ms) = jsonQuote k @ '':'' @ x @ '','' @ membersText (m # ms)"

definition objText :: "(string \<times> string) list \<Rightarrow> string" where
  "objText ms = ''{'' @ membersText ms @ ''}''"

fun elemsText :: "string list \<Rightarrow> string" where
  "elemsText [] = []"
| "elemsText [x] = x"
| "elemsText (x # y # xs) = x @ '','' @ elemsText (y # xs)"

definition arrText :: "string list \<Rightarrow> string" where
  "arrText xs = ''['' @ elemsText xs @ '']''"

lemma delim_simps [simp]: "delim (CHR '','' # r)" "delim (CHR ''}'' # r)" "delim (CHR '']'' # r)" "delim []"
  by (simp_all add: delim_def)

lemma skipWs_plain [simp]: "\<not> isJsonWs c \<Longrightarrow> skipWs (c # s) = c # s"
  by (simp add: skipWs_def)

lemma isJsonWs_simps [simp]:
  "\<not> isJsonWs (CHR '','')" "\<not> isJsonWs (CHR ''}'')" "\<not> isJsonWs (CHR '']'')" "\<not> isJsonWs (CHR '':'')" "\<not> isJsonWs quote"
  by (simp_all add: isJsonWs_def)

text \<open>One member and one element, with what follows it.\<close>

lemma skipWs_blank: "list_all isJsonWs b \<Longrightarrow> skipWs (b @ s) = skipWs s"
  by (simp add: skipWs_def list_all_iff)

lemma delim_blank: "list_all isJsonWs b \<Longrightarrow> delim s \<Longrightarrow> delim (b @ s)"
  by (cases b) (simp_all add: delim_def)

lemma parseMembers_key:
  assumes k: "\<And>m r. length q \<le> m \<Longrightarrow> parseStr m (q @ r) = Some (k, r)"
    and b: "list_all isJsonWs b1" "list_all isJsonWs b2" "list_all isJsonWs b3"
    and x: "readsAs x j" "2 * length x < n" and s: "s = CHR ''}'' # r \<or> s = CHR '','' # r"
  shows "parseMembers (Suc n) (quote # q @ b1 @ CHR '':'' # b2 @ x @ b3 @ s) =
    (if s = CHR ''}'' # r then Some ([(k, x, j)], r)
     else map_option (\<lambda>(ms, t). ((k, x, j) # ms, t)) (parseMembers n (skipWs r)))"
proof -
  let ?r = "b1 @ CHR '':'' # b2 @ x @ b3 @ s"
  have d: "delim (b3 @ s)" using s by (intro delim_blank [OF b(3)]) auto
  have "parseVal n (x @ b3 @ s) = Some (j, b3 @ s)" by (rule readsAs_parse [OF x d])
  moreover have "parseStr (Suc (length (q @ ?r))) (q @ ?r) = Some (k, ?r)" by (rule k) simp
  moreover have "skipWs ?r = CHR '':'' # b2 @ x @ b3 @ s" by (simp add: skipWs_blank [OF b(1)])
  moreover have "skipWs (b2 @ x @ b3 @ s) = x @ b3 @ s" by (simp add: skipWs_blank [OF b(2)] readsAs_head [OF x(1)])
  moreover have "skipWs (b3 @ s) = s" using s by (auto simp: skipWs_blank [OF b(3)])
  ultimately show ?thesis using s by (auto simp: Let_def)
qed

lemma parseMembers_one:
  assumes "validUtf8 k" "readsAs x j" "2 * length x < n" "s = CHR ''}'' # r \<or> s = CHR '','' # r"
  shows "parseMembers (Suc n) (jsonQuote k @ CHR '':'' # x @ s) =
    (if s = CHR ''}'' # r then Some ([(k, x, j)], r)
     else map_option (\<lambda>(ms, t). ((k, x, j) # ms, t)) (parseMembers n (skipWs r)))"
proof -
  have "parseStr m ((quoteBody k @ [quote]) @ r) = Some (k, r)" if "length (quoteBody k @ [quote]) \<le> m" for m r
    using parseStr_quoted [OF assms(1), of m r] that by simp
  from parseMembers_key [of "quoteBody k @ [quote]" k "[]" "[]" "[]", OF this _ _ _ assms(2-4)] show ?thesis
    by (simp add: jsonQuote_def del: parseMembers.simps)
qed

lemma parseElems_one:
  assumes "readsAs x j" "2 * length x < n" "list_all isJsonWs b" "s = CHR '']'' # r \<or> s = CHR '','' # r"
  shows "parseElems (Suc n) (x @ b @ s) =
    (if s = CHR '']'' # r then Some ([(x, j)], r)
     else map_option (\<lambda>(es, t). ((x, j) # es, t)) (parseElems n (skipWs r)))"
proof -
  have d: "delim (b @ s)" using assms(4) by (intro delim_blank [OF assms(3)]) auto
  have "parseVal n (x @ b @ s) = Some (j, b @ s)" by (rule readsAs_parse [OF assms(1,2) d])
  moreover have "skipWs (b @ s) = s" using assms(4) by (auto simp: skipWs_blank [OF assms(3)])
  ultimately show ?thesis using assms(4) by (auto simp: Let_def)
qed

text \<open>The documents, against the values of their members and elements.\<close>

definition readsMember :: "string \<times> string \<Rightarrow> string \<times> string \<times> json \<Rightarrow> bool" where
  "readsMember m p \<longleftrightarrow> (case p of (k, x, j) \<Rightarrow> m = (k, x) \<and> validUtf8 k \<and> readsAs x j)"

definition readsElem :: "string \<Rightarrow> string \<times> json \<Rightarrow> bool" where
  "readsElem e p \<longleftrightarrow> fst p = e \<and> readsAs e (snd p)"

lemma membersText_head: "ms \<noteq> [] \<Longrightarrow> \<exists>s. membersText ms = quote # s"
  by (cases ms rule: membersText.cases) (auto simp: jsonQuote_def)

lemma membersText_parsed:
  "list_all2 readsMember ms ps \<Longrightarrow> ms \<noteq> [] \<Longrightarrow> 2 * length (membersText ms) < m \<Longrightarrow>
   parseMembers m (membersText ms @ CHR ''}'' # r) = Some (ps, r)"
proof (induction ms arbitrary: ps m rule: membersText.induct)
  case (2 k x)
  then obtain j where p: "ps = [(k, x, j)]" "validUtf8 k" "readsAs x j" by (auto simp: list_all2_Cons1 readsMember_def)
  obtain n where n: "m = Suc n" "2 * length x < n" using 2(3) by (cases m) (auto simp: jsonQuote_def)
  from parseMembers_one [OF p(2,3) n(2), of "CHR ''}'' # r" r] p(1) n(1) show ?case by simp
next
  case (3 k x y ms)
  obtain p0 ps' where ps: "ps = p0 # ps'" "readsMember (k, x) p0" "list_all2 readsMember (y # ms) ps'"
    using 3(2) unfolding list_all2_Cons1 [of _ _ "y # ms"] by blast
  then obtain j where p: "ps = (k, x, j) # ps'" "validUtf8 k" "readsAs x j" by (auto simp: readsMember_def)
  obtain n where n: "m = Suc n" "2 * length x < n" "2 * length (membersText (y # ms)) < n"
    using 3(4) by (cases m) (auto simp: jsonQuote_def)
  obtain s where s: "membersText (y # ms) = quote # s" using membersText_head by blast
  have "parseMembers n (membersText (y # ms) @ CHR ''}'' # r) = Some (ps', r)" by (rule 3(1) [OF ps(3) _ n(3)]) simp
  then show ?case
    using parseMembers_one [OF p(2,3) n(2), of "CHR '','' # membersText (y # ms) @ CHR ''}'' # r"] p(1) n(1)
    by (simp add: s)
qed simp

lemma elemsText_parsed:
  "list_all2 readsElem xs ps \<Longrightarrow> xs \<noteq> [] \<Longrightarrow> 2 * length (elemsText xs) + 1 < m \<Longrightarrow>
   parseElems m (elemsText xs @ CHR '']'' # r) = Some (ps, r)"
proof (induction xs arbitrary: ps m rule: elemsText.induct)
  case (2 x)
  then obtain j where p: "ps = [(x, j)]" "readsAs x j" by (auto simp: list_all2_Cons1 readsElem_def)
  obtain n where n: "m = Suc n" "2 * length x < n" using 2(3) by (cases m) auto
  from parseElems_one [OF p(2) n(2), of "[]" "CHR '']'' # r" r] p(1) n(1) show ?case by simp
next
  case (3 x y xs)
  obtain p0 ps' where ps: "ps = p0 # ps'" "readsElem x p0" "list_all2 readsElem (y # xs) ps'"
    using 3(2) unfolding list_all2_Cons1 [of _ _ "y # xs"] by blast
  then obtain j where p: "ps = (x, j) # ps'" "readsAs x j" by (cases p0) (auto simp: readsElem_def)
  have n: "m = Suc (m - 1)" "2 * length x < m - 1" "2 * length (elemsText (y # xs)) + 1 < m - 1" using 3(4) by auto
  have "y \<noteq> [] \<and> \<not> isJsonWs (hd y)" using ps(3) by (auto simp: list_all2_Cons1 readsElem_def readsAs_def)
  then have s: "skipWs (elemsText (y # xs) @ CHR '']'' # r) = elemsText (y # xs) @ CHR '']'' # r"
    by (cases y; cases xs) auto
  have "parseElems (m - 1) (elemsText (y # xs) @ CHR '']'' # r) = Some (ps', r)" by (rule 3(1) [OF ps(3) _ n(3)]) simp
  then show ?case
    using parseElems_one [OF p(2) n(2), of "[]" "CHR '','' # elemsText (y # xs) @ CHR '']'' # r"] p(1)
    by (subst n(1)) (simp add: s del: elemsText.simps parseElems.simps add: elemsText.simps(3))
qed simp

lemma readsAs_obj:
  assumes "list_all2 readsMember ms ps"
  shows "readsAs (objText ms) (JObj ps)"
  unfolding readsAs_def
proof (intro conjI allI impI)
  fix m r assume "2 * length (objText ms) < m"
  then obtain n where n: "m = Suc n" "2 * length (membersText ms) < n" by (cases m) (auto simp: objText_def)
  show "parseVal m (objText ms @ r) = Some (JObj ps, r)"
  proof (cases "ms = []")
    case True
    with assms show ?thesis unfolding n(1) parseVal_step objText_def by simp
  next
    case False
    obtain s where s: "membersText ms = quote # s" using membersText_head [OF False] by blast
    with membersText_parsed [OF assms False n(2), of r] show ?thesis unfolding n(1) parseVal_step objText_def by simp
  qed
qed (simp_all add: objText_def isJsonWs_def)

lemma readsAs_arr:
  assumes "list_all2 readsElem xs ps"
  shows "readsAs (arrText xs) (JArr ps)"
  unfolding readsAs_def
proof (intro conjI allI impI)
  fix m r assume "2 * length (arrText xs) < m"
  then obtain n where n: "m = Suc n" "2 * length (elemsText xs) + 1 < n" by (cases m) (auto simp: arrText_def)
  show "parseVal m (arrText xs @ r) = Some (JArr ps, r)"
  proof (cases xs)
    case Nil
    with assms show ?thesis unfolding n(1) parseVal_step arrText_def by simp
  next
    case (Cons x xs')
    then obtain p where "readsAs x p" using assms by (auto simp: list_all2_Cons1 readsElem_def)
    then obtain c x' where x: "x = c # x'" "\<not> isJsonWs c" "c \<noteq> CHR '']''"
      using readsAs_bracket by blast
    then obtain s where s: "elemsText xs = c # s" using Cons by (cases xs') auto
    with x elemsText_parsed [OF assms _ n(2), of r] Cons show ?thesis unfolding n(1) parseVal_step arrText_def by simp
  qed
qed (simp_all add: arrText_def isJsonWs_def)

end
