(* ===== verification/GoCompact.thy ===== *)
theory GoCompact
  imports GoMarshal
begin

text \<open>
  The compaction of a \<^verbatim>\<open>json.RawMessage\<close> inside \<^verbatim>\<open>json.Marshal\<close>: blanks between tokens go, and inside strings
  the characters HTML gives a meaning and the two Unicode line separators become escapes. The locale
  \<^verbatim>\<open>json_rewriter\<close> says what such a rewriting may do to the bytes of a document; it has the value of a document
  unchanged. The compaction is one; leaving a document as it is is another, which shows that the text of an
  element or a member is a document of its own.
\<close>

section \<open>Compaction\<close>

text \<open>The walk over the bytes; the flag says whether it is inside a string.\<close>

function (sequential) compactWalk :: "bool \<Rightarrow> string \<Rightarrow> string" where
  "compactWalk inStr [] = []"
| "compactWalk False (c # s) =
     (if isJsonWs c then compactWalk False s else c # compactWalk (c = quote) s)"
| "compactWalk True (c # s) =
     (if c = quote then c # compactWalk False s
      else if c = backslash then c # take 1 s @ compactWalk True (drop 1 s)
      else if c \<in> {CHR ''<'', CHR ''>'', CHR 0x26}
      then backslash # ''u00'' @ [hexDigit (byte c div 16), hexDigit (byte c mod 16)] @ compactWalk True s
      else if c = CHR 0xE2 \<and> take 2 s = [CHR 0x80, CHR 0xA8] then backslash # ''u2028'' @ compactWalk True (drop 2 s)
      else if c = CHR 0xE2 \<and> take 2 s = [CHR 0x80, CHR 0xA9] then backslash # ''u2029'' @ compactWalk True (drop 2 s)
      else c # compactWalk True s)"
  by pat_completeness auto
termination
  by (relation "measure (length \<circ> snd)") auto

definition compactJson :: "string \<Rightarrow> string option" where
  "compactJson raw = (if parseJson raw = None then None else Some (compactWalk False raw))"

section \<open>Inside a string\<close>

lemma rune_split:
  obtains a rest where "s = a @ rest" "list_all contByte a" "drop (snd (decodeRune (c # s))) (c # s) = rest"
proof -
  let ?w = "snd (decodeRune (c # s))"
  have "0 < ?w" by (rule decodeRune_width) simp
  then have d: "drop ?w (c # s) = drop (?w - 1) s" by (cases ?w) auto
  have "list_all contByte (take (?w - 1) s)"
    by (cases s rule: shapes4) (auto simp: decodeRune_def contByte_def split: if_splits)
  with d that [of "take (?w - 1) s" "drop (?w - 1) s"] show thesis by simp
qed

text \<open>Bytes the walk leaves alone inside a string.\<close>

definition copied :: "char \<Rightarrow> bool" where
  "copied c \<longleftrightarrow> c \<notin> {quote, backslash, CHR ''<'', CHR ''>'', CHR 0x26, CHR 0xE2}"

lemma copied_cont: "contByte c \<Longrightarrow> copied c"
  by (auto simp: copied_def contByte_def cont_def)

lemma copied_hex: "hexVal c = Some n \<Longrightarrow> copied c"
  by (auto simp: copied_def hexVal_def isDigit_def split: if_splits)

lemma hex4_part:
  assumes "hex4 s = Some (h, u)"
  obtains d where "s = d @ u" "length d = 4" "list_all copied d" "\<And>y. hex4 (d @ y) = Some (h, y)"
proof (cases s rule: hex4.cases)
  case (1 a b c d r)
  with assms have "u = r" "\<And>y. hex4 ([a, b, c, d] @ y) = Some (h, y)" "list_all copied [a, b, c, d]"
    by (auto split: option.splits intro: copied_hex)
  with 1 that [of "[a, b, c, d]"] show thesis by simp
qed (use assms in auto)

text \<open>The low surrogate an escape may be followed by.\<close>

definition lowNext :: "string \<Rightarrow> (nat \<times> string) option" where
  "lowNext s =
     (if take 2 s = [backslash, CHR ''u''] then
        (case hex4 (drop 2 s) of
           Some (h, u) \<Rightarrow> if 56320 \<le> h \<and> h \<le> 57343 then Some (h, u) else None
         | None \<Rightarrow> None)
      else None)"

lemma unescapeU_low:
  "unescapeU s =
     (case hex4 s of
        None \<Rightarrow> None
      | Some (h, u) \<Rightarrow>
          if 55296 \<le> h \<and> h \<le> 57343 then
            (case lowNext u of
               Some (h2, u') \<Rightarrow>
                 if h \<le> 56319 then Some (encodeRune (65536 + (h - 55296) * 1024 + (h2 - 56320)), u') else Some (encodeRune 65533, u)
             | None \<Rightarrow> Some (encodeRune 65533, u))
          else Some (encodeRune h, u))"
proof (cases "hex4 s")
  case (Some p)
  obtain h u where p: "p = (h, u)" by (cases p)
  consider "u = []" | b where "u = [b]" | b c u' where "u = b # c # u'" by (metis list.exhaust)
  then show ?thesis
    by cases (auto simp: Some p unescapeU_def lowNext_def split: option.splits)
qed (simp add: unescapeU_def)

lemma unescapeU_part:
  assumes "unescapeU s = Some (w, u)"
  obtains d where "s = d @ u" "list_all copied d \<or> (\<exists>d1 d2. d = d1 @ backslash # CHR ''u'' # d2 \<and> list_all copied d1 \<and> list_all copied d2)"
    "\<And>y. map_option fst (lowNext y) = map_option fst (lowNext u) \<Longrightarrow> unescapeU (d @ y) = Some (w, y)"
    "\<And>y y'. map_option fst (lowNext (backslash # CHR ''u'' # d @ y)) = map_option fst (lowNext (backslash # CHR ''u'' # d @ y'))"
proof -
  obtain h u1 where h: "hex4 s = Some (h, u1)" using assms by (auto simp: unescapeU_low split: option.splits)
  obtain d where d: "s = d @ u1" "list_all copied d" "\<And>y. hex4 (d @ y) = Some (h, y)" using hex4_part [OF h] by metis
  have low: "map_option fst (lowNext (backslash # CHR ''u'' # d @ y)) = map_option fst (lowNext (backslash # CHR ''u'' # d @ y'))" for y y'
    using d(3) by (simp add: lowNext_def)
  show thesis
  proof (cases "u1 = u")
    case True
    have "unescapeU (d @ y) = Some (w, y)" if low: "map_option fst (lowNext y) = map_option fst (lowNext u)" for y
    proof (cases "55296 \<le> h \<and> h \<le> 57343 \<and> h \<le> 56319 \<and> lowNext u \<noteq> None")
      case pair: True
      then obtain h2 u2 where l: "lowNext u = Some (h2, u2)" by auto
      then have "u2 = u" using assms h True pair by (simp add: unescapeU_low)
      moreover have "length u2 < length u"
      proof -
        have "hex4 (drop 2 u) = Some (h2, u2)" using l by (auto simp: lowNext_def split: if_splits option.splits)
        then obtain e where "drop 2 u = e @ u2" "length e = 4" using hex4_part by metis
        then have "length (drop 2 u) = 4 + length u2" by simp
        then show ?thesis by simp
      qed
      ultimately show ?thesis by simp
    next
      case False
      with low assms h True d show ?thesis
        by (cases "lowNext u"; cases "lowNext y") (auto simp: unescapeU_low split: if_splits)
    qed
    then show thesis using d True low by (intro that [of d]) auto
  next
    case False
    then obtain h2 where l: "55296 \<le> h" "h \<le> 56319" "lowNext u1 = Some (h2, u)"
        "w = encodeRune (65536 + (h - 55296) * 1024 + (h2 - 56320))"
      using assms h by (auto simp: unescapeU_low split: option.splits if_splits)
    then have h2: "take 2 u1 = [backslash, CHR ''u'']" "hex4 (drop 2 u1) = Some (h2, u)" "56320 \<le> h2" "h2 \<le> 57343"
      by (auto simp: lowNext_def split: if_splits option.splits)
    then obtain e where e: "drop 2 u1 = e @ u" "list_all copied e" "\<And>y. hex4 (e @ y) = Some (h2, y)" using hex4_part by metis
    have u1: "u1 = backslash # CHR ''u'' # e @ u" using h2(1) e(1) append_take_drop_id [of 2 u1] by simp
    let ?d = "d @ backslash # CHR ''u'' # e"
    have "unescapeU (?d @ y) = Some (w, y)" for y
      using d(3) e(3) l h2 by (simp add: unescapeU_low lowNext_def)
    moreover have "map_option fst (lowNext (backslash # CHR ''u'' # ?d @ y)) = map_option fst (lowNext (backslash # CHR ''u'' # ?d @ y'))" for y y'
      using d(3) by (simp add: lowNext_def)
    ultimately show thesis using that [of ?d] d(1,2) e(2) u1 by auto
  qed
qed

section \<open>Rewriting the bytes of a document\<close>

definition htmlByte :: "char \<Rightarrow> bool" where
  "htmlByte c \<longleftrightarrow> c \<in> {CHR ''<'', CHR ''>'', CHR 0x26}"

definition separatorByte :: "char \<Rightarrow> bool" where
  "separatorByte b \<longleftrightarrow> b = CHR 0xA8 \<or> b = CHR 0xA9"

text \<open>The escapes a rewriting may put in.\<close>

definition escapedByte :: "char \<Rightarrow> string" where
  "escapedByte c = backslash # CHR ''u'' # CHR ''0'' # CHR ''0'' # hexDigit (byte c div 16) # hexDigit (byte c mod 16) # []"

definition escapedSeparator :: "char \<Rightarrow> string" where
  "escapedSeparator b = backslash # (if b = CHR 0xA8 then ''u2028'' else ''u2029'')"

text \<open>
  What a rewriting makes of the rest of a string: it is read as the same text, and it looks the same to an
  escape or a rune before it.
\<close>

definition sameString :: "(string \<Rightarrow> string) \<Rightarrow> (string \<Rightarrow> string) \<Rightarrow> string \<Rightarrow> string \<Rightarrow> string \<Rightarrow> string \<Rightarrow> bool" where
  "sameString outside inside s t u x \<longleftrightarrow>
     x \<noteq> [] \<and> inside s = x @ outside u \<and> (\<forall>m r. length x \<le> m \<longrightarrow> parseStr m (x @ r) = Some (t, r))
     \<and> (\<forall>r. map_option fst (lowNext (x @ r)) = map_option fst (lowNext s))
     \<and> (\<forall>r. takeWhile contByte (x @ r) = takeWhile contByte s)"

lemma fuel_step: "length (p @ x) \<le> m \<Longrightarrow> p \<noteq> [] \<Longrightarrow> \<exists>k. m = Suc k \<and> length x \<le> k"
  by (cases m; cases p) auto

lemma hexVal_digits:
  "hexVal (CHR ''0'') = Some 0" "hexVal (CHR ''2'') = Some 2" "hexVal (CHR ''8'') = Some 8" "hexVal (CHR ''9'') = Some 9"
  by code_simp+

text \<open>An escape that was put in, of a rune below the surrogates.\<close>

lemma sameString_escaped:
  assumes "\<And>y. unescapeU (d @ y) = Some (w, y)" "inside s = backslash # CHR ''u'' # d @ inside rest"
    "sameString outside inside rest t u x" "\<And>y. lowNext (backslash # CHR ''u'' # d @ y) = None" "lowNext s = None" "takeWhile contByte s = []"
  shows "\<exists>y. sameString outside inside s (w @ t) u y"
proof -
  note x = assms(3) [unfolded sameString_def]
  let ?y = "backslash # CHR ''u'' # d @ x"
  have "parseStr m (?y @ r) = Some (w @ t, r)" if m: "length ?y \<le> m" for m r
  proof -
    obtain k where k: "m = Suc k" "length x \<le> k" using fuel_step [of "backslash # CHR ''u'' # d" x m] m by auto
    then show ?thesis using x assms(1) by simp
  qed
  then show ?thesis using x assms(2,4,5,6) by (intro exI [of _ ?y]) (simp add: sameString_def contByte_def cont_def)
qed

lemma sameString_html:
  assumes "htmlByte c" "inside (c # s) = escapedByte c @ inside s" "sameString outside inside s t u x"
  shows "\<exists>y. sameString outside inside (c # s) (c # t) u y"
proof -
  let ?d = "CHR ''0'' # CHR ''0'' # hexDigit (byte c div 16) # hexDigit (byte c mod 16) # []"
  have b: "byte c < 128" "c \<noteq> quote" "c \<noteq> backslash" using assms(1) by (auto simp: htmlByte_def)
  have u: "unescapeU (?d @ y) = Some ([c], y)" for y using unescapeU_byte [OF b(1)] by simp
  have "lowNext (backslash # CHR ''u'' # ?d @ y) = None" for y
  proof -
    have "hexVal (hexDigit (byte c div 16)) = Some (byte c div 16)" "hexVal (hexDigit (byte c mod 16)) = Some (byte c mod 16)"
      using b(1) by (auto intro!: hexDigit_val)
    then have "hex4 (?d @ y) = Some (byte c div 16 * 16 + byte c mod 16, y)" using hexVal_digits by simp
    then show ?thesis using b(1) by (simp add: lowNext_def)
  qed
  moreover have "inside (c # s) = backslash # CHR ''u'' # ?d @ inside s" using assms(2) by (simp add: escapedByte_def)
  moreover have "lowNext (c # s) = None" "takeWhile contByte (c # s) = []" using b by (auto simp: lowNext_def contByte_def cont_def)
  ultimately show ?thesis using sameString_escaped [OF u _ assms(3), of "c # s"] by simp
qed

lemma sameString_separator:
  assumes "separatorByte b" "inside (CHR 0xE2 # CHR 0x80 # b # s) = escapedSeparator b @ inside s" "sameString outside inside s t u x"
  shows "\<exists>y. sameString outside inside (CHR 0xE2 # CHR 0x80 # b # s) (encodeRune (if b = CHR 0xA8 then 8232 else 8233) @ t) u y"
proof -
  have n: "lowNext (CHR 0xE2 # z) = None" "takeWhile contByte (CHR 0xE2 # z) = []" for z
    by (simp_all add: lowNext_def contByte_def cont_def)
  from assms(1) show ?thesis unfolding separatorByte_def
  proof
    assume "b = CHR 0xA8"
    then show ?thesis
      using sameString_escaped [of "''2028''", OF unescape_separator(1) _ assms(3) _ n] assms(2) hexVal_digits
      by (simp add: lowNext_def escapedSeparator_def)
  next
    assume "b = CHR 0xA9"
    then show ?thesis
      using sameString_escaped [of "''2029''", OF unescape_separator(2) _ assms(3) _ n] assms(2) hexVal_digits
      by (simp add: lowNext_def escapedSeparator_def)
  qed
qed

text \<open>A rune whose bytes were left alone.\<close>

lemma sameString_copied:
  assumes c: "c \<notin> {quote, backslash}" "\<not> byte c < 32"
    and s: "s = a @ rest" "list_all contByte a" "drop (snd (decodeRune (c # s))) (c # s) = rest"
    and i: "inside (c # s) = c # a @ inside rest" and x: "sameString outside inside rest t u x"
  shows "sameString outside inside (c # s) (encodeRune (fst (decodeRune (c # s))) @ t) u (c # a @ x)"
proof -
  note x' = x [unfolded sameString_def]
  have conts: "takeWhile contByte (a @ x @ r) = takeWhile contByte s" for r
    using x' s(2) unfolding s(1) by (simp add: list_all_iff)
  have dec: "decodeRune (c # a @ x @ r) = decodeRune (c # s)" for r
    using decodeRune_conts [of c "a @ x @ r"] decodeRune_conts [of c s] conts [of r] by simp
  have drop: "drop (snd (decodeRune (c # s))) (c # a @ x @ r) = x @ r" for r
  proof -
    have "0 < snd (decodeRune (c # s))" by (rule decodeRune_width) simp
    moreover have "length rest = length (c # s) - snd (decodeRune (c # s))" using s(3) by (metis length_drop)
    moreover have "snd (decodeRune (c # s)) \<le> length (c # s)" by (rule decodeRune_le) simp
    ultimately have "snd (decodeRune (c # s)) = Suc (length a)" using s(1) by simp
    then show ?thesis by simp
  qed
  have "parseStr m ((c # a @ x) @ r) = Some (encodeRune (fst (decodeRune (c # s))) @ t, r)" if m: "length (c # a @ x) \<le> m" for m r
  proof -
    obtain k where k: "m = Suc k" "length x \<le> k" using fuel_step [of "c # a" x m] m by auto
    then show ?thesis using x' c dec drop by (simp add: case_prod_unfold)
  qed
  moreover have "lowNext (c # z) = None" for z using c(1) by (simp add: lowNext_def)
  ultimately show ?thesis using conts i x' by (simp add: sameString_def)
qed

section \<open>Values\<close>

text \<open>A value without the texts it was read from.\<close>

fun jsonValue :: "json \<Rightarrow> json" where
  "jsonValue (JArr es) = JArr (map (\<lambda>(raw, e). ([], jsonValue e)) es)"
| "jsonValue (JObj ms) = JObj (map (\<lambda>(k, raw, e). (k, [], jsonValue e)) ms)"
| "jsonValue v = v"

definition elemValues :: "(string \<times> json) list \<Rightarrow> (string \<times> json) list" where
  "elemValues es = map (\<lambda>(raw, e). ([], jsonValue e)) es"

definition memberValues :: "(string \<times> string \<times> json) list \<Rightarrow> (string \<times> string \<times> json) list" where
  "memberValues ms = map (\<lambda>(k, raw, e). (k, [], jsonValue e)) ms"

lemma jsonValue_nested: "jsonValue (JArr es) = JArr (elemValues es)" "jsonValue (JObj ms) = JObj (memberValues ms)"
  by (simp_all add: elemValues_def memberValues_def)

text \<open>A scalar is copied.\<close>

lemma scalar_part:
  assumes "scalar s = Some (v, u)"
  obtains d where "s = d @ u" "scalar d = Some (v, [])" "list_all plainByte d" "jsonValue v = v"
proof -
  have word: thesis if "hasPrefix s w" "u = drop (length w) s" "scalar w = Some (v, [])" "list_all plainByte w" "jsonValue v = v" for w
  proof -
    have "s = w @ u" using that(1,2) by (metis append_take_drop_id hasPrefix_def)
    with that show thesis using \<open>\<And>d. s = d @ u \<Longrightarrow> scalar d = Some (v, []) \<Longrightarrow> list_all plainByte d \<Longrightarrow> jsonValue v = v \<Longrightarrow> thesis\<close> by blast
  qed
  consider (true) "hasPrefix s ''true''" "v = JBool True" "u = drop 4 s"
    | (false) "hasPrefix s ''false''" "v = JBool False" "u = drop 5 s"
    | (null) "hasPrefix s ''null''" "v = JNull" "u = drop 4 s"
    | (num) d where "parseNum s = Some (d, u)" "v = JNum d"
    using assms by (auto simp: scalar_def split: if_splits)
  then show thesis
  proof cases
    case true
    then show thesis by (intro word [of "''true''"]) (simp_all add: scalar_def hasPrefix_def plainByte_def isJsonWs_def numeral_eq_Suc)
  next
    case false
    then show thesis by (intro word [of "''false''"]) (simp_all add: scalar_def hasPrefix_def plainByte_def isJsonWs_def numeral_eq_Suc)
  next
    case null
    then show thesis by (intro word [of "''null''"]) (simp_all add: scalar_def hasPrefix_def plainByte_def isJsonWs_def numeral_eq_Suc)
  next
    case (num d)
    then have p: "s = d @ u" "parseNum d = Some (d, [])" "list_all plainByte d" using parseNum_part by blast+
    obtain c d' where "d = c # d'" "c = CHR ''-'' \<or> isDigit c" using parseNum_head [OF p(2)] by blast
    then have "\<not> hasPrefix d ''true''" "\<not> hasPrefix d ''false''" "\<not> hasPrefix d ''null''" by (auto simp: hasPrefix_def isDigit_def)
    then have "scalar d = Some (v, [])" using p(2) num(2) by (simp add: scalar_def)
    with p num(2) that show thesis by simp
  qed
qed

text \<open>What a rewriting makes of a value, a list of elements and a list of members.\<close>

definition sameVal :: "(string \<Rightarrow> string) \<Rightarrow> string \<Rightarrow> json \<Rightarrow> string \<Rightarrow> bool" where
  "sameVal outside s v u \<longleftrightarrow> (\<exists>x v'. outside s = x @ outside u \<and> readsAs x v' \<and> jsonValue v' = jsonValue v)"

definition sameElems :: "(string \<Rightarrow> string) \<Rightarrow> string \<Rightarrow> (string \<times> json) list \<Rightarrow> string \<Rightarrow> bool" where
  "sameElems outside s es u \<longleftrightarrow>
     (\<exists>c y ps. outside s = c # y @ outside u \<and> \<not> isJsonWs c \<and> c \<noteq> CHR '']'' \<and> elemValues ps = elemValues es
        \<and> (\<forall>m t. 2 * length (c # y) < m \<longrightarrow> parseElems m (c # y @ t) = Some (ps, t)))"

definition sameMembers :: "(string \<Rightarrow> string) \<Rightarrow> string \<Rightarrow> (string \<times> string \<times> json) list \<Rightarrow> string \<Rightarrow> bool" where
  "sameMembers outside s ms u \<longleftrightarrow>
     (\<exists>y ps. outside s = quote # y @ outside u \<and> memberValues ps = memberValues ms
        \<and> (\<forall>m t. 2 * length (quote # y) < m \<longrightarrow> parseMembers m (quote # y @ t) = Some (ps, t)))"

section \<open>Rewritings\<close>

locale json_rewriter =
  fixes outside :: "string \<Rightarrow> string" and inside :: "string \<Rightarrow> string"
  assumes outside_Nil: "outside [] = []"
    and outside_blank: "isJsonWs c \<Longrightarrow> \<exists>b. list_all isJsonWs b \<and> outside (c # s) = b @ outside s"
    and outside_plain: "plainByte c \<Longrightarrow> outside (c # s) = c # outside s"
    and outside_quote: "outside (quote # s) = quote # inside s"
    and inside_quote: "inside (quote # s) = quote # outside s"
    and inside_escape: "inside (backslash # e # s) = backslash # e # inside s"
    and inside_copied: "copied c \<Longrightarrow> inside (c # s) = c # inside s"
    and inside_html: "htmlByte c \<Longrightarrow> inside (c # s) = c # inside s \<or> inside (c # s) = escapedByte c @ inside s"
    and inside_separator: "separatorByte b \<Longrightarrow>
      inside (CHR 0xE2 # CHR 0x80 # b # s) = CHR 0xE2 # CHR 0x80 # b # inside s
      \<or> inside (CHR 0xE2 # CHR 0x80 # b # s) = escapedSeparator b @ inside s"
    and inside_lead: "\<not> (\<exists>b s'. separatorByte b \<and> s = CHR 0x80 # b # s') \<Longrightarrow> inside (CHR 0xE2 # s) = CHR 0xE2 # inside s"
begin

lemma inside_copies: "list_all copied d \<Longrightarrow> inside (d @ y) = d @ inside y"
  by (induction d) (simp_all add: inside_copied)

lemma inside_conts: "list_all contByte a \<Longrightarrow> inside (a @ y) = a @ inside y"
  by (rule inside_copies) (simp add: list_all_iff copied_cont)

lemma sameString_close: "sameString outside inside (quote # u) [] u [quote]"
proof -
  have "parseStr m (quote # r) = Some ([], r)" if "1 \<le> m" for m r using that by (cases m) auto
  then show ?thesis by (auto simp: sameString_def lowNext_def contByte_def cont_def inside_quote)
qed

lemma sameString_unicode:
  assumes "unescapeU s = Some (w, rest)" "sameString outside inside rest t u x"
  shows "\<exists>y. sameString outside inside (backslash # CHR ''u'' # s) (w @ t) u y"
proof -
  obtain d where d: "s = d @ rest"
    "list_all copied d \<or> (\<exists>d1 d2. d = d1 @ backslash # CHR ''u'' # d2 \<and> list_all copied d1 \<and> list_all copied d2)"
    "\<And>y. map_option fst (lowNext y) = map_option fst (lowNext rest) \<Longrightarrow> unescapeU (d @ y) = Some (w, y)"
    "\<And>y y'. map_option fst (lowNext (backslash # CHR ''u'' # d @ y)) = map_option fst (lowNext (backslash # CHR ''u'' # d @ y'))"
    using unescapeU_part [OF assms(1)] by metis
  note x = assms(2) [unfolded sameString_def]
  let ?y = "backslash # CHR ''u'' # d @ x"
  have "parseStr m (?y @ r) = Some (w @ t, r)" if m: "length ?y \<le> m" for m r
  proof -
    obtain k where k: "m = Suc k" "length x \<le> k" using fuel_step [of "backslash # CHR ''u'' # d" x m] m by auto
    have "unescapeU (d @ x @ r) = Some (w, x @ r)" using d(3) x by blast
    then show ?thesis using x k by simp
  qed
  moreover have "inside (d @ rest) = d @ inside rest" using d(2) by (auto simp: inside_copies inside_escape)
  then have "inside (backslash # CHR ''u'' # s) = ?y @ outside u" using d(1) x by (simp add: inside_escape)
  moreover have "map_option fst (lowNext (?y @ r)) = map_option fst (lowNext (backslash # CHR ''u'' # s))" for r
    using d(4) [of "x @ r" rest] d(1) by simp
  moreover have "takeWhile contByte (?y @ r) = takeWhile contByte (backslash # CHR ''u'' # s)" for r
    by (simp add: contByte_def cont_def)
  ultimately show ?thesis by (intro exI [of _ ?y]) (simp add: sameString_def)
qed

lemma sameString_escape:
  assumes "e \<noteq> CHR ''u''" "simpleEscape e = Some c" "sameString outside inside s t u x"
  shows "sameString outside inside (backslash # e # s) (c # t) u (backslash # e # x)"
proof -
  note x = assms(3) [unfolded sameString_def]
  have "parseStr m ((backslash # e # x) @ r) = Some (c # t, r)" if m: "length (backslash # e # x) \<le> m" for m r
  proof -
    obtain k where k: "m = Suc k" "length x \<le> k" using fuel_step [of "[backslash, e]" x m] m by auto
    with x assms show ?thesis by simp
  qed
  with x assms(1) show ?thesis by (simp add: sameString_def lowNext_def contByte_def cont_def inside_escape)
qed

lemma sameString_rune:
  assumes c: "c \<noteq> quote" "c \<noteq> backslash" "\<not> byte c < 32"
    and x: "sameString outside inside (drop (snd (decodeRune (c # s))) (c # s)) t u x"
  shows "\<exists>y. sameString outside inside (c # s) (encodeRune (fst (decodeRune (c # s))) @ t) u y"
proof -
  obtain a rest where a: "s = a @ rest" "list_all contByte a" "drop (snd (decodeRune (c # s))) (c # s) = rest"
    by (rule rune_split [of s c])
  have copy: ?thesis if "inside (c # s) = c # a @ inside rest"
    using sameString_copied [OF _ c(3) a that x [unfolded a(3)]] c(1,2) by blast
  show ?thesis
  proof (cases "htmlByte c")
    case True
    then have b: "byte c < 128" by (auto simp: htmlByte_def)
    then have "a = []" "rest = s" using a(1,3) by auto
    with copy inside_html [OF True, of s] sameString_html [OF True, of inside s outside t u x] x b show ?thesis
      by (auto simp: encodeRune_byte)
  next
    case html: False
    show ?thesis
    proof (cases "c = CHR 0xE2 \<and> (\<exists>b s'. separatorByte b \<and> s = CHR 0x80 # b # s')")
      case True
      then obtain b s' where b: "c = CHR 0xE2" "separatorByte b" "s = CHR 0x80 # b # s'" by blast
      then have d: "decodeRune (c # s) = (if b = CHR 0xA8 then 8232 else 8233, 3)" by (auto simp: decodeRune_def cont_def separatorByte_def)
      with a(3) b(3) have r: "rest = s'" by simp
      then have "a = [CHR 0x80, b]" using a(1) b(3) by simp
      with copy inside_separator [OF b(2), of s'] sameString_separator [OF b(2), of inside s' outside t u x] x a(3) b d r show ?thesis
        by auto
    next
      case False
      then have "inside (c # s) = c # inside s" using c html inside_lead [of s] inside_copied [of c s] by (auto simp: copied_def htmlByte_def)
      then show ?thesis using copy inside_conts [OF a(2), of rest] a(1) by simp
    qed
  qed
qed

lemma string_kept:
  "parseStr n s = Some (t, u) \<Longrightarrow> \<exists>x. sameString outside inside s t u x"
proof (induction n arbitrary: s t u)
  case (Suc n)
  from Suc.prems show ?case
  proof (cases rule: parseStr_step)
    case close
    then show ?thesis using sameString_close by blast
  next
    case (unicode s' x rest t')
    with Suc.IH [OF unicode(3)] sameString_unicode show ?thesis by blast
  next
    case (escape e x s' t')
    with Suc.IH [OF escape(4)] sameString_escape show ?thesis by blast
  next
    case (rune c s' t')
    with Suc.IH [OF rune(5)] sameString_rune [OF rune(2-4)] show ?thesis by blast
  qed
qed simp

lemma blanks: "\<exists>b. list_all isJsonWs b \<and> outside s = b @ outside (skipWs s)"
proof (induction s)
  case (Cons c s)
  show ?case
  proof (cases "isJsonWs c")
    case True
    then obtain b where "list_all isJsonWs b" "outside (c # s) = b @ outside s" using outside_blank by blast
    moreover obtain b' where "list_all isJsonWs b'" "outside s = b' @ outside (skipWs s)" using Cons by blast
    ultimately show ?thesis using True by (intro exI [of _ "b @ b'"]) (simp add: skipWs_def)
  qed (auto intro: exI [of _ "[]"])
qed (auto simp: skipWs_def)

lemma token:
  assumes "skipWs s = c # s'" "c \<noteq> quote"
  obtains b where "list_all isJsonWs b" "outside s = b @ c # outside s'"
proof -
  have "\<not> isJsonWs c" using assms(1) unfolding skipWs_def by (metis hd_dropWhile list.discI list.sel(1))
  then have "outside (c # s') = c # outside s'" using assms(2) by (simp add: outside_plain plainByte_def)
  then show thesis using blanks [of s] assms(1) that by metis
qed

lemma bracket: "c \<in> {CHR ''{'', CHR ''[''} \<Longrightarrow> outside (c # s) = c # outside s"
  by (rule outside_plain) (auto simp: plainByte_def isJsonWs_def)

lemma outside_copies: "list_all plainByte d \<Longrightarrow> outside (d @ s) = d @ outside s"
  by (induction d) (simp_all add: outside_plain)

lemma sameVal_string:
  assumes "parseStr n s = Some (t, u)"
  shows "sameVal outside (quote # s) (JStr t) u"
proof -
  obtain x where "sameString outside inside s t u x" using string_kept [OF assms] by blast
  then have x: "inside s = x @ outside u" "\<And>m r. length x \<le> m \<Longrightarrow> parseStr m (x @ r) = Some (t, r)"
    by (auto simp: sameString_def)
  have "readsAs (quote # x) (JStr t)"
    unfolding readsAs_def
  proof (intro conjI allI impI)
    fix m r assume "2 * length (quote # x) < m"
    then obtain k where k: "m = Suc k" by (cases m) auto
    show "parseVal m ((quote # x) @ r) = Some (JStr t, r)"
      using x(2) [of "Suc (length (x @ r))" r] unfolding k parseVal_step by simp
  qed simp_all
  moreover have "outside (quote # s) = (quote # x) @ outside u" using x(1) by (simp add: outside_quote)
  ultimately show ?thesis unfolding sameVal_def by blast
qed

lemma sameVal_scalar:
  assumes "scalar s = Some (v, u)" "s = c # s'" "c \<notin> {CHR ''{'', CHR ''['', quote}"
  shows "sameVal outside s v u"
proof -
  obtain d where d: "s = d @ u" "scalar d = Some (v, [])" "list_all plainByte d" using scalar_part [OF assms(1)] by blast
  have "d \<noteq> []" using d(2) by (auto simp: scalar_def hasPrefix_def parseNum_def parseInt_def)
  then obtain d' where d': "d = c # d'" using d(1) assms(2) by (cases d) auto
  have "readsAs d v" using readsAs_scalar [OF d(2) d' assms(3)] d(3) d' by (simp add: plainByte_def)
  then show ?thesis unfolding sameVal_def using outside_copies [OF d(3), of u] d(1) by blast
qed

lemma sameVal_noMembers:
  assumes "skipWs s = CHR ''}'' # u"
  shows "sameVal outside (CHR ''{'' # s) (JObj []) u"
proof -
  obtain b where b: "list_all isJsonWs b" "outside s = b @ CHR ''}'' # outside u" using token [OF assms] by auto
  let ?x = "CHR ''{'' # b @ ''}''"
  have "readsAs ?x (JObj [])"
    unfolding readsAs_def
  proof (intro conjI allI impI)
    fix m r assume "2 * length ?x < m"
    then obtain k where k: "m = Suc k" by (cases m) auto
    show "parseVal m (?x @ r) = Some (JObj [], r)" unfolding k parseVal_step by (simp add: skipWs_blank [OF b(1)])
  qed (simp_all add: isJsonWs_def)
  moreover have "outside (CHR ''{'' # s) = ?x @ outside u" using b(2) by (simp add: bracket)
  ultimately show ?thesis unfolding sameVal_def by blast
qed

lemma sameVal_noElems:
  assumes "skipWs s = CHR '']'' # u"
  shows "sameVal outside (CHR ''['' # s) (JArr []) u"
proof -
  obtain b where b: "list_all isJsonWs b" "outside s = b @ CHR '']'' # outside u" using token [OF assms] by auto
  let ?x = "CHR ''['' # b @ '']''"
  have "readsAs ?x (JArr [])"
    unfolding readsAs_def
  proof (intro conjI allI impI)
    fix m r assume "2 * length ?x < m"
    then obtain k where k: "m = Suc k" by (cases m) auto
    show "parseVal m (?x @ r) = Some (JArr [], r)" unfolding k parseVal_step by (simp add: skipWs_blank [OF b(1)])
  qed (simp_all add: isJsonWs_def)
  moreover have "outside (CHR ''['' # s) = ?x @ outside u" using b(2) by (simp add: bracket)
  ultimately show ?thesis unfolding sameVal_def by blast
qed

lemma sameVal_obj:
  assumes "sameMembers outside (skipWs s) ms u"
  shows "sameVal outside (CHR ''{'' # s) (JObj ms) u"
proof -
  obtain y ps where y: "outside (skipWs s) = quote # y @ outside u" "memberValues ps = memberValues ms"
    "\<And>m t. 2 * length (quote # y) < m \<Longrightarrow> parseMembers m (quote # y @ t) = Some (ps, t)"
    using assms unfolding sameMembers_def by blast
  obtain b where b: "list_all isJsonWs b" "outside s = b @ outside (skipWs s)" using blanks by blast
  let ?x = "CHR ''{'' # b @ quote # y"
  have "readsAs ?x (JObj ps)"
    unfolding readsAs_def
  proof (intro conjI allI impI)
    fix m r assume "2 * length ?x < m"
    then obtain k where k: "m = Suc k" "2 * length (quote # y) < k" by (cases m) auto
    show "parseVal m (?x @ r) = Some (JObj ps, r)"
      using y(3) [OF k(2), of r] unfolding k parseVal_step by (simp add: skipWs_blank [OF b(1)])
  qed (simp_all add: isJsonWs_def)
  moreover have "outside (CHR ''{'' # s) = ?x @ outside u" using b(2) y(1) by (simp add: bracket)
  moreover have "jsonValue (JObj ps) = jsonValue (JObj ms)" using y(2) by (simp only: jsonValue_nested)
  ultimately show ?thesis unfolding sameVal_def by blast
qed

lemma sameVal_arr:
  assumes "sameElems outside (skipWs s) es u"
  shows "sameVal outside (CHR ''['' # s) (JArr es) u"
proof -
  obtain c y ps where y: "outside (skipWs s) = c # y @ outside u" "\<not> isJsonWs c" "c \<noteq> CHR '']''" "elemValues ps = elemValues es"
    "\<And>m t. 2 * length (c # y) < m \<Longrightarrow> parseElems m (c # y @ t) = Some (ps, t)"
    using assms unfolding sameElems_def by blast
  obtain b where b: "list_all isJsonWs b" "outside s = b @ outside (skipWs s)" using blanks by blast
  let ?x = "CHR ''['' # b @ c # y"
  have "readsAs ?x (JArr ps)"
    unfolding readsAs_def
  proof (intro conjI allI impI)
    fix m r assume "2 * length ?x < m"
    then obtain k where k: "m = Suc k" "2 * length (c # y) < k" by (cases m) auto
    show "parseVal m (?x @ r) = Some (JArr ps, r)"
      using y(2,3) y(5) [OF k(2), of r] unfolding k parseVal_step by (simp add: skipWs_blank [OF b(1)])
  qed (simp_all add: isJsonWs_def)
  moreover have "outside (CHR ''['' # s) = ?x @ outside u" using b(2) y(1) by (simp add: bracket)
  moreover have "jsonValue (JArr ps) = jsonValue (JArr es)" using y(4) by (simp only: jsonValue_nested)
  ultimately show ?thesis unfolding sameVal_def by blast
qed

lemma sameElems_last:
  assumes "sameVal outside s v u" "skipWs u = CHR '']'' # w"
  shows "sameElems outside s [(raw, v)] w"
proof -
  obtain x v' where x: "outside s = x @ outside u" "readsAs x v'" "jsonValue v' = jsonValue v"
    using assms(1) unfolding sameVal_def by blast
  obtain c x' where c: "x = c # x'" "\<not> isJsonWs c" "c \<noteq> CHR '']''" using readsAs_bracket [OF x(2)] by blast
  obtain b where b: "list_all isJsonWs b" "outside u = b @ CHR '']'' # outside w" using token [OF assms(2)] by auto
  have "parseElems m (c # (x' @ b @ '']'') @ t) = Some ([(x, v')], t)" if m: "2 * length (c # x' @ b @ '']'') < m" for m t
  proof -
    obtain j where j: "m = Suc j" "2 * length x < j" using m c(1) by (cases m) auto
    from parseElems_one [OF x(2) j(2) b(1), of "CHR '']'' # t" t] show ?thesis unfolding j c(1) by (simp del: parseElems.simps)
  qed
  moreover have "outside s = c # (x' @ b @ '']'') @ outside w" using x(1) b(2) c(1) by simp
  moreover have "elemValues [(x, v')] = elemValues [(raw, v)]" using x(3) by (simp add: elemValues_def)
  ultimately show ?thesis unfolding sameElems_def using c(2,3) by blast
qed

lemma sameElems_Cons:
  assumes "sameVal outside s v u" "skipWs u = CHR '','' # w" "sameElems outside (skipWs w) es t"
  shows "sameElems outside s ((raw, v) # es) t"
proof -
  obtain x v' where x: "outside s = x @ outside u" "readsAs x v'" "jsonValue v' = jsonValue v"
    using assms(1) unfolding sameVal_def by blast
  obtain c x' where c: "x = c # x'" "\<not> isJsonWs c" "c \<noteq> CHR '']''" using readsAs_bracket [OF x(2)] by blast
  obtain b where b: "list_all isJsonWs b" "outside u = b @ CHR '','' # outside w" using token [OF assms(2)] by auto
  obtain d y ps where y: "outside (skipWs w) = d # y @ outside t" "\<not> isJsonWs d" "elemValues ps = elemValues es"
    "\<And>m t. 2 * length (d # y) < m \<Longrightarrow> parseElems m (d # y @ t) = Some (ps, t)"
    using assms(3) unfolding sameElems_def by blast
  obtain b' where b': "list_all isJsonWs b'" "outside w = b' @ outside (skipWs w)" using blanks by blast
  let ?y = "x' @ b @ CHR '','' # b' @ d # y"
  have "parseElems m (c # ?y @ r) = Some ((x, v') # ps, r)" if m: "2 * length (c # ?y) < m" for m r
  proof -
    obtain j where j: "m = Suc j" "2 * length x < j" "2 * length (d # y) < j" using m c(1) by (cases m) auto
    from parseElems_one [OF x(2) j(2) b(1), of "CHR '','' # b' @ d # y @ r"] y(2) y(4) [OF j(3), of r]
    show ?thesis unfolding j c(1) by (simp add: skipWs_blank [OF b'(1)] del: parseElems.simps)
  qed
  moreover have "outside s = c # ?y @ outside t" using x(1) b(2) b'(2) y(1) c(1) by simp
  moreover have "elemValues ((x, v') # ps) = elemValues ((raw, v) # es)" using x(3) y(3) by (simp add: elemValues_def)
  ultimately show ?thesis unfolding sameElems_def using c(2,3) by blast
qed

text \<open>A member, and what becomes of its key and its value.\<close>

lemma sameMember:
  assumes "parseStr n s = Some (k, r0)" "skipWs r0 = CHR '':'' # r1" "sameVal outside (skipWs r1) v u"
  obtains q x v' b1 b2 where "outside (quote # s) = quote # q @ b1 @ CHR '':'' # b2 @ x @ outside u" "readsAs x v'"
    "jsonValue v' = jsonValue v" "\<And>m r. length q \<le> m \<Longrightarrow> parseStr m (q @ r) = Some (k, r)"
    "list_all isJsonWs b1" "list_all isJsonWs b2"
proof -
  obtain q where q: "sameString outside inside s k r0 q" using string_kept [OF assms(1)] by blast
  obtain x v' where x: "outside (skipWs r1) = x @ outside u" "readsAs x v'" "jsonValue v' = jsonValue v"
    using assms(3) unfolding sameVal_def by blast
  obtain b1 where b1: "list_all isJsonWs b1" "outside r0 = b1 @ CHR '':'' # outside r1" using token [OF assms(2)] by auto
  obtain b2 where b2: "list_all isJsonWs b2" "outside r1 = b2 @ outside (skipWs r1)" using blanks by blast
  have "outside (quote # s) = quote # q @ b1 @ CHR '':'' # b2 @ x @ outside u"
    using q x(1) b1(2) b2(2) by (simp add: sameString_def outside_quote)
  with that x q b1(1) b2(1) show thesis by (simp add: sameString_def)
qed

lemma sameMembers_last:
  assumes "parseStr n s = Some (k, r0)" "skipWs r0 = CHR '':'' # r1" "sameVal outside (skipWs r1) v u" "skipWs u = CHR ''}'' # w"
  shows "sameMembers outside (quote # s) [(k, raw, v)] w"
proof -
  obtain q x v' b1 b2 where q: "outside (quote # s) = quote # q @ b1 @ CHR '':'' # b2 @ x @ outside u" "readsAs x v'"
    "jsonValue v' = jsonValue v" "\<And>m r. length q \<le> m \<Longrightarrow> parseStr m (q @ r) = Some (k, r)"
    "list_all isJsonWs b1" "list_all isJsonWs b2"
    using sameMember [OF assms(1-3)] by metis
  obtain b3 where b3: "list_all isJsonWs b3" "outside u = b3 @ CHR ''}'' # outside w" using token [OF assms(4)] by auto
  let ?y = "q @ b1 @ CHR '':'' # b2 @ x @ b3 @ ''}''"
  have "parseMembers m (quote # ?y @ t) = Some ([(k, x, v')], t)" if m: "2 * length (quote # ?y) < m" for m t
  proof -
    obtain j where j: "m = Suc j" "2 * length x < j" using m by (cases m) auto
    from parseMembers_key [OF q(4,5,6) b3(1) q(2) j(2), of "CHR ''}'' # t" t] j(1) show ?thesis by (simp del: parseMembers.simps)
  qed
  moreover have "outside (quote # s) = quote # ?y @ outside w" using q(1) b3(2) by simp
  moreover have "memberValues [(k, x, v')] = memberValues [(k, raw, v)]" using q(3) by (simp add: memberValues_def)
  ultimately show ?thesis unfolding sameMembers_def by blast
qed

lemma sameMembers_Cons:
  assumes "parseStr n s = Some (k, r0)" "skipWs r0 = CHR '':'' # r1" "sameVal outside (skipWs r1) v u" "skipWs u = CHR '','' # w"
    "sameMembers outside (skipWs w) ms t"
  shows "sameMembers outside (quote # s) ((k, raw, v) # ms) t"
proof -
  obtain q x v' b1 b2 where q: "outside (quote # s) = quote # q @ b1 @ CHR '':'' # b2 @ x @ outside u" "readsAs x v'"
    "jsonValue v' = jsonValue v" "\<And>m r. length q \<le> m \<Longrightarrow> parseStr m (q @ r) = Some (k, r)"
    "list_all isJsonWs b1" "list_all isJsonWs b2"
    using sameMember [OF assms(1-3)] by metis
  obtain b3 where b3: "list_all isJsonWs b3" "outside u = b3 @ CHR '','' # outside w" using token [OF assms(4)] by auto
  obtain y ps where y: "outside (skipWs w) = quote # y @ outside t" "memberValues ps = memberValues ms"
    "\<And>m t. 2 * length (quote # y) < m \<Longrightarrow> parseMembers m (quote # y @ t) = Some (ps, t)"
    using assms(5) unfolding sameMembers_def by blast
  obtain b4 where b4: "list_all isJsonWs b4" "outside w = b4 @ outside (skipWs w)" using blanks by blast
  let ?y = "q @ b1 @ CHR '':'' # b2 @ x @ b3 @ CHR '','' # b4 @ quote # y"
  have "parseMembers m (quote # ?y @ r) = Some ((k, x, v') # ps, r)" if m: "2 * length (quote # ?y) < m" for m r
  proof -
    obtain j where j: "m = Suc j" "2 * length x < j" "2 * length (quote # y) < j" using m by (cases m) auto
    from parseMembers_key [OF q(4,5,6) b3(1) q(2) j(2), of "CHR '','' # b4 @ quote # y @ r" "b4 @ quote # y @ r"] y(3) [OF j(3), of r] j(1)
    show ?thesis by (simp add: skipWs_blank [OF b4(1)] del: parseMembers.simps)
  qed
  moreover have "outside (quote # s) = quote # ?y @ outside t" using q(1) b3(2) b4(2) y(1) by simp
  moreover have "memberValues ((k, x, v') # ps) = memberValues ((k, raw, v) # ms)" using q(3) y(2) by (simp add: memberValues_def)
  ultimately show ?thesis unfolding sameMembers_def by blast
qed

lemma value_kept:
  "(\<forall>s v u. parseVal n s = Some (v, u) \<longrightarrow> sameVal outside s v u)
   \<and> (\<forall>s es u. parseElems n s = Some (es, u) \<longrightarrow> sameElems outside s es u)
   \<and> (\<forall>s ms u. parseMembers n s = Some (ms, u) \<longrightarrow> sameMembers outside s ms u)"
proof (induction n)
  case (Suc n)
  have "sameVal outside s v u" if "parseVal (Suc n) s = Some (v, u)" for s v u
    using that
  proof (cases rule: parseVal_found)
    case (members s' e w ms)
    then show ?thesis using Suc sameVal_obj [of s' ms u] by auto
  next
    case (elems s' e w es)
    then show ?thesis using Suc sameVal_arr [of s' es u] by auto
  qed (use sameVal_noMembers sameVal_noElems sameVal_string sameVal_scalar in blast)+
  moreover have "sameElems outside s es u" if "parseElems (Suc n) s = Some (es, u)" for s es u
    using that
  proof (cases rule: parseElems_found)
    case (last v u0)
    with Suc sameElems_last show ?thesis by blast
  next
    case (more v u0 w es')
    with Suc sameElems_Cons show ?thesis by blast
  qed
  moreover have "sameMembers outside s ms u" if "parseMembers (Suc n) s = Some (ms, u)" for s ms u
    using that
  proof (cases rule: parseMembers_found)
    case (last s0 k r0 r1 v u0)
    with Suc sameMembers_last [OF last(2,3) _ last(5)] show ?thesis by blast
  next
    case (more s0 k r0 r1 v u0 w ms')
    with Suc sameMembers_Cons [OF more(2,3) _ more(5)] show ?thesis by blast
  qed
  ultimately show ?case by blast
qed simp

end

interpretation compaction: json_rewriter "compactWalk False" "compactWalk True"
proof
  fix c s assume "separatorByte c"
  then show "compactWalk True (CHR 0xE2 # CHR 0x80 # c # s) = CHR 0xE2 # CHR 0x80 # c # compactWalk True s
      \<or> compactWalk True (CHR 0xE2 # CHR 0x80 # c # s) = escapedSeparator c @ compactWalk True s"
    by (auto simp: separatorByte_def escapedSeparator_def)
next
  fix s assume "\<not> (\<exists>b s'. separatorByte b \<and> s = CHR 0x80 # b # s')"
  then have "take 2 s \<noteq> [CHR 0x80, CHR 0xA8]" "take 2 s \<noteq> [CHR 0x80, CHR 0xA9]"
    by (cases s rule: shapes4; auto simp: separatorByte_def)+
  then show "compactWalk True (CHR 0xE2 # s) = CHR 0xE2 # compactWalk True s" by simp
qed (auto simp: plainByte_def copied_def htmlByte_def escapedByte_def)

interpretation verbatim: json_rewriter "\<lambda>s. s" "\<lambda>s. s"
proof
  fix c s assume "isJsonWs c"
  then show "\<exists>b. list_all isJsonWs b \<and> c # s = b @ s" by (intro exI [of _ "[c]"]) simp
qed simp_all

text \<open>A valid document compacts to a text that reads as the same value wherever it is put.\<close>

lemma compact_reads:
  assumes "parseJson raw = Some v"
  obtains v' where "compactJson raw = Some (compactWalk False raw)" "readsAs (compactWalk False raw) v'" "jsonValue v' = jsonValue v"
proof -
  obtain u where u: "parseVal (Suc (2 * length raw)) (skipWs raw) = Some (v, u)" "skipWs u = []"
    using assms by (auto simp: parseJson_def split: option.splits if_splits simp del: parseVal.simps)
  have skip: "compactWalk False (skipWs s) = compactWalk False s" for s unfolding skipWs_def by (induction s) auto
  have "sameVal (compactWalk False) (skipWs raw) v u" using compaction.value_kept u(1) by blast
  moreover have "compactWalk False u = []" using skip [of u] u(2) by simp
  ultimately show thesis using that assms by (auto simp: sameVal_def skip compactJson_def)
qed

text \<open>The text a value was read from is a document of its own.\<close>

lemma raw_reads:
  assumes "parseVal n s = Some (v, u)"
  shows "\<exists>v'. parseJson (take (length s - length u) s) = Some v'"
proof -
  obtain x v' where "s = x @ u" "readsAs x v'" using verbatim.value_kept assms unfolding sameVal_def by blast
  then show ?thesis using readsAs_whole by fastforce
qed

end
