(* ===== verification/GoDecode.thy ===== *)
theory GoDecode
  imports GoCompact
begin

text \<open>
  What decoded Go values are made of, whatever was read: strings are well-formed UTF-8, raw messages are valid
  JSON, numbers fit their type. \<^verbatim>\<open>keeps P d\<close> says that a decoder keeps a property of the value it decodes into.
\<close>

section \<open>Decoded strings are well-formed\<close>

lemma validUtf8_append: "validUtf8 a \<Longrightarrow> validUtf8 b \<Longrightarrow> validUtf8 (a @ b)"
proof (induction a rule: validUtf8.induct)
  case (1 a)
  show ?case
  proof (cases a)
    case (Cons c s)
    let ?w = "snd (decodeRune a)"
    have good: "goodRune (decodeRune a)" and rest: "validUtf8 (drop ?w a)" using 1(2) Cons by (simp_all add: validUtf8_Cons)
    have "decodeRune (take ?w a @ drop ?w a @ b) = decodeRune a" by (rule decodeRune_local(1) [OF good])
    then have d: "decodeRune (a @ b) = decodeRune a" by (simp only: append.assoc [symmetric] append_take_drop_id)
    have "drop ?w (a @ b) = drop ?w a @ b" using decodeRune_local(2) [OF good] by simp
    moreover have "validUtf8 (drop ?w a @ b)" using 1 Cons good rest by auto
    ultimately show ?thesis using good d Cons by (simp add: validUtf8_Cons)
  qed (use 1 in simp)
qed

lemma validUtf8_concat: "list_all validUtf8 xs \<Longrightarrow> validUtf8 (concat xs)"
  by (induction xs) (auto intro: validUtf8_append)

lemma validUtf8_whole:
  assumes "goodRune (decodeRune s)" "snd (decodeRune s) = length s"
  shows "validUtf8 s"
  using assms by (subst validUtf8.simps) simp

lemma validUtf8_byte: "byte c < 128 \<Longrightarrow> validUtf8 [c]"
  by (rule validUtf8_whole) (simp_all add: goodRune_def)

lemma validUtf8_encodeRune: "validUtf8 (encodeRune r)"
proof -
  consider "r < 128" | "128 \<le> r" "r < 2048" | "(55296 \<le> r \<and> r \<le> 57343) \<or> 1114111 < r"
    | "2048 \<le> r" "r < 65536" "\<not> (55296 \<le> r \<and> r \<le> 57343)" | "65536 \<le> r" "r \<le> 1114111"
    by linarith
  then show ?thesis
  proof cases
    case 1
    then show ?thesis using validUtf8_byte [of "char_of r"] by (simp add: encodeRune_def)
  next
    case 2
    then have "2 \<le> r div 64" "r div 64 < 32" by auto
    with 2 show ?thesis by (intro validUtf8_whole) (auto simp: encodeRune_def decodeRune_def cont_def goodRune_def)
  next
    case 3
    then show ?thesis by (intro validUtf8_whole) (auto simp: encodeRune_def decodeRune_def cont_def goodRune_def)
  next
    case 4
    have b: "r div 4096 < 16" "r div 64 mod 64 < 64" "r mod 64 < 64" using 4 by auto
    have lo: "r div 4096 = 0 \<Longrightarrow> 32 \<le> r div 64 mod 64" using 4 by simp
    have "r div 64 = r div 4096 * 64 + r div 64 mod 64" by (simp add: div_mult2_eq [of r 64 64, simplified])
    then have hi: "r div 4096 = 13 \<Longrightarrow> r div 64 mod 64 \<le> 31" using 4 by auto
    have e: "encodeRune r = map char_of [224 + r div 4096, 128 + r div 64 mod 64, 128 + r mod 64]"
    proof -
      have n: "((55296 \<le> r \<and> r \<le> 57343) \<or> 1114111 < r) = False" using 4 by auto
      show ?thesis unfolding encodeRune_def n using 4 by simp
    qed
    have "decodeRune (encodeRune r) = (r div 4096 * 4096 + r div 64 mod 64 * 64 + r mod 64, 3)"
      unfolding e using b lo hi by (auto simp: decodeRune_def cont_def)
    then show ?thesis by (intro validUtf8_whole) (simp_all add: goodRune_def e)
  next
    case 5
    have b: "r div 262144 \<le> 4" "r div 4096 mod 64 < 64" "r div 64 mod 64 < 64" "r mod 64 < 64" using 5 by auto
    have lo: "r div 262144 = 0 \<Longrightarrow> 16 \<le> r div 4096 mod 64" using 5 by simp
    have "r div 4096 = r div 262144 * 64 + r div 4096 mod 64" by (simp add: div_mult2_eq [of r 4096 64, simplified])
    then have hi: "r div 262144 = 4 \<Longrightarrow> r div 4096 mod 64 \<le> 15" using 5 by auto
    have e: "encodeRune r = map char_of [240 + r div 262144, 128 + r div 4096 mod 64, 128 + r div 64 mod 64, 128 + r mod 64]"
      using 5 by (simp add: encodeRune_def)
    have "decodeRune (encodeRune r) = (r div 262144 * 262144 + r div 4096 mod 64 * 4096 + r div 64 mod 64 * 64 + r mod 64, 4)"
      unfolding e using b lo hi by (auto simp: decodeRune_def cont_def)
    then show ?thesis by (intro validUtf8_whole) (simp_all add: goodRune_def e)
  qed
qed

lemma unescapeU_valid: "unescapeU s = Some (w, u) \<Longrightarrow> validUtf8 w"
  by (auto simp: unescapeU_low validUtf8_encodeRune split: option.splits if_splits)

lemma simpleEscape_valid: "simpleEscape e = Some c \<Longrightarrow> byte c < 128"
  by (auto simp: simpleEscape_def split: if_splits)

lemma parseStr_valid: "parseStr n s = Some (t, u) \<Longrightarrow> validUtf8 t"
proof (induction n arbitrary: s t u)
  case (Suc n)
  from Suc.prems show ?case
  proof (cases rule: parseStr_step)
    case (unicode s' x rest t')
    with Suc.IH [OF unicode(3)] unescapeU_valid [OF unicode(2)] validUtf8_append show ?thesis by blast
  next
    case (escape e x s' t')
    with Suc.IH [OF escape(4)] validUtf8_byte [OF simpleEscape_valid [OF escape(3)]] validUtf8_append [of "[x]" t'] show ?thesis by simp
  next
    case (rune c s' t')
    with Suc.IH [OF rune(5)] validUtf8_encodeRune validUtf8_append show ?thesis by blast
  qed simp
qed simp

section \<open>Values that were read\<close>

definition rawOk :: "string \<Rightarrow> bool" where
  "rawOk raw \<longleftrightarrow> parseJson raw \<noteq> None"

fun goodJson :: "json \<Rightarrow> bool" where
  "goodJson (JStr s) = validUtf8 s"
| "goodJson (JArr es) = list_all (\<lambda>(raw, e). rawOk raw \<and> goodJson e) es"
| "goodJson (JObj ms) = list_all (\<lambda>(k, raw, e). rawOk raw \<and> goodJson e) ms"
| "goodJson v = True"

lemma scalar_good: "scalar s = Some (v, t) \<Longrightarrow> goodJson v"
  by (auto simp: scalar_def split: if_splits)

lemma parse_good:
  "(\<forall>s v u. parseVal n s = Some (v, u) \<longrightarrow> goodJson v)
   \<and> (\<forall>s es u. parseElems n s = Some (es, u) \<longrightarrow> goodJson (JArr es))
   \<and> (\<forall>s ms u. parseMembers n s = Some (ms, u) \<longrightarrow> goodJson (JObj ms))"
proof (induction n)
  case (Suc n)
  have raw: "rawOk (take (length s - length u) s)" if "parseVal n s = Some (v, u)" for s v u
    using raw_reads [OF that] by (auto simp: rawOk_def)
  have "goodJson v" if "parseVal (Suc n) s = Some (v, u)" for s v u
    using that
  proof (cases rule: parseVal_found)
    case (members s' e w ms)
    with Suc show ?thesis by blast
  next
    case (elems s' e w es)
    with Suc show ?thesis by blast
  qed (auto dest: scalar_good parseStr_valid)
  moreover have "goodJson (JArr es)" if "parseElems (Suc n) s = Some (es, u)" for s es u
    using that by (cases rule: parseElems_found) (use Suc raw in \<open>fastforce\<close>)+
  moreover have "goodJson (JObj ms)" if "parseMembers (Suc n) s = Some (ms, u)" for s ms u
    using that by (cases rule: parseMembers_found) (use Suc raw in \<open>fastforce\<close>)+
  ultimately show ?case by blast
qed simp

lemma parseJson_good: "parseJson s = Some v \<Longrightarrow> goodJson v"
proof -
  assume "parseJson s = Some v"
  then obtain u where "parseVal (Suc (2 * length s)) (skipWs s) = Some (v, u)"
    by (auto simp: parseJson_def split: option.splits if_splits simp del: parseVal.simps)
  then show ?thesis using parse_good by blast
qed

section \<open>Decoders\<close>

definition keeps :: "('a \<Rightarrow> bool) \<Rightarrow> 'a decoder \<Rightarrow> bool" where
  "keeps P d \<longleftrightarrow> (\<forall>raw v x y. rawOk raw \<longrightarrow> goodJson v \<longrightarrow> P x \<longrightarrow> d raw v x = Some y \<longrightarrow> P y)"

lemma keepsD: "keeps P d \<Longrightarrow> rawOk raw \<Longrightarrow> goodJson v \<Longrightarrow> P x \<Longrightarrow> d raw v x = Some y \<Longrightarrow> P y"
  unfolding keeps_def by blast

named_theorems keeps_intros "decoders that keep a property"

lemma keeps_decString [keeps_intros]: "keeps validUtf8 decString"
  by (auto simp: keeps_def decString_def split: json.splits)

lemma keeps_decRaw [keeps_intros]: "keeps (\<lambda>r. r = [] \<or> rawOk r) decRaw"
  by (auto simp: keeps_def decRaw_def)

lemma keeps_decInt64 [keeps_intros]: "keeps isInt64 decInt64"
  by (auto simp: keeps_def decInt64_def int64OfText_def isInt64_def Let_def split: json.splits if_splits)

lemma keeps_any [keeps_intros]: "keeps (\<lambda>_. True) d"
  by (simp add: keeps_def)

lemma keeps_fieldDec:
  assumes "keeps Q d" "\<And>s. P s \<Longrightarrow> Q (get s)" "\<And>s x. P s \<Longrightarrow> Q x \<Longrightarrow> P (upd (\<lambda>_. x) s)"
  shows "keeps P (fieldDec get upd d)"
  using assms unfolding keeps_def fieldDec_def by fastforce

lemma decMembers_keeps:
  assumes "list_all (\<lambda>(k, d). keeps P d) fs"
  shows "goodJson (JObj ms) \<Longrightarrow> P s \<Longrightarrow> decMembers fs ms s = Some s' \<Longrightarrow> P s'"
proof (induction ms arbitrary: s)
  case (Cons m ms)
  have l: "keeps P d" if "lookupField fs k = Some d" for k d
    using assms that by (induction fs) (auto split: if_splits)
  obtain k raw v where m: "m = (k, raw, v)" by (cases m)
  show ?case
  proof (cases "lookupField fs k")
    case (Some d)
    then obtain s1 where s1: "d raw v s = Some s1" "decMembers fs ms s1 = Some s'" using Cons.prems(3) m by (auto split: option.splits)
    have "P s1" using keepsD [OF l [OF Some] _ _ Cons.prems(2) s1(1)] Cons.prems(1) m by simp
    then show ?thesis using Cons.IH [OF _ _ s1(2)] Cons.prems(1) by simp
  qed (use Cons m in auto)
qed simp

lemma keeps_decStruct: "list_all (\<lambda>(k, d). keeps P d) fs \<Longrightarrow> keeps P (decStruct fs)"
  unfolding keeps_def [of P "decStruct fs"] decStruct_def using decMembers_keeps [of P fs] by (auto split: json.splits)

lemma keeps_decSlice:
  assumes "keeps P d" "P z"
  shows "keeps (list_all P) (decSlice z d)"
proof -
  have "list_all P ys" if "list_all (\<lambda>(raw, e). rawOk raw \<and> goodJson e) es" "those (map (\<lambda>(r, e). d r e z) es) = Some ys" for es ys
    using that
  proof (induction es arbitrary: ys)
    case (Cons p es)
    then show ?case using keepsD [OF assms(1) _ _ assms(2)] by (cases p) (auto split: option.splits)
  qed simp
  then show ?thesis unfolding keeps_def decSlice_def by (auto split: json.splits)
qed

lemma unmarshal_keeps:
  assumes "keeps P d" "P z" "unmarshal d s z = Some x"
  shows "P x"
proof -
  obtain v where v: "parseJson s = Some v" "d s v z = Some x" using assms(3) by (auto simp: unmarshal_def split: option.splits)
  then have "rawOk s" by (simp add: rawOk_def)
  from keepsD [OF assms(1) this parseJson_good [OF v(1)] assms(2) v(2)] show ?thesis .
qed

end
