(* ===== verification/HookWire.thy ===== *)
theory HookWire
  imports StopHook GoDecode
begin

text \<open>
  The wire between the Stop hook and the wrapper: \<^verbatim>\<open>json.Marshal\<close> of a \<^verbatim>\<open>session.HookResult\<close>, the \<^verbatim>\<open>run\<close> of
  \<^verbatim>\<open>cmd/cc-stop-hook/main.go\<close>, and what the endpoint decodes from a result that was built from any payload,
  transcript and result file.
\<close>

section \<open>Marshalling a result\<close>

definition marshalTokens :: "TurnTokens \<Rightarrow> string" where
  "marshalTokens t =
     objText [(''model'', jsonQuote (ttModel t)), (''input'', intText (ttInput t)), (''output'', intText (ttOutput t)),
              (''cacheRead'', intText (ttCacheRead t)), (''cacheCreation'', intText (ttCacheCreation t))]"

text \<open>A \<^verbatim>\<open>json.RawMessage\<close> field with \<^verbatim>\<open>omitempty\<close>; a message that is not JSON fails the marshalling.\<close>

definition rawMember :: "string \<Rightarrow> string \<Rightarrow> (string \<times> string) list option" where
  "rawMember k raw = (if raw = [] then Some [] else map_option (\<lambda>x. [(k, x)]) (compactJson raw))"

definition marshalHook :: "HookResult \<Rightarrow> string option" where
  "marshalHook res =
     (case (rawMember ''resultJson'' (hResultJSON res), rawMember ''usage'' (hUsage res)) of
        (Some result, Some usage) \<Rightarrow>
          Some (objText
            ([(''sessionId'', jsonQuote (hSessionID res)), (''finalText'', jsonQuote (hFinalText res))]
             @ result @ usage
             @ [(''stopReason'', jsonQuote (hStopReason res))]
             @ (if hTranscriptPath res = [] then [] else [(''transcriptPath'', jsonQuote (hTranscriptPath res))])
             @ (if hTurnTokens res = [] then [] else [(''turnTokens'', arrText (map marshalTokens (hTurnTokens res)))])))
      | _ \<Rightarrow> None)"

section \<open>The command\<close>

datatype hookErr = ReadStdinErr | PayloadErr | MarshalErr | NewRequestErr | PostErr postErr

definition hook_envOr :: "(string \<Rightarrow> string option) \<Rightarrow> string \<Rightarrow> string \<Rightarrow> string" where
  "hook_envOr env k dflt = (case env k of Some v \<Rightarrow> v | None \<Rightarrow> dflt)"

definition internalURL :: "(string \<Rightarrow> string option) \<Rightarrow> string" where
  "internalURL env = hook_envOr env ''CCW_INTERNAL_URL'' ''http://127.0.0.1:8090/internal/turn-complete''"

definition resultPath :: "(string \<Rightarrow> string option) \<Rightarrow> string" where
  "resultPath env = hook_envOr env ''CCW_RESULT_JSON'' ''/workspace/result.json''"

text \<open>
  \<^verbatim>\<open>run\<close>: what was read from standard input (\<^const>\<open>None\<close>: the read failed), whether \<^verbatim>\<open>http.NewRequest\<close> takes the
  URL, the server behind an URL given the body of the requests, and what becomes of each attempt.
\<close>

definition run ::
  "(string \<Rightarrow> string option) \<Rightarrow> filesystem \<Rightarrow> string option \<Rightarrow> (string \<Rightarrow> bool) \<Rightarrow> (string \<Rightarrow> string \<Rightarrow> 'm server)
   \<Rightarrow> (nat \<Rightarrow> delivery) \<Rightarrow> 'm \<Rightarrow> hookErr option \<times> 'm" where
  "run env fs stdin urlOk serve net m =
     (case stdin of
        None \<Rightarrow> (Some ReadStdinErr, m)
      | Some payload \<Rightarrow>
          (case buildResult fs payload (resultPath env) of
             None \<Rightarrow> (Some PayloadErr, m)
           | Some res \<Rightarrow>
               (case marshalHook res of
                  None \<Rightarrow> (Some MarshalErr, m)
                | Some body \<Rightarrow>
                    if \<not> urlOk (internalURL env) then (Some NewRequestErr, m)
                    else (case postWithRetry (serve (internalURL env) body) net m of (e, m1) \<Rightarrow> (map_option PostErr e, m1)))))"

section \<open>Reading a marshalled result\<close>

definition tokensOk :: "TurnTokens \<Rightarrow> bool" where
  "tokensOk t \<longleftrightarrow> validUtf8 (ttModel t) \<and> isInt64 (ttInput t) \<and> isInt64 (ttOutput t) \<and> isInt64 (ttCacheRead t) \<and> isInt64 (ttCacheCreation t)"

definition rawField :: "string \<Rightarrow> bool" where
  "rawField raw \<longleftrightarrow> raw = [] \<or> rawOk raw"

definition wireable :: "HookResult \<Rightarrow> bool" where
  "wireable res \<longleftrightarrow>
     validUtf8 (hSessionID res) \<and> validUtf8 (hFinalText res) \<and> rawField (hResultJSON res) \<and> rawField (hUsage res)
     \<and> validUtf8 (hStopReason res) \<and> validUtf8 (hTranscriptPath res) \<and> list_all tokensOk (hTurnTokens res)"

text \<open>What arrives: the same result, its raw messages compacted.\<close>

definition wireResult :: "HookResult \<Rightarrow> HookResult" where
  "wireResult res = res\<lparr>hResultJSON := compactWalk False (hResultJSON res), hUsage := compactWalk False (hUsage res)\<rparr>"

text \<open>Documents of members, read and decoded.\<close>

lemma decodeFirst_obj:
  assumes "list_all2 readsMember ms ps" "decMembers fs ps z = Some x"
  shows "decodeFirst (decStruct fs) z (objText ms) = Decoded x"
proof -
  have "readsAs (objText ms) (JObj ps)" by (rule readsAs_obj [OF assms(1)])
  note readsAs_parse [OF this, of "Suc (2 * length (objText ms))" "[]"] readsAs_head [OF this, of "[]"]
  moreover have "objText ms \<noteq> []" by (simp add: objText_def)
  ultimately show ?thesis using assms(2) by (simp add: decodeFirst_def decStruct_def del: parseVal.simps)
qed

lemma lookupField_other: "\<not> equalFold n k \<Longrightarrow> lookupField ((n, d) # fs) k = lookupField fs k"
  by simp

lemma lookupField_here: "lookupField ((k, d) # fs) k = Some d"
  by (simp add: equalFold_def)

lemma fold_keys:
  "list_all (\<lambda>k. list_all (\<lambda>n. equalFold n k \<longleftrightarrow> n = k)
     [''sessionId'', ''finalText'', ''resultJson'', ''usage'', ''stopReason'', ''transcriptPath'', ''turnTokens''])
     [''sessionId'', ''finalText'', ''resultJson'', ''usage'', ''stopReason'', ''transcriptPath'', ''turnTokens'']"
  "list_all (\<lambda>k. list_all (\<lambda>n. equalFold n k \<longleftrightarrow> n = k) [''model'', ''input'', ''output'', ''cacheRead'', ''cacheCreation''])
     [''model'', ''input'', ''output'', ''cacheRead'', ''cacheCreation'']"
  by code_simp+

lemmas fold_keys_simps = fold_keys [simplified]

lemma key_valid:
  "list_all validUtf8 [''sessionId'', ''finalText'', ''resultJson'', ''usage'', ''stopReason'', ''transcriptPath'', ''turnTokens'']"
  "list_all validUtf8 [''model'', ''input'', ''output'', ''cacheRead'', ''cacheCreation'']"
  by (simp_all add: validUtf8_ascii)

lemmas key_valid_simps = key_valid [unfolded list.pred_inject simp_thms]

text \<open>The tokens of a model.\<close>

definition tokenMembers :: "TurnTokens \<Rightarrow> (string \<times> string \<times> json) list" where
  "tokenMembers t =
     [(''model'', jsonQuote (ttModel t), JStr (ttModel t)), (''input'', intText (ttInput t), JNum (intText (ttInput t))),
      (''output'', intText (ttOutput t), JNum (intText (ttOutput t))),
      (''cacheRead'', intText (ttCacheRead t), JNum (intText (ttCacheRead t))),
      (''cacheCreation'', intText (ttCacheCreation t), JNum (intText (ttCacheCreation t)))]"

lemma tokens_read: "tokensOk t \<Longrightarrow> readsAs (marshalTokens t) (JObj (tokenMembers t))"
  unfolding marshalTokens_def
  by (rule readsAs_obj) (simp add: tokenMembers_def readsMember_def key_valid_simps readsAs_string readsAs_int tokensOk_def)

lemma tokens_decoded: "tokensOk t \<Longrightarrow> decTurnTokens raw (JObj (tokenMembers t)) z = Some t"
  unfolding decTurnTokens_def decStruct_def tokenMembers_def json.case
  by (simp add: fold_keys_simps fieldDec_def decString_def decInt64_def int64OfText_intText tokensOk_def)

definition tokenElems :: "TurnTokens list \<Rightarrow> (string \<times> json) list" where
  "tokenElems ts = map (\<lambda>t. (marshalTokens t, JObj (tokenMembers t))) ts"

lemma tokenElems_read: "list_all tokensOk ts \<Longrightarrow> readsAs (arrText (map marshalTokens ts)) (JArr (tokenElems ts))"
  by (rule readsAs_arr) (simp add: tokenElems_def list_all2_map1 list_all2_map2 list_all2_same list_all_iff readsElem_def tokens_read)

lemma tokenElems_decoded: "list_all tokensOk ts \<Longrightarrow> decSlice zeroTokens decTurnTokens raw (JArr (tokenElems ts)) old = Some ts"
  unfolding decSlice_def tokenElems_def by (induction ts) (simp_all add: tokens_decoded)

text \<open>The members of a result.\<close>

definition rawMembers :: "string \<Rightarrow> string \<Rightarrow> json \<Rightarrow> (string \<times> string \<times> json) list" where
  "rawMembers k raw v = (if raw = [] then [] else [(k, compactWalk False raw, v)])"

definition hookMembers :: "HookResult \<Rightarrow> json \<Rightarrow> json \<Rightarrow> (string \<times> string \<times> json) list" where
  "hookMembers res vr vu =
     [(''sessionId'', jsonQuote (hSessionID res), JStr (hSessionID res)), (''finalText'', jsonQuote (hFinalText res), JStr (hFinalText res))]
     @ rawMembers ''resultJson'' (hResultJSON res) vr @ rawMembers ''usage'' (hUsage res) vu
     @ [(''stopReason'', jsonQuote (hStopReason res), JStr (hStopReason res))]
     @ (if hTranscriptPath res = [] then [] else [(''transcriptPath'', jsonQuote (hTranscriptPath res), JStr (hTranscriptPath res))])
     @ (if hTurnTokens res = [] then []
        else [(''turnTokens'', arrText (map marshalTokens (hTurnTokens res)), JArr (tokenElems (hTurnTokens res)))])"

lemma rawMember_read:
  assumes "rawField raw" "validUtf8 k"
  obtains ms v where "rawMember k raw = Some ms" "list_all2 readsMember ms (rawMembers k raw v)"
proof (cases "raw = []")
  case True
  then show thesis using that by (simp add: rawMember_def rawMembers_def)
next
  case False
  then obtain v where "parseJson raw = Some v" using assms(1) by (auto simp: rawField_def rawOk_def)
  then obtain v' where "compactJson raw = Some (compactWalk False raw)" "readsAs (compactWalk False raw) v'" by (rule compact_reads)
  with False assms(2) that show thesis by (simp add: rawMember_def rawMembers_def readsMember_def)
qed

lemma hookMembers_decoded:
  assumes "list_all tokensOk (hTurnTokens res)"
  shows "decHookResult raw (JObj (hookMembers res vr vu)) zeroHookResult = Some (wireResult res)"
  using tokenElems_decoded [OF assms]
  unfolding decHookResult_def decStruct_def json.case hookMembers_def rawMembers_def zeroHookResult_def wireResult_def
  by (simp add: fold_keys_simps fieldDec_def decString_def decRaw_def)

text \<open>A result that is fit for the wire arrives as it was sent.\<close>

lemma hook_arrives:
  assumes "wireable res"
  obtains body where "marshalHook res = Some body" "decodeFirst decHookResult zeroHookResult body = Decoded (wireResult res)"
proof -
  note w = assms [unfolded wireable_def]
  obtain rs vr where r: "rawMember ''resultJson'' (hResultJSON res) = Some rs"
    "list_all2 readsMember rs (rawMembers ''resultJson'' (hResultJSON res) vr)"
    using rawMember_read [of "hResultJSON res" "''resultJson''"] w key_valid_simps by blast
  obtain us vu where u: "rawMember ''usage'' (hUsage res) = Some us" "list_all2 readsMember us (rawMembers ''usage'' (hUsage res) vu)"
    using rawMember_read [of "hUsage res" "''usage''"] w key_valid_simps by blast
  obtain ms where ms: "marshalHook res = Some (objText ms)" "list_all2 readsMember ms (hookMembers res vr vu)"
  proof
    show "marshalHook res = Some (objText
        ([(''sessionId'', jsonQuote (hSessionID res)), (''finalText'', jsonQuote (hFinalText res))] @ rs @ us
         @ [(''stopReason'', jsonQuote (hStopReason res))]
         @ (if hTranscriptPath res = [] then [] else [(''transcriptPath'', jsonQuote (hTranscriptPath res))])
         @ (if hTurnTokens res = [] then [] else [(''turnTokens'', arrText (map marshalTokens (hTurnTokens res)))])))"
      unfolding marshalHook_def by (simp add: r(1) u(1))
  next
    show "list_all2 readsMember
        ([(''sessionId'', jsonQuote (hSessionID res)), (''finalText'', jsonQuote (hFinalText res))] @ rs @ us
         @ [(''stopReason'', jsonQuote (hStopReason res))]
         @ (if hTranscriptPath res = [] then [] else [(''transcriptPath'', jsonQuote (hTranscriptPath res))])
         @ (if hTurnTokens res = [] then [] else [(''turnTokens'', arrText (map marshalTokens (hTurnTokens res)))]))
        (hookMembers res vr vu)"
      unfolding hookMembers_def
      by (intro list_all2_appendI r(2) u(2)) (use w in \<open>simp_all add: readsMember_def key_valid_simps readsAs_string tokenElems_read\<close>)
  qed
  have "decodeFirst decHookResult zeroHookResult (objText ms) = Decoded (wireResult res)"
    unfolding decHookResult_def
    by (rule decodeFirst_obj [OF ms(2)]) (use hookMembers_decoded [of res "[]" vr vu] w in \<open>simp add: decHookResult_def decStruct_def\<close>)
  with ms(1) that show thesis by blast
qed

section \<open>Every result that is built is fit for the wire\<close>

text \<open>The readers of a transcript keep what they hold well-formed, whatever the lines are.\<close>

lemma readTranscript_keeps:
  assumes "\<And>acc l. P acc \<Longrightarrow> P (f acc l)" "P a" "readTranscript fs path f a = Inr x"
  shows "P x"
proof -
  have "P (foldl f a ls)" for ls using assms(1,2) by (induction ls arbitrary: a) auto
  with assms(3) show ?thesis by (auto simp: readTranscript_def split: option.splits prod.splits if_splits)
qed

definition blockOk :: "textBlock \<Rightarrow> bool" where
  "blockOk b \<longleftrightarrow> validUtf8 (tbType b) \<and> validUtf8 (tbText b)"

definition assistantOk :: "assistantLine \<Rightarrow> bool" where
  "assistantOk al \<longleftrightarrow>
     list_all blockOk (amContent (alMessage al)) \<and> rawField (amUsage (alMessage al)) \<and> validUtf8 (amStopReason (alMessage al))"

definition msgOk :: "assistantMsg \<Rightarrow> bool" where
  "msgOk am \<longleftrightarrow> list_all blockOk (amContent am) \<and> rawField (amUsage am) \<and> validUtf8 (amStopReason am)"

lemma keeps_rawField: "keeps rawField decRaw"
  using keeps_decRaw by (simp add: rawField_def keeps_def)

lemma keeps_block: "keeps blockOk decTextBlock"
  unfolding decTextBlock_def
  by (rule keeps_decStruct)
    (auto intro!: keeps_fieldDec [OF keeps_decString] simp: blockOk_def)

lemma keeps_assistant: "keeps assistantOk decAssistantLine"
proof -
  have slice: "keeps (list_all blockOk) (decSlice zeroTextBlock decTextBlock)"
    by (rule keeps_decSlice [OF keeps_block]) (simp add: blockOk_def)
  have "keeps msgOk (decStruct
      [(''content'', fieldDec amContent amContent_update (decSlice zeroTextBlock decTextBlock)),
       (''usage'', fieldDec amUsage amUsage_update decRaw),
       (''stop_reason'', fieldDec amStopReason amStopReason_update decString)])"
    by (rule keeps_decStruct)
      (auto intro!: keeps_fieldDec [OF slice] keeps_fieldDec [OF keeps_rawField] keeps_fieldDec [OF keeps_decString] simp: msgOk_def)
  note msg = keeps_fieldDec [OF this]
  show ?thesis unfolding decAssistantLine_def
    by (rule keeps_decStruct) (auto intro!: keeps_fieldDec [OF keeps_any] msg simp: assistantOk_def msgOk_def)
qed

definition lastOk :: "lastAssistant \<Rightarrow> bool" where
  "lastOk acc \<longleftrightarrow> (case acc of (t, usage, stop) \<Rightarrow> validUtf8 t \<and> rawField usage \<and> validUtf8 stop)"

lemma textOf_valid: "list_all blockOk bs \<Longrightarrow> validUtf8 (textOf bs)"
  unfolding textOf_def by (rule validUtf8_concat) (auto simp: list_all_iff blockOk_def)

lemma lastAssistant_ok:
  assumes "LastAssistant fs path = Inr acc"
  shows "lastOk acc"
proof (rule readTranscript_keeps [OF _ _ assms [unfolded LastAssistant_def]])
  fix acc l assume a: "lastOk acc"
  have "assistantOk al" if "unmarshal decAssistantLine l zeroAssistantLine = Some al" for al
    by (rule unmarshal_keeps [OF keeps_assistant _ that]) (simp add: assistantOk_def rawField_def)
  with a show "lastOk (lastAssistantLine acc l)"
    by (auto simp: lastAssistantLine_def lastOk_def assistantOk_def Let_def textOf_valid split: option.splits prod.splits)
qed (simp add: lastOk_def rawField_def)

definition modelOk :: "turnLine \<Rightarrow> bool" where
  "modelOk tln \<longleftrightarrow> validUtf8 (tmModel (tlMessage tln))"

lemma keeps_model: "keeps modelOk decTurnLine"
proof -
  have "keeps (\<lambda>m. validUtf8 (tmModel m)) (decStruct
      [(''content'', fieldDec tmContent tmContent_update decRaw), (''model'', fieldDec tmModel tmModel_update decString),
       (''usage'', fieldDec tmUsage tmUsage_update d)])" for d
    by (rule keeps_decStruct) (auto intro!: keeps_fieldDec [OF keeps_any] keeps_fieldDec [OF keeps_decString])
  note msg = keeps_fieldDec [OF this]
  show ?thesis unfolding decTurnLine_def
    by (rule keeps_decStruct) (auto intro!: keeps_fieldDec [OF keeps_any] msg simp: modelOk_def)
qed

definition accOk :: "tokenAcc \<Rightarrow> bool" where
  "accOk acc \<longleftrightarrow> list_all (\<lambda>m. case byModel acc m of Some t \<Rightarrow> tokensOk t | None \<Rightarrow> False) (models acc)
     \<and> (\<forall>m t. byModel acc m = Some t \<longrightarrow> tokensOk t)"

lemma isInt64_wrap: "isInt64 (wrap64 x)"
  using wrap64_range by (simp add: isInt64_def)

lemma addUsage_ok: "accOk acc \<Longrightarrow> validUtf8 m \<Longrightarrow> accOk (addUsage m u acc)"
  by (cases "byModel acc m")
    (auto simp: addUsage_def accOk_def tokensOk_def isInt64_wrap list_all_iff split: option.splits)

lemma emptyAcc_ok: "accOk emptyAcc"
  by (simp add: accOk_def emptyAcc_def)

lemma turnTokens_ok:
  assumes "SumTurnTokens fs path = Inr ts"
  shows "list_all tokensOk ts"
proof -
  obtain acc where acc: "readTranscript fs path tokenLine emptyAcc = Inr acc" "ts = tokensOut acc"
    using assms by (cases "readTranscript fs path tokenLine emptyAcc") (auto simp: SumTurnTokens_def)
  have "accOk acc"
  proof (rule readTranscript_keeps [OF _ _ acc(1)])
    fix acc l assume a: "accOk acc"
    have "modelOk tln" if "unmarshal decTurnLine l zeroTurnLine = Some tln" for tln
      by (rule unmarshal_keeps [OF keeps_model _ that]) (simp add: modelOk_def)
    with a show "accOk (tokenLine acc l)"
      by (auto simp: tokenLine_def modelOk_def addUsage_ok emptyAcc_ok split: option.splits)
  qed (rule emptyAcc_ok)
  then show ?thesis by (auto simp: acc(2) tokensOut_def accOk_def list_all_iff split: option.splits)
qed

lemma fromTranscript_wireable:
  assumes "wireable res"
  shows "wireable (fromTranscript fs path res)"
proof -
  have "wireable (case LastAssistant fs path of Inl _ \<Rightarrow> res
      | Inr (t, usage, stop) \<Rightarrow> res\<lparr>hUsage := usage, hStopReason := stop, hFinalText := (if hFinalText res = [] then t else hFinalText res)\<rparr>)"
    using assms lastAssistant_ok [of fs path] by (auto simp: wireable_def lastOk_def split: sum.splits)
  then show ?thesis
    using turnTokens_ok [of fs path] unfolding fromTranscript_def Let_def by (auto simp: wireable_def split: sum.splits)
qed

definition payloadOk :: "hookPayload \<Rightarrow> bool" where
  "payloadOk hp \<longleftrightarrow> validUtf8 (hpSessionID hp) \<and> validUtf8 (hpTranscriptPath hp) \<and> validUtf8 (hpLastAssistantMessage hp)"

lemma keeps_payload: "keeps payloadOk decHookPayload"
  unfolding decHookPayload_def
  by (rule keeps_decStruct) (auto intro!: keeps_fieldDec [OF keeps_decString] simp: payloadOk_def)

lemma buildResult_wireable:
  assumes "buildResult fs payload path = Some res"
  shows "wireable res"
proof -
  obtain hp where hp: "unmarshal decHookPayload payload \<lparr>hpSessionID = [], hpTranscriptPath = [], hpLastAssistantMessage = []\<rparr> = Some hp"
    using assms by (auto simp: buildResult_def split: option.splits)
  have ok: "payloadOk hp" by (rule unmarshal_keeps [OF keeps_payload _ hp]) (simp add: payloadOk_def)
  let ?res = "zeroHookResult\<lparr>hSessionID := hpSessionID hp, hFinalText := hpLastAssistantMessage hp, hTranscriptPath := hpTranscriptPath hp\<rparr>"
  have "wireable ?res" using ok by (simp add: wireable_def payloadOk_def zeroHookResult_def rawField_def)
  then have "wireable (if hpTranscriptPath hp \<noteq> [] then fromTranscript fs (hpTranscriptPath hp) ?res else ?res)"
    using fromTranscript_wireable by (cases "hpTranscriptPath hp = []") auto
  with assms hp show ?thesis
    by (auto simp: buildResult_def Let_def wireable_def rawField_def rawOk_def split: option.splits if_splits)
qed

section \<open>From the payload to the turn\<close>

text \<open>Two documents with the same value, blanks and escapes apart.\<close>

definition sameDocument :: "string \<Rightarrow> string \<Rightarrow> bool" where
  "sameDocument a b \<longleftrightarrow> map_option jsonValue (parseJson a) = map_option jsonValue (parseJson b)"

lemma sameDocument_compact: "rawField raw \<Longrightarrow> sameDocument raw (compactWalk False raw)"
proof (cases "raw = []")
  case False
  assume "rawField raw"
  with False obtain v where v: "parseJson raw = Some v" by (auto simp: rawField_def rawOk_def)
  obtain v' where "readsAs (compactWalk False raw) v'" "jsonValue v' = jsonValue v" using compact_reads [OF v] by blast
  with v readsAs_whole show ?thesis by (simp add: sameDocument_def)
qed (simp add: sameDocument_def)

text \<open>
  C8. The Stop hook ends the turn in flight with the result it built, once. Whatever the payload, the transcript
  and the result file are, a payload that parses gives a result whose document the endpoint decodes to the very
  same result, its raw messages with the same JSON values; with a session in service and nothing else happening
  meanwhile, the five attempts of the run together have the effect of one completion with that result at the
  first attempt that arrives, whatever is lost afterwards, or none when no attempt arrives. The run succeeds
  exactly when that attempt's reply comes back and metering took every amount.
\<close>

theorem stop_hook_reports:
  assumes "reachable addOk err m" "mCurrent m \<noteq> []" "mState m \<in> {Ready, Busy}"
    "buildResult fs payload (resultPath env) = Some res" "urlOk (internalURL env)"
  shows "let out = run env fs (Some payload) urlOk (\<lambda>_ body. hookServer addOk inp body) net (m, n); got = wireResult res
    in sameDocument (hResultJSON res) (hResultJSON got) \<and> sameDocument (hUsage res) (hUsage got)
     \<and> got\<lparr>hResultJSON := hResultJSON res, hUsage := hUsage res\<rparr> = res
     \<and> ((\<forall>i < maxPostAttempts. net i = Undelivered) \<and> snd out = (m, n) \<and> fst out \<noteq> None
        \<or> completedOnce addOk inp got m net 0 maxPostAttempts out)"
proof -
  have w: "wireable res" by (rule buildResult_wireable [OF assms(4)])
  then obtain body where body: "marshalHook res = Some body" "decodeFirst decHookResult zeroHookResult body = Decoded (wireResult res)"
    by (rule hook_arrives)
  let ?post = "postWithRetry (hookServer addOk inp body) net (m, n)"
  have out: "run env fs (Some payload) urlOk (\<lambda>_ body. hookServer addOk inp body) net (m, n) = (map_option PostErr (fst ?post), snd ?post)"
    using assms(4,5) body(1) by (simp add: run_def split_def)
  have "sameDocument (hResultJSON res) (hResultJSON (wireResult res))" "sameDocument (hUsage res) (hUsage (wireResult res))"
    using w sameDocument_compact by (simp_all add: wireable_def wireResult_def)
  moreover have "(wireResult res)\<lparr>hResultJSON := hResultJSON res, hUsage := hUsage res\<rparr> = res" by (simp add: wireResult_def)
  ultimately show ?thesis
    using hook_completes_once [OF assms(1-3) body(2), of net inp n] unfolding Let_def out by (auto simp: completedOnce_def)
qed

text \<open>A payload without a transcript, a result file with blanks in it, and a session whose first reply is lost.\<close>

definition demoPayload :: string where
  "demoPayload = ''{'' @ [CHR 0x22] @ ''last_assistant_message'' @ [CHR 0x22] @ '':'' @ [CHR 0x22] @ ''done'' @ [CHR 0x22] @ ''}''"

definition demoHookFs :: filesystem where
  "demoHookFs path = (if path = ''/workspace/result.json'' then Some ''{ }'' else None)"

theorem stop_hook_reports_witness:
  "completedOnce demoAdd (\<lambda>_. demoInputs) (zeroHookResult\<lparr>hFinalText := ''done'', hResultJSON := ''{}''\<rparr>) demoBusy
     (\<lambda>i. if i = 0 then ReplyLost else Replied) 0 maxPostAttempts
     (run (\<lambda>_. None) demoHookFs (Some demoPayload) (\<lambda>_. True) (\<lambda>_ body. hookServer demoAdd (\<lambda>_. demoInputs) body)
        (\<lambda>i. if i = 0 then ReplyLost else Replied) (demoBusy, 0))"
proof -
  let ?net = "\<lambda>i::nat. if i = 0 then ReplyLost else Replied"
  let ?res = "zeroHookResult\<lparr>hFinalText := ''done'', hResultJSON := ''{ }''\<rparr>"
  have b: "buildResult demoHookFs demoPayload (resultPath (\<lambda>_. None)) = Some ?res" by code_simp
  have w: "wireResult ?res = zeroHookResult\<lparr>hFinalText := ''done'', hResultJSON := ''{}''\<rparr>" by code_simp
  have "mCurrent demoBusy \<noteq> []" "mState demoBusy \<in> {Ready, Busy}" by (simp_all add: demo_values)
  moreover have "\<not> (\<forall>i < maxPostAttempts. ?net i = Undelivered)" by (auto simp: maxPostAttempts_def)
  ultimately show ?thesis
    using stop_hook_reports [OF demoBusy_reachable _ _ b, of "\<lambda>_. True" "\<lambda>_. demoInputs" ?net 0] unfolding Let_def w by blast
qed

end
