(* ===== verification/GoPath.thy ===== *)
theory GoPath
  imports GoPrelude
begin

text \<open>
  The functions of \<^verbatim>\<open>path/filepath\<close> the sources call, on a Unix: \<^verbatim>\<open>Clean\<close>, \<^verbatim>\<open>Join\<close>, \<^verbatim>\<open>Base\<close> and
  \<^verbatim>\<open>Dir\<close>. A path is split at its slashes; \<^verbatim>\<open>Clean\<close> keeps a stack of the elements seen so far.
\<close>

definition pathStep :: "bool \<Rightarrow> string list \<Rightarrow> string \<Rightarrow> string list" where
  "pathStep rooted stack p =
     (if p = [] \<or> p = ''.'' then stack
      else if p = ''..'' then
        (if stack \<noteq> [] \<and> last stack \<noteq> ''..'' then butlast stack
         else if rooted then stack else stack @ [p])
      else stack @ [p])"

definition pathRooted :: "string \<Rightarrow> bool" where
  "pathRooted p \<longleftrightarrow> hasPrefix p ''/''"

definition pathElems :: "string \<Rightarrow> string list" where
  "pathElems p = foldl (pathStep (pathRooted p)) [] (splitOn (CHR ''/'') p)"

definition pathClean :: "string \<Rightarrow> string" where
  "pathClean p =
     (let es = pathElems p
      in if pathRooted p then ''/'' @ joinWith ''/'' es
         else if es = [] then ''.'' else joinWith ''/'' es)"

definition pathJoin :: "string list \<Rightarrow> string" where
  "pathJoin es =
     (let ne = filter (\<lambda>e. e \<noteq> []) es in if ne = [] then [] else pathClean (joinWith ''/'' ne))"

definition pathBase :: "string \<Rightarrow> string" where
  "pathBase p =
     (if p = [] then ''.''
      else (let q = rev (dropWhile (\<lambda>c. c = CHR ''/'') (rev p))
            in if q = [] then ''/'' else last (splitOn (CHR ''/'') q)))"

definition pathDir :: "string \<Rightarrow> string" where
  "pathDir p = pathClean (rev (dropWhile (\<lambda>c. c \<noteq> CHR ''/'') (rev p)))"

section \<open>Splitting\<close>

lemma splitOn_append:
  "splitOn d (a @ d # b) = splitOn d a @ splitOn d b"
proof (induction a)
  case (Cons c a)
  then show ?case using splitOn_not_Nil [of d a] by (auto split: list.splits)
qed simp

lemma splitOn_no_sep: "p \<in> set (splitOn d s) \<Longrightarrow> d \<notin> set p"
proof (induction s arbitrary: p)
  case (Cons c s)
  obtain w ws where "splitOn d s = w # ws"
    using splitOn_not_Nil [of d s] by (cases "splitOn d s") auto
  with Cons show ?case by (auto split: if_splits)
qed simp

lemma splitOn_joinWith:
  assumes "ws \<noteq> []" "\<forall>w \<in> set ws. d \<notin> set w"
  shows "splitOn d (joinWith [d] ws) = ws"
proof -
  have one: "splitOn d w = [w]" if "d \<notin> set w" for w
    using that by (induction w) auto
  show ?thesis
    using assms
  proof (induction ws rule: list_nonempty_induct)
    case (single w)
    then show ?case by (simp add: one)
  next
    case (cons w ws)
    then have "joinWith [d] (w # ws) = w @ d # joinWith [d] ws" by (cases ws) auto
    then show ?case using cons by (simp add: splitOn_append one)
  qed
qed

section \<open>Joining a path without parent references\<close>

text \<open>The elements of a path that \<^verbatim>\<open>Clean\<close> keeps when none of them is \<^verbatim>\<open>..\<close>.\<close>

definition plainElems :: "string \<Rightarrow> string list" where
  "plainElems p = filter (\<lambda>e. e \<noteq> [] \<and> e \<noteq> ''.'') (splitOn (CHR ''/'') p)"

lemma pathStep_plain:
  "''..'' \<notin> set ps \<Longrightarrow> foldl (pathStep r) st ps = st @ filter (\<lambda>e. e \<noteq> [] \<and> e \<noteq> ''.'') ps"
  by (induction ps arbitrary: st) (auto simp: pathStep_def)

lemma pathElems_join:
  assumes "ws \<noteq> []" "''..'' \<notin> set (splitOn (CHR ''/'') p)"
  shows "pathElems (ws @ ''/'' @ p) = pathElems ws @ plainElems p \<and> pathRooted (ws @ ''/'' @ p) = pathRooted ws"
proof -
  have r: "pathRooted (ws @ ''/'' @ p) = pathRooted ws"
    using assms(1) by (cases ws) (auto simp: pathRooted_def hasPrefix_def)
  then show ?thesis
    using assms(2) splitOn_append [of "CHR ''/''" ws p]
    by (simp add: pathElems_def pathStep_plain plainElems_def)
qed

lemma joinWith_append:
  "xs \<noteq> [] \<Longrightarrow> ys \<noteq> [] \<Longrightarrow> joinWith s (xs @ ys) = joinWith s xs @ s @ joinWith s ys"
proof (induction s xs rule: joinWith.induct)
  case (2 s w)
  then show ?case by (cases ys) auto
qed auto

lemma joinWith_elems_eq_Nil: "\<forall>e \<in> set es. e \<noteq> [] \<Longrightarrow> joinWith s es = [] \<longleftrightarrow> es = []"
  by (cases es rule: remdups_adj.cases) auto

lemma pathStep_keeps:
  "\<forall>e \<in> set st. Q e \<Longrightarrow> \<forall>p \<in> set ps. p = [] \<or> p = ''.'' \<or> Q p \<Longrightarrow> \<forall>e \<in> set (foldl (pathStep r) st ps). Q e"
proof (induction ps arbitrary: st)
  case (Cons p ps)
  have "\<forall>e \<in> set (pathStep r st p). Q e"
    using Cons.prems by (auto simp: pathStep_def dest: in_set_butlastD)
  from Cons.IH [OF this] Cons.prems(2) show ?case by simp
qed simp

lemma joinWith_not_special:
  assumes "es \<noteq> []" "\<forall>e \<in> set es. e \<noteq> [] \<and> e \<noteq> ''.'' \<and> CHR ''/'' \<notin> set e"
  shows "joinWith ''/'' es \<noteq> ''.'' \<and> joinWith ''/'' es \<noteq> ''/''"
proof -
  have "splitOn (CHR ''/'') (joinWith ''/'' es) = es" using assms by (intro splitOn_joinWith) auto
  moreover have "splitOn (CHR ''/'') ''.'' = [''.'']" "splitOn (CHR ''/'') ''/'' = [[], []]" by simp_all
  ultimately have "joinWith ''/'' es = ''.'' \<Longrightarrow> ''.'' \<in> set es" "joinWith ''/'' es = ''/'' \<Longrightarrow> [] \<in> set es"
    by (metis list.set_intros(1))+
  with assms(2) show ?thesis by blast
qed

text \<open>
  A workspace joined with a path that has no \<^verbatim>\<open>..\<close>: the cleaned workspace itself, or a path
  strictly below it.
\<close>

lemma pathJoin_below:
  assumes "ws \<noteq> []" "p \<noteq> []" "''..'' \<notin> set (splitOn (CHR ''/'') p)"
  shows "pathJoin [ws, p] =
     (if plainElems p = [] then pathClean ws
      else if pathClean ws = ''/'' then ''/'' @ joinWith ''/'' (plainElems p)
      else if pathClean ws = ''.'' then joinWith ''/'' (plainElems p)
      else pathClean ws @ ''/'' @ joinWith ''/'' (plainElems p))"
proof -
  note * = pathElems_join [OF assms(1,3)]
  have j: "pathJoin [ws, p] = pathClean (ws @ ''/'' @ p)" using assms(1,2) by (simp add: pathJoin_def)
  have kept: "\<forall>e \<in> set (pathElems ws). e \<noteq> [] \<and> e \<noteq> ''.'' \<and> CHR ''/'' \<notin> set e"
    unfolding pathElems_def using splitOn_no_sep by (intro pathStep_keeps) auto
  then have n: "joinWith ''/'' (pathElems ws) = [] \<longleftrightarrow> pathElems ws = []"
    by (intro joinWith_elems_eq_Nil) auto
  have dot: "pathClean ws = ''.'' \<longleftrightarrow> \<not> pathRooted ws \<and> pathElems ws = []"
    using joinWith_not_special [OF _ kept] by (cases "pathElems ws = []") (auto simp: pathClean_def Let_def split: if_splits)
  have slash: "pathClean ws = ''/'' \<longleftrightarrow> pathRooted ws \<and> pathElems ws = []"
    using joinWith_not_special [OF _ kept] n by (cases "pathElems ws = []") (auto simp: pathClean_def Let_def split: if_splits)
  show ?thesis
  proof (cases "plainElems p = [] \<or> pathElems ws = []")
    case True
    then show ?thesis using * by (auto simp: j dot slash) (auto simp: pathClean_def Let_def)
  next
    case False
    then have "joinWith ''/'' (pathElems ws @ plainElems p)
        = joinWith ''/'' (pathElems ws) @ ''/'' @ joinWith ''/'' (plainElems p)"
      by (intro joinWith_append) auto
    then show ?thesis using * False by (auto simp: j dot slash) (auto simp: pathClean_def Let_def)
  qed
qed


section \<open>Cleaning twice\<close>

text \<open>The elements of a cleaned path: parent references first, none when it is rooted.\<close>

definition canonElems :: "bool \<Rightarrow> string list \<Rightarrow> bool" where
  "canonElems r es \<longleftrightarrow> (\<exists>k ps. es = replicate k ''..'' @ ps \<and> (r \<longrightarrow> k = 0)
     \<and> (\<forall>p \<in> set ps. p \<noteq> [] \<and> p \<noteq> ''.'' \<and> p \<noteq> ''..'' \<and> CHR ''/'' \<notin> set p))"

lemma canonElems_step:
  assumes "canonElems r es" "CHR ''/'' \<notin> set p"
  shows "canonElems r (pathStep r es p)"
proof -
  obtain k ps where es: "es = replicate k ''..'' @ ps" "r \<longrightarrow> k = 0"
    "\<forall>p \<in> set ps. p \<noteq> [] \<and> p \<noteq> ''.'' \<and> p \<noteq> ''..'' \<and> CHR ''/'' \<notin> set p"
    using assms(1) by (auto simp: canonElems_def)
  consider "p = [] \<or> p = ''.''" | "p = ''..''" "ps \<noteq> []" | "p = ''..''" "ps = []"
    | "p \<noteq> []" "p \<noteq> ''.''" "p \<noteq> ''..''" by blast
  then show ?thesis
  proof cases
    case 1
    with assms(1) show ?thesis by (auto simp: pathStep_def)
  next
    case 2
    then have "last es \<noteq> ''..''" "es \<noteq> []" using es by auto
    with 2 have "pathStep r es p = replicate k ''..'' @ butlast ps" by (simp add: pathStep_def es(1) butlast_append)
    moreover have "\<forall>p \<in> set (butlast ps). p \<noteq> [] \<and> p \<noteq> ''.'' \<and> p \<noteq> ''..'' \<and> CHR ''/'' \<notin> set p"
      using es(3) by (meson in_set_butlastD)
    ultimately show ?thesis using es(2) unfolding canonElems_def by blast
  next
    case 3
    then have "last es = ''..'' \<or> es = []" using es(1) by (cases k) (auto simp: last_replicate)
    with 3 have "pathStep r es p = (if r then es else replicate (Suc k) ''..'' @ [])"
      by (auto simp: pathStep_def es(1) replicate_append_same)
    with assms(1) es(2) show ?thesis by (cases r) (auto simp: canonElems_def intro: exI [of _ "Suc k"])
  next
    case 4
    then have "pathStep r es p = replicate k ''..'' @ (ps @ [p])" by (simp add: pathStep_def es(1))
    moreover have "\<forall>q \<in> set (ps @ [p]). q \<noteq> [] \<and> q \<noteq> ''.'' \<and> q \<noteq> ''..'' \<and> CHR ''/'' \<notin> set q"
      using es(3) 4 assms(2) by auto
    ultimately show ?thesis using es(2) unfolding canonElems_def by blast
  qed
qed

lemma canonElems_path: "canonElems (pathRooted p) (pathElems p)"
proof -
  have "canonElems r st \<Longrightarrow> \<forall>e \<in> set ps. CHR ''/'' \<notin> set e \<Longrightarrow> canonElems r (foldl (pathStep r) st ps)" for r st ps
    by (induction ps arbitrary: st) (auto simp: canonElems_step)
  moreover have "canonElems r []" for r by (simp add: canonElems_def)
  ultimately show ?thesis unfolding pathElems_def using splitOn_no_sep by blast
qed

lemma pathStep_parents:
  "foldl (pathStep False) (replicate j ''..'') (replicate k ''..'') = replicate (j + k) ''..''"
proof (induction k arbitrary: j)
  case (Suc k)
  have "pathStep False (replicate j ''..'') ''..'' = replicate (Suc j) ''..''"
    by (cases j) (simp_all add: pathStep_def last_replicate replicate_append_same)
  then show ?case using Suc [of "Suc j"] by simp
qed simp

lemma canonElems_again:
  assumes "canonElems r es"
  shows "foldl (pathStep r) [] es = es"
proof -
  obtain k ps where es: "es = replicate k ''..'' @ ps" "r \<longrightarrow> k = 0" "''..'' \<notin> set ps"
    "filter (\<lambda>e. e \<noteq> [] \<and> e \<noteq> ''.'') ps = ps"
    using assms unfolding canonElems_def filter_id_conv by blast
  have "foldl (pathStep r) [] (replicate k ''..'') = replicate k ''..''"
    using pathStep_parents [of 0 k] es(2) by (cases r) auto
  then show ?thesis using es pathStep_plain [of ps r] by simp
qed

lemma canonElems_members:
  "canonElems r es \<Longrightarrow> e \<in> set es \<Longrightarrow> e \<noteq> [] \<and> CHR ''/'' \<notin> set e"
  unfolding canonElems_def by (force simp: in_set_replicate)

lemma pathClean_idem [simp]: "pathClean (pathClean p) = pathClean p"
proof -
  let ?es = "pathElems p"
  have c: "canonElems (pathRooted p) ?es" by (rule canonElems_path)
  then have ne: "\<forall>e \<in> set ?es. e \<noteq> [] \<and> CHR ''/'' \<notin> set e" using canonElems_members by blast
  have split: "?es \<noteq> [] \<Longrightarrow> splitOn (CHR ''/'') (joinWith ''/'' ?es) = ?es"
    using ne by (intro splitOn_joinWith) auto
  show ?thesis
  proof (cases "pathRooted p")
    case True
    then have q: "pathClean p = CHR ''/'' # joinWith ''/'' ?es" by (simp add: pathClean_def Let_def)
    have r: "pathRooted (CHR ''/'' # x)" for x by (simp add: pathRooted_def hasPrefix_def)
    have "pathElems (pathClean p) = foldl (pathStep True) [] ?es"
      using split by (cases "?es = []") (auto simp: q r pathElems_def pathStep_def)
    then have "pathElems (pathClean p) = ?es" using canonElems_again [OF c] True by simp
    then show ?thesis
      unfolding q by (simp add: pathClean_def [of "CHR ''/'' # joinWith ''/'' ?es"] r Let_def)
  next
    case False
    show ?thesis
    proof (cases "?es = []")
      case True
      then have "pathClean p = ''.''" using False by (simp add: pathClean_def)
      then show ?thesis by (simp add: pathClean_def pathElems_def pathStep_def pathRooted_def hasPrefix_def)
    next
      case es: False
      then have q: "pathClean p = joinWith ''/'' ?es" using False by (simp add: pathClean_def)
      obtain e es' where ee: "?es = e # es'" "e \<noteq> []" "CHR ''/'' \<notin> set e" using es ne by (cases ?es) auto
      have "hd (joinWith ''/'' ?es) = hd e" using ee by (cases es') auto
      then have r: "\<not> pathRooted (joinWith ''/'' ?es)"
        using ee by (cases "joinWith ''/'' ?es"; cases e) (auto simp: pathRooted_def hasPrefix_def)
      have "pathElems (pathClean p) = ?es"
        using canonElems_again [OF c] False by (simp add: q r pathElems_def [of "joinWith ''/'' ?es"] split [OF es])
      then show ?thesis
        unfolding q using es r by (simp add: pathClean_def [of "joinWith ''/'' ?es"] Let_def)
    qed
  qed
qed

end
