(* ===== verification/PathTree.thy ===== *)
theory PathTree
  imports GoPath
begin

text \<open>
  Lexical containment of paths. Two paths are compared by the elements \<^verbatim>\<open>filepath.Clean\<close> leaves of
  them; joining appends elements, so that containment composes along the joins of the sources.
\<close>

section \<open>The elements of cleaned and joined paths\<close>

lemma pathClean_parts: "pathElems (pathClean p) = pathElems p \<and> pathRooted (pathClean p) = pathRooted p"
proof -
  let ?es = "pathElems p"
  have c: "canonElems (pathRooted p) ?es" by (rule canonElems_path)
  then have ne: "\<forall>e \<in> set ?es. e \<noteq> [] \<and> CHR ''/'' \<notin> set e" using canonElems_members by blast
  have split: "splitOn (CHR ''/'') (joinWith ''/'' ?es) = ?es" if "?es \<noteq> []"
    using that ne by (intro splitOn_joinWith) auto
  have slash: "pathRooted (CHR ''/'' # x)" for x by (simp add: pathRooted_def hasPrefix_def)
  show ?thesis
  proof (cases "pathRooted p")
    case True
    then show ?thesis
      using split canonElems_again [OF c]
      by (cases "?es = []") (auto simp: pathClean_def Let_def slash pathElems_def [of "_ # _"] pathStep_def)
  next
    case False
    show ?thesis
    proof (cases "?es = []")
      case True
      then show ?thesis using False
        by (simp add: pathClean_def) (simp add: pathElems_def pathStep_def pathRooted_def hasPrefix_def)
    next
      case es: False
      then obtain e es' where ee: "?es = e # es'" "e \<noteq> []" "CHR ''/'' \<notin> set e" using ne by (cases ?es) auto
      then have "hd (joinWith ''/'' ?es) = hd e" by (cases es') auto
      then have "\<not> pathRooted (joinWith ''/'' ?es)"
        using ee by (cases "joinWith ''/'' ?es"; cases e) (auto simp: pathRooted_def hasPrefix_def)
      then show ?thesis
        using False es canonElems_again [OF c]
        by (simp add: pathClean_def) (simp add: pathElems_def [of "joinWith ''/'' ?es"] split [OF es])
    qed
  qed
qed

lemmas pathElems_clean [simp] = pathClean_parts [THEN conjunct1]
lemmas pathRooted_clean [simp] = pathClean_parts [THEN conjunct2]

lemma pathClean_ne: "pathClean p \<noteq> []"
  using canonElems_members [OF canonElems_path] joinWith_elems_eq_Nil [of "pathElems p" "''/''"]
  by (auto simp: pathClean_def Let_def)

text \<open>A name a directory entry can have.\<close>

definition plainName :: "string \<Rightarrow> bool" where
  "plainName n \<longleftrightarrow> n \<noteq> [] \<and> n \<noteq> ''.'' \<and> n \<noteq> ''..'' \<and> CHR ''/'' \<notin> set n"

lemma pathRooted_app: "a \<noteq> [] \<Longrightarrow> pathRooted (a @ b) = pathRooted a"
  by (cases a) (auto simp: pathRooted_def hasPrefix_def)

lemma joinWith_Cons: "ws \<noteq> [] \<Longrightarrow> joinWith s (w # ws) = w @ s @ joinWith s ws"
  by (cases ws) simp_all

lemma pathJoin_names:
  assumes "d \<noteq> []" "list_all plainName ns"
  shows "pathElems (pathJoin (d # ns)) = pathElems d @ ns \<and> pathRooted (pathJoin (d # ns)) = pathRooted d"
proof (cases "ns = []")
  case True
  then show ?thesis using assms(1) by (simp add: pathJoin_def)
next
  case False
  have f: "filter (\<lambda>e. e \<noteq> []) (d # ns) = d # ns" using assms by (auto simp: plainName_def list_all_iff intro!: filter_True)
  have s: "splitOn (CHR ''/'') (joinWith ''/'' ns) = ns"
    using assms(2) False by (intro splitOn_joinWith) (auto simp: plainName_def list_all_iff)
  then have e: "plainElems (joinWith ''/'' ns) = ns" "''..'' \<notin> set (splitOn (CHR ''/'') (joinWith ''/'' ns))"
    using assms(2) by (auto simp: plainElems_def plainName_def list_all_iff intro!: filter_True)
  have "pathJoin (d # ns) = pathClean (d @ ''/'' @ joinWith ''/'' ns)"
    unfolding pathJoin_def Let_def f by (simp add: joinWith_Cons [OF False])
  then show ?thesis using pathElems_join [OF assms(1) e(2)] e(1) by simp
qed

section \<open>Containment\<close>

definition below :: "string \<Rightarrow> string \<Rightarrow> bool" where
  "below d p \<longleftrightarrow> pathRooted p = pathRooted d \<and> (\<exists>es. pathElems p = pathElems d @ es \<and> ''..'' \<notin> set es)"

definition strictlyBelow :: "string \<Rightarrow> string \<Rightarrow> bool" where
  "strictlyBelow d p \<longleftrightarrow> below d p \<and> pathElems p \<noteq> pathElems d"

lemma below_refl [simp]: "below d d"
  by (auto simp: below_def)

lemma below_trans [trans]: "below a b \<Longrightarrow> below b c \<Longrightarrow> below a c"
  by (auto simp: below_def)

lemma strictlyBelow_trans [trans]: "strictlyBelow a b \<Longrightarrow> below b c \<Longrightarrow> strictlyBelow a c"
  by (auto simp: strictlyBelow_def below_def)

lemma below_clean [simp]: "below (pathClean d) p = below d p" "below d (pathClean p) = below d p"
  by (simp_all add: below_def)

lemma below_join: "d \<noteq> [] \<Longrightarrow> list_all plainName ns \<Longrightarrow> below d (pathJoin (d # ns))"
  using pathJoin_names [of d ns] by (auto simp: below_def plainName_def list_all_iff)

lemma strictlyBelow_join: "d \<noteq> [] \<Longrightarrow> list_all plainName ns \<Longrightarrow> ns \<noteq> [] \<Longrightarrow> strictlyBelow d (pathJoin (d # ns))"
  using pathJoin_names [of d ns] below_join [of d ns] by (simp add: strictlyBelow_def)

text \<open>Nothing strictly below a directory is the directory or one above it.\<close>

lemma strictlyBelow_asym: "strictlyBelow d p \<Longrightarrow> \<not> below p d"
  unfolding strictlyBelow_def below_def by (metis append_assoc append_self_conv append_is_Nil_conv)

text \<open>A relative path whose cleaned form does not start with \<^verbatim>\<open>..\<close> stays below what it is joined to.\<close>

lemma pathStep_relative:
  "''..'' \<notin> set xs \<Longrightarrow> ''..'' \<notin> set (foldl (pathStep False) xs es) \<Longrightarrow>
   foldl (pathStep r) (s @ xs) es = s @ foldl (pathStep False) xs es"
proof (induction es arbitrary: xs)
  case (Cons e es)
  have stuck: "''..'' \<in> set (foldl (pathStep False) ys es)" if "ys \<noteq> []" "hd ys = ''..''" for ys
    using that
  proof (induction es arbitrary: ys)
    case Nil
    then show ?case using hd_in_set by fastforce
  next
    case (Cons e es)
    have "pathStep False ys e \<noteq> []" "hd (pathStep False ys e) = ''..''"
      using Cons.prems by (cases ys; auto simp: pathStep_def)+
    then show ?case using Cons.IH by simp
  qed
  show ?case
  proof (cases "e = ''..'' \<and> xs = []")
    case True
    then have "''..'' \<in> set (foldl (pathStep False) xs (e # es))"
      using stuck [of "[''..'']"] by (simp add: pathStep_def)
    with Cons.prems show ?thesis by blast
  next
    case False
    have l: "xs \<noteq> [] \<Longrightarrow> last xs \<noteq> ''..''" using Cons.prems(1) last_in_set [of xs] by metis
    have "pathStep r (s @ xs) e = s @ pathStep False xs e"
      using False l by (auto simp: pathStep_def butlast_append)
    moreover have "''..'' \<notin> set (pathStep False xs e)"
      using False l Cons.prems(1) by (auto simp: pathStep_def dest: in_set_butlastD)
    ultimately show ?thesis using Cons by simp
  qed
qed simp

lemma clean_no_parent:
  assumes "\<not> hasPrefix (pathClean p) ''..''" "\<not> pathRooted p"
  shows "''..'' \<notin> set (pathElems p)"
proof
  assume "''..'' \<in> set (pathElems p)"
  moreover obtain k ps where es: "pathElems p = replicate k ''..'' @ ps" "''..'' \<notin> set ps"
    using canonElems_path [of p] unfolding canonElems_def by blast
  ultimately have "k > 0" by (cases k) auto
  then obtain rest where "pathElems p = ''..'' # rest" using es by (cases k) auto
  then have "hasPrefix (pathClean p) ''..''"
    using assms(2) by (cases rest) (auto simp: pathClean_def hasPrefix_def)
  with assms(1) show False by blast
qed

lemma below_relative:
  assumes "d \<noteq> []" "p \<noteq> []" "\<not> pathRooted p" "\<not> hasPrefix (pathClean p) ''..''"
  shows "below d (pathJoin [d, p])"
proof -
  note np = clean_no_parent [OF assms(4,3)]
  have "pathElems (d @ ''/'' @ p) = pathElems d @ pathElems p"
    using splitOn_append [of "CHR ''/''" d p] np assms(3) pathRooted_app [OF assms(1)]
      pathStep_relative [of "[]" "splitOn (CHR ''/'') p" "pathRooted d" "pathElems d"]
    by (simp add: pathElems_def)
  moreover have "pathJoin [d, p] = pathClean (d @ ''/'' @ p)" using assms(1,2) by (simp add: pathJoin_def)
  ultimately show ?thesis using np pathRooted_app [OF assms(1)] by (simp add: below_def)
qed

text \<open>The base of a path joined from names is the last name.\<close>

lemma pathBase_ends:
  assumes "plainName n"
  shows "pathBase n = n" "pathBase (y @ ''/'' @ n) = n"
proof -
  have n: "n \<noteq> []" "CHR ''/'' \<notin> set n" using assms by (auto simp: plainName_def)
  have "splitOn (CHR ''/'') n = [n]" using splitOn_joinWith [of "[n]"] n(2) by simp
  moreover have "dropWhile (\<lambda>c. c = CHR ''/'') (rev n @ z) = rev n @ z" for z
    using n by (cases "rev n") (auto simp: rev_swap)
  moreover from this [of "[]"] have "dropWhile (\<lambda>c. c = CHR ''/'') (rev n) = rev n" by simp
  ultimately show "pathBase n = n" "pathBase (y @ ''/'' @ n) = n"
    using n splitOn_append [of "CHR ''/''" y n] by (simp_all add: pathBase_def)
qed

lemma pathBase_join:
  assumes "d \<noteq> []" "list_all plainName ns" "ns \<noteq> []"
  shows "pathBase (pathJoin (d # ns)) = last ns"
proof -
  note e = pathJoin_names [OF assms(1,2)]
  obtain q where q: "pathJoin (d # ns) = pathClean q" using assms(1) by (auto simp: pathJoin_def Let_def)
  obtain ms n where ns: "ns = ms @ [n]" using assms(3) by (cases ns rule: rev_cases) auto
  have el: "pathElems q = (pathElems d @ ms) @ [n]" using e ns unfolding q by simp
  have p: "plainName n" using assms(2) ns by simp
  have "joinWith ''/'' (pathElems q)
      = (if pathElems d @ ms = [] then n else joinWith ''/'' (pathElems d @ ms) @ ''/'' @ n)"
    unfolding el using joinWith_append [of "pathElems d @ ms" "[n]"] by simp
  moreover have "pathClean q = (if pathRooted q then ''/'' else []) @ joinWith ''/'' (pathElems q)"
    using el by (simp add: pathClean_def)
  ultimately have "pathClean q \<in> {n, [] @ ''/'' @ n, joinWith ''/'' (pathElems d @ ms) @ ''/'' @ n,
      (''/'' @ joinWith ''/'' (pathElems d @ ms)) @ ''/'' @ n}"
    by (cases "pathRooted q"; cases "pathElems d @ ms = []") simp_all
  then show ?thesis unfolding q using pathBase_ends [OF p] ns by (elim insertE) (simp_all only: last_snoc empty_iff)
qed

end
