(* ===== verification/PromptGuard.thy ===== *)
theory PromptGuard
  imports Transcript PathTree GoMarshal "HOL-Library.List_Lexorder" "HOL-Library.Char_ord"
begin

text \<open>
  \<^verbatim>\<open>internal/promptguard\<close>: the check that every tool name in the prompts of the repository is still a tool. It
  walks the sources, takes the multi-line string literals for prompts and the words with an underscore in them
  for tool names.
\<close>

section \<open>The prompts of a source tree\<close>

definition minPromptLen :: nat where "minPromptLen = 40"

definition skipDirs :: "string list" where
  "skipDirs = [''.git'', ''vendor'', ''testdata'', ''bin'', ''dist'']"

record Literal =
  litFile :: string
  litLine :: nat
  litText :: string

datatype guardError = WalkError | GoParseError string | NothingFound string

text \<open>
  A tree of files as \<^verbatim>\<open>filepath.WalkDir\<close> meets it, the entries of a directory in its order; a directory that
  cannot be read has no entries. The parameter \<open>goStrings\<close> is the Go parser: the string literals of a file in the
  order of its syntax tree, each with its line and its text, if \<^verbatim>\<open>strconv.Unquote\<close> has one; \<^const>\<open>None\<close> is a file
  that does not parse.
\<close>

datatype tree = FileNode string | DirNode string "tree list option"

fun treeName :: "tree \<Rightarrow> string" where
  "treeName (FileNode n) = n"
| "treeName (DirNode n ts) = n"

type_synonym goParser = "string \<Rightarrow> (nat \<times> string option) list option"

definition promptShaped :: "string \<Rightarrow> bool" where
  "promptShaped s \<longleftrightarrow> \<not> length s < minPromptLen \<and> strContains s [CHR 0x0A]"

definition promptsOf :: "string \<Rightarrow> (nat \<times> string option) list \<Rightarrow> Literal list" where
  "promptsOf path lits =
     map (\<lambda>(line, s). \<lparr>litFile = path, litLine = line, litText = the s\<rparr>)
       (filter (\<lambda>(line, s). case s of None \<Rightarrow> False | Some s \<Rightarrow> promptShaped s) lits)"

definition skipFile :: "string \<Rightarrow> bool" where
  "skipFile path \<longleftrightarrow> \<not> hasSuffix path ''.go'' \<or> hasSuffix path ''_test.go''"

fun walkTree :: "goParser \<Rightarrow> string \<Rightarrow> tree \<Rightarrow> guardError + Literal list"
  and walkTrees :: "goParser \<Rightarrow> string \<Rightarrow> tree list \<Rightarrow> guardError + Literal list" where
  "walkTree goStrings path (FileNode name) =
     (if skipFile path then Inr []
      else (case goStrings path of None \<Rightarrow> Inl (GoParseError path) | Some lits \<Rightarrow> Inr (promptsOf path lits)))"
| "walkTree goStrings path (DirNode name None) =
     (if name \<in> set skipDirs then Inr [] else Inl WalkError)"
| "walkTree goStrings path (DirNode name (Some ts)) =
     (if name \<in> set skipDirs then Inr [] else walkTrees goStrings path ts)"
| "walkTrees goStrings path [] = Inr []"
| "walkTrees goStrings path (t # ts) =
     (case walkTree goStrings (pathJoin [path, treeName t]) t of
        Inl e \<Rightarrow> Inl e
      | Inr ls \<Rightarrow> (case walkTrees goStrings path ts of Inl e \<Rightarrow> Inl e | Inr ls' \<Rightarrow> Inr (ls @ ls')))"

text \<open>\<^verbatim>\<open>Literals\<close>: the root may not exist, and a scan that finds nothing fails.\<close>

definition Literals :: "goParser \<Rightarrow> string \<Rightarrow> tree option \<Rightarrow> guardError + Literal list" where
  "Literals goStrings root t =
     (case t of
        None \<Rightarrow> Inl WalkError
      | Some t \<Rightarrow>
          (case walkTree goStrings root t of
             Inl e \<Rightarrow> Inl e
           | Inr out \<Rightarrow> if out = [] then Inl (NothingFound root) else Inr out))"

section \<open>Tool names\<close>

definition lowerByte :: "char \<Rightarrow> bool" where
  "lowerByte c \<longleftrightarrow> 97 \<le> byte c \<and> byte c \<le> 122"

definition lowerAlnum :: "char \<Rightarrow> bool" where
  "lowerAlnum c \<longleftrightarrow> lowerByte c \<or> 48 \<le> byte c \<and> byte c \<le> 57"

text \<open>The texts of the expression \<^verbatim>\<open>[a-z][a-z0-9]*(?:_[a-z0-9]+)+\<close>: its parts between underscores.\<close>

definition toolShape :: "string \<Rightarrow> bool" where
  "toolShape w =
     (case splitOn (CHR ''_'') w of
        [] \<Rightarrow> False
      | p # ps \<Rightarrow> p \<noteq> [] \<and> lowerByte (hd p) \<and> list_all lowerAlnum p
                 \<and> ps \<noteq> [] \<and> list_all (\<lambda>q. q \<noteq> [] \<and> list_all lowerAlnum q) ps)"

text \<open>
  \<^verbatim>\<open>FindAllString\<close> of the expression between two \<^verbatim>\<open>\b\<close>: matches from left to right, each the longest at its
  place, the repetitions being greedy.
\<close>

definition wordAt :: "char option \<Rightarrow> bool" where
  "wordAt c = (case c of None \<Rightarrow> False | Some c \<Rightarrow> isWordByte c)"

definition byteAt :: "string \<Rightarrow> nat \<Rightarrow> char option" where
  "byteAt s i = (if i < length s then Some (s ! i) else None)"

definition matchAt :: "char option \<Rightarrow> string \<Rightarrow> nat option" where
  "matchAt prev s =
     (if wordAt prev = wordAt (byteAt s 0) then None
      else find (\<lambda>n. toolShape (take n s) \<and> wordAt (byteAt s (n - 1)) \<noteq> wordAt (byteAt s n)) (rev [1..<Suc (length s)]))"

lemma find_member: "find P xs = Some x \<Longrightarrow> x \<in> set xs \<and> P x"
  by (induction xs) (auto split: if_splits)

lemma matchAt_pos: "matchAt prev s = Some n \<Longrightarrow> 0 < n \<and> n \<le> length s"
  unfolding matchAt_def by (auto dest!: find_member split: if_splits simp del: upt_Suc)

function findAll :: "char option \<Rightarrow> string \<Rightarrow> string list" where
  "findAll prev s =
     (if s = [] then []
      else (case matchAt prev s of
              Some n \<Rightarrow> take n s # findAll (byteAt s (n - 1)) (drop n s)
            | None \<Rightarrow> findAll (Some (hd s)) (tl s)))"
  by pat_completeness auto
termination
  by (relation "measure (length \<circ> snd)") (auto dest: matchAt_pos)

declare findAll.simps [simp del]

definition ToolNamesIn :: "string \<Rightarrow> string list" where
  "ToolNamesIn s = sort (remdups (findAll None s))"

definition ToolNames :: "Literal list \<Rightarrow> string list" where
  "ToolNames lits = sort (remdups (concat (map (\<lambda>l. ToolNamesIn (litText l)) lits)))"

fun Where :: "Literal list \<Rightarrow> string \<Rightarrow> string" where
  "Where [] tool = ''unknown location''"
| "Where (l # lits) tool =
     (if tool \<in> set (ToolNamesIn (litText l)) then litFile l @ '':'' @ natText (litLine l) else Where lits tool)"

section \<open>The root of the module\<close>

partial_function (option) findRoot :: "(string \<Rightarrow> bool) \<Rightarrow> string \<Rightarrow> string option option" where
  "findRoot exists dir =
     (if exists (pathJoin [dir, ''go.mod'']) then Some (Some dir)
      else (let parent = pathDir dir in if parent = dir then Some None else findRoot exists parent))"

definition RepoRoot :: "(string \<Rightarrow> bool) \<Rightarrow> string option \<Rightarrow> string option option" where
  "RepoRoot exists self = (case self of None \<Rightarrow> Some None | Some f \<Rightarrow> findRoot exists (pathDir f))"

lemma pathDir_rooted:
  assumes "list_all plainName (es @ [e])"
  shows "pathDir (''/'' @ joinWith ''/'' (es @ [e])) = ''/'' @ joinWith ''/'' es"
proof -
  let ?p = "''/'' @ joinWith ''/'' es"
  have e: "\<forall>c \<in> set e. c \<noteq> CHR ''/''" using assms by (auto simp: plainName_def)
  have ne: "\<forall>x \<in> set es. x \<noteq> [] \<and> CHR ''/'' \<notin> set x" using assms by (auto simp: plainName_def list_all_iff)
  have cut: "rev (dropWhile (\<lambda>c. c \<noteq> CHR ''/'') (rev (a @ ''/'' @ e))) = a @ ''/''" for a
    using e by (simp add: dropWhile_append)
  have p: "pathElems ?p = es" "pathRooted ?p"
  proof -
    have "splitOn (CHR ''/'') ?p = [] # splitOn (CHR ''/'') (joinWith ''/'' es)" by simp
    moreover have "foldl (pathStep True) [] (splitOn (CHR ''/'') (joinWith ''/'' es)) = es"
    proof (cases "es = []")
      case False
      then have "splitOn (CHR ''/'') (joinWith ''/'' es) = es" using ne by (intro splitOn_joinWith) auto
      moreover have "''..'' \<notin> set es" using assms by (auto simp: plainName_def list_all_iff)
      moreover have "filter (\<lambda>x. x \<noteq> [] \<and> x \<noteq> ''.'') es = es" using assms by (auto simp: plainName_def list_all_iff intro!: filter_True)
      ultimately show ?thesis by (simp add: pathStep_plain)
    qed (simp add: pathStep_def)
    moreover show "pathRooted ?p" by (simp add: pathRooted_def hasPrefix_def)
    ultimately show "pathElems ?p = es" by (simp add: pathElems_def pathStep_def)
  qed
  show ?thesis
  proof (cases "es = []")
    case True
    then show ?thesis using cut [of "[]"] by (simp add: pathDir_def) code_simp
  next
    case False
    then have "''/'' @ joinWith ''/'' (es @ [e]) = ?p @ ''/'' @ e" by (simp add: joinWith_append)
    then have "pathDir (''/'' @ joinWith ''/'' (es @ [e])) = pathClean (?p @ ''/'')" using cut [of ?p] by (simp only: pathDir_def)
    moreover have "pathElems (?p @ ''/'' @ []) = es" "pathRooted (?p @ ''/'' @ [])"
      using pathElems_join [of ?p "[]"] p by (simp_all add: plainElems_def)
    ultimately show ?thesis by (simp add: pathClean_def)
  qed
qed

text \<open>The directories from a rooted one up to the root.\<close>

definition ancestors :: "string list \<Rightarrow> string list" where
  "ancestors es = map (\<lambda>n. ''/'' @ joinWith ''/'' (take n es)) (rev [0..<Suc (length es)])"

lemma ancestors_snoc: "ancestors (es @ [e]) = (''/'' @ joinWith ''/'' (es @ [e])) # ancestors es"
proof -
  have "map (\<lambda>n. ''/'' @ joinWith ''/'' (take n (es @ [e]))) (rev [0..<Suc (length es)]) = ancestors es"
    unfolding ancestors_def by (rule map_cong) auto
  moreover have "rev [0..<Suc (length (es @ [e]))] = Suc (length es) # rev [0..<Suc (length es)]" by simp
  ultimately show ?thesis by (simp add: ancestors_def del: upt_Suc)
qed

text \<open>The search from a rooted directory ends, at the closest directory with a module file if there is one.\<close>

lemma findRoot_returns:
  assumes "list_all plainName es"
  shows "findRoot exists (''/'' @ joinWith ''/'' es) = Some (find (\<lambda>d. exists (pathJoin [d, ''go.mod''])) (ancestors es))"
  using assms
proof (induction es rule: rev_induct)
  case Nil
  have "pathDir ''/'' = ''/''" by code_simp
  then show ?case by (simp add: findRoot.simps ancestors_def)
next
  case (snoc e es)
  let ?d = "''/'' @ joinWith ''/'' (es @ [e])"
  show ?case
  proof (cases "exists (pathJoin [?d, ''go.mod''])")
    case True
    then show ?thesis by (simp add: findRoot.simps ancestors_snoc)
  next
    case False
    have d: "pathDir ?d = ''/'' @ joinWith ''/'' es" using pathDir_rooted snoc.prems by simp
    have "length (joinWith ''/'' es) < length (joinWith ''/'' (es @ [e]))"
      using snoc.prems by (cases "es = []") (simp_all add: joinWith_append plainName_def)
    then have "pathDir ?d \<noteq> ?d" unfolding d by auto
    then have "findRoot exists ?d = findRoot exists (''/'' @ joinWith ''/'' es)"
      using False d by (subst findRoot.simps) (simp add: Let_def)
    then show ?thesis using snoc False by (simp add: ancestors_snoc)
  qed
qed

section \<open>The words of a prompt\<close>

function wordsOf :: "string \<Rightarrow> string list" where
  "wordsOf s =
     (let s' = dropWhile (\<lambda>c. \<not> isWordByte c) s
      in if s' = [] then [] else takeWhile isWordByte s' # wordsOf (dropWhile isWordByte s'))"
  by pat_completeness auto
termination
proof (relation "measure length")
  fix s s' :: string assume s: "s' = dropWhile (\<lambda>c. \<not> isWordByte c) s" "s' \<noteq> []"
  then have "isWordByte (hd s')" using hd_dropWhile [of "\<lambda>c. \<not> isWordByte c" s] by simp
  then have "length (dropWhile isWordByte s') < length s'"
    using s(2) length_dropWhile_le [of isWordByte "tl s'"] by (cases s') auto
  then show "(dropWhile isWordByte s', s) \<in> measure length" using s(1) length_dropWhile_le [of "\<lambda>c. \<not> isWordByte c" s] by simp
qed simp

declare wordsOf.simps [simp del]

lemma wordsOf_skip: "\<not> isWordByte c \<Longrightarrow> wordsOf (c # s) = wordsOf s"
  by (simp add: wordsOf.simps [of "c # s"] wordsOf.simps [of s])

lemma wordsOf_word: "isWordByte c \<Longrightarrow> wordsOf (c # s) = takeWhile isWordByte (c # s) # wordsOf (dropWhile isWordByte s)"
  by (subst wordsOf.simps) (simp add: Let_def)

lemma splitOn_set: "c \<in> set s \<Longrightarrow> c = d \<or> (\<exists>p \<in> set (splitOn d s). c \<in> set p)"
proof (induction s)
  case (Cons x s)
  obtain w ws where "splitOn d s = w # ws" using splitOn_not_Nil [of d s] by (cases "splitOn d s") auto
  with Cons show ?case by auto
qed simp

lemma toolShape_words: "toolShape w \<Longrightarrow> w \<noteq> [] \<and> list_all isWordByte w"
proof -
  assume t: "toolShape w"
  then have "list_all (list_all lowerAlnum) (splitOn (CHR ''_'') w)"
    by (auto simp: toolShape_def list_all_iff split: list.splits)
  moreover have "isWordByte c" if "lowerAlnum c" for c using that by (auto simp: lowerAlnum_def lowerByte_def isWordByte_def)
  moreover have "isWordByte (CHR ''_'')" by (simp add: isWordByte_def)
  ultimately have "list_all isWordByte w" using splitOn_set [of _ w "CHR ''_''"] unfolding list_all_iff by metis
  moreover have "w \<noteq> []" using t by (auto simp: toolShape_def)
  ultimately show ?thesis by simp
qed

text \<open>A match is a whole word.\<close>

lemma no_match_blank: "\<not> isWordByte c \<Longrightarrow> matchAt prev (c # s) = None"
proof (rule ccontr)
  assume c: "\<not> isWordByte c" and "matchAt prev (c # s) \<noteq> None"
  then obtain n where n: "matchAt prev (c # s) = Some n" by auto
  then have "toolShape (take n (c # s))" "0 < n"
    using matchAt_pos [OF n] by (auto simp: matchAt_def split: if_splits dest!: find_member)
  then show False using toolShape_words [of "take n (c # s)"] c by (cases n) auto
qed

lemma match_word:
  fixes s :: string
  assumes "\<not> wordAt prev" "isWordByte c"
  defines "w \<equiv> takeWhile isWordByte (c # s)"
  shows "matchAt prev (c # s) = (if toolShape w then Some (length w) else None)"
proof -
  let ?s = "c # s" and ?P = "\<lambda>n. toolShape (take n (c # s)) \<and> wordAt (byteAt (c # s) (n - 1)) \<noteq> wordAt (byteAt (c # s) n)"
  have len: "1 \<le> length w" "length w \<le> length ?s" "take (length w) ?s = w"
    unfolding w_def using assms(2) length_takeWhile_le [of isWordByte ?s] takeWhile_eq_take [of isWordByte ?s] by auto
  have ends: "wordAt (byteAt ?s i)" if "i < length w" for i
    using that nth_mem [of i w] takeWhile_nth [of i isWordByte ?s] len(2) set_takeWhileD [of "w ! i" isWordByte ?s]
    by (auto simp: w_def wordAt_def byteAt_def)
  have stop: "\<not> wordAt (byteAt ?s (length w))"
    using nth_length_takeWhile [of isWordByte ?s] by (auto simp: w_def wordAt_def byteAt_def)
  have P: "?P n \<longleftrightarrow> n = length w \<and> toolShape w" if n: "1 \<le> n" "n \<le> length ?s" for n
  proof
    assume p: "?P n"
    then have "list_all isWordByte (take n ?s)" using toolShape_words by blast
    then have "takeWhile isWordByte (take n ?s @ drop n ?s) = take n ?s @ takeWhile isWordByte (drop n ?s)"
      by (intro takeWhile_append2) (simp add: list_all_iff)
    then have "w = take n ?s @ takeWhile isWordByte (drop n ?s)" by (simp only: w_def append_take_drop_id)
    then have "length w = length (take n ?s) + length (takeWhile isWordByte (drop n ?s))" by (metis length_append)
    then have le: "n \<le> length w" using n by simp
    have "wordAt (byteAt ?s (n - 1))" using ends [of "n - 1"] le n(1) by simp
    then have "\<not> n < length w" using p ends by blast
    with le p len(3) show "n = length w \<and> toolShape w" by simp
  next
    assume "n = length w \<and> toolShape w"
    then show "?P n" using len ends [of "length w - 1"] stop by simp
  qed
  have m: "matchAt prev ?s = find ?P (rev [1..<Suc (length ?s)])"
    using assms(1,2) by (simp add: matchAt_def wordAt_def byteAt_def del: upt_Suc split: option.splits)
  show ?thesis
  proof (cases "toolShape w")
    case True
    have "length w \<in> set (rev [1..<Suc (length ?s)])" using len by (simp del: upt_Suc)
    then obtain n where n: "find ?P (rev [1..<Suc (length ?s)]) = Some n"
      using P [of "length w"] len True by (cases "find ?P (rev [1..<Suc (length ?s)])") (auto simp: find_None_iff simp del: upt_Suc)
    then have "1 \<le> n" "n \<le> length ?s" "?P n" using find_member [OF n] by (auto simp del: upt_Suc)
    then show ?thesis using P n m True by simp
  next
    case False
    then have "find ?P (rev [1..<Suc (length ?s)]) = None" using P by (auto simp: find_None_iff simp del: upt_Suc)
    then show ?thesis using m False by simp
  qed
qed

lemma findAll_Cons:
  "findAll prev (c # s) =
     (case matchAt prev (c # s) of
        Some n \<Rightarrow> take n (c # s) # findAll (byteAt (c # s) (n - 1)) (drop n (c # s))
      | None \<Rightarrow> findAll (Some c) s)"
  by (subst findAll.simps) (simp split: option.split)

text \<open>The expression finds the words of its shape, in their order.\<close>

lemma findAll_words:
  "findAll prev s = filter toolShape (wordsOf (if wordAt prev then dropWhile isWordByte s else s))"
proof (induction s arbitrary: prev rule: length_induct)
  case (1 s)
  show ?case
  proof (cases s)
    case Nil
    then show ?thesis by (simp add: findAll.simps wordsOf.simps)
  next
    case (Cons c s')
    have after: "findAll (Some c) s' = filter toolShape (wordsOf (if isWordByte c then dropWhile isWordByte s' else s'))"
      using 1 Cons by (simp add: wordAt_def)
    show ?thesis
    proof (cases "isWordByte c")
      case False
      then show ?thesis using after Cons by (simp add: findAll_Cons no_match_blank wordsOf_skip)
    next
      case word: True
      show ?thesis
      proof (cases "wordAt prev")
        case True
        then have "matchAt prev (c # s') = None" using word by (simp add: matchAt_def wordAt_def byteAt_def)
        then show ?thesis using after Cons word True by (simp add: findAll_Cons)
      next
        case False
        let ?w = "takeWhile isWordByte (c # s')"
        note m = match_word [OF False word, of s']
        have w: "wordsOf s = ?w # wordsOf (dropWhile isWordByte s')" using Cons word by (simp add: wordsOf_word)
        show ?thesis
        proof (cases "toolShape ?w")
          case shape: True
          have drop: "drop (length ?w) (c # s') = dropWhile isWordByte s'" using word dropWhile_eq_drop [of isWordByte "c # s'"] by simp
          have take: "take (length ?w) (c # s') = ?w" using takeWhile_eq_take [of isWordByte "c # s'"] by simp
          have "?w \<noteq> []" using word by simp
          then have last: "wordAt (byteAt (c # s') (length ?w - 1))"
            using takeWhile_nth [of "length ?w - 1" isWordByte "c # s'"] nth_mem [of "length ?w - 1" ?w]
              length_takeWhile_le [of isWordByte "c # s'"] set_takeWhileD [of "?w ! (length ?w - 1)" isWordByte "c # s'"]
            by (auto simp: wordAt_def byteAt_def)
          have "length (dropWhile isWordByte s') < length s" using Cons length_dropWhile_le [of isWordByte s'] by simp
          moreover have "dropWhile isWordByte (dropWhile isWordByte s') = dropWhile isWordByte s'" by simp
          ultimately have "findAll (byteAt (c # s') (length ?w - 1)) (dropWhile isWordByte s') = filter toolShape (wordsOf (dropWhile isWordByte s'))"
            using 1 last by simp
          then have "findAll prev s = ?w # filter toolShape (wordsOf (dropWhile isWordByte s'))"
            unfolding Cons findAll_Cons m if_P [OF shape] option.case take drop by simp
          then show ?thesis using w shape False by simp
        next
          case no: False
          then have "findAll prev s = findAll (Some c) s'" unfolding Cons findAll_Cons m by simp
          then show ?thesis using after word w no False by simp
        qed
      qed
    qed
  qed
qed

lemma ToolNamesIn_set: "set (ToolNamesIn s) = {w \<in> set (wordsOf s). toolShape w}"
  by (simp add: ToolNamesIn_def findAll_words wordAt_def)

section \<open>The files of a tree\<close>

fun scanned :: "string \<Rightarrow> tree \<Rightarrow> string list" and scannedAll :: "string \<Rightarrow> tree list \<Rightarrow> string list" where
  "scanned path (FileNode name) = (if skipFile path then [] else [path])"
| "scanned path (DirNode name None) = []"
| "scanned path (DirNode name (Some ts)) = (if name \<in> set skipDirs then [] else scannedAll path ts)"
| "scannedAll path [] = []"
| "scannedAll path (t # ts) = scanned (pathJoin [path, treeName t]) t @ scannedAll path ts"

definition promptsIn :: "goParser \<Rightarrow> string list \<Rightarrow> Literal list" where
  "promptsIn goStrings fs = concat (map (\<lambda>f. promptsOf f (the (goStrings f))) fs)"

lemma walk_scans:
  "walkTree g path t = Inr ls \<Longrightarrow> list_all (\<lambda>f. g f \<noteq> None) (scanned path t) \<and> ls = promptsIn g (scanned path t)"
  "walkTrees g path ts = Inr ls' \<Longrightarrow> list_all (\<lambda>f. g f \<noteq> None) (scannedAll path ts) \<and> ls' = promptsIn g (scannedAll path ts)"
proof (induction g path t and g path ts arbitrary: ls and ls' rule: walkTree_walkTrees.induct)
  case (5 g path t ts)
  then show ?case by (auto simp: promptsIn_def split: sum.splits)
qed (auto simp: promptsIn_def split: if_splits option.splits)

lemma Where_found:
  "n \<in> set (ToolNames lits) \<Longrightarrow>
   \<exists>l \<in> set lits. n \<in> set (wordsOf (litText l)) \<and> Where lits n = litFile l @ '':'' @ natText (litLine l)"
  by (induction lits) (auto simp: ToolNames_def ToolNamesIn_set)

text \<open>
  C40. The prompt guard fails closed. When the scan of a tree succeeds it found a prompt, every source file
  outside the skipped directories parsed, and the tool names it reports, sorted and without duplicates, are
  exactly the words of the shape of a tool name in the prompts of those files; every one of them is located in a
  literal that has it.
\<close>

theorem guard_fails_closed:
  assumes "Literals goStrings root (Some t) = Inr lits"
  shows "lits \<noteq> [] \<and> list_all (\<lambda>f. goStrings f \<noteq> None) (scanned root t) \<and> lits = promptsIn goStrings (scanned root t)
    \<and> set (ToolNames lits) = {w. toolShape w \<and> (\<exists>l \<in> set lits. w \<in> set (wordsOf (litText l)))}
    \<and> sorted (ToolNames lits) \<and> distinct (ToolNames lits)
    \<and> list_all (\<lambda>n. \<exists>l \<in> set lits. n \<in> set (wordsOf (litText l)) \<and> Where lits n = litFile l @ '':'' @ natText (litLine l))
        (ToolNames lits)"
proof -
  have w: "walkTree goStrings root t = Inr lits" "lits \<noteq> []"
    using assms by (auto simp: Literals_def split: sum.splits if_splits)
  have "set (ToolNames lits) = {w. toolShape w \<and> (\<exists>l \<in> set lits. w \<in> set (wordsOf (litText l)))}"
    by (auto simp: ToolNames_def ToolNamesIn_set)
  moreover have "sorted (ToolNames lits)" "distinct (ToolNames lits)" by (simp_all add: ToolNames_def)
  moreover have "list_all (\<lambda>n. \<exists>l \<in> set lits. n \<in> set (wordsOf (litText l)) \<and> Where lits n = litFile l @ '':'' @ natText (litLine l))
      (ToolNames lits)" using Where_found unfolding list_all_iff by blast
  ultimately show ?thesis using w walk_scans(1) [OF w(1)] by blast
qed

text \<open>A tree with one source file, a test and a vendored file.\<close>

definition demoPrompt :: string where
  "demoPrompt = ''Call submit_outcome when you are done.'' @ [CHR 0x0A] @ ''Never a_B or _x.''"

definition demoTree :: tree where
  "demoTree = DirNode ''src'' (Some [FileNode ''a.go'', FileNode ''a_test.go'', DirNode ''vendor'' (Some [FileNode ''b.go''])])"

definition demoParser :: goParser where
  "demoParser f = (if f = ''/src/a.go'' then Some [(7, Some demoPrompt), (9, None)] else None)"

theorem guard_fails_closed_witness:
  "scanned ''/src'' demoTree = [''/src/a.go''] \<and> ToolNames (promptsIn demoParser [''/src/a.go'']) = [''submit_outcome'']
   \<and> set (ToolNames (promptsIn demoParser [''/src/a.go''])) =
       {w. toolShape w \<and> (\<exists>l \<in> set (promptsIn demoParser [''/src/a.go'']). w \<in> set (wordsOf (litText l)))}"
proof -
  have s: "scanned ''/src'' demoTree = [''/src/a.go'']" by code_simp
  have l: "Literals demoParser ''/src'' (Some demoTree) = Inr (promptsIn demoParser [''/src/a.go''])" by code_simp
  have n: "ToolNames (promptsIn demoParser [''/src/a.go'']) = [''submit_outcome'']" by code_simp
  show ?thesis using guard_fails_closed [OF l] s n by blast
qed

end
