(* ===== verification/Repo.thy ===== *)
theory Repo
  imports GoPath
begin

text \<open>
  The git side of a turn: where a repository lives below the workspace (\<^verbatim>\<open>namespace.go\<close>), the
  commit and push at the end of a turn (\<^verbatim>\<open>internal/bootstrap/repo.go\<close>) and the push-only safety
  net that runs during it (\<^verbatim>\<open>cmd/wrapper/safetypush.go\<close>). Git itself is a parameter: a function
  from the commands run so far, the directory and the arguments to an error, so its answers may
  depend on everything that happened before; the world keeps the log of the commands.
\<close>

section \<open>Repositories on disk\<close>

record RepoSpec =
  rsName :: string
  rsURL :: string
  rsBranch :: string

definition beforeSlash :: "string \<Rightarrow> char \<Rightarrow> nat option" where
  "beforeSlash s c =
     (case strIndex s [c] of
        None \<Rightarrow> None
      | Some i \<Rightarrow> (case strIndex s ''/'' of None \<Rightarrow> Some i | Some j \<Rightarrow> if i < j then Some i else None))"

definition namespacePath :: "string \<Rightarrow> string" where
  "namespacePath cloneURL =
     (let s0 = trimSpace cloneURL;
          hasSchemeSep = strContains s0 ''://'';
          s1 = (case strIndex s0 ''://'' of None \<Rightarrow> s0 | Some i \<Rightarrow> drop (i + 3) s0);
          s2 = (if \<not> hasSchemeSep \<and> \<not> hasPrefix s1 ''/''
                then (case beforeSlash s1 (CHR '':'') of None \<Rightarrow> s1 | Some i \<Rightarrow> drop (i + 1) s1) else s1);
          s3 = (case beforeSlash s2 (CHR ''@'') of None \<Rightarrow> s2 | Some i \<Rightarrow> drop (i + 1) s2);
          s4 = trimBoth s3 ''/'';
          parts = splitOn (CHR ''/'') s4;
          parts' = (if hasSchemeSep \<and> length parts > 0 then drop 1 parts else parts);
          out = trimSuffix (joinWith ''/'' parts') ''.git''
      in if \<not> strContains out ''/'' then [] else out)"

definition RepoDir :: "string \<Rightarrow> string \<Rightarrow> string" where
  "RepoDir workspace repoURL =
     (let ns = namespacePath repoURL
      in if ns = [] \<or> pathClean (pathJoin [workspace, ns]) = pathClean workspace then []
         else pathJoin [workspace, ns])"

section \<open>Running git\<close>

type_synonym gitCmd = "string \<times> string list"
type_synonym GitRunner = "gitCmd list \<Rightarrow> string \<Rightarrow> string list \<Rightarrow> string option"

text \<open>The commands run so far and the counter \<^verbatim>\<open>CommitOversizedBlobSkipped\<close>.\<close>

record gitWorld =
  gwLog :: "gitCmd list"
  gwSkipped :: nat

definition runGit :: "GitRunner \<Rightarrow> string \<Rightarrow> string list \<Rightarrow> gitWorld \<Rightarrow> string option \<times> gitWorld" where
  "runGit git dir args w = (git (gwLog w) dir args, w\<lparr>gwLog := gwLog w @ [(dir, args)]\<rparr>)"

section \<open>Commit and push\<close>

definition MaxStagedBlobBytes :: int where
  "MaxStagedBlobBytes = 10 * 1048576"

text \<open>
  A directory entry as \<^verbatim>\<open>filepath.WalkDir\<close> meets it, in its order: a directory with the entries
  it can list, or a file, regular or not, with the size \<^verbatim>\<open>Info\<close> gives for it, if it gives one.
  The names are below the root, whose own name is the last element of the directory.
\<close>

datatype dirent = DDir string "dirent list" | DFile string bool "int option"

definition direntName :: "dirent \<Rightarrow> string" where
  "direntName e = (case e of DDir n _ \<Rightarrow> n | DFile n _ _ \<Rightarrow> n)"

text \<open>\<^verbatim>\<open>filepath.Rel\<close> of a path below the root.\<close>

definition relName :: "string list \<Rightarrow> string" where
  "relName ps = (if ps = [] then ''.'' else joinWith ''/'' ps)"

fun oversized :: "string list \<Rightarrow> dirent \<Rightarrow> string list" where
  "oversized rel (DDir name es) =
     (if name = ''.git'' then [] else concat (map (\<lambda>e. oversized (rel @ [direntName e]) e) es))"
| "oversized rel (DFile name regular info) =
     (if \<not> regular then []
      else (case info of
              None \<Rightarrow> []
            | Some sz \<Rightarrow> if sz \<le> MaxStagedBlobBytes then [] else [relName rel]))"

definition resetPath :: "GitRunner \<Rightarrow> string \<Rightarrow> string \<Rightarrow> gitWorld \<Rightarrow> gitWorld" where
  "resetPath git dir rel w =
     (let (e, w1) = runGit git dir [''reset'', ''-q'', ''--'', rel] w
      in if e \<noteq> None then w1 else w1\<lparr>gwSkipped := gwSkipped w1 + 1\<rparr>)"

text \<open>The tree below a directory, \<^const>\<open>None\<close> when there is none.\<close>

type_synonym workTree = "string \<Rightarrow> dirent option"

definition unstageOversizedBlobs :: "workTree \<Rightarrow> GitRunner \<Rightarrow> string \<Rightarrow> gitWorld \<Rightarrow> gitWorld" where
  "unstageOversizedBlobs fs git dir w =
     (case fs dir of None \<Rightarrow> w | Some root \<Rightarrow> fold (resetPath git dir) (oversized [] root) w)"

definition CommitAndPush ::
  "workTree \<Rightarrow> GitRunner \<Rightarrow> string \<Rightarrow> string \<Rightarrow> string \<Rightarrow> gitWorld \<Rightarrow> (string + bool) \<times> gitWorld" where
  "CommitAndPush fs git dir branch message w =
     (case runGit git dir [''add'', ''-A''] w of
        (Some err, w1) \<Rightarrow> (Inl err, w1)
      | (None, w1) \<Rightarrow>
          (let w2 = unstageOversizedBlobs fs git dir w1
           in case runGit git dir [''diff'', ''--cached'', ''--quiet''] w2 of
                (None, w3) \<Rightarrow> (Inr False, w3)
              | (Some _, w3) \<Rightarrow>
                  (case runGit git dir [''commit'', ''--no-verify'', ''-m'', message] w3 of
                     (Some err, w4) \<Rightarrow> (Inl err, w4)
                   | (None, w4) \<Rightarrow>
                       (case runGit git dir [''push'', ''--no-verify'', ''-u'', ''origin'', branch] w4 of
                          (Some err, w5) \<Rightarrow> (Inl err, w5)
                        | (None, w5) \<Rightarrow> (Inr True, w5)))))"

text \<open>
  The fan-out over all repositories. The third component lists the joined errors, each with the
  name it is wrapped in; it is empty exactly when \<^verbatim>\<open>err\<close> is nil.
\<close>

definition pushName :: "RepoSpec \<Rightarrow> string" where
  "pushName r = (if rsName r = [] then pathBase (namespacePath (rsURL r)) else rsName r)"

fun CommitAndPushAll ::
  "workTree \<Rightarrow> GitRunner \<Rightarrow> string \<Rightarrow> RepoSpec list \<Rightarrow> string \<Rightarrow> string \<Rightarrow> gitWorld
   \<Rightarrow> (string list \<times> string list \<times> (string \<times> string) list) \<times> gitWorld" where
  "CommitAndPushAll fs git workspace [] branch message w = (([], [], []), w)"
| "CommitAndPushAll fs git workspace (r # rs) branch message w =
     (let ns = namespacePath (rsURL r)
      in if ns = [] \<or> pathClean (pathJoin [workspace, ns]) = pathClean workspace
         then CommitAndPushAll fs git workspace rs branch message w
         else (let (res, w1) = CommitAndPush fs git (pathJoin [workspace, ns]) branch message w;
                   ((pushed, failed, errs), w2) = CommitAndPushAll fs git workspace rs branch message w1
               in case res of
                    Inl perr \<Rightarrow> ((pushed, pushName r # failed, (pushName r, perr) # errs), w2)
                  | Inr ok \<Rightarrow> ((if ok then pushName r # pushed else pushed, failed, errs), w2)))"

section \<open>The safety net\<close>

definition benignPushFailures :: "string list" where
  "benignPushFailures = [''everything up-to-date'', ''everything up to date'', ''non-fast-forward'', ''fetch first'']"

definition AutoPushEnabled :: "string \<Rightarrow> duration \<Rightarrow> bool" where
  "AutoPushEnabled taskBranch interval \<longleftrightarrow> taskBranch \<noteq> [] \<and> interval > 0"

definition PushOnly :: "GitRunner \<Rightarrow> string \<Rightarrow> string \<Rightarrow> gitWorld \<Rightarrow> string option \<times> gitWorld" where
  "PushOnly git dir branch w =
     (case runGit git dir [''push'', ''--no-verify'', ''--quiet'', ''origin'', branch] w of
        (None, w1) \<Rightarrow> (None, w1)
      | (Some err, w1) \<Rightarrow>
          if list_ex (strContains (toLower err)) benignPushFailures then (None, w1) else (Some err, w1))"

record safetyPusher =
  spWorkspace :: string
  spTaskBranch :: string
  spRepos :: "RepoSpec list"
  spRepoURL :: string
  spInterval :: duration
  spRunning :: bool
  spTotal :: "string counters"

definition safety_Enabled :: "safetyPusher \<Rightarrow> bool" where
  "safety_Enabled s = AutoPushEnabled (spTaskBranch s) (spInterval s)"

definition safety_Start :: "safetyPusher \<Rightarrow> safetyPusher" where
  "safety_Start s = (if \<not> safety_Enabled s then s else s\<lparr>spRunning := True\<rparr>)"

definition safety_repoDirs :: "safetyPusher \<Rightarrow> string list" where
  "safety_repoDirs s =
     (if spRepos s \<noteq> [] then filter (\<lambda>d. d \<noteq> []) (map (\<lambda>r. RepoDir (spWorkspace s) (rsURL r)) (spRepos s))
      else filter (\<lambda>d. d \<noteq> []) [RepoDir (spWorkspace s) (spRepoURL s)])"

definition pushDir :: "GitRunner \<Rightarrow> string \<Rightarrow> safetyPusher \<times> gitWorld \<Rightarrow> safetyPusher \<times> gitWorld" where
  "pushDir git dir sw =
     (let (s, w) = sw; (e, w1) = PushOnly git dir (spTaskBranch s) w
      in (s\<lparr>spTotal := inc (if e = None then ''ok'' else ''fail'') (spTotal s)\<rparr>, w1))"

definition safety_pushOnce :: "GitRunner \<Rightarrow> safetyPusher \<Rightarrow> gitWorld \<Rightarrow> safetyPusher \<times> gitWorld" where
  "safety_pushOnce git s w =
     (if spTaskBranch s = [] then (s, w) else fold (pushDir git) (safety_repoDirs s) (s, w))"

text \<open>The loop on what it receives: \<^const>\<open>True\<close> a tick, \<^const>\<open>False\<close> the cancelled context.\<close>

fun safety_loop :: "GitRunner \<Rightarrow> bool list \<Rightarrow> safetyPusher \<Rightarrow> gitWorld \<Rightarrow> safetyPusher \<times> gitWorld" where
  "safety_loop git [] s w = (s, w)"
| "safety_loop git (tick # es) s w =
     (if \<not> tick then (s\<lparr>spRunning := False\<rparr>, w)
      else (let (s1, w1) = safety_pushOnce git s w in safety_loop git es s1 w1))"

section \<open>The commands that are run\<close>

definition newCmds :: "gitWorld \<Rightarrow> gitWorld \<Rightarrow> gitCmd list" where
  "newCmds w w' = drop (length (gwLog w)) (gwLog w')"

lemma runGit_log [simp]: "gwLog (snd (runGit git dir args w)) = gwLog w @ [(dir, args)]"
  by (simp add: runGit_def)

lemma resetPath_log [simp]: "gwLog (resetPath git dir rel w) = gwLog w @ [(dir, [''reset'', ''-q'', ''--'', rel])]"
  by (simp add: resetPath_def runGit_def Let_def)

definition resets :: "workTree \<Rightarrow> string \<Rightarrow> gitCmd list" where
  "resets fs dir =
     (case fs dir of None \<Rightarrow> [] | Some root \<Rightarrow> map (\<lambda>rel. (dir, [''reset'', ''-q'', ''--'', rel])) (oversized [] root))"

lemma unstage_log [simp]: "gwLog (unstageOversizedBlobs fs git dir w) = gwLog w @ resets fs dir"
proof -
  have "gwLog (fold (resetPath git dir) rels w)
      = gwLog w @ map (\<lambda>rel. (dir, [''reset'', ''-q'', ''--'', rel])) rels" for rels w
    by (induction rels arbitrary: w) auto
  then show ?thesis by (simp add: unstageOversizedBlobs_def resets_def split: option.split)
qed

definition addCmd :: "string \<Rightarrow> gitCmd" where "addCmd dir = (dir, [''add'', ''-A''])"
definition diffCmd :: "string \<Rightarrow> gitCmd" where "diffCmd dir = (dir, [''diff'', ''--cached'', ''--quiet''])"
definition commitCmd :: "string \<Rightarrow> string \<Rightarrow> gitCmd" where
  "commitCmd dir message = (dir, [''commit'', ''--no-verify'', ''-m'', message])"
definition pushCmd :: "string \<Rightarrow> string \<Rightarrow> gitCmd" where
  "pushCmd dir branch = (dir, [''push'', ''--no-verify'', ''-u'', ''origin'', branch])"

lemmas git_cmds = addCmd_def diffCmd_def commitCmd_def pushCmd_def

text \<open>The five runs of \<^verbatim>\<open>CommitAndPush\<close> and what each leaves in the log.\<close>

lemma CommitAndPush_cases:
  obtains (addFails) err where "CommitAndPush fs git dir b msg w =
        (Inl err, w\<lparr>gwLog := gwLog w @ [addCmd dir]\<rparr>)" "git (gwLog w) dir [''add'', ''-A''] = Some err"
  | (clean) w' where "CommitAndPush fs git dir b msg w = (Inr False, w')"
      "gwLog w' = gwLog w @ addCmd dir # resets fs dir @ [diffCmd dir]"
  | (commitFails) err w' where "CommitAndPush fs git dir b msg w = (Inl err, w')"
      "gwLog w' = gwLog w @ addCmd dir # resets fs dir @ [diffCmd dir, commitCmd dir msg]"
  | (pushEnds) res w' where "CommitAndPush fs git dir b msg w = (res, w')"
      "gwLog w' = gwLog w @ addCmd dir # resets fs dir @ [diffCmd dir, commitCmd dir msg, pushCmd dir b]"
      "res = Inr True \<or> (\<exists>err. res = Inl err)"
proof -
  let ?w1 = "snd (runGit git dir [''add'', ''-A''] w)"
  let ?w2 = "unstageOversizedBlobs fs git dir ?w1"
  let ?w3 = "snd (runGit git dir [''diff'', ''--cached'', ''--quiet''] ?w2)"
  let ?w4 = "snd (runGit git dir [''commit'', ''--no-verify'', ''-m'', msg] ?w3)"
  let ?w5 = "snd (runGit git dir [''push'', ''--no-verify'', ''-u'', ''origin'', b] ?w4)"
  note defs = CommitAndPush_def Let_def split_def
  show ?thesis
  proof (cases "fst (runGit git dir [''add'', ''-A''] w)")
    case (Some err)
    then show ?thesis
      by (intro addFails [of err]) (auto simp: defs runGit_def addCmd_def split: option.splits)
  next
    case a: None
    show ?thesis
    proof (cases "fst (runGit git dir [''diff'', ''--cached'', ''--quiet''] ?w2)")
      case None
      with a show ?thesis
        by (intro clean [of ?w3]) (simp_all add: defs git_cmds split: option.splits)
    next
      case d: (Some _)
      show ?thesis
      proof (cases "fst (runGit git dir [''commit'', ''--no-verify'', ''-m'', msg] ?w3)")
        case (Some err)
        with a d show ?thesis
          by (intro commitFails [of err ?w4]) (simp_all add: defs git_cmds split: option.splits)
      next
        case c: None
        with a d show ?thesis
          by (intro pushEnds [of "fst (CommitAndPush fs git dir b msg w)" ?w5])
            (auto simp: defs git_cmds split: option.splits)
      qed
    qed
  qed
qed


section \<open>Oversized files\<close>

text \<open>A regular file of a known size at a path below an entry, outside every \<^verbatim>\<open>.git\<close> directory.\<close>

inductive fileIn :: "dirent \<Rightarrow> string list \<Rightarrow> int \<Rightarrow> bool" where
  file_here: "fileIn (DFile n True (Some sz)) [] sz"
| file_below: "n \<noteq> ''.git'' \<Longrightarrow> e \<in> set es \<Longrightarrow> fileIn e ps sz \<Longrightarrow> fileIn (DDir n es) (direntName e # ps) sz"

inductive_simps fileIn_simps: "fileIn (DFile n r i) ps sz" "fileIn (DDir n es) ps sz"

lemma oversized_iff:
  "s \<in> set (oversized rel e) \<longleftrightarrow>
     (\<exists>ps sz. fileIn e ps sz \<and> sz > MaxStagedBlobBytes \<and> s = relName (rel @ ps))"
proof (induction rel e arbitrary: s rule: oversized.induct)
  case (1 rel name es)
  have "s \<in> set (oversized rel (DDir name es)) \<longleftrightarrow>
      name \<noteq> ''.git'' \<and> (\<exists>e \<in> set es. s \<in> set (oversized (rel @ [direntName e]) e))"
    by auto
  also have "\<dots> \<longleftrightarrow> name \<noteq> ''.git'' \<and>
      (\<exists>e \<in> set es. \<exists>ps sz. fileIn e ps sz \<and> sz > MaxStagedBlobBytes \<and> s = relName (rel @ direntName e # ps))"
    using 1 by (intro conj_cong refl bex_cong) simp_all
  also have "\<dots> \<longleftrightarrow> (\<exists>ps sz. fileIn (DDir name es) ps sz \<and> sz > MaxStagedBlobBytes \<and> s = relName (rel @ ps))"
    unfolding fileIn_simps by blast
  finally show ?case .
next
  case (2 rel name regular info)
  show ?case by (cases info) (auto simp: fileIn_simps)
qed

lemma resets_complete:
  assumes "fs dir = Some root" "fileIn root ps sz" "sz > MaxStagedBlobBytes"
  shows "(dir, [''reset'', ''-q'', ''--'', relName ps]) \<in> set (resets fs dir)"
proof -
  have "relName ps \<in> set (oversized [] root)" using assms(2,3) by (auto simp: oversized_iff)
  then show ?thesis using assms(1) by (simp add: resets_def)
qed

section \<open>The fan-out\<close>

definition attempted :: "string \<Rightarrow> RepoSpec list \<Rightarrow> RepoSpec list" where
  "attempted workspace repos = filter (\<lambda>r. RepoDir workspace (rsURL r) \<noteq> []) repos"

lemma pathClean_not_Nil [simp]: "pathClean p \<noteq> []"
proof (cases "pathElems p = []")
  case False
  have "\<forall>e \<in> set (pathElems p). e \<noteq> []"
    unfolding pathElems_def by (intro pathStep_keeps) auto
  with False show ?thesis by (simp add: pathClean_def Let_def joinWith_elems_eq_Nil)
qed (simp add: pathClean_def Let_def)

lemma RepoDir_Nil:
  "RepoDir ws url = [] \<longleftrightarrow>
     namespacePath url = [] \<or> pathClean (pathJoin [ws, namespacePath url]) = pathClean ws"
  by (auto simp: RepoDir_def Let_def pathJoin_def)

lemma RepoDir_join: "RepoDir ws url \<noteq> [] \<Longrightarrow> RepoDir ws url = pathJoin [ws, namespacePath url]"
  by (auto simp: RepoDir_def Let_def split: if_splits)

lemma CommitAndPush_log:
  "\<exists>cs. gwLog (snd (CommitAndPush fs git dir b msg w)) = gwLog w @ addCmd dir # cs \<and> (\<forall>c \<in> set cs. fst c = dir)"
  by (cases rule: CommitAndPush_cases [of fs git dir b msg w])
    (auto simp: git_cmds resets_def split: option.splits)


lemma CommitAndPushAll_skip:
  "RepoDir ws (rsURL r) = [] \<Longrightarrow>
   CommitAndPushAll fs git ws (r # repos) b msg w = CommitAndPushAll fs git ws repos b msg w"
  by (auto simp: RepoDir_Nil Let_def)

lemma CommitAndPushAll_step:
  "RepoDir ws (rsURL r) \<noteq> [] \<Longrightarrow>
   CommitAndPushAll fs git ws (r # repos) b msg w =
     (let res = CommitAndPush fs git (RepoDir ws (rsURL r)) b msg w;
          ((pushed, failed, errs), w2) = CommitAndPushAll fs git ws repos b msg (snd res)
      in case fst res of
           Inl perr \<Rightarrow> ((pushed, pushName r # failed, (pushName r, perr) # errs), w2)
         | Inr ok \<Rightarrow> ((if ok then pushName r # pushed else pushed, failed, errs), w2))"
  using RepoDir_Nil [of ws "rsURL r"] RepoDir_join [of ws "rsURL r"] by (simp add: Let_def split_def)

declare CommitAndPushAll.simps(2) [simp del]

lemma attempted_simps [simp]:
  "attempted ws [] = []"
  "RepoDir ws (rsURL r) = [] \<Longrightarrow> attempted ws (r # repos) = attempted ws repos"
  "RepoDir ws (rsURL r) \<noteq> [] \<Longrightarrow> attempted ws (r # repos) = r # attempted ws repos"
  by (simp_all add: attempted_def)

text \<open>
  The fan-out as a list of outcomes, one per repository that has a directory: the result of its
  \<^verbatim>\<open>CommitAndPush\<close>. The lists the caller gets are read off it.
\<close>

definition pushedOf :: "(RepoSpec \<times> (string + bool)) list \<Rightarrow> string list" where
  "pushedOf os = [pushName r. (r, Inr True) \<leftarrow> os]"

definition failedOf :: "(RepoSpec \<times> (string + bool)) list \<Rightarrow> (string \<times> string) list" where
  "failedOf os = [(pushName r, err). (r, Inl err) \<leftarrow> os]"

lemma CommitAndPushAll_outcomes:
  "\<exists>os. map fst os = attempted ws repos
     \<and> fst (CommitAndPushAll fs git ws repos b msg w) = (pushedOf os, map fst (failedOf os), failedOf os)"
proof (induction repos arbitrary: w)
  case Nil
  then show ?case by (simp add: pushedOf_def failedOf_def)
next
  case (Cons r repos)
  show ?case
  proof (cases "RepoDir ws (rsURL r) = []")
    case True
    with Cons show ?thesis by (simp add: CommitAndPushAll_skip)
  next
    case False
    define res where "res = CommitAndPush fs git (RepoDir ws (rsURL r)) b msg w"
    obtain os where os: "map fst os = attempted ws repos"
      "fst (CommitAndPushAll fs git ws repos b msg (snd res)) = (pushedOf os, map fst (failedOf os), failedOf os)"
      using Cons by blast
    have "fst (CommitAndPushAll fs git ws (r # repos) b msg w) =
        (pushedOf ((r, fst res) # os), map fst (failedOf ((r, fst res) # os)), failedOf ((r, fst res) # os))"
      using False os(2)
      by (auto simp: CommitAndPushAll_step res_def [symmetric] Let_def split_def pushedOf_def failedOf_def
          split: sum.split)
    moreover have "map fst ((r, fst res) # os) = attempted ws (r # repos)" using False os(1) by simp
    ultimately show ?thesis by blast
  qed
qed

lemma CommitAndPushAll_log:
  "\<exists>cs. gwLog (snd (CommitAndPushAll fs git ws repos b msg w)) = gwLog w @ cs
     \<and> (\<forall>r \<in> set (attempted ws repos). addCmd (RepoDir ws (rsURL r)) \<in> set cs)
     \<and> (\<forall>c \<in> set cs. \<exists>r \<in> set (attempted ws repos). fst c = RepoDir ws (rsURL r))"
proof (induction repos arbitrary: w)
  case Nil
  then show ?case by simp
next
  case (Cons r repos)
  show ?case
  proof (cases "RepoDir ws (rsURL r) = []")
    case True
    with Cons show ?thesis by (simp add: CommitAndPushAll_skip)
  next
    case False
    define dir where "dir = RepoDir ws (rsURL r)"
    define res where "res = CommitAndPush fs git dir b msg w"
    obtain cs where cs: "gwLog (snd (CommitAndPushAll fs git ws repos b msg (snd res))) = gwLog (snd res) @ cs"
      "\<forall>r \<in> set (attempted ws repos). addCmd (RepoDir ws (rsURL r)) \<in> set cs"
      "\<forall>c \<in> set cs. \<exists>r \<in> set (attempted ws repos). fst c = RepoDir ws (rsURL r)"
      using Cons by blast
    obtain cs0 where cs0: "gwLog (snd res) = gwLog w @ addCmd dir # cs0" "\<forall>c \<in> set cs0. fst c = dir"
      using CommitAndPush_log [of fs git dir b msg w] by (auto simp: res_def)
    have log: "gwLog (snd (CommitAndPushAll fs git ws (r # repos) b msg w)) = gwLog w @ (addCmd dir # cs0 @ cs)"
      using False cs(1) cs0(1)
      by (simp add: CommitAndPushAll_step dir_def [symmetric] res_def [symmetric] Let_def split_def split: sum.split)
    show ?thesis
      unfolding log attempted_simps(3) [OF False]
      by (rule exI [of _ "addCmd dir # cs0 @ cs"]) (use cs(2,3) cs0(2) in \<open>auto simp: dir_def [symmetric] addCmd_def\<close>)
  qed
qed


lemma outcome_names:
  "set (pushedOf os) \<subseteq> pushName ` fst ` {p \<in> set os. snd p = Inr True}"
  "set (map fst (failedOf os)) \<subseteq> pushName ` fst ` {p \<in> set os. \<exists>e. snd p = Inl e}"
  by (force simp: pushedOf_def failedOf_def split: sum.splits bool.splits)+

lemma outcome_lists_disjoint:
  assumes "distinct (map pushName (map fst os))"
  shows "set (pushedOf os) \<inter> set (map fst (failedOf os)) = {}"
proof -
  have inj: "p = q" if "p \<in> set os" "q \<in> set os" "pushName (fst p) = pushName (fst q)" for p q
    using assms that by (auto simp: distinct_map inj_on_def o_def)
  show ?thesis
  proof (rule equals0I)
    fix n assume "n \<in> set (pushedOf os) \<inter> set (map fst (failedOf os))"
    then obtain p q e where "p \<in> set os" "q \<in> set os" "snd p = Inr True" "snd q = Inl e"
      "n = pushName (fst p)" "n = pushName (fst q)"
      using outcome_names [of os] by blast
    with inj show False by fastforce
  qed
qed

section \<open>The safety net only pushes\<close>

definition quietPush :: "string \<Rightarrow> string \<Rightarrow> gitCmd" where
  "quietPush branch dir = (dir, [''push'', ''--no-verify'', ''--quiet'', ''origin'', branch])"

lemma pushDir_effect:
  "let (s', w') = pushDir git dir (s, w)
   in gwLog w' = gwLog w @ [quietPush (spTaskBranch s) dir]
      \<and> spTotal s' ''ok'' + spTotal s' ''fail'' = Suc (spTotal s ''ok'' + spTotal s ''fail'')
      \<and> spTaskBranch s' = spTaskBranch s \<and> safety_repoDirs s' = safety_repoDirs s"
  by (auto simp: pushDir_def PushOnly_def runGit_def quietPush_def safety_repoDirs_def Let_def inc_def
      split: option.splits)

lemma pushDirs_effect:
  "let (s', w') = fold (pushDir git) dirs (s, w)
   in gwLog w' = gwLog w @ map (quietPush (spTaskBranch s)) dirs
      \<and> spTotal s' ''ok'' + spTotal s' ''fail'' = spTotal s ''ok'' + spTotal s ''fail'' + length dirs
      \<and> spTaskBranch s' = spTaskBranch s \<and> safety_repoDirs s' = safety_repoDirs s"
proof (induction dirs arbitrary: s w)
  case (Cons d dirs)
  obtain s1 w1 where 1: "pushDir git d (s, w) = (s1, w1)" by (cases "pushDir git d (s, w)")
  then show ?case
    using Cons [of s1 w1] pushDir_effect [of git d s w] by (auto simp: Let_def split_def)
qed simp

lemma pushOnce_effect:
  "let (s', w') = safety_pushOnce git s w; cs = (if spTaskBranch s = [] then [] else map (quietPush (spTaskBranch s)) (safety_repoDirs s))
   in gwLog w' = gwLog w @ cs
      \<and> spTotal s' ''ok'' + spTotal s' ''fail'' = spTotal s ''ok'' + spTotal s ''fail'' + length cs
      \<and> spTaskBranch s' = spTaskBranch s \<and> safety_repoDirs s' = safety_repoDirs s"
  using pushDirs_effect [of git "safety_repoDirs s" s w] by (auto simp: safety_pushOnce_def Let_def split_def)

text \<open>The ticks the loop serves: those before the context is cancelled.\<close>

lemma safety_loop_effect:
  "let (s', w') = safety_loop git es s w;
       cs = (if spTaskBranch s = [] then []
             else concat (replicate (length (takeWhile id es)) (map (quietPush (spTaskBranch s)) (safety_repoDirs s))))
   in gwLog w' = gwLog w @ cs
      \<and> spTotal s' ''ok'' + spTotal s' ''fail'' = spTotal s ''ok'' + spTotal s ''fail'' + length cs"
proof (induction git es s w rule: safety_loop.induct)
  case (1 git s w)
  then show ?case by simp
next
  case (2 git tick es s w)
  obtain s1 w1 where 1: "safety_pushOnce git s w = (s1, w1)" by (cases "safety_pushOnce git s w")
  show ?case
  proof (cases tick)
    case True
    then show ?thesis
      using 2 [OF _ 1 [symmetric]] pushOnce_effect [of git s w] 1 by (auto simp: Let_def split_def)
  qed simp
qed

section \<open>Properties\<close>

text \<open>
  A build artifact never reaches the commit of a turn: when \<^verbatim>\<open>CommitAndPush\<close> runs \<^verbatim>\<open>git commit\<close>, every
  regular file of the tree, outside \<^verbatim>\<open>.git\<close>, larger than \<^verbatim>\<open>MaxStagedBlobBytes\<close> has been reset after the
  \<^verbatim>\<open>git add -A\<close> that staged it and before that commit, and \<^verbatim>\<open>commit\<close> and \<^verbatim>\<open>push\<close> run at most once and last.
\<close>

theorem oversized_unstaged:
  assumes "gwLog (snd (CommitAndPush fs git dir b msg w)) = gwLog w @ cs" "commitCmd dir msg \<in> set cs"
    "fs dir = Some root" "fileIn root ps sz" "sz > MaxStagedBlobBytes"
  shows "\<exists>xs ys zs. cs = addCmd dir # xs @ (dir, [''reset'', ''-q'', ''--'', relName ps]) # ys
            @ [diffCmd dir, commitCmd dir msg] @ zs
          \<and> zs \<in> {[], [pushCmd dir b]} \<and> commitCmd dir msg \<notin> set (xs @ ys)"
proof -
  obtain xs ys where r: "resets fs dir = xs @ (dir, [''reset'', ''-q'', ''--'', relName ps]) # ys"
    using resets_complete [of fs dir root ps sz] assms(3-5) by (meson split_list)
  have n: "commitCmd dir msg \<notin> set (resets fs dir)"
    by (auto simp: resets_def commitCmd_def split: option.splits)
  have "\<exists>zs \<in> {[], [pushCmd dir b]}. cs = addCmd dir # resets fs dir @ [diffCmd dir, commitCmd dir msg] @ zs"
  proof (cases rule: CommitAndPush_cases [of fs git dir b msg w])
    case (addFails err)
    with assms(1) have "cs = [addCmd dir]" by simp
    with assms(2) show ?thesis by (simp add: git_cmds)
  next
    case (clean w')
    with assms(1) have "cs = addCmd dir # resets fs dir @ [diffCmd dir]" by simp
    with assms(2) n show ?thesis by (simp add: git_cmds)
  qed (use assms(1) in auto)
  then obtain zs where "zs \<in> {[], [pushCmd dir b]}"
    "cs = addCmd dir # (xs @ (dir, [''reset'', ''-q'', ''--'', relName ps]) # ys) @ [diffCmd dir, commitCmd dir msg] @ zs"
    unfolding r by blast
  with n show ?thesis unfolding r by (intro exI [of _ xs] exI [of _ ys] exI [of _ zs]) simp
qed

definition demoTree :: workTree where
  "demoTree dir = (if dir = ''/ws/o/r'' then Some (DDir ''r'' [DDir ''.git'' [DFile ''pack'' True (Some 99000000)],
     DDir ''bin'' [DFile ''app'' True (Some 16000000)], DFile ''main.go'' True (Some 100)]) else None)"

text \<open>A git in which every command succeeds and every tree has changes.\<close>

definition demoGit :: GitRunner where
  "demoGit log dir args = (if args = [''diff'', ''--cached'', ''--quiet''] then Some ''exit status 1'' else None)"

definition noGit :: gitWorld where
  "noGit = \<lparr>gwLog = [], gwSkipped = 0\<rparr>"

theorem oversized_unstaged_witness:
  "(''/ws/o/r'', [''reset'', ''-q'', ''--'', ''bin/app'']) \<in> set (gwLog (snd (CommitAndPush demoTree demoGit ''/ws/o/r'' ''b'' ''m'' noGit)))"
proof -
  let ?cs = "gwLog (snd (CommitAndPush demoTree demoGit ''/ws/o/r'' ''b'' ''m'' noGit))"
  have app: "fileIn (DFile ''app'' True (Some 16000000)) [] 16000000"
    by (rule file_here)
  have bin: "fileIn (DDir ''bin'' [DFile ''app'' True (Some 16000000)]) [''app''] 16000000"
    using file_below [OF _ _ app, of "''bin''"] by (simp add: direntName_def)
  have root: "fileIn (DDir ''r'' [DDir ''.git'' [DFile ''pack'' True (Some 99000000)],
     DDir ''bin'' [DFile ''app'' True (Some 16000000)], DFile ''main.go'' True (Some 100)]) [''bin'', ''app''] 16000000"
    using file_below [OF _ _ bin, of "''r''"] by (simp add: direntName_def)
  have "commitCmd ''/ws/o/r'' ''m'' \<in> set ?cs"
    by (simp add: CommitAndPush_def runGit_def demoGit_def commitCmd_def Let_def)
  then have "\<exists>xs ys zs. ?cs = addCmd ''/ws/o/r'' # xs
      @ (''/ws/o/r'', [''reset'', ''-q'', ''--'', relName [''bin'', ''app'']]) # ys
      @ [diffCmd ''/ws/o/r'', commitCmd ''/ws/o/r'' ''m''] @ zs
      \<and> zs \<in> {[], [pushCmd ''/ws/o/r'' ''b'']} \<and> commitCmd ''/ws/o/r'' ''m'' \<notin> set (xs @ ys)"
    by (intro oversized_unstaged [OF _ _ _ root, where fs = demoTree and git = demoGit and w = noGit])
      (simp_all add: noGit_def demoTree_def MaxStagedBlobBytes_def)
  then show ?thesis by (force simp: relName_def)
qed

text \<open>
  The fan-out at the end of a turn attempts every repository that has a directory below the workspace, whatever
  happened to the others: each gets its \<^verbatim>\<open>git add -A\<close>, and no command runs anywhere else. The report is complete:
  each attempted repository has exactly one outcome, the pushed list names those that pushed and the failed list
  those that failed, in order, each failure with its error. When the names are distinct the two lists are disjoint.
\<close>

theorem push_all_report:
  "\<exists>os cs. map fst os = attempted ws repos
     \<and> fst (CommitAndPushAll fs git ws repos b msg w) = (pushedOf os, map fst (failedOf os), failedOf os)
     \<and> gwLog (snd (CommitAndPushAll fs git ws repos b msg w)) = gwLog w @ cs
     \<and> list_all (\<lambda>r. addCmd (RepoDir ws (rsURL r)) \<in> set cs) (attempted ws repos)
     \<and> list_all (\<lambda>c. fst c \<in> (\<lambda>r. RepoDir ws (rsURL r)) ` set (attempted ws repos)) cs
     \<and> (distinct (map pushName (attempted ws repos)) \<longrightarrow> set (pushedOf os) \<inter> set (map fst (failedOf os)) = {})"
proof -
  obtain os where os: "map fst os = attempted ws repos"
    "fst (CommitAndPushAll fs git ws repos b msg w) = (pushedOf os, map fst (failedOf os), failedOf os)"
    using CommitAndPushAll_outcomes by blast
  obtain cs where "gwLog (snd (CommitAndPushAll fs git ws repos b msg w)) = gwLog w @ cs"
    "list_all (\<lambda>r. addCmd (RepoDir ws (rsURL r)) \<in> set cs) (attempted ws repos)"
    "list_all (\<lambda>c. fst c \<in> (\<lambda>r. RepoDir ws (rsURL r)) ` set (attempted ws repos)) cs"
    using CommitAndPushAll_log [of fs git ws repos b msg w] unfolding list_all_iff by blast
  with os outcome_lists_disjoint [of os] show ?thesis by metis
qed


definition demoRepos :: "RepoSpec list" where
  "demoRepos = [\<lparr>rsName = ''a'', rsURL = ''https://h/o/a'', rsBranch = []\<rparr>, \<lparr>rsName = [], rsURL = ''git@h:o/b.git'', rsBranch = []\<rparr>,
     \<lparr>rsName = ''c'', rsURL = ''https://h'', rsBranch = []\<rparr>]"

text \<open>A git whose push fails in the first repository.\<close>

definition failingGit :: GitRunner where
  "failingGit log dir args =
     (if hd args = ''diff'' \<or> hd args = ''push'' \<and> dir = ''/ws/o/a'' then Some ''exit status 1'' else None)"

lemma demoRepos_dirs:
  "RepoDir ''/ws'' ''https://h/o/a'' = ''/ws/o/a''" "RepoDir ''/ws'' ''git@h:o/b.git'' = ''/ws/o/b''"
  "RepoDir ''/ws'' ''https://h'' = []" "namespacePath ''git@h:o/b.git'' = ''o/b''" "pathBase ''o/b'' = ''b''"
  by code_simp+

theorem push_all_report_witness:
  "fst (CommitAndPushAll demoTree failingGit ''/ws'' demoRepos ''t'' ''m'' noGit) = ([''b''], [''a''], [(''a'', ''exit status 1'')])
   \<and> addCmd ''/ws/o/b'' \<in> set (gwLog (snd (CommitAndPushAll demoTree failingGit ''/ws'' demoRepos ''t'' ''m'' noGit)))"
proof -
  have r: "fst (CommitAndPushAll demoTree failingGit ''/ws'' demoRepos ''t'' ''m'' noGit)
      = ([''b''], [''a''], [(''a'', ''exit status 1'')])"
    by (simp add: demoRepos_def CommitAndPushAll_step CommitAndPushAll_skip demoRepos_dirs CommitAndPush_def runGit_def
        failingGit_def unstageOversizedBlobs_def demoTree_def pushName_def Let_def)
  have a: "map (\<lambda>r. RepoDir ''/ws'' (rsURL r)) (attempted ''/ws'' demoRepos) = [''/ws/o/a'', ''/ws/o/b'']"
    "distinct (map pushName (attempted ''/ws'' demoRepos))"
    by (simp_all add: demoRepos_def attempted_def demoRepos_dirs pushName_def)
  obtain cs where cs: "gwLog (snd (CommitAndPushAll demoTree failingGit ''/ws'' demoRepos ''t'' ''m'' noGit)) = gwLog noGit @ cs"
    "list_all (\<lambda>r. addCmd (RepoDir ''/ws'' (rsURL r)) \<in> set cs) (attempted ''/ws'' demoRepos)"
    using push_all_report [of "''/ws''" demoRepos demoTree failingGit "''t''" "''m''" noGit] a(2) by blast
  from cs(2) have "list_all (\<lambda>d. addCmd d \<in> set cs) (map (\<lambda>r. RepoDir ''/ws'' (rsURL r)) (attempted ''/ws'' demoRepos))"
    by (simp add: list_all_iff)
  with cs(1) r show ?thesis by (simp add: a(1))
qed

text \<open>
  The mid-turn safety net pushes and does nothing else: whatever sequence of ticks and cancellation its loop
  receives and whatever git answers, the commands it runs are \<^verbatim>\<open>git push --quiet\<close> of the task branch, once per
  tick in each repository directory, never in the workspace root, and never at all without a task branch. It
  stops serving ticks at the cancellation, and each push is counted once, as ok or as failed.
\<close>

theorem safety_push_only:
  "let (s', w') = safety_loop git es s w; n = length (takeWhile id es);
       cs = (if spTaskBranch s = [] then []
             else concat (replicate n (map (quietPush (spTaskBranch s)) (safety_repoDirs s))))
   in gwLog w' = gwLog w @ cs
      \<and> spTotal s' ''ok'' + spTotal s' ''fail'' = spTotal s ''ok'' + spTotal s ''fail'' + length cs
      \<and> list_all (\<lambda>d. pathClean d \<noteq> pathClean (spWorkspace s)) (safety_repoDirs s)"
proof -
  have "pathClean (RepoDir ws url) \<noteq> pathClean ws" if "RepoDir ws url \<noteq> []" for ws url
    using RepoDir_Nil [of ws url] RepoDir_join [OF that] that by metis
  then have "list_all (\<lambda>d. pathClean d \<noteq> pathClean (spWorkspace s)) (safety_repoDirs s)"
    by (auto simp: safety_repoDirs_def list_all_iff)
  then show ?thesis using safety_loop_effect [of git es s w] by (simp add: Let_def split_def)
qed

text \<open>
  A repository directory lies strictly below the workspace: for a URL whose namespace has no \<^verbatim>\<open>..\<close> element,
  \<^verbatim>\<open>RepoDir\<close> is empty (the repository is skipped) or it is the cleaned workspace followed by a slash and a
  non-empty relative path without \<^verbatim>\<open>..\<close>, \<^verbatim>\<open>.\<close> or empty elements. (A namespace with \<^verbatim>\<open>..\<close> is
  not rejected by the code and can leave the workspace.)
\<close>

theorem repo_dir_below:
  assumes "ws \<noteq> []" "pathClean ws \<noteq> ''/''" "pathClean ws \<noteq> ''.''"
    "''..'' \<notin> set (splitOn (CHR ''/'') (namespacePath url))" "RepoDir ws url \<noteq> []"
  shows "\<exists>es. es \<noteq> [] \<and> list_all (\<lambda>e. e \<noteq> [] \<and> e \<noteq> ''.'' \<and> e \<noteq> ''..'' \<and> CHR ''/'' \<notin> set e) es
          \<and> RepoDir ws url = pathClean ws @ ''/'' @ joinWith ''/'' es"
proof -
  let ?ns = "namespacePath url"
  have ns: "?ns \<noteq> []" "pathClean (pathJoin [ws, ?ns]) \<noteq> pathClean ws" using assms(5) by (simp_all add: RepoDir_Nil)
  note j = pathJoin_below [OF assms(1) ns(1) assms(4)]
  have p: "plainElems ?ns \<noteq> []" using ns(2) j by auto
  have "list_all (\<lambda>e. e \<noteq> [] \<and> e \<noteq> ''.'' \<and> e \<noteq> ''..'' \<and> CHR ''/'' \<notin> set e) (plainElems ?ns)"
    using assms(4) splitOn_no_sep by (auto simp: plainElems_def list_all_iff)
  with p j assms RepoDir_join [OF assms(5)] show ?thesis by (intro exI [of _ "plainElems ?ns"]) simp
qed


theorem repo_dir_below_witness:
  "RepoDir ''/ws/'' ''git@h:o/b.git'' \<noteq> []
   \<and> (\<exists>es. es \<noteq> [] \<and> list_all (\<lambda>e. e \<noteq> [] \<and> e \<noteq> ''.'' \<and> e \<noteq> ''..'' \<and> CHR ''/'' \<notin> set e) es
          \<and> RepoDir ''/ws/'' ''git@h:o/b.git'' = pathClean ''/ws/'' @ ''/'' @ joinWith ''/'' es)"
proof -
  have d: "RepoDir ''/ws/'' ''git@h:o/b.git'' \<noteq> []" "pathClean ''/ws/'' \<noteq> ''/''" "pathClean ''/ws/'' \<noteq> ''.''"
    by code_simp+
  then show ?thesis
    using repo_dir_below [of "''/ws/''" "''git@h:o/b.git''"] by (simp add: demoRepos_dirs)
qed

end
