(* ===== verification/GoValue.thy ===== *)
theory GoValue
  imports GoJson
begin

text \<open>
  Go values as the configuration code builds and marshals them: what \<^verbatim>\<open>encoding/json\<close> decodes into an
  \<^verbatim>\<open>any\<close>, plus the raw messages it passes through. A map is an association list without repeated
  keys whose order carries no meaning, since the encoder sorts the keys.
\<close>

datatype goAny =
    AnyNull
  | AnyBool bool
  | AnyNum string
  | AnyStr string
  | AnyRaw string
  | AnyArr "goAny list"
  | AnyMap "(string \<times> goAny) list"

definition mapSet :: "'k \<Rightarrow> 'v \<Rightarrow> ('k \<times> 'v) list \<Rightarrow> ('k \<times> 'v) list" where
  "mapSet k v m = (k, v) # filter (\<lambda>e. fst e \<noteq> k) m"

definition mapSets :: "('k \<times> 'v) list \<Rightarrow> ('k \<times> 'v) list \<Rightarrow> ('k \<times> 'v) list" where
  "mapSets es m = fold (\<lambda>(k, v). mapSet k v) es m"

lemma map_of_mapSet [simp]: "map_of (mapSet k v m) = (map_of m)(k \<mapsto> v)"
proof
  fix x show "map_of (mapSet k v m) x = ((map_of m)(k \<mapsto> v)) x"
    by (induction m) (auto simp: mapSet_def)
qed

lemma map_of_mapSets [simp]: "map_of (mapSets es m) = map_of m ++ map_of (rev es)"
  by (induction es arbitrary: m) (auto simp: mapSets_def map_add_def fun_eq_iff split: option.split)

lemma keys_mapSet [simp]: "fst ` set (mapSet k v m) = insert k (fst ` set m)"
  by (auto simp: mapSet_def image_iff)

lemma distinct_mapSet: "distinct (map fst m) \<Longrightarrow> distinct (map fst (mapSet k v m))"
  by (auto simp: mapSet_def distinct_map_filter)

text \<open>
  Decoding into \<^verbatim>\<open>any\<close>. A number becomes a \<^verbatim>\<open>float64\<close>: \<open>fl\<close> gives the text the encoder writes for it,
  \<^const>\<open>None\<close> out of range, where the decoder records an error and leaves \<^verbatim>\<open>nil\<close>. A repeated key keeps
  its last value.
\<close>

fun anyOf :: "(string \<Rightarrow> string option) \<Rightarrow> json \<Rightarrow> goAny"
  and anyElems :: "(string \<Rightarrow> string option) \<Rightarrow> (string \<times> json) list \<Rightarrow> goAny list"
  and anyMembers :: "(string \<Rightarrow> string option) \<Rightarrow> (string \<times> string \<times> json) list \<Rightarrow> (string \<times> goAny) list \<Rightarrow> (string \<times> goAny) list"
where
  "anyOf fl JNull = AnyNull"
| "anyOf fl (JBool b) = AnyBool b"
| "anyOf fl (JNum t) = (case fl t of None \<Rightarrow> AnyNull | Some u \<Rightarrow> AnyNum u)"
| "anyOf fl (JStr s) = AnyStr s"
| "anyOf fl (JArr es) = AnyArr (anyElems fl es)"
| "anyOf fl (JObj ms) = AnyMap (anyMembers fl ms [])"
| "anyElems fl [] = []"
| "anyElems fl ((_, v) # es) = anyOf fl v # anyElems fl es"
| "anyMembers fl [] m = m"
| "anyMembers fl ((k, _, v) # ms) m = anyMembers fl ms (mapSet k (anyOf fl v) m)"

text \<open>
  \<^verbatim>\<open>json.Unmarshal(data, &doc)\<close> into an empty \<^verbatim>\<open>map[string]any\<close>, the error ignored: text that does not
  parse or is no object leaves the map empty, \<^verbatim>\<open>null\<close> makes it the nil map, written \<^const>\<open>None\<close>.
\<close>

definition unmarshalDoc :: "(string \<Rightarrow> string option) \<Rightarrow> string \<Rightarrow> (string \<times> goAny) list option" where
  "unmarshalDoc fl b =
     (case parseJson b of
        Some (JObj ms) \<Rightarrow> Some (anyMembers fl ms [])
      | Some JNull \<Rightarrow> None
      | _ \<Rightarrow> Some [])"

text \<open>The type assertion \<^verbatim>\<open>v.(map[string]any)\<close> followed by the test for \<^verbatim>\<open>nil\<close>: an absent value gives an empty map.\<close>

definition asMap :: "goAny option \<Rightarrow> (string \<times> goAny) list" where
  "asMap v = (case v of Some (AnyMap m) \<Rightarrow> m | _ \<Rightarrow> [])"

text \<open>A decoder for \<^verbatim>\<open>map[string]json.RawMessage\<close>: entries are added to the map decoded so far.\<close>

definition decRawMap :: "(string \<times> string) list decoder" where
  "decRawMap raw v old =
     (case v of
        JObj ms \<Rightarrow> Some (mapSets (map (\<lambda>(k, r, _). (k, r)) ms) old)
      | JNull \<Rightarrow> Some []
      | _ \<Rightarrow> None)"

end
