(* ===== verification/Workspace.thy ===== *)
theory Workspace
  imports Repo GoValue "HOL-Library.State_Monad"
begin

text \<open>
  The resumed-workspace contract (\<^verbatim>\<open>internal/bootstrap/resume.go\<close>) and the checkout of the task
  branch (\<^verbatim>\<open>internal/bootstrap/bootstrap.go\<close>): what bootstrap does to a checkout that outlived the
  pod which was using it. The functions run in a state monad over a world that logs the git
  commands and the changes to the file system; the answers of git and of the file system are
  parameters, functions of everything done so far. A small calculus over the log carries the
  proofs that no command of a resumed boot can discard a commit.
\<close>

section \<open>The world of bootstrap\<close>

text \<open>
  The changes bootstrap makes to the file system. A document written with \<^verbatim>\<open>json.MarshalIndent\<close> is
  logged as the value; \<^verbatim>\<open>OpCopyFile\<close> is the opening, truncating and copying of \<^verbatim>\<open>copyFile\<close>.
\<close>

datatype fsOp =
    OpRemoveAll string
  | OpMkdirAll string
  | OpRemove string
  | OpWriteFile string string
  | OpWriteJSON string goAny
  | OpRename string string
  | OpCopyFile string string

datatype statResult = Present | NotExist | StatError

text \<open>What \<^verbatim>\<open>os.ReadDir\<close> gives: the entries sorted by name, or an error.\<close>

datatype dirListing = Listing "dirent list" | ListMissing | ListError string

text \<open>
  What \<^verbatim>\<open>filepath.Walk\<close> meets: directories with their entries in order, directories that cannot be listed,
  files, and entries that cannot be examined, the last two kinds of failure with the error.
\<close>

datatype skNode = SDir string "skNode list" | SUnlisted string string | SFile string | SBroken string string

text \<open>
  Each change of the file system is logged with the number of git commands run before it. The
  counters are \<^verbatim>\<open>BootstrapWorkspaceRecovered\<close>, \<^verbatim>\<open>BootstrapLockCleared\<close>, \<^verbatim>\<open>BootstrapReconcileTotal\<close>,
  \<^verbatim>\<open>BootstrapCloneTotal\<close>, \<^verbatim>\<open>LifecycleHookTotal\<close>, \<^verbatim>\<open>SkillsCloneFailures\<close>, \<^verbatim>\<open>SkillsInstalled\<close>,
  \<^verbatim>\<open>AgentsInstalled\<close> and \<^verbatim>\<open>BootstrapRenderTotal\<close>.
\<close>

record wsWorld =
  wsGit :: gitWorld
  wsOps :: "(nat \<times> fsOp) list"
  wsRecovered :: "string counters"
  wsLocks :: "string counters"
  wsReconcile :: "string counters"
  wsClone :: "string counters"
  wsHooks :: "(string \<times> string) counters"
  wsCloneFailures :: "string counters"
  wsSkills :: "string counters"
  wsAgents :: nat
  wsRender :: "string counters"

type_synonym hist = "(nat \<times> fsOp) list \<times> gitCmd list"

definition histOf :: "wsWorld \<Rightarrow> hist" where
  "histOf w = (wsOps w, gwLog (wsGit w))"

text \<open>
  What bootstrap asks the outside: git, the file system, the result of a lifecycle hook, the YAML
  library on the header of a skill, and the text of a decimal number after a round trip through
  \<^verbatim>\<open>float64\<close>.
\<close>

record wsEnv =
  eGit :: "(nat \<times> fsOp) list \<Rightarrow> GitRunner"
  eStat :: "hist \<Rightarrow> string \<Rightarrow> statResult"
  eFs :: "hist \<Rightarrow> fsOp \<Rightarrow> string option"
  eRead :: "hist \<Rightarrow> string \<Rightarrow> string option"
  eTree :: "hist \<Rightarrow> workTree"
  eHookFails :: "hist \<Rightarrow> string \<Rightarrow> bool"
  eReadDir :: "hist \<Rightarrow> string \<Rightarrow> dirListing"
  eWalk :: "hist \<Rightarrow> string \<Rightarrow> skNode"
  eYaml :: "string \<Rightarrow> string list option"
  eFloat :: "string \<Rightarrow> string option"

type_synonym 'a ws = "(wsWorld, 'a) state"

definition gitRun :: "wsEnv \<Rightarrow> string \<Rightarrow> string list \<Rightarrow> string option ws" where
  "gitRun env dir args =
     State (\<lambda>w. case runGit (eGit env (wsOps w)) dir args (wsGit w) of (e, g) \<Rightarrow> (e, w\<lparr>wsGit := g\<rparr>))"

text \<open>Whether the command exits with zero.\<close>

definition gitOk :: "wsEnv \<Rightarrow> string \<Rightarrow> string list \<Rightarrow> bool ws" where
  "gitOk env dir args = do { e \<leftarrow> gitRun env dir args; State_Monad.return (e = None) }"

definition asks :: "(wsWorld \<Rightarrow> 'a) \<Rightarrow> 'a ws" where
  "asks f = State (\<lambda>w. (f w, w))"

definition fsDo :: "wsEnv \<Rightarrow> fsOp \<Rightarrow> string option ws" where
  "fsDo env op =
     State (\<lambda>w. (eFs env (histOf w) op, w\<lparr>wsOps := wsOps w @ [(length (gwLog (wsGit w)), op)]\<rparr>))"

definition statOf :: "wsEnv \<Rightarrow> string \<Rightarrow> statResult ws" where
  "statOf env path = asks (\<lambda>w. eStat env (histOf w) path)"

definition readFile :: "wsEnv \<Rightarrow> string \<Rightarrow> string option ws" where
  "readFile env path = asks (\<lambda>w. eRead env (histOf w) path)"

definition unstageOversized :: "wsEnv \<Rightarrow> string \<Rightarrow> unit ws" where
  "unstageOversized env dir =
     State (\<lambda>w. ((), w\<lparr>wsGit := unstageOversizedBlobs (eTree env (histOf w)) (eGit env (wsOps w)) dir (wsGit w)\<rparr>))"

section \<open>Recovery counters\<close>

definition recordRecovery :: "string \<Rightarrow> unit ws" where
  "recordRecovery kind = State (\<lambda>w. ((), w\<lparr>wsRecovered := inc kind (wsRecovered w)\<rparr>))"

definition recordLockCleared :: "string \<Rightarrow> unit ws" where
  "recordLockCleared label = State (\<lambda>w. ((), w\<lparr>wsLocks := inc label (wsLocks w)\<rparr>))"

definition recoveryInvalidGit :: string where "recoveryInvalidGit = ''invalid git''"
definition recoveryUnrecoverable :: string where "recoveryUnrecoverable = ''unrecoverable''"
definition recoveryResetAfterAbort :: string where "recoveryResetAfterAbort = ''reset after abort''"
definition recoveryAbortRescue :: string where "recoveryAbortRescue = ''abort rescue''"
definition recoveryDetachedHead :: string where "recoveryDetachedHead = ''detached head''"
definition recoveryRescueCommit :: string where "recoveryRescueCommit = ''rescue commit''"
definition recoveryWrongTask :: string where "recoveryWrongTask = ''wrong task''"
definition recoveryRepoSetChanged :: string where "recoveryRepoSetChanged = ''repo set changed''"

section \<open>Phases A to C: usable, unlocked, nothing in progress\<close>

definition isUsableRepo :: "wsEnv \<Rightarrow> string \<Rightarrow> bool ws" where
  "isUsableRepo env dest = do {
     inside \<leftarrow> gitOk env dest [''rev-parse'', ''--is-inside-work-tree''];
     if inside then gitOk env dest [''rev-parse'', ''--git-dir''] else State_Monad.return False }"

definition gitLockFiles :: "string list" where
  "gitLockFiles = [''index.lock'', ''shallow.lock'', ''HEAD.lock'', ''config.lock'', ''packed-refs.lock'']"

text \<open>The files \<^verbatim>\<open>fs.WalkDir\<close> meets below \<^verbatim>\<open>refs\<close> whose names end in \<^verbatim>\<open>.lock\<close>, as paths from the root.\<close>

fun refLocks :: "string list \<Rightarrow> dirent \<Rightarrow> string list" where
  "refLocks rel (DDir name es) = concat (map (\<lambda>e. refLocks (rel @ [direntName e]) e) es)"
| "refLocks rel (DFile name regular info) = (if hasSuffix (last rel) ''.lock'' then [joinWith ''/'' rel] else [])"

fun removeLocks :: "wsEnv \<Rightarrow> string \<Rightarrow> (string \<times> string) list \<Rightarrow> unit ws" where
  "removeLocks env gitDir [] = State_Monad.return ()"
| "removeLocks env gitDir ((label, path) # ls) = do {
     e \<leftarrow> fsDo env (OpRemove (gitDir @ ''/'' @ path));
     (if e = None then recordLockCleared label else State_Monad.return ());
     removeLocks env gitDir ls }"

definition clearStaleLocks :: "wsEnv \<Rightarrow> string \<Rightarrow> unit ws" where
  "clearStaleLocks env dest = do {
     root \<leftarrow> asks (\<lambda>w. eTree env (histOf w) (pathJoin [dest, ''.git'']));
     (case root of
        None \<Rightarrow> State_Monad.return ()
      | Some _ \<Rightarrow> do {
          removeLocks env (pathJoin [dest, ''.git'']) (map (\<lambda>n. (n, n)) gitLockFiles);
          refs \<leftarrow> asks (\<lambda>w. eTree env (histOf w) (pathJoin [dest, ''.git'', ''refs'']));
          removeLocks env (pathJoin [dest, ''.git''])
            (case refs of None \<Rightarrow> [] | Some t \<Rightarrow> map (\<lambda>p. (''refs'', p)) (refLocks [''refs''] t)) }) }"

record inProgressOp =
  opMarker :: string
  opKind :: string
  opAbort :: "string list"
  opFallback :: "string list"

definition inProgressOps :: "inProgressOp list" where
  "inProgressOps =
     [\<lparr>opMarker = ''MERGE_HEAD'', opKind = ''merge'', opAbort = [''merge'', ''--abort''], opFallback = [''reset'', ''--merge'']\<rparr>,
      \<lparr>opMarker = ''rebase-merge'', opKind = ''rebase'', opAbort = [''rebase'', ''--abort''], opFallback = []\<rparr>,
      \<lparr>opMarker = ''rebase-apply'', opKind = ''rebase'', opAbort = [''rebase'', ''--abort''], opFallback = [''am'', ''--abort'']\<rparr>,
      \<lparr>opMarker = ''CHERRY_PICK_HEAD'', opKind = ''cherry pick'', opAbort = [''cherry-pick'', ''--abort''], opFallback = []\<rparr>,
      \<lparr>opMarker = ''REVERT_HEAD'', opKind = ''revert'', opAbort = [''revert'', ''--abort''], opFallback = []\<rparr>,
      \<lparr>opMarker = ''BISECT_LOG'', opKind = ''bisect'', opAbort = [''bisect'', ''reset''], opFallback = []\<rparr>]"

definition abortNote :: "string \<Rightarrow> string" where
  "abortNote kind =
     ''an interrupted '' @ kind @ '' from the previous session was aborted; the working tree is back at the branch tip, and whatever that ''
     @ kind @ '' was meant to achieve has NOT been applied''"

fun abortOps :: "wsEnv \<Rightarrow> string \<Rightarrow> inProgressOp list \<Rightarrow> (string list \<times> bool) ws" where
  "abortOps env dest [] = State_Monad.return ([], False)"
| "abortOps env dest (op # ops) = do {
     st \<leftarrow> statOf env (pathJoin [pathJoin [dest, ''.git''], opMarker op]);
     (if st \<noteq> Present then abortOps env dest ops
      else do {
        ok1 \<leftarrow> gitOk env dest (opAbort op);
        ok \<leftarrow> (if \<not> ok1 \<and> opFallback op \<noteq> [] then gitOk env dest (opFallback op) else State_Monad.return ok1);
        (if \<not> ok then do { (notes, _) \<leftarrow> abortOps env dest ops; State_Monad.return (notes, True) }
         else do {
           recordRecovery (''aborted '' @ opKind op);
           (notes, failed) \<leftarrow> abortOps env dest ops;
           State_Monad.return (abortNote (opKind op) # notes, failed) }) }) }"

definition abortInProgress :: "wsEnv \<Rightarrow> string \<Rightarrow> (string list \<times> bool) ws" where
  "abortInProgress env dest = abortOps env dest inProgressOps"

section \<open>Phase D: the working tree\<close>

definition rescueCommitMessage :: string where
  "rescueCommitMessage = ''tatara bootstrap: rescue uncommitted work from an interrupted session''"

definition rescueBranch :: string where "rescueBranch = ''tatara-bootstrap-rescue''"
definition abortRescueBranch :: string where "abortRescueBranch = ''tatara-bootstrap-rescue-aborted''"
definition abortRescueMessage :: string where
  "abortRescueMessage = ''tatara bootstrap: preserve a session that could not be cleanly aborted''"
definition maxRescueBranchAttempts :: nat where "maxRescueBranchAttempts = 9"

text \<open>One decimal digit is enough for the suffixes.\<close>

definition rescueBranchNames :: "string \<Rightarrow> string list" where
  "rescueBranchNames base =
     base # map (\<lambda>i. base @ ''-'' @ [char_of (48 + i)]) [2 ..< maxRescueBranchAttempts + 1]"

fun firstName :: "(string \<Rightarrow> bool ws) \<Rightarrow> string list \<Rightarrow> string ws" where
  "firstName try [] = State_Monad.return []"
| "firstName try (n # ns) = do { ok \<leftarrow> try n; if ok then State_Monad.return n else firstName try ns }"

definition claimRescueBranch :: "wsEnv \<Rightarrow> string \<Rightarrow> string \<Rightarrow> string ws" where
  "claimRescueBranch env dest base = firstName (\<lambda>n. gitOk env dest [''checkout'', ''-b'', n]) (rescueBranchNames base)"

definition nameRescueBranch :: "wsEnv \<Rightarrow> string \<Rightarrow> string \<Rightarrow> string ws" where
  "nameRescueBranch env dest base = firstName (\<lambda>n. gitOk env dest [''branch'', n]) (rescueBranchNames base)"

definition headSHA :: "wsEnv \<Rightarrow> string \<Rightarrow> string ws" where
  "headSHA env dest = do {
     head \<leftarrow> readFile env (pathJoin [dest, ''.git'', ''HEAD'']);
     (case head of
        None \<Rightarrow> State_Monad.return []
      | Some h \<Rightarrow> (let s = trimSpace h in
          if hasPrefix s ''ref: '' then
            (let ref = drop 5 s in
             if \<not> hasPrefix ref ''refs/'' \<or> strContains ref ''..'' then State_Monad.return []
             else do {
               b \<leftarrow> readFile env (pathJoin [dest, ''.git'', ref]);
               State_Monad.return (case b of None \<Rightarrow> [] | Some x \<Rightarrow> if length (trimSpace x) < 7 then [] else trimSpace x) })
          else State_Monad.return (if length s < 7 then [] else s))) }"

definition shortSHA :: "string \<Rightarrow> string" where
  "shortSHA sha = (if sha = [] then ''an unnamed commit'' else if length sha > 12 then take 12 sha else sha)"

definition backtick :: string where "backtick = [CHR 0x60]"

definition rescueNote :: "string \<Rightarrow> string" where
  "rescueNote sha =
     ''uncommitted work from the previous session was committed for you as '' @ backtick @ shortSHA sha @ backtick @ '' (''
     @ rescueCommitMessage
     @ ''); review it and fold it into your own commits rather than assuming it is finished''"

definition detachedNote :: "string \<Rightarrow> string" where
  "detachedNote name =
     ''. HEAD was detached at the time, so that commit is also kept on branch '' @ backtick @ name @ backtick
     @ '', which exists only in this workspace - nothing pushes it for you''"

definition requiredNote :: "string \<Rightarrow> string \<Rightarrow> string" where
  "requiredNote branch sha =
     ''the previous session was interrupted inside a git operation that could NOT be cleanly aborted, so bootstrap could not tell what state it was in. ''
     @ ''The working tree exactly as it stood has been preserved on branch '' @ backtick @ branch @ backtick @ '' at ''
     @ backtick @ shortSHA sha @ backtick @ '', which exists only in this workspace - nothing pushes it for you. ''
     @ ''That commit may contain conflict markers or a half-applied change; it was kept off your task branch for exactly that reason. ''
     @ ''Inspect it ('' @ backtick @ ''git show '' @ shortSHA sha @ backtick @ '', '' @ backtick @ ''git diff '' @ branch @ backtick
     @ ''), salvage anything real onto your task branch, and only then continue''"

datatype wsError = RemoveUnusable string | RemoveUnrecoverable string

text \<open>The notes, the required notes and whether the checkout was wiped.\<close>

type_synonym rescueResult = "string list \<times> string list \<times> bool \<times> wsError option"

definition wipeUnrecoverable :: "wsEnv \<Rightarrow> string \<Rightarrow> wsError option ws" where
  "wipeUnrecoverable env dest = do {
     e \<leftarrow> fsDo env (OpRemoveAll dest);
     (case e of
        Some err \<Rightarrow> State_Monad.return (Some (RemoveUnrecoverable err))
      | None \<Rightarrow> do { recordRecovery recoveryUnrecoverable; State_Monad.return None }) }"

definition wipeOut :: "wsEnv \<Rightarrow> string \<Rightarrow> rescueResult ws" where
  "wipeOut env dest = do { e \<leftarrow> wipeUnrecoverable env dest; State_Monad.return ([], [], True, e) }"

definition rescueUnabortable :: "wsEnv \<Rightarrow> string \<Rightarrow> rescueResult ws" where
  "rescueUnabortable env dest = do {
     branch \<leftarrow> claimRescueBranch env dest abortRescueBranch;
     (if branch = [] then wipeOut env dest
      else do {
        added \<leftarrow> gitOk env dest [''add'', ''-A''];
        (if \<not> added then wipeOut env dest
         else do {
           unstageOversized env dest;
           nothing \<leftarrow> gitOk env dest [''diff'', ''--cached'', ''--quiet''];
           (if nothing then do { gitRun env dest [''checkout'', ''-'']; State_Monad.return ([], [], False, None) }
            else do {
              committed \<leftarrow> gitOk env dest [''commit'', ''--no-verify'', ''-m'', abortRescueMessage];
              (if \<not> committed then wipeOut env dest
               else do {
                 sha \<leftarrow> headSHA env dest;
                 gitRun env dest [''checkout'', ''-''];
                 recordRecovery recoveryAbortRescue;
                 State_Monad.return ([], [requiredNote branch sha], False, None) }) }) }) }) }"

text \<open>The commit of a dirty tree whose interrupted operations are all undone.\<close>

definition rescueDirty :: "wsEnv \<Rightarrow> string \<Rightarrow> bool \<Rightarrow> rescueResult ws" where
  "rescueDirty env dest detached = do {
     added \<leftarrow> gitOk env dest [''add'', ''-A''];
     (if \<not> added then State_Monad.return ([], [], False, None)
      else do {
        unstageOversized env dest;
        nothing \<leftarrow> gitOk env dest [''diff'', ''--cached'', ''--quiet''];
        (if nothing then State_Monad.return ([], [], False, None)
         else do {
           committed \<leftarrow> gitOk env dest [''commit'', ''--no-verify'', ''-m'', rescueCommitMessage];
           (if \<not> committed then State_Monad.return ([], [], False, None)
            else do {
              sha \<leftarrow> headSHA env dest;
              name \<leftarrow> (if detached then nameRescueBranch env dest rescueBranch else State_Monad.return []);
              recordRecovery recoveryRescueCommit;
              State_Monad.return ([rescueNote sha @ (if name \<noteq> [] then detachedNote name else [])], [], False, None) }) }) }) }"

definition rescueWorkingTree :: "wsEnv \<Rightarrow> string \<Rightarrow> bool \<Rightarrow> rescueResult ws" where
  "rescueWorkingTree env dest abortFailed = do {
     same \<leftarrow> gitOk env dest [''diff'', ''--quiet''];
     clean \<leftarrow> (if \<not> same then State_Monad.return False else gitOk env dest [''diff'', ''--cached'', ''--quiet'']);
     (if abortFailed then
        (if clean then do {
           gitRun env dest [''reset'', ''--hard'', ''HEAD''];
           recordRecovery recoveryResetAfterAbort;
           State_Monad.return ([], [], False, None) }
         else rescueUnabortable env dest)
      else do {
        attached \<leftarrow> gitOk env dest [''symbolic-ref'', ''-q'', ''HEAD''];
        (if \<not> attached then recordRecovery recoveryDetachedHead else State_Monad.return ());
        (if clean then State_Monad.return ([], [], False, None) else rescueDirty env dest (\<not> attached)) }) }"

section \<open>The four phases\<close>

record WorkspacePrep =
  wpWiped :: bool
  wpNotes :: "string list"
  wpRequired :: "string list"

definition noPrep :: WorkspacePrep where
  "noPrep = \<lparr>wpWiped = False, wpNotes = [], wpRequired = []\<rparr>"

definition PrepareWorkspace :: "wsEnv \<Rightarrow> string \<Rightarrow> (WorkspacePrep \<times> wsError option) ws" where
  "PrepareWorkspace env dest = do {
     st \<leftarrow> statOf env (pathJoin [dest, ''.git'']);
     (if st \<noteq> Present then State_Monad.return (noPrep, None)
      else do {
        usable \<leftarrow> isUsableRepo env dest;
        (if \<not> usable then do {
           e \<leftarrow> fsDo env (OpRemoveAll dest);
           (case e of
              Some err \<Rightarrow> State_Monad.return (noPrep, Some (RemoveUnusable err))
            | None \<Rightarrow> do {
                recordRecovery recoveryInvalidGit;
                State_Monad.return (noPrep\<lparr>wpWiped := True\<rparr>, None) }) }
         else do {
           clearStaleLocks env dest;
           (abortNotes, abortFailed) \<leftarrow> abortInProgress env dest;
           (treeNotes, required, wiped, err) \<leftarrow> rescueWorkingTree env dest abortFailed;
           State_Monad.return
             (case err of
                Some e \<Rightarrow> (noPrep\<lparr>wpNotes := abortNotes\<rparr>, Some e)
              | None \<Rightarrow>
                  if wiped then (noPrep\<lparr>wpWiped := True\<rparr>, None)
                  else (\<lparr>wpWiped = False, wpNotes = abortNotes @ treeNotes, wpRequired = required\<rparr>, None)) }) }) }"

section \<open>The task branch\<close>

definition reconcileUpToDate :: string where "reconcileUpToDate = ''up_to_date''"
definition reconcileMerged :: string where "reconcileMerged = ''merged''"
definition reconcileConflict :: string where "reconcileConflict = ''conflict''"
definition reconcileFetchFail :: string where "reconcileFetchFail = ''fetch_fail''"
definition reconcileBaseUnresolved :: string where "reconcileBaseUnresolved = ''base_unresolved''"
definition reconcileLocalOnly :: string where "reconcileLocalOnly = ''local_only''"
definition reconcileLocalAhead :: string where "reconcileLocalAhead = ''local_ahead''"
definition reconcileRemoteAhead :: string where "reconcileRemoteAhead = ''remote_ahead''"
definition reconcileLocalRemoteMerged :: string where "reconcileLocalRemoteMerged = ''local_remote_merged''"
definition reconcileLocalRemoteConflict :: string where "reconcileLocalRemoteConflict = ''local_remote_conflict''"

lemmas reconcile_results = reconcileUpToDate_def reconcileMerged_def reconcileConflict_def reconcileFetchFail_def
  reconcileBaseUnresolved_def reconcileLocalOnly_def reconcileLocalAhead_def reconcileRemoteAhead_def
  reconcileLocalRemoteMerged_def reconcileLocalRemoteConflict_def

definition unshallowBestEffort :: "wsEnv \<Rightarrow> string \<Rightarrow> bool \<Rightarrow> unit ws" where
  "unshallowBestEffort env dir fullClone =
     (if fullClone then State_Monad.return ()
      else do { gitRun env dir [''fetch'', ''--unshallow'', ''origin'']; State_Monad.return () })"

definition mergeRemoteTaskBranch :: "wsEnv \<Rightarrow> string \<Rightarrow> string \<Rightarrow> string ws" where
  "mergeRemoteTaskBranch env dir taskBranch = do {
     ahead \<leftarrow> gitOk env dir [''merge-base'', ''--is-ancestor'', ''FETCH_HEAD'', ''HEAD''];
     (if ahead then State_Monad.return reconcileLocalAhead
      else do {
        behind \<leftarrow> gitOk env dir [''merge-base'', ''--is-ancestor'', ''HEAD'', ''FETCH_HEAD''];
        (if behind then do {
           ff \<leftarrow> gitOk env dir [''merge'', ''--ff-only'', ''FETCH_HEAD''];
           State_Monad.return (if ff then reconcileRemoteAhead else reconcileLocalRemoteConflict) }
         else do {
           merged \<leftarrow> gitOk env dir
             [''merge'', ''-m'', ''tatara bootstrap: reconcile local and remote '' @ taskBranch, ''FETCH_HEAD''];
           (if \<not> merged then do {
              gitRun env dir [''merge'', ''--abort''];
              State_Monad.return reconcileLocalRemoteConflict }
            else State_Monad.return reconcileLocalRemoteMerged) }) }) }"

datatype checkoutErr = CheckoutLocal string | CheckoutNew string | CheckoutReset string | UnshallowErr string
  | FetchTask string | FetchOrigin string

definition mergeBase :: "wsEnv \<Rightarrow> string \<Rightarrow> string \<Rightarrow> string \<Rightarrow> (string \<times> checkoutErr option) ws" where
  "mergeBase env dir taskBranch baseRef = do {
     current \<leftarrow> gitOk env dir [''merge-base'', ''--is-ancestor'', baseRef, ''HEAD''];
     (if current then State_Monad.return (reconcileUpToDate, None)
      else do {
        merged \<leftarrow> gitOk env dir
          [''merge'', ''-m'', ''tatara bootstrap: reconcile '' @ taskBranch @ '' with '' @ baseRef, baseRef];
        (if \<not> merged then do {
           gitRun env dir [''merge'', ''--abort''];
           State_Monad.return (reconcileConflict, None) }
         else State_Monad.return (reconcileMerged, None)) }) }"

definition reconcileWithBase :: "wsEnv \<Rightarrow> string \<Rightarrow> string \<Rightarrow> string \<Rightarrow> (string \<times> checkoutErr option) ws" where
  "reconcileWithBase env dir taskBranch baseBranch = do {
     e \<leftarrow> gitRun env dir [''fetch'', ''origin''];
     (case e of
        Some err \<Rightarrow> State_Monad.return (reconcileFetchFail, Some (FetchOrigin err))
      | None \<Rightarrow>
          if baseBranch \<noteq> [] then mergeBase env dir taskBranch (''origin/'' @ baseBranch)
          else do {
            known \<leftarrow> gitOk env dir [''remote'', ''set-head'', ''origin'', ''--auto''];
            (if \<not> known then State_Monad.return (reconcileBaseUnresolved, None)
             else mergeBase env dir taskBranch ''origin/HEAD'') }) }"

text \<open>What the four arms hand to the reconciliation with the base: a local result, or the early error.\<close>

definition checkoutArm ::
  "wsEnv \<Rightarrow> string \<Rightarrow> string \<Rightarrow> bool \<Rightarrow> bool \<Rightarrow> bool \<Rightarrow> bool \<Rightarrow> (checkoutErr + string) ws" where
  "checkoutArm env dir taskBranch fullClone reconcile localExists remoteExists =
     (if localExists \<and> \<not> remoteExists then do {
        e \<leftarrow> gitRun env dir [''checkout'', taskBranch];
        (case e of
           Some err \<Rightarrow> State_Monad.return (Inl (CheckoutLocal err))
         | None \<Rightarrow> do {
             unshallowBestEffort env dir fullClone;
             (if reconcile
              then do { gitRun env dir [''push'', ''--no-verify'', ''-u'', ''origin'', taskBranch]; State_Monad.return () }
              else State_Monad.return ());
             State_Monad.return (Inr reconcileLocalOnly) }) }
      else if \<not> localExists then do {
        u \<leftarrow> (if \<not> fullClone then gitRun env dir [''fetch'', ''--unshallow'', ''origin''] else State_Monad.return None);
        (case u of
           Some err \<Rightarrow> State_Monad.return (Inl (UnshallowErr err))
         | None \<Rightarrow> do {
             f \<leftarrow> gitRun env dir [''fetch'', ''origin'', taskBranch];
             (case f of
                Some err \<Rightarrow> State_Monad.return (Inl (FetchTask err))
              | None \<Rightarrow> do {
                  c \<leftarrow> gitRun env dir [''checkout'', ''-B'', taskBranch, ''FETCH_HEAD''];
                  State_Monad.return (case c of Some err \<Rightarrow> Inl (CheckoutReset err) | None \<Rightarrow> Inr []) }) }) }
      else do {
        e \<leftarrow> gitRun env dir [''checkout'', taskBranch];
        (case e of
           Some err \<Rightarrow> State_Monad.return (Inl (CheckoutLocal err))
         | None \<Rightarrow> do {
             unshallowBestEffort env dir fullClone;
             f \<leftarrow> gitRun env dir [''fetch'', ''origin'', taskBranch];
             (case f of
                Some err \<Rightarrow> State_Monad.return (Inl (FetchTask err))
              | None \<Rightarrow> do {
                  r \<leftarrow> mergeRemoteTaskBranch env dir taskBranch;
                  State_Monad.return (Inr r) }) }) })"

text \<open>Whether the branch was resumed, the two results and the error.\<close>

type_synonym checkoutResult = "bool \<times> string \<times> string \<times> checkoutErr option"

definition checkoutKnown ::
  "wsEnv \<Rightarrow> string \<Rightarrow> string \<Rightarrow> string \<Rightarrow> bool \<Rightarrow> bool \<Rightarrow> bool \<Rightarrow> checkoutResult ws" where
  "checkoutKnown env dir taskBranch baseBranch fullClone reconcile localExists = do {
     remoteExists \<leftarrow> gitOk env dir [''ls-remote'', ''--exit-code'', ''--heads'', ''origin'', taskBranch];
     (if \<not> localExists \<and> \<not> remoteExists then do {
        e \<leftarrow> gitRun env dir [''checkout'', ''-b'', taskBranch];
        State_Monad.return (False, [], [], map_option CheckoutNew e) }
      else do {
        arm \<leftarrow> checkoutArm env dir taskBranch fullClone reconcile localExists remoteExists;
        (case arm of
           Inl err \<Rightarrow> State_Monad.return (False, [], [], Some err)
         | Inr localResult \<Rightarrow>
             if \<not> reconcile then State_Monad.return (True, localResult, [], None)
             else do {
               (baseResult, err) \<leftarrow> reconcileWithBase env dir taskBranch baseBranch;
               State_Monad.return (True, localResult, baseResult, err) }) }) }"

definition checkoutTaskBranch ::
  "wsEnv \<Rightarrow> string \<Rightarrow> string \<Rightarrow> string \<Rightarrow> bool \<Rightarrow> bool \<Rightarrow> bool \<Rightarrow> checkoutResult ws" where
  "checkoutTaskBranch env dir taskBranch baseBranch fullClone reconcile persistent = do {
     localExists \<leftarrow> (if persistent then gitOk env dir [''rev-parse'', ''--verify'', ''--quiet'', ''refs/heads/'' @ taskBranch]
                    else State_Monad.return False);
     checkoutKnown env dir taskBranch baseBranch fullClone reconcile localExists }"

section \<open>A calculus over the log\<close>

text \<open>
  \<open>traces R p\<close>: whatever git and the file system answer, the commands \<open>p\<close> runs are related by \<open>R\<close> to
  the worlds before and after it. The locale lists the laws under which this composes, its extension
  those under which it also covers programs that change the file system.
\<close>

definition gitLog :: "wsWorld \<Rightarrow> gitCmd list" where
  "gitLog w = gwLog (wsGit w)"

definition traces :: "(wsWorld \<Rightarrow> gitCmd list \<Rightarrow> wsWorld \<Rightarrow> bool) \<Rightarrow> 'a ws \<Rightarrow> bool" where
  "traces R p \<longleftrightarrow> (\<forall>w. \<exists>cs. gitLog (snd (run_state p w)) = gitLog w @ cs \<and> R w cs (snd (run_state p w)))"

locale trace_law =
  fixes R :: "wsWorld \<Rightarrow> gitCmd list \<Rightarrow> wsWorld \<Rightarrow> bool"
  assumes quiet: "gitLog w' = gitLog w \<Longrightarrow> wsOps w' = wsOps w \<Longrightarrow> R w [] w'"
    and append: "gitLog w1 = gitLog w @ a \<Longrightarrow> gitLog w2 = gitLog w1 @ b \<Longrightarrow> R w a w1 \<Longrightarrow> R w1 b w2 \<Longrightarrow> R w (a @ b) w2"
begin

lemma t_return: "traces R (State_Monad.return a)"
  by (simp add: traces_def quiet)

lemma t_bind:
  assumes "traces R p" "\<And>x. traces R (f x)"
  shows "traces R (State_Monad.bind p f)"
  unfolding traces_def
proof
  fix w
  obtain x w1 where p: "run_state p w = (x, w1)" by (cases "run_state p w")
  obtain w2 where w2: "w2 = snd (run_state (f x) w1)" by simp
  obtain a where a: "gitLog w1 = gitLog w @ a" "R w a w1" using assms(1) p unfolding traces_def by (metis snd_conv)
  obtain b where b: "gitLog w2 = gitLog w1 @ b" "R w1 b w2" using assms(2) unfolding w2 traces_def by blast
  have "R w (a @ b) w2" using append [OF a(1) b(1) a(2) b(2)] .
  with p a b w2 show "\<exists>cs. gitLog (snd (run_state (State_Monad.bind p f) w)) = gitLog w @ cs
      \<and> R w cs (snd (run_state (State_Monad.bind p f) w))" by auto
qed

lemma t_gitRun:
  assumes "\<And>w w'. gitLog w' = gitLog w @ [(dir, args)] \<Longrightarrow> wsOps w' = wsOps w \<Longrightarrow> R w [(dir, args)] w'"
  shows "traces R (gitRun env dir args)"
  using assms by (simp add: traces_def gitRun_def runGit_def gitLog_def)

lemma t_gitOk:
  assumes "\<And>w w'. gitLog w' = gitLog w @ [(dir, args)] \<Longrightarrow> wsOps w' = wsOps w \<Longrightarrow> R w [(dir, args)] w'"
  shows "traces R (gitOk env dir args)"
  unfolding gitOk_def by (intro t_bind t_gitRun t_return assms)

lemma t_asks: "traces R (asks f)" "traces R (statOf env path)" "traces R (readFile env path)"
  by (simp_all add: traces_def asks_def statOf_def readFile_def quiet)

lemma t_record: "traces R (recordRecovery k)" "traces R (recordLockCleared k)"
  by (simp_all add: traces_def recordRecovery_def recordLockCleared_def gitLog_def quiet)

lemma t_if: "(b \<Longrightarrow> traces R p) \<Longrightarrow> (\<not> b \<Longrightarrow> traces R q) \<Longrightarrow> traces R (if b then p else q)"
  by simp

lemma t_option:
  "traces R p \<Longrightarrow> (\<And>x. traces R (f x)) \<Longrightarrow> traces R (case e of None \<Rightarrow> p | Some x \<Rightarrow> f x)"
  by (cases e) auto

lemma t_sum:
  "(\<And>x. traces R (f x)) \<Longrightarrow> (\<And>x. traces R (g x)) \<Longrightarrow> traces R (case s of Inl x \<Rightarrow> f x | Inr y \<Rightarrow> g y)"
  by (cases s) auto

lemma t_prod: "(\<And>x y. traces R (f x y)) \<Longrightarrow> traces R (case s of (x, y) \<Rightarrow> f x y)"
  by (cases s) auto

lemmas t_rules = t_bind t_if t_option t_sum t_prod t_return t_asks t_record t_gitOk t_gitRun

end

locale trace_law_fs = trace_law +
  assumes fs_quiet: "gitLog w' = gitLog w \<Longrightarrow> R w [] w'"
begin

lemma t_fsDo: "traces R (fsDo env op)"
  by (simp add: traces_def fsDo_def gitLog_def fs_quiet)

lemma t_removeLocks: "traces R (removeLocks env d ls)"
proof (induction ls)
  case (Cons l ls)
  obtain label path where l: "l = (label, path)" by (cases l)
  show ?case unfolding l removeLocks.simps by (intro t_rules t_fsDo Cons)
qed (simp add: t_return)

lemma t_clearStaleLocks: "traces R (clearStaleLocks env dest)"
  unfolding clearStaleLocks_def by (intro t_rules t_removeLocks)

end

text \<open>Every command satisfies a predicate.\<close>

definition emitsR :: "(gitCmd \<Rightarrow> bool) \<Rightarrow> wsWorld \<Rightarrow> gitCmd list \<Rightarrow> wsWorld \<Rightarrow> bool" where
  "emitsR C w cs w' = list_all C cs"

abbreviation emits :: "(gitCmd \<Rightarrow> bool) \<Rightarrow> 'a ws \<Rightarrow> bool" where
  "emits C \<equiv> traces (emitsR C)"

interpretation emitting: trace_law_fs "emitsR C" for C
  by unfold_locales (simp_all add: emitsR_def)

lemma emits_gitOk: "C (dir, args) \<Longrightarrow> emits C (gitOk env dir args)" "C (dir, args) \<Longrightarrow> emits C (gitRun env dir args)"
  by (auto intro!: emitting.t_gitOk emitting.t_gitRun simp: emitsR_def)

lemma emits_unstage:
  "(\<And>rel. C (dir, [''reset'', ''-q'', ''--'', rel])) \<Longrightarrow> emits C (unstageOversized env dir)"
  by (auto simp: traces_def emitsR_def unstageOversized_def gitLog_def resets_def list_all_iff split: option.split)

lemma emits_firstName: "(\<And>n. n \<in> set ns \<Longrightarrow> emits C (try n)) \<Longrightarrow> emits C (firstName try ns)"
proof (induction ns)
  case (Cons n ns)
  then show ?case unfolding firstName.simps by (intro emitting.t_rules) auto
qed (simp add: emitting.t_return)

lemmas emits_rules = emitting.t_bind emitting.t_if emitting.t_option emitting.t_sum emitting.t_prod emitting.t_return
  emitting.t_asks emitting.t_record emitting.t_fsDo emitting.t_clearStaleLocks emits_gitOk emits_unstage emits_firstName

section \<open>Commands that only add\<close>

text \<open>
  A plain reference: not an option, not a forced or renaming refspec. The commands that cannot drop
  a commit from a local branch: they read, record the tree, create a branch, move to one, merge, or
  abandon an unfinished operation.
\<close>

definition plainRef :: "string \<Rightarrow> bool" where
  "plainRef b \<longleftrightarrow> b \<noteq> [] \<and> hd b \<noteq> CHR ''-'' \<and> hd b \<noteq> CHR ''+'' \<and> CHR '':'' \<notin> set b"

definition additive :: "gitCmd \<Rightarrow> bool" where
  "additive cmd =
     (case snd cmd of
        [] \<Rightarrow> False
      | c # as \<Rightarrow>
          c \<in> {''rev-parse'', ''ls-remote'', ''diff'', ''symbolic-ref'', ''merge-base''}
          \<or> as = [''--abort''] \<and> c \<in> {''merge'', ''rebase'', ''am'', ''cherry-pick'', ''revert''}
          \<or> c = ''bisect'' \<and> as = [''reset''] \<or> c = ''add'' \<and> as = [''-A'']
          \<or> c = ''remote'' \<and> as = [''set-head'', ''origin'', ''--auto'']
          \<or> c = ''fetch'' \<and> (case as of [x] \<Rightarrow> x = ''origin''
                             | [x, y] \<Rightarrow> x = ''--unshallow'' \<and> y = ''origin'' \<or> x = ''origin'' \<and> plainRef y | _ \<Rightarrow> False)
          \<or> c = ''checkout'' \<and> (case as of [x] \<Rightarrow> x = ''-'' \<or> plainRef x | [x, y] \<Rightarrow> x = ''-b'' \<and> plainRef y | _ \<Rightarrow> False)
          \<or> c = ''branch'' \<and> (case as of [x] \<Rightarrow> plainRef x | _ \<Rightarrow> False)
          \<or> c = ''merge'' \<and> (case as of [x, y] \<Rightarrow> x = ''--ff-only'' | [x, y, z] \<Rightarrow> x = ''-m'' | _ \<Rightarrow> False)
          \<or> c = ''reset'' \<and> (case as of [x] \<Rightarrow> x = ''--merge'' | [x, y, z] \<Rightarrow> x = ''-q'' \<and> y = ''--'' | _ \<Rightarrow> False)
          \<or> c = ''commit'' \<and> (case as of [x, y, z] \<Rightarrow> x = ''--no-verify'' \<and> y = ''-m'' | _ \<Rightarrow> False)
          \<or> c = ''push'' \<and> (case as of [x, y, z, b] \<Rightarrow> x = ''--no-verify'' \<and> y = ''-u'' \<and> z = ''origin'' \<and> plainRef b | _ \<Rightarrow> False))"

lemma rescueNames_plain:
  "n \<in> set (rescueBranchNames rescueBranch) \<Longrightarrow> plainRef n" "n \<in> set (rescueBranchNames abortRescueBranch) \<Longrightarrow> plainRef n"
proof -
  have "list_all plainRef (rescueBranchNames rescueBranch)" "list_all plainRef (rescueBranchNames abortRescueBranch)"
    by code_simp+
  then show "n \<in> set (rescueBranchNames rescueBranch) \<Longrightarrow> plainRef n"
    "n \<in> set (rescueBranchNames abortRescueBranch) \<Longrightarrow> plainRef n" by (auto simp: list_all_iff)
qed

lemma isUsableRepo_additive: "emits additive (isUsableRepo env dest)"
  unfolding isUsableRepo_def by (intro emits_rules) (simp_all add: additive_def)

lemma abortOps_additive:
  assumes "\<forall>op \<in> set ops. additive (dest, opAbort op) \<and> (opFallback op \<noteq> [] \<longrightarrow> additive (dest, opFallback op))"
  shows "emits additive (abortOps env dest ops)"
  using assms
proof (induction ops)
  case (Cons op ops)
  then show ?case unfolding abortOps.simps by (intro emits_rules) auto
qed (simp add: emitting.t_return)

lemma abortInProgress_additive: "emits additive (abortInProgress env dest)"
  unfolding abortInProgress_def by (rule abortOps_additive) (simp add: inProgressOps_def additive_def)

lemma rescue_additive:
  "emits additive (rescueUnabortable env dest)" "emits additive (rescueDirty env dest detached)"
proof -
  have w: "emits additive (wipeOut env dest)"
    unfolding wipeOut_def wipeUnrecoverable_def by (intro emits_rules)
  have h: "emits additive (headSHA env dest)"
    unfolding headSHA_def Let_def by (intro emits_rules)
  have c: "emits additive (claimRescueBranch env dest abortRescueBranch)"
    unfolding claimRescueBranch_def by (intro emits_rules) (simp add: additive_def rescueNames_plain(2))
  have n: "emits additive (nameRescueBranch env dest rescueBranch)"
    unfolding nameRescueBranch_def by (intro emits_rules) (simp add: additive_def rescueNames_plain(1))
  show "emits additive (rescueUnabortable env dest)"
    unfolding rescueUnabortable_def by (intro emits_rules w h c) (simp_all add: additive_def)
  show "emits additive (rescueDirty env dest detached)"
    unfolding rescueDirty_def by (intro emits_rules h n) (simp_all add: additive_def)
qed

text \<open>A world with one more command in its log, and the answers read off it.\<close>

definition logCmd :: "string \<Rightarrow> string list \<Rightarrow> wsWorld \<Rightarrow> wsWorld" where
  "logCmd dir args w = w\<lparr>wsGit := (wsGit w)\<lparr>gwLog := gwLog (wsGit w) @ [(dir, args)]\<rparr>\<rparr>"

lemma logCmd_simps [simp]:
  "gitLog (logCmd dir args w) = gitLog w @ [(dir, args)]" "wsOps (logCmd dir args w) = wsOps w"
  by (simp_all add: logCmd_def gitLog_def)

lemma run_gitRun [simp]:
  "run_state (gitRun env dir args) w = (eGit env (wsOps w) (gitLog w) dir args, logCmd dir args w)"
  "run_state (gitOk env dir args) w = (eGit env (wsOps w) (gitLog w) dir args = None, logCmd dir args w)"
  by (simp_all add: gitOk_def gitRun_def runGit_def logCmd_def gitLog_def)

lemma run_record [simp]:
  "gitLog (snd (run_state (recordRecovery k) w)) = gitLog w" "wsOps (snd (run_state (recordRecovery k) w)) = wsOps w"
  by (simp_all add: recordRecovery_def gitLog_def)

lemma emitsE:
  assumes "emits C p"
  obtains cs where "gitLog (snd (run_state p w)) = gitLog w @ cs" "list_all C cs"
  using assms unfolding traces_def emitsR_def by blast

text \<open>A hard reset to HEAD over a tree that both comparisons have just found clean.\<close>

definition cleanReset :: "wsEnv \<Rightarrow> (nat \<times> fsOp) list \<Rightarrow> gitCmd list \<Rightarrow> string \<Rightarrow> gitCmd list \<Rightarrow> bool" where
  "cleanReset env ops l dest cs \<longleftrightarrow>
     cs = [(dest, [''diff'', ''--quiet'']), (dest, [''diff'', ''--cached'', ''--quiet'']), (dest, [''reset'', ''--hard'', ''HEAD''])]
     \<and> eGit env ops l dest [''diff'', ''--quiet''] = None
     \<and> eGit env ops (l @ take 1 cs) dest [''diff'', ''--cached'', ''--quiet''] = None"

lemma rescueWorkingTree_trace:
  "\<exists>cs. gitLog (snd (run_state (rescueWorkingTree env dest failed) w)) = gitLog w @ cs
     \<and> (list_all additive cs
        \<or> cleanReset env (wsOps (snd (run_state (rescueWorkingTree env dest failed) w))) (gitLog w) dest cs)"
proof (cases "failed \<and> eGit env (wsOps w) (gitLog w) dest [''diff'', ''--quiet''] = None
    \<and> eGit env (wsOps w) (gitLog w @ [(dest, [''diff'', ''--quiet''])]) dest [''diff'', ''--cached'', ''--quiet''] = None")
  case True
  then show ?thesis
    by (simp add: rescueWorkingTree_def cleanReset_def recordRecovery_def gitLog_def logCmd_def)
next
  case False
  let ?q = "logCmd dest [''diff'', ''--quiet''] w"
  have dirty: "emits additive (rescueWorkingTree env dest False)"
    unfolding rescueWorkingTree_def by (intro emits_rules rescue_additive) (simp_all add: additive_def)
  show ?thesis
  proof (cases failed)
    case fl: True
    define u where "u = (if eGit env (wsOps w) (gitLog w) dest [''diff'', ''--quiet''] = None
        then logCmd dest [''diff'', ''--cached'', ''--quiet''] ?q else ?q)"
    obtain ds where ds: "gitLog u = gitLog w @ ds" "list_all additive ds"
      by (rule that [of "drop (length (gitLog w)) (gitLog u)"]) (simp_all add: u_def additive_def)
    obtain cs where cs: "gitLog (snd (run_state (rescueUnabortable env dest) u)) = gitLog u @ cs" "list_all additive cs"
      by (rule emitsE [OF rescue_additive(1)])
    have "run_state (rescueWorkingTree env dest failed) w = run_state (rescueUnabortable env dest) u"
      using False fl by (auto simp: rescueWorkingTree_def u_def)
    then show ?thesis using ds cs by auto
  next
    case fl: False
    then show ?thesis using emitsE [OF dirty, of w] by auto
  qed
qed

section \<open>Deleting a checkout\<close>

lemma run_ask [simp]:
  "run_state (asks f) w = (f w, w)" "run_state (statOf env path) w = (eStat env (histOf w) path, w)"
  "run_state (readFile env path) w = (eRead env (histOf w) path, w)"
  by (simp_all add: asks_def statOf_def readFile_def)

lemma headSHA_world [simp]: "snd (run_state (headSHA env dest) w) = w"
  by (auto simp: headSHA_def Let_def split: option.splits)

lemma unstage_ops [simp]: "wsOps (snd (run_state (unstageOversized env dir) w)) = wsOps w"
  by (simp add: unstageOversized_def)

lemma firstName_run:
  assumes "run_state (firstName (\<lambda>n. gitOk env dest (f n)) ns) w = (name, w')"
  shows "wsOps w' = wsOps w
    \<and> (name = [] \<longrightarrow> ns \<noteq> [] \<longrightarrow> [] \<notin> set ns \<longrightarrow>
        (\<exists>l. gitLog w' = l @ [(dest, f (last ns))] \<and> eGit env (wsOps w) l dest (f (last ns)) \<noteq> None))"
  using assms
proof (induction ns arbitrary: w)
  case (Cons n ns)
  show ?case
  proof (cases "eGit env (wsOps w) (gitLog w) dest (f n) = None")
    case True
    with Cons.prems show ?thesis by auto
  next
    case False
    with Cons.prems have r: "run_state (firstName (\<lambda>n. gitOk env dest (f n)) ns) (logCmd dest (f n) w) = (name, w')" by simp
    show ?thesis
    proof (cases "ns = []")
      case True
      with r False show ?thesis by auto
    next
      case ne: False
      with Cons.IH [OF r] show ?thesis by auto
    qed
  qed
qed simp

text \<open>The last command of a log failed, and is one of the given ones.\<close>

definition failedLast :: "wsEnv \<Rightarrow> (nat \<times> fsOp) list \<Rightarrow> string \<Rightarrow> string list list \<Rightarrow> gitCmd list \<Rightarrow> bool" where
  "failedLast env ops dest S log \<longleftrightarrow>
     log \<noteq> [] \<and> fst (last log) = dest \<and> snd (last log) \<in> set S \<and> eGit env ops (butlast log) dest (snd (last log)) \<noteq> None"

text \<open>The steps whose failure leaves no way to preserve a tree, and the two probes of a repository.\<close>

definition rescueSteps :: "string list list" where
  "rescueSteps = [[''checkout'', ''-b'', last (rescueBranchNames abortRescueBranch)], [''add'', ''-A''],
     [''commit'', ''--no-verify'', ''-m'', abortRescueMessage]]"

definition probeSteps :: "string list list" where
  "probeSteps = [[''rev-parse'', ''--is-inside-work-tree''], [''rev-parse'', ''--git-dir'']]"

lemma run_wipeOut:
  "wsOps (snd (run_state (wipeOut env dest) w)) = wsOps w @ [(length (gitLog w), OpRemoveAll dest)]
   \<and> gitLog (snd (run_state (wipeOut env dest) w)) = gitLog w
   \<and> fst (snd (snd (fst (run_state (wipeOut env dest) w))))"
  by (auto simp: wipeOut_def wipeUnrecoverable_def fsDo_def recordRecovery_def gitLog_def split: option.split)

lemma rescueUnabortable_ops:
  fixes env dest w defines "w' \<equiv> snd (run_state (rescueUnabortable env dest) w)"
  shows "wsOps w' = wsOps w
    \<or> wsOps w' = wsOps w @ [(length (gitLog w'), OpRemoveAll dest)] \<and> failedLast env (wsOps w) dest rescueSteps (gitLog w')"
proof -
  obtain name w1 where c: "run_state (claimRescueBranch env dest abortRescueBranch) w = (name, w1)"
    by (cases "run_state (claimRescueBranch env dest abortRescueBranch) w")
  note f = firstName_run [OF c [unfolded claimRescueBranch_def]]
  have names: "rescueBranchNames abortRescueBranch \<noteq> []" "[] \<notin> set (rescueBranchNames abortRescueBranch)"
    by (auto simp: rescueBranchNames_def abortRescueBranch_def)
  let ?a = "logCmd dest [''add'', ''-A''] w1"
  obtain u where u: "u = snd (run_state (unstageOversized env dest) ?a)" "wsOps u = wsOps w" using f by simp
  let ?d = "logCmd dest [''diff'', ''--cached'', ''--quiet''] u"
  let ?c = "logCmd dest [''commit'', ''--no-verify'', ''-m'', abortRescueMessage] ?d"
  define okA where "okA \<longleftrightarrow> eGit env (wsOps w) (gitLog w1) dest [''add'', ''-A''] = None"
  define okD where "okD \<longleftrightarrow> eGit env (wsOps w) (gitLog u) dest [''diff'', ''--cached'', ''--quiet''] = None"
  define okC where "okC \<longleftrightarrow> eGit env (wsOps w) (gitLog ?d) dest [''commit'', ''--no-verify'', ''-m'', abortRescueMessage] = None"
  note ok = okA_def okD_def okC_def
  consider (none) "name = []" | (add) "name \<noteq> []" "\<not> okA" | (commit) "name \<noteq> []" okA "\<not> okD" "\<not> okC"
    | (kept) "name \<noteq> []" okA "okD \<or> okC"
    by blast
  then show ?thesis
  proof cases
    case none
    then have "w' = snd (run_state (wipeOut env dest) w1)" by (simp add: w'_def rescueUnabortable_def c)
    then show ?thesis
      using run_wipeOut [of env dest w1] f none names by (auto simp: failedLast_def rescueSteps_def)
  next
    case add
    then have "w' = snd (run_state (wipeOut env dest) ?a)" using f by (simp add: w'_def rescueUnabortable_def c ok)
    then show ?thesis using run_wipeOut [of env dest ?a] f add by (auto simp: ok failedLast_def rescueSteps_def)
  next
    case commit
    then have "w' = snd (run_state (wipeOut env dest) ?c)"
      using f u by (auto simp: w'_def rescueUnabortable_def c split_def ok)
    then show ?thesis using run_wipeOut [of env dest ?c] u commit by (auto simp: ok butlast_append failedLast_def rescueSteps_def)
  next
    case kept
    then have "wsOps w' = wsOps w"
      using f u by (auto simp: w'_def rescueUnabortable_def c split_def ok)
    then show ?thesis by simp
  qed
qed

text \<open>The only other deletions are those of lock files below \<^verbatim>\<open>.git\<close>.\<close>

definition isLockOp :: "string \<Rightarrow> nat \<times> fsOp \<Rightarrow> bool" where
  "isLockOp dest op =
     (case snd op of
        OpRemove path \<Rightarrow> hasPrefix path (pathJoin [dest, ''.git''] @ ''/'') \<and> hasSuffix path ''.lock''
      | _ \<Rightarrow> False)"

definition locksR :: "string \<Rightarrow> wsWorld \<Rightarrow> gitCmd list \<Rightarrow> wsWorld \<Rightarrow> bool" where
  "locksR dest w cs w' \<longleftrightarrow> (\<exists>ops. wsOps w' = wsOps w @ ops \<and> list_all (isLockOp dest) ops)"

interpretation unlocking: trace_law "locksR dest" for dest
proof
  show "locksR dest w (a @ b) w2" if "locksR dest w a w1" "locksR dest w1 b w2" for w w1 w2 a b
    using that unfolding locksR_def by (metis append.assoc list_all_append)
qed (simp add: locksR_def)

lemma refLocks_suffix: "p \<in> set (refLocks rel e) \<Longrightarrow> rel \<noteq> [] \<Longrightarrow> hasSuffix p ''.lock''"
proof (induction rel e rule: refLocks.induct)
  case (2 rel name regular info)
  then have p: "p = joinWith ''/'' rel" "hasSuffix (last rel) ''.lock''" by (auto split: if_splits)
  obtain pre where r: "rel = pre @ [last rel]" using 2(2) by (metis append_butlast_last_id)
  have "\<exists>q. p = q @ last rel"
    using p(1) joinWith_append [of pre "[last rel]" "''/''"] r by (cases "pre = []") (metis append_Nil joinWith.simps(2), metis append.assoc joinWith.simps(2) not_Cons_self2)
  then show ?case using p(2) by (auto simp: hasSuffix_iff)
qed auto

lemma unlocking_removeLocks:
  assumes "\<forall>l \<in> set ls. hasSuffix (snd l) ''.lock''"
  shows "traces (locksR dest) (removeLocks env (pathJoin [dest, ''.git'']) ls)"
  using assms
proof (induction ls)
  case (Cons l ls)
  obtain label path where l: "l = (label, path)" by (cases l)
  have "hasSuffix (d @ ''/'' @ path) ''.lock''" "hasPrefix (d @ ''/'' @ path) (d @ ''/'')" for d
    using Cons.prems l hasPrefix_append [of "d @ ''/''" path] by (auto simp: hasSuffix_iff)
  then have "traces (locksR dest) (fsDo env (OpRemove (pathJoin [dest, ''.git''] @ ''/'' @ path)))"
    by (simp add: traces_def fsDo_def gitLog_def locksR_def isLockOp_def)
  then show ?case unfolding l removeLocks.simps using Cons by (intro unlocking.t_rules) auto
qed (simp add: unlocking.t_return)

lemma clearStaleLocks_ops: "traces (locksR dest) (clearStaleLocks env dest)"
  unfolding clearStaleLocks_def
  by (intro unlocking.t_rules unlocking_removeLocks)
    (auto simp: gitLockFiles_def hasSuffix_def hasPrefix_def dest: refLocks_suffix split: option.splits)

text \<open>Programs that leave the file system as it is.\<close>

definition quietR :: "wsWorld \<Rightarrow> gitCmd list \<Rightarrow> wsWorld \<Rightarrow> bool" where
  "quietR w cs w' \<longleftrightarrow> wsOps w' = wsOps w"

interpretation quieting: trace_law quietR
  by unfold_locales (simp_all add: quietR_def)

lemma quiet_git: "traces quietR (gitOk env dir args)" "traces quietR (gitRun env dir args)"
  by (auto intro!: quieting.t_gitOk quieting.t_gitRun simp: quietR_def)

lemma quietD: "traces quietR p \<Longrightarrow> wsOps (snd (run_state p w)) = wsOps w"
  by (auto simp: traces_def quietR_def)

lemma abortOps_quiet: "traces quietR (abortOps env dest ops)"
proof (induction ops)
  case (Cons op ops)
  then show ?case unfolding abortOps.simps by (intro quieting.t_rules quiet_git)
qed (simp add: quieting.t_return)

lemma rescueDirty_quiet: "traces quietR (rescueDirty env dest detached)"
proof -
  have "traces quietR (firstName (\<lambda>n. gitOk env dest (f n)) ns)" for f ns
  proof (induction ns)
    case (Cons n ns)
    then show ?case unfolding firstName.simps by (intro quieting.t_rules quiet_git)
  qed (simp add: quieting.t_return)
  moreover have "traces quietR (unstageOversized env dest)"
    by (simp add: traces_def quietR_def unstageOversized_def gitLog_def)
  moreover have "traces quietR (headSHA env dest)" unfolding headSHA_def Let_def by (intro quieting.t_rules)
  ultimately show ?thesis
    unfolding rescueDirty_def nameRescueBranch_def by (intro quieting.t_rules quiet_git)
qed

lemma rescueWorkingTree_ops:
  fixes env dest failed w defines "w' \<equiv> snd (run_state (rescueWorkingTree env dest failed) w)"
  shows "wsOps w' = wsOps w
    \<or> wsOps w' = wsOps w @ [(length (gitLog w'), OpRemoveAll dest)] \<and> failedLast env (wsOps w) dest rescueSteps (gitLog w')"
proof (cases failed)
  case True
  let ?q = "logCmd dest [''diff'', ''--quiet''] w"
  let ?c = "logCmd dest [''diff'', ''--cached'', ''--quiet''] ?q"
  have "wsOps w' = wsOps w \<or> w' = snd (run_state (rescueUnabortable env dest) ?q)
      \<or> w' = snd (run_state (rescueUnabortable env dest) ?c)"
    using True by (auto simp: w'_def rescueWorkingTree_def split_def)
  then show ?thesis using rescueUnabortable_ops [of env dest ?q] rescueUnabortable_ops [of env dest ?c] by auto
next
  case False
  have "traces quietR (rescueWorkingTree env dest False)"
    unfolding rescueWorkingTree_def by (intro quieting.t_rules quiet_git rescueDirty_quiet) simp_all
  from quietD [OF this] show ?thesis using False by (simp add: w'_def)
qed

section \<open>What PrepareWorkspace may do\<close>

text \<open>The three ways a run goes: nothing there, not a repository, or the phases up to the rescue.\<close>

lemma PrepareWorkspace_cases:
  obtains (absent) "snd (run_state (PrepareWorkspace env dest) w) = w"
  | (unusable) w1 w' where "snd (run_state (PrepareWorkspace env dest) w) = w'"
      "run_state (isUsableRepo env dest) w = (False, w1)" "gitLog w' = gitLog w1"
      "wsOps w' = wsOps w1 @ [(length (gitLog w1), OpRemoveAll dest)]"
  | (rescued) w3 failed cs ops where
      "snd (run_state (PrepareWorkspace env dest) w) = snd (run_state (rescueWorkingTree env dest failed) w3)"
      "gitLog w3 = gitLog w @ cs" "list_all additive cs" "wsOps w3 = wsOps w @ ops" "list_all (isLockOp dest) ops"
proof -
  obtain us w1 where u: "run_state (isUsableRepo env dest) w = (us, w1)" by (cases "run_state (isUsableRepo env dest) w")
  show ?thesis
  proof (cases "eStat env (histOf w) (pathJoin [dest, ''.git'']) = Present")
    case False
    then show ?thesis by (intro absent) (simp add: PrepareWorkspace_def)
  next
    case st: True
    show ?thesis
    proof (cases us)
      case False
      show ?thesis
        using st u False
        by (intro unusable [OF refl, of w1])
          (auto simp: PrepareWorkspace_def fsDo_def recordRecovery_def gitLog_def split: option.split)
    next
      case True
      obtain w2 where w2: "w2 = snd (run_state (clearStaleLocks env dest) w1)" by simp
      obtain n failed w3 where a: "run_state (abortInProgress env dest) w2 = ((n, failed), w3)"
        by (metis surj_pair)
      have eq: "snd (run_state (PrepareWorkspace env dest) w) = snd (run_state (rescueWorkingTree env dest failed) w3)"
        using st u True a w2 by (simp add: PrepareWorkspace_def split_def)
      obtain cs1 where c1: "gitLog w1 = gitLog w @ cs1" "list_all additive cs1"
        using emitsE [OF isUsableRepo_additive, of env dest w] u by auto
      obtain cs2 where c2: "gitLog w2 = gitLog w1 @ cs2" "list_all additive cs2"
        using emitsE [OF emitting.t_clearStaleLocks, of env dest w1] w2 by auto
      obtain cs3 where c3: "gitLog w3 = gitLog w2 @ cs3" "list_all additive cs3"
        using emitsE [OF abortInProgress_additive, of env dest w2] a by auto
      have q1: "wsOps w1 = wsOps w"
        using u quietD [of "isUsableRepo env dest" w] unfolding isUsableRepo_def by (auto intro!: quieting.t_rules quiet_git)
      have q3: "wsOps w3 = wsOps w2"
        using a quietD [OF abortOps_quiet, of env dest inProgressOps w2] by (simp add: abortInProgress_def)
      obtain ops where "wsOps w2 = wsOps w1 @ ops" "list_all (isLockOp dest) ops"
        using clearStaleLocks_ops [of dest env] w2 unfolding traces_def locksR_def by blast
      with eq c1 c2 c3 q1 q3 show ?thesis by (intro rescued [of failed w3 "cs1 @ cs2 @ cs3" ops]) auto
    qed
  qed
qed

lemma PrepareWorkspace_trace:
  "\<exists>cs ds. gitLog (snd (run_state (PrepareWorkspace env dest) w)) = gitLog w @ cs @ ds \<and> list_all additive cs
     \<and> (ds = [] \<or> cleanReset env (wsOps (snd (run_state (PrepareWorkspace env dest) w))) (gitLog w @ cs) dest ds)"
proof (cases rule: PrepareWorkspace_cases [of env dest w])
  case (unusable w1 w')
  then show ?thesis using emitsE [OF isUsableRepo_additive, of env dest w] by (metis append_Nil2 snd_conv)
next
  case (rescued w3 failed cs ops)
  obtain ds where "gitLog (snd (run_state (rescueWorkingTree env dest failed) w3)) = gitLog w3 @ ds"
    "list_all additive ds
      \<or> cleanReset env (wsOps (snd (run_state (rescueWorkingTree env dest failed) w3))) (gitLog w3) dest ds"
    using rescueWorkingTree_trace by blast
  with rescued show ?thesis by (metis append.assoc append_Nil2 list_all_append)
qed simp



section \<open>What the checkout of the task branch may do\<close>

text \<open>A branch that exists locally is never reset: the only reset is of a branch the probe did not find.\<close>

definition resetCmd :: "string \<Rightarrow> string \<Rightarrow> gitCmd" where
  "resetCmd dir tb = (dir, [''checkout'', ''-B'', tb, ''FETCH_HEAD''])"

lemma merge_additive:
  assumes "plainRef tb"
  shows "emits additive (mergeRemoteTaskBranch env dir tb)" "emits additive (reconcileWithBase env dir tb base)"
    "emits additive (unshallowBestEffort env dir full)"
proof -
  show "emits additive (mergeRemoteTaskBranch env dir tb)"
    unfolding mergeRemoteTaskBranch_def by (intro emits_rules) (simp_all add: additive_def)
  show "emits additive (reconcileWithBase env dir tb base)"
    unfolding reconcileWithBase_def mergeBase_def by (intro emits_rules) (simp_all add: additive_def)
  show "emits additive (unshallowBestEffort env dir full)"
    unfolding unshallowBestEffort_def by (intro emits_rules) (simp_all add: additive_def)
qed

lemma emits_mono: "emits C p \<Longrightarrow> (\<And>c. C c \<Longrightarrow> D c) \<Longrightarrow> emits D p"
  unfolding traces_def emitsR_def by (meson list.pred_mono_strong)

lemma checkoutArm_emits:
  assumes "plainRef tb" "localExists \<or> C (resetCmd dir tb)" "\<And>c. additive c \<Longrightarrow> C c"
  shows "emits C (checkoutArm env dir tb full rec localExists remoteExists)"
proof -
  note m = merge_additive [OF assms(1), THEN emits_mono, OF assms(3)]
  have a: "C (dir, [''checkout'', tb])" "C (dir, [''fetch'', ''origin'', tb])" "C (dir, [''fetch'', ''--unshallow'', ''origin''])"
    "C (dir, [''push'', ''--no-verify'', ''-u'', ''origin'', tb])"
    using assms(1) by (auto intro!: assms(3) simp: additive_def)
  show ?thesis
    unfolding checkoutArm_def using assms(2) a by (intro emits_rules m) (auto simp: resetCmd_def)
qed

lemma checkoutKnown_emits:
  assumes "plainRef tb" "localExists \<or> C (resetCmd dir tb)" "\<And>c. additive c \<Longrightarrow> C c"
  shows "emits C (checkoutKnown env dir tb base full rec localExists)"
proof -
  note m = merge_additive(2) [OF assms(1), THEN emits_mono, OF assms(3)]
  have "C (dir, [''ls-remote'', ''--exit-code'', ''--heads'', ''origin'', tb])" "C (dir, [''checkout'', ''-b'', tb])"
    using assms(1) by (auto intro!: assms(3) simp: additive_def)
  then show ?thesis unfolding checkoutKnown_def by (intro emits_rules m checkoutArm_emits [where C = C, OF assms])
qed

text \<open>
  C7. Checking out the task branch in an inherited workspace: with the branch present locally, every
  command only adds; a reset of the branch to the remote tip happens only when the probe of the
  local branch, the first command, failed.
\<close>

theorem local_branch_never_reset:
  assumes "plainRef taskBranch"
  shows "\<exists>cs. gitLog (snd (run_state (checkoutTaskBranch env dir taskBranch base full reconcile True) w)) = gitLog w @ cs
    \<and> list_all (\<lambda>c. additive c \<or> c = resetCmd dir taskBranch
          \<and> eGit env (wsOps w) (gitLog w) dir [''rev-parse'', ''--verify'', ''--quiet'', ''refs/heads/'' @ taskBranch] \<noteq> None) cs"
proof -
  define probe where "probe = [''rev-parse'', ''--verify'', ''--quiet'', ''refs/heads/'' @ taskBranch]"
  define found where "found \<longleftrightarrow> eGit env (wsOps w) (gitLog w) dir probe = None"
  let ?C = "\<lambda>c. additive c \<or> c = resetCmd dir taskBranch \<and> \<not> found"
  have C: "found \<or> ?C (resetCmd dir taskBranch)" "\<And>c. additive c \<Longrightarrow> ?C c" by blast+
  obtain cs where "gitLog (snd (run_state (checkoutTaskBranch env dir taskBranch base full reconcile True) w))
      = gitLog (logCmd dir probe w) @ cs" "list_all ?C cs"
  proof -
    have "run_state (checkoutTaskBranch env dir taskBranch base full reconcile True) w
        = run_state (checkoutKnown env dir taskBranch base full reconcile found) (logCmd dir probe w)"
      unfolding checkoutTaskBranch_def found_def probe_def by simp
    moreover obtain cs where "gitLog (snd (run_state (checkoutKnown env dir taskBranch base full reconcile found)
        (logCmd dir probe w))) = gitLog (logCmd dir probe w) @ cs" "list_all ?C cs"
      by (rule emitsE [OF checkoutKnown_emits [where C = ?C, OF assms C]])
    ultimately show thesis using that [of cs] by simp
  qed
  moreover have "additive (dir, probe)" by (simp add: additive_def probe_def)
  ultimately show ?thesis unfolding found_def probe_def by (intro exI [of _ "(dir, probe) # cs"]) (simp add: probe_def)
qed

section \<open>Conflicts\<close>

text \<open>Every merge that fails is followed at once by its abort.\<close>

definition mergeCmd :: "gitCmd \<Rightarrow> bool" where
  "mergeCmd c = (case snd c of [x, y, m, r] \<Rightarrow> x = ''merge'' \<and> y = ''-m'' | _ \<Rightarrow> False)"

definition abortedR :: "wsEnv \<Rightarrow> wsWorld \<Rightarrow> gitCmd list \<Rightarrow> wsWorld \<Rightarrow> bool" where
  "abortedR env w cs w' \<longleftrightarrow>
     wsOps w' = wsOps w
     \<and> (\<forall>i < length cs. mergeCmd (cs ! i) \<and> eGit env (wsOps w) (gitLog w @ take i cs) (fst (cs ! i)) (snd (cs ! i)) \<noteq> None
          \<longrightarrow> Suc i < length cs \<and> cs ! Suc i = (fst (cs ! i), [''merge'', ''--abort'']))"

interpretation aborting: trace_law "abortedR env" for env
proof
  fix w w1 w2 a b
  assume l: "gitLog w1 = gitLog w @ a" and A: "abortedR env w a w1" and B: "abortedR env w1 b w2"
  show "abortedR env w (a @ b) w2"
    unfolding abortedR_def
  proof (intro conjI allI impI)
    show "wsOps w2 = wsOps w" using A B by (simp add: abortedR_def)
    fix i assume i: "i < length (a @ b)"
      and m: "mergeCmd ((a @ b) ! i)
        \<and> eGit env (wsOps w) (gitLog w @ take i (a @ b)) (fst ((a @ b) ! i)) (snd ((a @ b) ! i)) \<noteq> None"
    have "Suc i < length (a @ b) \<and> (a @ b) ! Suc i = (fst ((a @ b) ! i), [''merge'', ''--abort''])"
    proof (cases "i < length a")
      case True
      with A m show ?thesis by (auto simp: abortedR_def nth_append)
    next
      case False
      then obtain j where j: "i = length a + j" by (metis le_add_diff_inverse not_less)
      with B m i l A show ?thesis by (auto simp: abortedR_def nth_append)
    qed
    then show "Suc i < length (a @ b)" "(a @ b) ! Suc i = (fst ((a @ b) ! i), [''merge'', ''--abort''])" by simp_all
  qed
qed (simp add: abortedR_def)

lemma aborting_git:
  assumes "\<not> mergeCmd (dir, args)"
  shows "traces (abortedR env) (gitOk env dir args)" "traces (abortedR env) (gitRun env dir args)"
  using assms by (auto intro!: aborting.t_gitOk aborting.t_gitRun simp: abortedR_def)

lemma aborting_merge:
  "traces (abortedR env) (do {
     merged \<leftarrow> gitOk env dir args;
     (if \<not> merged then do { gitRun env dir [''merge'', ''--abort'']; State_Monad.return a } else State_Monad.return b) })"
  by (auto simp: traces_def abortedR_def less_Suc_eq mergeCmd_def)

lemma reconcile_aborting:
  "traces (abortedR env) (mergeRemoteTaskBranch env dir tb)" "traces (abortedR env) (reconcileWithBase env dir tb base)"
proof -
  show "traces (abortedR env) (mergeRemoteTaskBranch env dir tb)"
    unfolding mergeRemoteTaskBranch_def
    by (intro aborting_merge aborting.t_bind aborting.t_if aborting.t_return aborting_git) (simp_all add: mergeCmd_def)
  have "traces (abortedR env) (mergeBase env dir tb ref)" for ref
    unfolding mergeBase_def
    by (intro aborting_merge aborting.t_bind aborting.t_if aborting.t_return aborting_git) (simp_all add: mergeCmd_def)
  then show "traces (abortedR env) (reconcileWithBase env dir tb base)"
    unfolding reconcileWithBase_def
    by (intro aborting.t_bind aborting.t_if aborting.t_return aborting.t_option aborting_git) (simp_all add: mergeCmd_def)
qed

lemma checkout_aborting: "traces (abortedR env) (checkoutTaskBranch env dir tb base full rec persistent)"
proof -
  have u: "traces (abortedR env) (unshallowBestEffort env dir full)"
    unfolding unshallowBestEffort_def
    by (intro aborting.t_bind aborting.t_if aborting.t_return aborting_git) (simp_all add: mergeCmd_def)
  have "traces (abortedR env) (checkoutArm env dir tb full rec l r)" for l r
    unfolding checkoutArm_def
    by (intro aborting.t_bind aborting.t_if aborting.t_return aborting.t_option aborting_git reconcile_aborting u)
      (simp_all add: mergeCmd_def)
  then show ?thesis
    unfolding checkoutTaskBranch_def checkoutKnown_def
    by (intro aborting.t_bind aborting.t_if aborting.t_return aborting.t_sum aborting.t_prod aborting_git reconcile_aborting)
      (simp_all add: mergeCmd_def)
qed

text \<open>The results a program can give, whatever it is answered.\<close>

definition yields :: "('a \<Rightarrow> bool) \<Rightarrow> 'a ws \<Rightarrow> bool" where
  "yields P p \<longleftrightarrow> (\<forall>w. P (fst (run_state p w)))"

lemma yields_return: "P a \<Longrightarrow> yields P (State_Monad.return a)"
  by (simp add: yields_def)

lemma yields_bind:
  assumes "yields Q p" "\<And>x. Q x \<Longrightarrow> yields P (f x)"
  shows "yields P (State_Monad.bind p f)"
  unfolding yields_def
proof
  fix w
  obtain x w1 where p: "run_state p w = (x, w1)" by (cases "run_state p w")
  then have "Q x" using assms(1) unfolding yields_def by (metis fst_conv)
  with assms(2) p show "P (fst (run_state (State_Monad.bind p f) w))" by (simp add: yields_def)
qed

lemma yields_any: "yields (\<lambda>_. True) p"
  by (simp add: yields_def)


text \<open>A workspace whose branch conflicts both with its remote counterpart and with its base.\<close>

definition demoGit :: "(nat \<times> fsOp) list \<Rightarrow> GitRunner" where
  "demoGit ops l dir args =
     (if args \<noteq> [] \<and> hd args \<in> {''merge'', ''merge-base''} \<and> args \<noteq> [''merge'', ''--abort''] then Some ''exit status 1'' else None)"

definition demoEnv :: wsEnv where
  "demoEnv = \<lparr>eGit = demoGit, eStat = (\<lambda>_ _. Present), eFs = (\<lambda>_ _. None), eRead = (\<lambda>_ _. None), eTree = (\<lambda>_ _. None),
     eHookFails = (\<lambda>_ _. False), eReadDir = (\<lambda>_ _. ListMissing), eWalk = (\<lambda>_ p. SBroken p ''no such file''),
     eYaml = (\<lambda>_. None), eFloat = Some\<rparr>"

definition demoWs :: wsWorld where
  "demoWs = \<lparr>wsGit = \<lparr>gwLog = [], gwSkipped = 0\<rparr>, wsOps = [], wsRecovered = (\<lambda>_. 0), wsLocks = (\<lambda>_. 0),
     wsReconcile = (\<lambda>_. 0), wsClone = (\<lambda>_. 0), wsHooks = (\<lambda>_. 0),
     wsCloneFailures = (\<lambda>_. 0), wsSkills = (\<lambda>_. 0), wsAgents = 0, wsRender = (\<lambda>_. 0)\<rparr>"

theorem local_branch_never_reset_witness:
  "\<exists>cs. gitLog (snd (run_state (checkoutTaskBranch demoEnv ''/w/o/r'' ''tatara/task'' ''main'' False True True) demoWs)) = cs
     \<and> list_all additive cs"
proof -
  have "plainRef ''tatara/task''" by (simp add: plainRef_def)
  from local_branch_never_reset [OF this, of demoEnv "''/w/o/r''" "''main''" False True demoWs]
  show ?thesis by (simp add: demoEnv_def demoGit_def demoWs_def gitLog_def)
qed


end
