(* ===== verification/Bootstrap.thy ===== *)
theory Bootstrap
  imports Workspace GoPrint
begin

text \<open>
  The repositories of a boot (\<^verbatim>\<open>internal/bootstrap/bootstrap.go\<close>): whose workspace it is, which is
  recorded in an identity file, the clone-or-resume loop of \<^verbatim>\<open>Render\<close> and the block of the agent's
  instructions that reports what was inherited.
\<close>

section \<open>The identity of a workspace\<close>

record Params =
  pHomeDir :: string
  pWorkspace :: string
  pGlobalClaudeMd :: string
  pProjectClaudeMd :: string
  pBaseMCP :: string
  pMCPOverlayDir :: string
  pGrafanaMCPURL :: string
  pSerenaMCPURL :: string
  pExtraMCPServers :: string
  pExtraSkillSources :: string
  pSkillsSrc :: "string list"
  pSkillProfile :: string
  pSkillsRepo :: string
  pSkillsRef :: string
  pSkillsCloneDir :: string
  pAgentsSrc :: "string list"
  pHookCommand :: string
  pStatusLineCommand :: string
  pAllowedTools :: "string list"
  pEnableAllMCP :: bool
  pPermissionMode :: string
  pEffort :: string
  pAnthropicAPIKey :: string
  pRepoURL :: string
  pRepoBranch :: string
  pGitToken :: string
  pGitUserName :: string
  pGitUserEmail :: string
  pTaskBranch :: string
  pCheckoutBranch :: string
  pBranchPushInterval :: duration
  pFullClone :: bool
  pRepos :: "RepoSpec list"
  pTaskName :: string
  pProjectName :: string
  pHookPreClone :: string
  pHookPostClone :: string
  pHookConversationStart :: string
  pHookConversationRestart :: string
  pHookAgentTurnFinished :: string
  pHookConversationFinished :: string

definition workspaceIdentityFile :: string where "workspaceIdentityFile = ''.tatara-workspace.json''"

definition workspaceContractVersion :: int where "workspaceContractVersion = 1"

record workspaceIdentity =
  wiContractVersion :: int
  wiTaskName :: string
  wiProjectName :: string
  wiRepoURLs :: "string list"

definition workspaceRepoURLs :: "Params \<Rightarrow> string list" where
  "workspaceRepoURLs p =
     (if pRepos p \<noteq> [] then map rsURL (pRepos p) else if pRepoURL p \<noteq> [] then [pRepoURL p] else [])"

text \<open>
  \<^verbatim>\<open>json.MarshalIndent\<close> of an identity with two blanks per level; a nil slice is \<^verbatim>\<open>null\<close>. The version
  is the constant, one digit.
\<close>

definition nl :: string where "nl = [CHR 0x0A]"

definition memberText :: "string \<Rightarrow> string \<Rightarrow> string" where
  "memberText k v = jsonQuote k @ '': '' @ v"

definition urlsText :: "string list \<Rightarrow> string" where
  "urlsText us =
     (if us = [] then ''null''
      else ''['' @ nl @ ''    '' @ joinWith ('','' @ nl @ ''    '') (map jsonQuote us) @ nl @ ''  ]'')"

definition marshalIdentity :: "string \<Rightarrow> string \<Rightarrow> string list \<Rightarrow> string" where
  "marshalIdentity task project urls =
     ''{'' @ nl @ ''  '' @ memberText ''contractVersion'' ''1'' @ '','' @ nl @ ''  '' @ memberText ''taskName'' (jsonQuote task)
     @ '','' @ nl @ ''  '' @ memberText ''projectName'' (jsonQuote project) @ '','' @ nl @ ''  ''
     @ memberText ''repoURLs'' (urlsText urls) @ nl @ ''}''"

definition identityText :: "Params \<Rightarrow> string" where
  "identityText p = marshalIdentity (pTaskName p) (pProjectName p) (workspaceRepoURLs p)"

definition writeWorkspaceIdentity :: "wsEnv \<Rightarrow> Params \<Rightarrow> string option ws" where
  "writeWorkspaceIdentity env p =
     fsDo env (OpWriteFile (pathJoin [pWorkspace p, workspaceIdentityFile]) (identityText p))"

definition decIdentity :: "workspaceIdentity decoder" where
  "decIdentity =
     decStruct [(''contractVersion'', fieldDec wiContractVersion wiContractVersion_update decInt64),
                (''taskName'', fieldDec wiTaskName wiTaskName_update decString),
                (''projectName'', fieldDec wiProjectName wiProjectName_update decString),
                (''repoURLs'', fieldDec wiRepoURLs wiRepoURLs_update (decSlice [] decString))]"

definition parseIdentity :: "string \<Rightarrow> workspaceIdentity option" where
  "parseIdentity b =
     unmarshal decIdentity b \<lparr>wiContractVersion = 0, wiTaskName = [], wiProjectName = [], wiRepoURLs = []\<rparr>"

lemma skipWs_quote [simp]: "skipWs (jsonQuote s @ r) = jsonQuote s @ r"
  by (simp add: skipWs_def jsonQuote_def isJsonWs_def)

lemma skipWs_indent [simp]: "skipWs (nl @ r) = skipWs r" "skipWs (CHR '' '' # r) = skipWs r" "skipWs (CHR 0x0A # r) = skipWs r"
  by (simp_all add: skipWs_def nl_def isJsonWs_def)

lemma skipWs_stop: "\<not> isJsonWs c \<Longrightarrow> skipWs (c # r) = c # r"
  by (simp add: skipWs_def)

lemma parseMembers_text:
  assumes "validUtf8 k" "parseVal n (v @ r) = Some (x, r)" "skipWs (v @ r) = v @ r"
  shows "parseMembers (Suc n) (memberText k v @ r) =
    (case skipWs r of
       [] \<Rightarrow> None
     | e # r4 \<Rightarrow> if e = CHR ''}'' then Some ([(k, v, x)], r4)
                else if e = CHR '','' then map_option (\<lambda>(ms, t). ((k, v, x) # ms, t)) (parseMembers n (skipWs r4)) else None)"
proof -
  have "parseStr (Suc (length (quoteBody k @ quote # CHR '':'' # CHR '' '' # v @ r))) (quoteBody k @ quote # CHR '':'' # CHR '' '' # v @ r)
      = Some (k, CHR '':'' # CHR '' '' # v @ r)"
    using assms(1) by (intro parseStr_quoted) simp_all
  moreover have "skipWs (CHR '':'' # CHR '' '' # v @ r) = CHR '':'' # CHR '' '' # v @ r"
    by (simp add: skipWs_def isJsonWs_def)
  moreover have "skipWs (CHR '' '' # v @ r) = v @ r" using assms(3) by (simp add: skipWs_def isJsonWs_def)
  ultimately show ?thesis
    using assms(2) by (simp add: memberText_def jsonQuote_def)
qed

lemma parseElems_text:
  assumes "us \<noteq> []" "list_all validUtf8 us" "length us \<le> n" "skipWs t = CHR '']'' # r"
  shows "parseElems (Suc n) (joinWith ('','' @ nl @ ''    '') (map jsonQuote us) @ t)
    = Some (map (\<lambda>u. (jsonQuote u, JStr u)) us, r)"
  using assms
proof (induction us arbitrary: n rule: list_nonempty_induct)
  case (single u)
  then obtain k where "n = Suc k" by (cases n) auto
  with single show ?case using parseVal_quoted [of u k t] by simp
next
  case (cons u us)
  then obtain k where k: "n = Suc k" by (cases n) auto
  let ?s = "'','' @ nl @ ''    ''"
  let ?rest = "joinWith ?s (map jsonQuote us)"
  have j: "joinWith ?s (map jsonQuote (u # us)) = jsonQuote u @ ?s @ ?rest"
    using cons(1) by (cases us) auto
  obtain u' z where "?rest = jsonQuote u' @ z"
    using cons(1) by (cases us; cases "tl us") auto
  then have sk: "skipWs (nl @ ''    '' @ ?rest @ t) = ?rest @ t" by simp
  have v: "parseVal n (jsonQuote u @ ?s @ ?rest @ t) = Some (JStr u, ?s @ ?rest @ t)"
    using cons k parseVal_quoted [of u k] by simp
  have ih: "parseElems n (?rest @ t) = Some (map (\<lambda>u. (jsonQuote u, JStr u)) us, r)"
    using cons k by simp
  have "parseElems (Suc n) (joinWith ?s (map jsonQuote (u # us)) @ t)
      = parseElems (Suc n) (jsonQuote u @ ?s @ ?rest @ t)" unfolding j by simp
  also have "\<dots> = Some (map (\<lambda>u. (jsonQuote u, JStr u)) (u # us), r)"
    unfolding parseElems.simps v using sk ih by (simp add: Let_def skipWs_stop isJsonWs_def)
  finally show ?case .
qed

lemma parseVal_urls:
  assumes "list_all validUtf8 us" "length us < n" "skipWs r = r' # r''"
  shows "parseVal (Suc n) (urlsText us @ r) =
    Some (if us = [] then JNull else JArr (map (\<lambda>u. (jsonQuote u, JStr u)) us), r)"
proof (cases "us = []")
  case True
  then show ?thesis by (simp add: urlsText_def hasPrefix_def)
next
  case False
  obtain k where k: "n = Suc k" using assms(2) by (cases n) auto
  let ?e = "joinWith ('','' @ nl @ ''    '') (map jsonQuote us)"
  have e: "parseElems n (?e @ nl @ ''  ]'' @ r) = Some (map (\<lambda>u. (jsonQuote u, JStr u)) us, r)"
    unfolding k using False assms k by (intro parseElems_text) (auto simp: skipWs_stop isJsonWs_def)
  obtain u z where q: "?e = jsonQuote u @ z" using False by (cases us; cases "tl us") auto
  then have "skipWs (nl @ ''    '' @ ?e @ nl @ ''  ]'' @ r) = ?e @ nl @ ''  ]'' @ r" by simp
  moreover obtain d x where "?e @ nl @ ''  ]'' @ r = d # x" "d \<noteq> CHR '']''"
    using q by (auto simp: jsonQuote_def)
  ultimately show ?thesis
    using False e by (simp add: urlsText_def)
qed

lemma parseVal_one: "parseVal (Suc n) (''1'' @ CHR '','' # r) = Some (JNum ''1'', CHR '','' # r)"
  by (simp add: hasPrefix_def parseNum_def parseInt_def parseDigits_def parseFrac_def parseExp_def isDigit_def)

text \<open>Members but the last, and the last.\<close>

lemma member_next:
  assumes "validUtf8 k" "parseVal n (v @ CHR '','' # r) = Some (x, CHR '','' # r)" "skipWs (v @ CHR '','' # r) = v @ CHR '','' # r"
    "parseMembers n (skipWs r) = Some (ms, t)"
  shows "parseMembers (Suc n) (memberText k v @ CHR '','' # r) = Some ((k, v, x) # ms, t)"
  using parseMembers_text [OF assms(1-3)] assms(4) by (simp add: skipWs_stop isJsonWs_def)

lemma member_last:
  assumes "validUtf8 k" "parseVal n (v @ nl @ ''}'') = Some (x, nl @ ''}'')" "skipWs (v @ nl @ ''}'') = v @ nl @ ''}''"
  shows "parseMembers (Suc n) (memberText k v @ nl @ ''}'') = Some ([(k, v, x)], [])"
  using parseMembers_text [OF assms] by (simp add: skipWs_stop isJsonWs_def)

lemma skipWs_member [simp]: "skipWs (memberText k v @ r) = memberText k v @ r"
  by (simp add: memberText_def)

definition identityMembers :: "string \<Rightarrow> string \<Rightarrow> string list \<Rightarrow> (string \<times> string \<times> json) list" where
  "identityMembers task project urls =
     [(''contractVersion'', ''1'', JNum ''1''), (''taskName'', jsonQuote task, JStr task),
      (''projectName'', jsonQuote project, JStr project),
      (''repoURLs'', urlsText urls, if urls = [] then JNull else JArr (map (\<lambda>u. (jsonQuote u, JStr u)) urls))]"

lemma parseMembers_identity:
  assumes "validUtf8 task" "validUtf8 project" "list_all validUtf8 urls" "length urls < k"
  shows "parseMembers (Suc (Suc (Suc (Suc (Suc k)))))
      (memberText ''contractVersion'' ''1'' @ '','' @ nl @ ''  '' @ memberText ''taskName'' (jsonQuote task)
     @ '','' @ nl @ ''  '' @ memberText ''projectName'' (jsonQuote project) @ '','' @ nl @ ''  ''
     @ memberText ''repoURLs'' (urlsText urls) @ nl @ ''}'')
   = Some (identityMembers task project urls, [])"
proof -
  have keys: "validUtf8 ''contractVersion''" "validUtf8 ''taskName''" "validUtf8 ''projectName''" "validUtf8 ''repoURLs''"
    by (simp_all add: validUtf8_ascii)
  have u0: "skipWs (urlsText urls @ r) = urlsText urls @ r" for r
    by (simp add: urlsText_def skipWs_stop isJsonWs_def)
  have m4: "parseMembers (Suc (Suc k)) (memberText ''repoURLs'' (urlsText urls) @ nl @ ''}'')
      = Some ([(''repoURLs'', urlsText urls, if urls = [] then JNull else JArr (map (\<lambda>u. (jsonQuote u, JStr u)) urls))], [])"
    by (intro member_last keys parseVal_urls [OF assms(3,4)] u0) (simp add: skipWs_stop isJsonWs_def)
  have m3: "parseMembers (Suc (Suc (Suc k))) (memberText ''projectName'' (jsonQuote project) @ CHR '','' # nl @ ''  ''
      @ memberText ''repoURLs'' (urlsText urls) @ nl @ ''}'')
     = Some ((''projectName'', jsonQuote project, JStr project) # drop 3 (identityMembers task project urls), [])"
    using assms(2) m4
    by (intro member_next keys parseVal_quoted skipWs_quote) (simp_all add: identityMembers_def)
  have m2: "parseMembers (Suc (Suc (Suc (Suc k)))) (memberText ''taskName'' (jsonQuote task) @ CHR '','' # nl @ ''  ''
      @ memberText ''projectName'' (jsonQuote project) @ CHR '','' # nl @ ''  ''
      @ memberText ''repoURLs'' (urlsText urls) @ nl @ ''}'')
     = Some ((''taskName'', jsonQuote task, JStr task) # drop 2 (identityMembers task project urls), [])"
    using assms(1) m3
    by (intro member_next keys parseVal_quoted skipWs_quote) (simp_all add: identityMembers_def)
  have s1: "skipWs (''1'' @ CHR '','' # r) = ''1'' @ CHR '','' # r" for r by (simp add: skipWs_stop isJsonWs_def)
  have "parseMembers (Suc (Suc (Suc (Suc (Suc k))))) (memberText ''contractVersion'' ''1'' @ CHR '','' # nl @ ''  ''
      @ memberText ''taskName'' (jsonQuote task) @ CHR '','' # nl @ ''  ''
      @ memberText ''projectName'' (jsonQuote project) @ CHR '','' # nl @ ''  ''
      @ memberText ''repoURLs'' (urlsText urls) @ nl @ ''}'')
     = Some ((''contractVersion'', ''1'', JNum ''1'') # drop 1 (identityMembers task project urls), [])"
    using m2 by (intro member_next keys parseVal_one s1) (simp add: identityMembers_def)
  then show ?thesis by (simp add: identityMembers_def)
qed

text \<open>The fuel of the parser covers the document: its text is longer than the number of URLs.\<close>

lemma urls_shorter: "length us \<le> length (urlsText us)"
proof -
  have "length us \<le> length (joinWith s (map jsonQuote us))" for s
    by (induction us rule: induct_list012) (auto simp: jsonQuote_def)
  from this [of "'','' @ nl @ ''    ''"] show ?thesis by (simp add: urlsText_def)
qed

lemma parseIdentity_marshal:
  assumes "validUtf8 task" "validUtf8 project" "list_all validUtf8 urls"
  shows "parseIdentity (marshalIdentity task project urls) =
    Some \<lparr>wiContractVersion = workspaceContractVersion, wiTaskName = task, wiProjectName = project, wiRepoURLs = urls\<rparr>"
proof -
  define body where "body = memberText ''contractVersion'' ''1'' @ '','' @ nl @ ''  '' @ memberText ''taskName'' (jsonQuote task)
     @ '','' @ nl @ ''  '' @ memberText ''projectName'' (jsonQuote project) @ '','' @ nl @ ''  ''
     @ memberText ''repoURLs'' (urlsText urls) @ nl @ ''}''"
  have doc: "marshalIdentity task project urls = CHR ''{'' # nl @ ''  '' @ body"
    by (simp add: marshalIdentity_def body_def)
  have len: "length urls + 10 \<le> length body" using urls_shorter [of urls] by (simp add: body_def memberText_def jsonQuote_def)
  obtain k where k: "2 * length (marshalIdentity task project urls) = Suc (Suc (Suc (Suc (Suc k))))" "length urls < k"
  proof (rule that)
    show "2 * length (marshalIdentity task project urls)
      = Suc (Suc (Suc (Suc (Suc (2 * length (marshalIdentity task project urls) - 5)))))"
      using len by (simp add: doc)
    show "length urls < 2 * length (marshalIdentity task project urls) - 5" using len by (simp add: doc)
  qed
  have m: "parseMembers (2 * length (marshalIdentity task project urls)) body = Some (identityMembers task project urls, [])"
    unfolding k(1) body_def by (rule parseMembers_identity [OF assms k(2)])
  obtain c r where b: "body = c # r" "c = quote" by (simp add: body_def memberText_def jsonQuote_def)
  have sk: "skipWs (nl @ ''  '' @ body) = body" using b by (simp add: skipWs_stop isJsonWs_def)
  have "parseVal (Suc (2 * length (marshalIdentity task project urls))) (CHR ''{'' # nl @ ''  '' @ body)
      = Some (JObj (identityMembers task project urls), [])"
    using m sk b by simp
  then have j: "parseJson (marshalIdentity task project urls) = Some (JObj (identityMembers task project urls))"
    unfolding parseJson_def by (simp add: doc skipWs_stop isJsonWs_def) (simp add: skipWs_def)
  have fold: "\<not> equalFold ''contractVersion'' ''taskName''" "\<not> equalFold ''contractVersion'' ''projectName''"
    "\<not> equalFold ''contractVersion'' ''repoURLs''" "\<not> equalFold ''taskName'' ''projectName''"
    "\<not> equalFold ''taskName'' ''repoURLs''" "\<not> equalFold ''projectName'' ''repoURLs''"
    by code_simp+
  have same: "equalFold s s" for s by (simp add: equalFold_def)
  have one: "int64OfText ''1'' = Some 1" by code_simp
  have urls: "those (map (\<lambda>(r, e). decString r e []) (map (\<lambda>u. (jsonQuote u, JStr u)) urls)) = Some urls"
    by (induction urls) (simp_all add: decString_def)
  show ?thesis
    unfolding parseIdentity_def unmarshal_def j
    by (simp add: decIdentity_def decStruct_def identityMembers_def fold same fieldDec_def decInt64_def one decString_def
        workspaceContractVersion_def)
       (use urls in \<open>simp add: decSlice_def\<close>)
qed

section \<open>Claiming a workspace\<close>

definition readWorkspaceIdentity :: "wsEnv \<Rightarrow> string \<Rightarrow> workspaceIdentity option ws" where
  "readWorkspaceIdentity env workspace = do {
     b \<leftarrow> readFile env (pathJoin [workspace, workspaceIdentityFile]);
     State_Monad.return (case b of None \<Rightarrow> None | Some t \<Rightarrow> parseIdentity t) }"

definition diffStrings :: "string list \<Rightarrow> string list \<Rightarrow> string list \<times> string list" where
  "diffStrings have want = (filter (\<lambda>s. s \<notin> set have) want, filter (\<lambda>s. s \<notin> set want) have)"

definition addedNote :: "string \<Rightarrow> string" where
  "addedNote u = backtick @ u @ backtick
     @ '' was added to this project since the last session and has been cloned in for the first time''"

definition removedNote :: "string \<Rightarrow> string" where
  "removedNote u = backtick @ u @ backtick
     @ '' is no longer part of this project. Its checkout has been LEFT on disk in case it holds uncommitted work; bootstrap will not update it again, so do not treat it as current''"

datatype claimErr = WipeClaimed string | RecreateWiped string

definition claimWorkspace :: "wsEnv \<Rightarrow> Params \<Rightarrow> (claimErr + string list) ws" where
  "claimWorkspace env p = do {
     prev \<leftarrow> readWorkspaceIdentity env (pWorkspace p);
     (case prev of
        None \<Rightarrow> State_Monad.return (Inr [])
      | Some i \<Rightarrow>
          if wiTaskName i \<noteq> [] \<and> pTaskName p \<noteq> [] \<and> wiTaskName i \<noteq> pTaskName p then do {
            e \<leftarrow> fsDo env (OpRemoveAll (pWorkspace p));
            (case e of
               Some err \<Rightarrow> State_Monad.return (Inl (WipeClaimed err))
             | None \<Rightarrow> do {
                 e2 \<leftarrow> fsDo env (OpMkdirAll (pWorkspace p));
                 (case e2 of
                    Some err \<Rightarrow> State_Monad.return (Inl (RecreateWiped err))
                  | None \<Rightarrow> do { recordRecovery recoveryWrongTask; State_Monad.return (Inr []) }) }) }
          else (case diffStrings (wiRepoURLs i) (workspaceRepoURLs p) of
                  (added, removed) \<Rightarrow>
                    if added = [] \<and> removed = [] then State_Monad.return (Inr [])
                    else do {
                      recordRecovery recoveryRepoSetChanged;
                      State_Monad.return (Inr (map addedNote added @ map removedNote removed)) })) }"

text \<open>
  C28. A workspace stamped by one boot and claimed by the next: what was written is what is read, for
  names and URLs in well-formed UTF-8. The workspace is emptied exactly when both boots name a task and the names
  differ; otherwise nothing is deleted, and the agent is told of a change exactly when the set of
  repositories changed.
\<close>

theorem claim_after_write:
  assumes "validUtf8 (pTaskName p)" "validUtf8 (pProjectName p)" "list_all validUtf8 (workspaceRepoURLs p)"
    and wrote: "run_state (writeWorkspaceIdentity env0 p) w0 = (None, w1)"
      "snd (last (wsOps w1)) = OpWriteFile (pathJoin [pWorkspace q, workspaceIdentityFile]) content"
    and read: "eRead env (histOf w) (pathJoin [pWorkspace q, workspaceIdentityFile]) = Some content"
  shows "let other = pTaskName p \<noteq> [] \<and> pTaskName q \<noteq> [] \<and> pTaskName p \<noteq> pTaskName q;
             (res, w') = run_state (claimWorkspace env q) w
    in (OpRemoveAll (pWorkspace q) \<in> snd ` set (drop (length (wsOps w)) (wsOps w')) \<longleftrightarrow> other)
     \<and> (\<not> other \<longrightarrow> wsOps w' = wsOps w
          \<and> (\<exists>told. res = Inr told \<and> (told = [] \<longleftrightarrow> set (workspaceRepoURLs p) = set (workspaceRepoURLs q))))"
proof -
  have id: "fst (run_state (readWorkspaceIdentity env (pWorkspace q)) w) = Some \<lparr>wiContractVersion = workspaceContractVersion,
      wiTaskName = pTaskName p, wiProjectName = pProjectName p, wiRepoURLs = workspaceRepoURLs p\<rparr>"
    "snd (run_state (readWorkspaceIdentity env (pWorkspace q)) w) = w"
    using parseIdentity_marshal [OF assms(1-3)] read wrote
    by (auto simp: readWorkspaceIdentity_def writeWorkspaceIdentity_def identityText_def fsDo_def)
  show ?thesis
  proof (cases "pTaskName p \<noteq> [] \<and> pTaskName q \<noteq> [] \<and> pTaskName p \<noteq> pTaskName q")
    case True
    then show ?thesis
      by (simp add: claimWorkspace_def split_def id fsDo_def recordRecovery_def Let_def split: option.split)
  next
    case False
    then show ?thesis
      by (auto simp: claimWorkspace_def split_def id Let_def diffStrings_def recordRecovery_def filter_empty_conv)
  qed
qed

section \<open>What the agent is told\<close>

definition baseRefName :: "string \<Rightarrow> string" where
  "baseRefName baseBranch = (if baseBranch = [] then ''origin/HEAD'' else ''origin/'' @ baseBranch)"

record resumedRepo =
  rrName :: string
  rrDir :: string
  rrTaskBranch :: string
  rrBaseRef :: string
  rrResult :: string
  rrLocalResult :: string
  rrNotes :: "string list"
  rrRequired :: "string list"

definition reconciledCleanly :: "resumedRepo \<Rightarrow> bool" where
  "reconciledCleanly r \<longleftrightarrow>
     rrResult r \<in> {reconcileMerged, reconcileUpToDate}
     \<or> rrLocalResult r \<in> {reconcileLocalOnly, reconcileLocalAhead, reconcileRemoteAhead, reconcileLocalRemoteMerged}"

fun unionDirs :: "string list \<Rightarrow> resumedRepo list \<Rightarrow> resumedRepo list" where
  "unionDirs seen [] = []"
| "unionDirs seen (r # rs) =
     (if rrDir r \<in> set seen then unionDirs seen rs else r # unionDirs (rrDir r # seen) rs)"

definition orderedRepoUnion :: "resumedRepo list list \<Rightarrow> resumedRepo list" where
  "orderedRepoUnion buckets = unionDirs [] (concat buckets)"

definition resumeHeader :: string where
  "resumeHeader = joinWith nl
    [[],
     [],
     ''---'',
     [],
     ''## Resumed task branch'',
     [],
     ''You are not starting from an empty branch. In the repositories below the task'',
     ''branch already existed - on origin, on this workspace volume, or both - and'',
     ''carries commits from an earlier session of this same task. It is checked out for'',
     ''you, so the work you find there is your own prior work; read it before you plan,'',
     ''and continue it rather than restarting it.'',
     [],
     []]"

definition resumeRecoveredHeader :: string where
  "resumeRecoveredHeader = joinWith nl
    [[],
     ''### Workspace recovered from an interrupted session'',
     [],
     ''This workspace sits on a volume that outlived the pod using it, and the previous'',
     ''session was cut off rather than finished. Bootstrap repaired what it found'',
     ''before handing you the tree. Nothing was thrown away, but the branch is not'',
     ''shaped the way the last session left it, so read these before you plan:'',
     [],
     []]"

definition resumeConflictRequirement :: string where
  "resumeConflictRequirement = joinWith nl
    [[],
     ''### Hard requirement: repair the interrupted session first'',
     [],
     ''The previous session was cut off part way through something bootstrap could not'',
     ''finish for you. Nothing you committed before is lost and the working tree is'',
     ''clean at the tip of the task branch - but the branch is missing exactly the'',
     ''changes that could not be applied, and the code you are about to read is stale'',
     ''by them.'',
     [],
     ''Resolving this is a hard requirement and your first action. Before you read or'',
     ''write any other code, before any planning, work through the list below IN THE'',
     ''ORDER GIVEN, which is the order in which the items depend on each other: a tree'',
     ''bootstrap could not make sense of is inspected first, because what it holds can'',
     ''change what the merges are supposed to produce; then the merge of your own'',
     ''branch against origin, because merging the base branch into a branch that is'',
     ''still missing half its own commits reconciles nothing; then the base branch.'',
     [],
     []]"

definition resumeConflictClosing :: string where
  "resumeConflictClosing = joinWith nl
    [[],
     ''Do not begin any other work until every merge above is committed. Do not'',
     ''resolve a conflict by blindly taking one side; read both and keep the intent of'',
     ''each. If a merge genuinely cannot be resolved, say so in the outcome you submit'',
     ''rather than continuing on a stale tree.'',
     []]"

definition tick :: "string \<Rightarrow> string" where "tick s = backtick @ s @ backtick"

definition listedLine :: "resumedRepo \<Rightarrow> string" where
  "listedLine r = ''- '' @ tick (rrName r) @ '' at '' @ tick (rrDir r) @ '': branch '' @ tick (rrTaskBranch r)
     @ '', base ref '' @ tick (rrBaseRef r) @ ''.'' @ nl"

definition requiredLines :: "resumedRepo \<Rightarrow> string" where
  "requiredLines r = concat (map (\<lambda>n. ''- In '' @ tick (rrDir r) @ '': '' @ n @ ''.'' @ nl) (rrRequired r))"

definition localLine :: "resumedRepo \<Rightarrow> string" where
  "localLine r = ''- In '' @ tick (rrDir r) @ '': fetch origin, merge '' @ tick (''origin/'' @ rrTaskBranch r) @ '' into your local ''
     @ tick (rrTaskBranch r) @ '', resolve every conflict, commit the merge.'' @ nl"

definition baseLine :: "resumedRepo \<Rightarrow> string" where
  "baseLine r = ''- In '' @ tick (rrDir r) @ '': fetch origin, merge '' @ tick (rrBaseRef r) @ '' into ''
     @ tick (rrTaskBranch r) @ '', resolve every conflict, commit the merge.'' @ nl"

definition mustInspect :: "resumedRepo \<Rightarrow> bool" where "mustInspect r \<longleftrightarrow> rrRequired r \<noteq> []"
definition localUnreconciled :: "resumedRepo \<Rightarrow> bool" where
  "localUnreconciled r \<longleftrightarrow> rrLocalResult r = reconcileLocalRemoteConflict"
definition baseUnreconciled :: "resumedRepo \<Rightarrow> bool" where
  "baseUnreconciled r \<longleftrightarrow> rrResult r \<in> {reconcileConflict, reconcileBaseUnresolved}"
definition recovered :: "resumedRepo \<Rightarrow> bool" where "recovered r \<longleftrightarrow> rrNotes r \<noteq> []"

definition resumeDirective :: "resumedRepo list \<Rightarrow> string list \<Rightarrow> string" where
  "resumeDirective repos workspaceNotes =
     (let inspect = filter mustInspect repos; local = filter localUnreconciled repos; base = filter baseUnreconciled repos;
          rec = filter recovered repos; clean = filter reconciledCleanly repos;
          listed = orderedRepoUnion [inspect, local, base, rec, clean]
      in if listed = [] \<and> workspaceNotes = [] then []
         else resumeHeader @ concat (map listedLine listed)
              @ (if rec \<noteq> [] \<or> workspaceNotes \<noteq> []
                 then resumeRecoveredHeader @ concat (map (\<lambda>n. ''- '' @ n @ nl) workspaceNotes)
                      @ concat (map (\<lambda>r. concat (map (\<lambda>n. ''- In '' @ tick (rrDir r) @ '': '' @ n @ nl) (rrNotes r))) rec)
                 else [])
              @ (if inspect \<noteq> [] \<or> local \<noteq> [] \<or> base \<noteq> []
                 then resumeConflictRequirement @ concat (map requiredLines inspect) @ concat (map localLine local)
                      @ concat (map baseLine base) @ resumeConflictClosing
                 else []))"

section \<open>Cloning and resuming the repositories\<close>

definition credentialHelper :: string where
  "credentialHelper = ''!f() { echo username=x-access-token; echo '' @ [quote] @ ''password=$GIT_TOKEN'' @ [quote] @ ''; }; f''"

definition gitConfig :: "wsEnv \<Rightarrow> string \<Rightarrow> string \<Rightarrow> string option ws" where
  "gitConfig env key v = gitRun env [] [''config'', ''--global'', key, v]"

definition configureGit :: "wsEnv \<Rightarrow> Params \<Rightarrow> string option ws" where
  "configureGit env p = do {
     e1 \<leftarrow> (if pGitUserName p \<noteq> [] then gitConfig env ''user.name'' (pGitUserName p) else State_Monad.return None);
     (case e1 of
        Some err \<Rightarrow> State_Monad.return (Some err)
      | None \<Rightarrow> do {
          e2 \<leftarrow> (if pGitUserEmail p \<noteq> [] then gitConfig env ''user.email'' (pGitUserEmail p) else State_Monad.return None);
          (case e2 of
             Some err \<Rightarrow> State_Monad.return (Some err)
           | None \<Rightarrow>
               if pGitToken p \<noteq> [] then gitConfig env ''credential.helper'' credentialHelper else State_Monad.return None) }) }"

definition recordReconcile :: "string \<Rightarrow> unit ws" where
  "recordReconcile result =
     (if result = [] then State_Monad.return ()
      else State (\<lambda>w. ((), w\<lparr>wsReconcile := inc result (wsReconcile w)\<rparr>)))"

definition countClone :: "string \<Rightarrow> unit ws" where
  "countClone l = State (\<lambda>w. ((), w\<lparr>wsClone := inc l (wsClone w)\<rparr>))"

text \<open>\<^verbatim>\<open>RunHook\<close>, best-effort: its failure is counted and nothing else.\<close>

definition bootHook :: "wsEnv \<Rightarrow> string \<Rightarrow> string \<Rightarrow> unit ws" where
  "bootHook env name command =
     (if command = [] then State_Monad.return ()
      else State (\<lambda>w. ((), w\<lparr>wsHooks := inc (if eHookFails env (histOf w) name then ''fail'' else ''ok'', name) (wsHooks w)\<rparr>)))"

datatype renderErr = ClaimErr claimErr | GitConfigErr string | NoNamespace string | Collision string string string
  | MkdirParent string | PrepareErr wsError | CloneErr string | CheckoutErr checkoutErr

definition cloneArgs :: "bool \<Rightarrow> string \<Rightarrow> string \<Rightarrow> string \<Rightarrow> string list" where
  "cloneArgs full branch url dest =
     [''clone''] @ (if \<not> full then [''--depth'', ''1''] else []) @ (if branch \<noteq> [] then [''--branch'', branch] else []) @ [url, dest]"

text \<open>The branch checked out after a clone.\<close>

definition checkoutBranchOf :: "Params \<Rightarrow> string" where
  "checkoutBranchOf p = (if pTaskBranch p = [] then pCheckoutBranch p else pTaskBranch p)"

text \<open>
  One repository, once its destination is known: preparation, clone when there is no checkout, and
  the task branch. \<^const>\<open>Inl\<close> carries the error; the loop decides whether it ends the boot.
\<close>

datatype repoStep = StepPrepare wsError | StepClone string | StepCheckout checkoutErr | StepDone "resumedRepo option"

definition bootRepo :: "wsEnv \<Rightarrow> Params \<Rightarrow> RepoSpec \<Rightarrow> string \<Rightarrow> repoStep ws" where
  "bootRepo env p r dest = do {
     bootHook env ''preClone'' (pHookPreClone p);
     (prep, prepErr) \<leftarrow> PrepareWorkspace env dest;
     (case prepErr of
        Some e \<Rightarrow> State_Monad.return (StepPrepare e)
      | None \<Rightarrow> do {
          st \<leftarrow> statOf env (pathJoin [dest, ''.git'']);
          cloneErr \<leftarrow> (if st = NotExist then gitRun env (pWorkspace p) (cloneArgs (pFullClone p) (rsBranch r) (rsURL r) dest)
                       else State_Monad.return None);
          (case cloneErr of
             Some e \<Rightarrow> do { countClone ''fail''; State_Monad.return (StepClone e) }
           | None \<Rightarrow>
               if checkoutBranchOf p = [] then do {
                 countClone ''ok'';
                 bootHook env ''postClone'' (pHookPostClone p);
                 State_Monad.return (StepDone None) }
               else do {
                 (resumed, localResult, result, err) \<leftarrow> checkoutTaskBranch env dest (checkoutBranchOf p) (rsBranch r)
                   (pFullClone p) (pTaskBranch p \<noteq> []) (st \<noteq> NotExist);
                 recordReconcile localResult;
                 recordReconcile result;
                 (case err of
                    Some e \<Rightarrow> do { countClone ''fail''; State_Monad.return (StepCheckout e) }
                  | None \<Rightarrow> do {
                      countClone ''ok'';
                      bootHook env ''postClone'' (pHookPostClone p);
                      State_Monad.return (StepDone
                        (if resumed \<or> wpNotes prep \<noteq> [] \<or> wpRequired prep \<noteq> []
                         then Some \<lparr>rrName = rsName r, rrDir = dest, rrTaskBranch = checkoutBranchOf p,
                                    rrBaseRef = baseRefName (rsBranch r), rrResult = result, rrLocalResult = localResult,
                                    rrNotes = wpNotes prep, rrRequired = wpRequired prep\<rparr>
                         else None)) }) }) }) }"

fun bootRepos ::
  "wsEnv \<Rightarrow> Params \<Rightarrow> bool \<Rightarrow> (string \<times> string) list \<Rightarrow> RepoSpec list \<Rightarrow> (renderErr + resumedRepo list) ws" where
  "bootRepos env p isPrimary seen [] = State_Monad.return (Inr [])"
| "bootRepos env p isPrimary seen (r # rs) =
     (let dest = RepoDir (pWorkspace p) (rsURL r)
      in if dest = [] then
           (if isPrimary then State_Monad.return (Inl (NoNamespace (rsURL r))) else bootRepos env p False seen rs)
         else (case map_of seen dest of
                 Some first \<Rightarrow> State_Monad.return (Inl (Collision first (rsURL r) dest))
               | None \<Rightarrow> do {
                   e \<leftarrow> fsDo env (OpMkdirAll (pathDir dest));
                   (case e of
                      Some err \<Rightarrow>
                        if isPrimary then State_Monad.return (Inl (MkdirParent err))
                        else bootRepos env p False ((dest, rsURL r) # seen) rs
                    | None \<Rightarrow> do {
                        step \<leftarrow> bootRepo env p r dest;
                        (case step of
                           StepPrepare err \<Rightarrow>
                             if isPrimary then State_Monad.return (Inl (PrepareErr err))
                             else bootRepos env p False ((dest, rsURL r) # seen) rs
                         | StepClone err \<Rightarrow>
                             if isPrimary then State_Monad.return (Inl (CloneErr err))
                             else bootRepos env p False ((dest, rsURL r) # seen) rs
                         | StepCheckout err \<Rightarrow> State_Monad.return (Inl (CheckoutErr err))
                         | StepDone res \<Rightarrow> do {
                             more \<leftarrow> bootRepos env p False ((dest, rsURL r) # seen) rs;
                             State_Monad.return
                               (case more of Inl err \<Rightarrow> Inl err | Inr l \<Rightarrow> Inr (case res of None \<Rightarrow> l | Some x \<Rightarrow> x # l)) }) }) }))"

text \<open>The single repository of a pod without a list: its name in the report is its URL.\<close>

definition bootSingle :: "wsEnv \<Rightarrow> Params \<Rightarrow> (renderErr + resumedRepo list) ws" where
  "bootSingle env p =
     (let r = \<lparr>rsName = pRepoURL p, rsURL = pRepoURL p, rsBranch = pRepoBranch p\<rparr> in bootRepos env p True [] [r])"

text \<open>The part of \<^verbatim>\<open>Render\<close> that concerns repositories: the workspace notes and the resumed repositories.\<close>

definition renderRepos :: "wsEnv \<Rightarrow> Params \<Rightarrow> (renderErr + string list \<times> resumedRepo list) ws" where
  "renderRepos env p = do {
     claimed \<leftarrow> claimWorkspace env p;
     (case claimed of
        Inl err \<Rightarrow> State_Monad.return (Inl (ClaimErr err))
      | Inr workspaceNotes \<Rightarrow>
          if pRepos p = [] \<and> pRepoURL p = [] then State_Monad.return (Inr (workspaceNotes, []))
          else do {
            e \<leftarrow> configureGit env p;
            (case e of
               Some err \<Rightarrow> State_Monad.return (Inl (GitConfigErr err))
             | None \<Rightarrow> do {
                 res \<leftarrow> (if pRepos p \<noteq> [] then bootRepos env p True [] (pRepos p) else bootSingle env p);
                 State_Monad.return (case res of Inl err \<Rightarrow> Inl err | Inr l \<Rightarrow> Inr (workspaceNotes, l)) }) }) }"

section \<open>The directories of hooks and pushes\<close>

definition hook_repoDirs :: "string \<Rightarrow> RepoSpec list \<Rightarrow> string \<Rightarrow> string list" where
  "hook_repoDirs workspace repos repoURL =
     (if repos \<noteq> [] then
        concat (map (\<lambda>r. let ns = namespacePath (rsURL r)
                        in if ns = [] \<or> pathClean (pathJoin [workspace, ns]) = pathClean workspace then []
                           else [pathJoin [workspace, ns]]) repos)
      else if repoURL \<noteq> [] \<and> RepoDir workspace repoURL \<noteq> [] then [RepoDir workspace repoURL] else [])"

lemma hook_repoDirs_RepoDir:
  "hook_repoDirs ws repos url = filter (\<lambda>d. d \<noteq> []) (map (RepoDir ws) (if repos \<noteq> [] then map rsURL repos else [url]))"
proof -
  have "concat (map (\<lambda>r. let ns = namespacePath (rsURL r)
        in if ns = [] \<or> pathClean (pathJoin [ws, ns]) = pathClean ws then [] else [pathJoin [ws, ns]]) rs)
      = filter (\<lambda>d. d \<noteq> []) (map (RepoDir ws) (map rsURL rs))" for rs
  proof (induction rs)
    case (Cons r rs)
    then show ?case
      using RepoDir_Nil [of ws "rsURL r"] RepoDir_join [of ws "rsURL r"] by (simp add: Let_def)
  qed simp
  moreover have "RepoDir ws [] = []" by (simp add: RepoDir_def) code_simp
  ultimately show ?thesis by (auto simp: hook_repoDirs_def)
qed

text \<open>
  The hooks are installed in exactly the directories, and in the order, in which the mid-turn safety
  net pushes.
\<close>

theorem repo_dirs_agree:
  "hook_repoDirs (spWorkspace s) (spRepos s) (spRepoURL s) = safety_repoDirs s"
  by (simp add: hook_repoDirs_RepoDir safety_repoDirs_def comp_def)

section \<open>Failures of a boot\<close>

lemma secondary_errors:
  "yields (\<lambda>r. \<forall>e. r = Inl e \<longrightarrow> (\<exists>a b d. e = Collision a b d) \<or> (\<exists>c. e = CheckoutErr c)) (bootRepos env p False seen rs)"
proof (induction rs arbitrary: seen)
  case Nil
  then show ?case by (simp add: yields_def)
next
  case (Cons r rs)
  show ?case
    unfolding bootRepos.simps Let_def
    by (auto intro!: yields_bind [OF yields_any] yields_return Cons.IH yields_bind [OF Cons.IH]
        split: option.split repoStep.split sum.splits)
qed

text \<open>
  A secondary repository cannot fail a boot by its URL, its directory, its inherited state or its
  clone: an error of the repository loop is a collision of two destinations, a failed checkout of the
  task branch, or the error the first repository gives alone.
\<close>

theorem secondary_isolated:
  assumes "fst (run_state (bootRepos env p True [] (r # rs)) w) = Inl e"
  shows "(\<exists>a b d. e = Collision a b d) \<or> (\<exists>c. e = CheckoutErr c)
    \<or> fst (run_state (bootRepos env p True [] [r]) w) = Inl e"
proof -
  let ?d = "RepoDir (pWorkspace p) (rsURL r)"
  obtain m w1 where m: "run_state (fsDo env (OpMkdirAll (pathDir ?d))) w = (m, w1)"
    by (cases "run_state (fsDo env (OpMkdirAll (pathDir ?d))) w")
  obtain st w2 where st: "run_state (bootRepo env p r ?d) w1 = (st, w2)" by (cases "run_state (bootRepo env p r ?d) w1")
  have sec: "(\<exists>a b d. e = Collision a b d) \<or> (\<exists>c. e = CheckoutErr c)"
    if "fst (run_state (bootRepos env p False seen rs) w') = Inl e" for seen w'
    using that secondary_errors [of env p seen rs] unfolding yields_def by blast
  show ?thesis
  proof (cases "?d \<noteq> [] \<and> m = None \<and> (\<exists>x. st = StepDone x)")
    case True
    then have "fst (run_state (bootRepos env p False [(?d, rsURL r)] rs) w2) = Inl e"
      using assms m st by (auto simp: Let_def split_def split: sum.splits)
    with sec show ?thesis by blast
  next
    case False
    then have "run_state (bootRepos env p True [] (r # rs)) w = run_state (bootRepos env p True [] [r]) w"
      using m st by (auto simp: Let_def split: option.split repoStep.split)
    with assms show ?thesis by simp
  qed
qed

section \<open>Destinations of clones\<close>

definition isClone :: "gitCmd \<Rightarrow> bool" where
  "isClone c \<longleftrightarrow> snd c \<noteq> [] \<and> hd (snd c) = ''clone''"

definition cloneDests :: "gitCmd list \<Rightarrow> string list" where
  "cloneDests cs = map (\<lambda>c. last (snd c)) (filter isClone cs)"

lemma cloneDests_append [simp]: "cloneDests (a @ b) = cloneDests a @ cloneDests b"
  by (simp add: cloneDests_def)

lemma not_additive_clone: "additive c \<Longrightarrow> \<not> isClone c"
  by (auto simp: additive_def isClone_def split: list.splits)

lemma PrepareWorkspace_noclone: "emits (\<lambda>c. \<not> isClone c) (PrepareWorkspace env dest)"
  unfolding traces_def emitsR_def
proof
  fix w
  obtain cs ds where "gitLog (snd (run_state (PrepareWorkspace env dest) w)) = gitLog w @ cs @ ds" "list_all additive cs"
    "ds = [] \<or> cleanReset env (wsOps (snd (run_state (PrepareWorkspace env dest) w))) (gitLog w @ cs) dest ds"
    using PrepareWorkspace_trace by blast
  then show "\<exists>cs. gitLog (snd (run_state (PrepareWorkspace env dest) w)) = gitLog w @ cs \<and> list_all (\<lambda>c. \<not> isClone c) cs"
    using not_additive_clone by (intro exI [of _ "cs @ ds"]) (auto simp: list_all_iff cleanReset_def isClone_def)
qed

lemma checkout_noclone: "emits (\<lambda>c. \<not> isClone c) (checkoutTaskBranch env dir tb base full rec persistent)"
  unfolding checkoutTaskBranch_def checkoutKnown_def checkoutArm_def unshallowBestEffort_def mergeRemoteTaskBranch_def
    reconcileWithBase_def mergeBase_def
  by (intro emits_rules) (simp_all add: isClone_def)

abbreviation (input) noClone :: "'a ws \<Rightarrow> bool" where
  "noClone \<equiv> emits (\<lambda>c. \<not> isClone c)"

lemma noClone_dests: "list_all (\<lambda>c. \<not> isClone c) cs \<Longrightarrow> cloneDests cs = []"
  by (simp add: cloneDests_def filter_False list_all_iff)

definition oneClone :: "string \<Rightarrow> wsWorld \<Rightarrow> gitCmd list \<Rightarrow> wsWorld \<Rightarrow> bool" where
  "oneClone dest w cs w' \<longleftrightarrow> cloneDests cs = [] \<or> cloneDests cs = [dest]"

lemma oneClone_none: "noClone p \<Longrightarrow> traces (oneClone dest) p"
  unfolding traces_def emitsR_def oneClone_def using noClone_dests by blast

lemma oneClone_before:
  assumes "noClone p" "\<And>x. traces (oneClone dest) (f x)"
  shows "traces (oneClone dest) (State_Monad.bind p f)"
  unfolding traces_def
proof
  fix w
  obtain x w1 where p: "run_state p w = (x, w1)" by (cases "run_state p w")
  obtain a where a: "gitLog w1 = gitLog w @ a" "cloneDests a = []" using emitsE [OF assms(1), of w] p noClone_dests by auto
  obtain b where "gitLog (snd (run_state (f x) w1)) = gitLog w1 @ b" "cloneDests b = [] \<or> cloneDests b = [dest]"
    using assms(2) [of x] unfolding traces_def oneClone_def by blast
  with p a show "\<exists>cs. gitLog (snd (run_state (State_Monad.bind p f) w)) = gitLog w @ cs
      \<and> oneClone dest w cs (snd (run_state (State_Monad.bind p f) w))" by (simp add: oneClone_def)
qed

lemma oneClone_after:
  assumes "traces (oneClone dest) p" "\<And>x. noClone (f x)"
  shows "traces (oneClone dest) (State_Monad.bind p f)"
  unfolding traces_def
proof
  fix w
  obtain x w1 where p: "run_state p w = (x, w1)" by (cases "run_state p w")
  obtain a where a: "gitLog w1 = gitLog w @ a" "cloneDests a = [] \<or> cloneDests a = [dest]"
    using assms(1) p unfolding traces_def oneClone_def by (metis snd_conv)
  obtain b where "gitLog (snd (run_state (f x) w1)) = gitLog w1 @ b" "cloneDests b = []"
    using emitsE [OF assms(2) [of x], of w1] noClone_dests by auto
  with p a show "\<exists>cs. gitLog (snd (run_state (State_Monad.bind p f) w)) = gitLog w @ cs
      \<and> oneClone dest w cs (snd (run_state (State_Monad.bind p f) w))" by (auto simp: oneClone_def)
qed

lemma emits_counts:
  "emits C (countClone l)" "emits C (recordReconcile res)" "emits C (bootHook env name cmd)"
  by (simp_all add: traces_def emitsR_def countClone_def recordReconcile_def bootHook_def gitLog_def)

lemma traces_prod: "(\<And>x y. traces R (f x y)) \<Longrightarrow> traces R (case s of (x, y) \<Rightarrow> f x y)"
  by (cases s) simp

lemma traces_option: "traces R g \<Longrightarrow> (\<And>x. traces R (h x)) \<Longrightarrow> traces R (case e of None \<Rightarrow> g | Some x \<Rightarrow> h x)"
  by (cases e) auto

lemma bootRepo_clones: "traces (oneClone dest) (bootRepo env p r dest)"
proof -
  have cl: "traces (oneClone dest) (if st = NotExist then gitRun env d (cloneArgs full b u dest) else State_Monad.return None)" for st d full b u
    by (simp add: traces_def oneClone_def cloneDests_def isClone_def cloneArgs_def)
  show ?thesis
    unfolding bootRepo_def
    apply (rule oneClone_before [OF emits_counts(3)])
    apply (rule oneClone_before [OF PrepareWorkspace_noclone])
    apply (rule traces_prod)
    apply (rule traces_option)
     apply (rule oneClone_before [OF emitting.t_asks(2)])
     apply (rule oneClone_after [OF cl])
     apply (intro emits_rules emits_counts checkout_noclone)
    apply (intro oneClone_none emits_rules)
    done
qed

lemma bootRepos_clones:
  "\<exists>cs. gitLog (snd (run_state (bootRepos env p primary seen rs) w)) = gitLog w @ cs \<and> distinct (cloneDests cs)
     \<and> set (cloneDests cs) \<subseteq> RepoDir (pWorkspace p) ` rsURL ` set rs - insert [] (fst ` set seen)"
proof (induction rs arbitrary: primary seen w)
  case (Cons r rs)
  let ?d = "RepoDir (pWorkspace p) (rsURL r)"
  obtain out where out: "out = snd (run_state (bootRepos env p primary seen (r # rs)) w)" by simp
  let ?ok = "\<lambda>w'. \<exists>cs. gitLog w' = gitLog w @ cs \<and> distinct (cloneDests cs)
     \<and> set (cloneDests cs) \<subseteq> RepoDir (pWorkspace p) ` rsURL ` set (r # rs) - insert [] (fst ` set seen)"
  have stop: "?ok w'" if "gitLog w' = gitLog w" for w'
    using that by (intro exI [of _ "[]"]) (simp add: cloneDests_def)
  obtain m w1 where m: "run_state (fsDo env (OpMkdirAll (pathDir ?d))) w = (m, w1)"
    by (cases "run_state (fsDo env (OpMkdirAll (pathDir ?d))) w")
  then have l1: "gitLog w1 = gitLog w" by (auto simp: fsDo_def gitLog_def)
  obtain st w2 where st: "run_state (bootRepo env p r ?d) w1 = (st, w2)" by (cases "run_state (bootRepo env p r ?d) w1")
  obtain a where a: "gitLog w2 = gitLog w @ a" "cloneDests a = [] \<or> cloneDests a = [?d]"
    using bootRepo_clones [of ?d env p r] st l1 unfolding traces_def oneClone_def by (metis snd_conv)
  let ?seen = "(?d, rsURL r) # seen"
  have skip: "?ok (snd (run_state (bootRepos env p False seen rs) w))" using Cons.IH [of False seen w] by auto
  have next1: "?ok (snd (run_state (bootRepos env p False ?seen rs) w1))"
    using Cons.IH [of False ?seen w1] l1 by auto
  show ?case
  proof (cases "?d = [] \<or> map_of seen ?d \<noteq> None \<or> m \<noteq> None")
    case True
    then have "out = w \<or> out = w1 \<or> out = snd (run_state (bootRepos env p False seen rs) w)
        \<or> out = snd (run_state (bootRepos env p False ?seen rs) w1)"
      using m unfolding out by (cases "map_of seen ?d") (auto simp: Let_def)
    then show ?thesis using stop [of w] stop [OF l1] skip next1 unfolding out [symmetric] by (elim disjE) simp_all
  next
    case False
    then have fresh: "?d \<noteq> []" "?d \<notin> fst ` set seen" by (auto simp: map_of_eq_None_iff)
    have here: "?ok w2" using a fresh by (intro exI [of _ a] conjI) (elim disjE, simp, simp)+
    have next2: "?ok (snd (run_state (bootRepos env p False ?seen rs) w2))"
    proof -
      define S where "S = fst ` set seen"
      obtain b where b: "gitLog (snd (run_state (bootRepos env p False ?seen rs) w2)) = gitLog w2 @ b" "distinct (cloneDests b)"
        "set (cloneDests b) \<subseteq> RepoDir (pWorkspace p) ` rsURL ` set rs - insert [] (fst ` set ?seen)"
        using Cons.IH by blast
      have s: "fst ` set ?seen = insert ?d S" "?d \<notin> S" using fresh by (simp_all add: S_def)
      have "distinct (cloneDests (a @ b))" using a(2) b(2,3) unfolding s(1) by auto
      moreover have "set (cloneDests (a @ b)) \<subseteq> RepoDir (pWorkspace p) ` rsURL ` set (r # rs) - insert [] S"
        using a(2) b(3) s(2) fresh(1) unfolding s(1) by auto
      ultimately show ?thesis using a(1) b(1) unfolding S_def by (intro exI [of _ "a @ b"]) simp
    qed
    have "out = w2 \<or> out = snd (run_state (bootRepos env p False ?seen rs) w2)"
      using False m st unfolding out by (auto simp: Let_def split_def split: repoStep.split)
    then show ?thesis using here next2 unfolding out [symmetric] by (elim disjE) simp_all
  qed
qed (simp add: cloneDests_def)


section \<open>The report\<close>

lemma unionDirs_spec:
  "distinct (map rrDir (unionDirs seen rs)) \<and> rrDir ` set (unionDirs seen rs) = rrDir ` set rs - set seen"
  by (induction seen rs rule: unionDirs.induct) auto

definition reportable :: "resumedRepo \<Rightarrow> bool" where
  "reportable r \<longleftrightarrow> mustInspect r \<or> localUnreconciled r \<or> baseUnreconciled r \<or> recovered r \<or> reconciledCleanly r"

text \<open>
  The block about resumed branches names every repository that was resumed, repaired or left
  unreconciled, each directory once; it is empty exactly when there is neither such a repository nor
  a note on the workspace, and it ends with the requirement to repair exactly when some repository
  needs it: the trees to inspect first, then the merges with the remote, then those with the base.
\<close>

theorem directive_complete:
  "(resumeDirective repos wn = [] \<longleftrightarrow> wn = [] \<and> \<not> list_ex reportable repos)
   \<and> (let listed = orderedRepoUnion [filter mustInspect repos, filter localUnreconciled repos, filter baseUnreconciled repos,
              filter recovered repos, filter reconciledCleanly repos]
      in distinct (map rrDir listed) \<and> rrDir ` set listed = rrDir ` {r \<in> set repos. reportable r})"
proof
  let ?listed = "orderedRepoUnion [filter mustInspect repos, filter localUnreconciled repos, filter baseUnreconciled repos,
              filter recovered repos, filter reconciledCleanly repos]"
  have spec: "distinct (map rrDir ?listed)" "rrDir ` set ?listed = rrDir ` {r \<in> set repos. reportable r}"
    using unionDirs_spec [of "[]"] by (auto simp: orderedRepoUnion_def reportable_def)
  then show "let listed = ?listed in distinct (map rrDir listed) \<and> rrDir ` set listed = rrDir ` {r \<in> set repos. reportable r}"
    by simp
  have "resumeHeader \<noteq> []" by code_simp
  moreover have "?listed = [] \<longleftrightarrow> \<not> list_ex reportable repos"
  proof -
    have "?listed = [] \<longleftrightarrow> rrDir ` set ?listed = {}" by simp
    also have "\<dots> \<longleftrightarrow> \<not> list_ex reportable repos" unfolding spec(2) by (auto simp: list_ex_iff)
    finally show ?thesis .
  qed
  ultimately show "resumeDirective repos wn = [] \<longleftrightarrow> wn = [] \<and> \<not> list_ex reportable repos"
    by (auto simp: resumeDirective_def Let_def)
qed

section \<open>Concrete boots\<close>

definition demoParams :: "string \<Rightarrow> RepoSpec list \<Rightarrow> Params" where
  "demoParams task repos = \<lparr>pHomeDir = ''/home/agent'', pWorkspace = ''/workspace'', pGlobalClaudeMd = [], pProjectClaudeMd = [],
     pBaseMCP = [], pMCPOverlayDir = [], pGrafanaMCPURL = [], pSerenaMCPURL = [], pExtraMCPServers = [],
     pExtraSkillSources = [], pSkillsSrc = [], pSkillProfile = [], pSkillsRepo = [], pSkillsRef = [], pSkillsCloneDir = [],
     pAgentsSrc = [], pHookCommand = ''cc-stop-hook'', pStatusLineCommand = [], pAllowedTools = [], pEnableAllMCP = True,
     pPermissionMode = [], pEffort = [], pAnthropicAPIKey = [], pRepoURL = [], pRepoBranch = [], pGitToken = [],
     pGitUserName = [], pGitUserEmail = [], pTaskBranch = ''tatara/'' @ task, pCheckoutBranch = [],
     pBranchPushInterval = 0, pFullClone = False, pRepos = repos, pTaskName = task, pProjectName = ''p'',
     pHookPreClone = [], pHookPostClone = [], pHookConversationStart = [], pHookConversationRestart = [],
     pHookAgentTurnFinished = [], pHookConversationFinished = []\<rparr>"

definition demoRepo :: "string \<Rightarrow> RepoSpec" where
  "demoRepo n = \<lparr>rsName = n, rsURL = ''https://github.com/o/'' @ n, rsBranch = ''main''\<rparr>"

text \<open>A workspace stamped for task one, and a host that refuses every clone.\<close>

definition stampedEnv :: wsEnv where
  "stampedEnv = demoEnv\<lparr>eRead := (\<lambda>_ _. Some (identityText (demoParams ''one'' [demoRepo ''a'']))) \<rparr>"

definition refusingEnv :: wsEnv where
  "refusingEnv = demoEnv\<lparr>eStat := (\<lambda>_ _. NotExist),
     eGit := (\<lambda>_ _ _ args. if args \<noteq> [] \<and> hd args = ''clone'' then Some ''exit status 128'' else None)\<rparr>"

theorem claim_after_write_witness:
  "OpRemoveAll ''/workspace'' \<in> snd ` set (wsOps (snd (run_state (claimWorkspace stampedEnv (demoParams ''two'' [demoRepo ''a''])) demoWs)))
   \<and> wsOps (snd (run_state (claimWorkspace stampedEnv (demoParams ''one'' [demoRepo ''b''])) demoWs)) = []"
proof -
  let ?p = "demoParams ''one'' [demoRepo ''a'']"
  have ascii: "list_all (list_all (\<lambda>c. byte c < 128)) (pTaskName ?p # pProjectName ?p # workspaceRepoURLs ?p)" by code_simp
  have asc: "validUtf8 (pTaskName ?p)" "validUtf8 (pProjectName ?p)" "list_all validUtf8 (workspaceRepoURLs ?p)"
    using ascii validUtf8_ascii by (simp_all only: list.pred_inject) (blast intro: list.pred_mono_strong)+
  have rd: "eRead stampedEnv h f = Some (identityText ?p)" for h f by (simp add: stampedEnv_def)
  define w1 where "w1 = snd (run_state (writeWorkspaceIdentity demoEnv ?p) demoWs)"
  have wr: "run_state (writeWorkspaceIdentity demoEnv ?p) demoWs = (None, w1)"
    by (simp add: w1_def writeWorkspaceIdentity_def fsDo_def demoEnv_def)
  have last: "snd (last (wsOps w1)) = OpWriteFile (pathJoin [pWorkspace q, workspaceIdentityFile]) (identityText ?p)"
    if "pWorkspace q = pWorkspace ?p" for q
    using that by (simp add: w1_def writeWorkspaceIdentity_def fsDo_def)
  note t = claim_after_write [OF asc wr last rd, where w = demoWs]
  show ?thesis
    using t [of "demoParams ''two'' [demoRepo ''a'']"] t [of "demoParams ''one'' [demoRepo ''b'']"]
    by (simp add: Let_def split_def) (simp add: demoParams_def demoWs_def)
qed

theorem secondary_isolated_witness:
  "fst (run_state (bootRepos refusingEnv (demoParams ''one'' []) True [] [demoRepo ''a'']) demoWs) = Inl (CloneErr ''exit status 128'')"
proof -
  have "fst (run_state (bootRepos refusingEnv (demoParams ''one'' []) True [] (demoRepo ''a'' # [demoRepo ''b''])) demoWs)
      = Inl (CloneErr ''exit status 128'')" by code_simp
  from secondary_isolated [OF this] show ?thesis by simp
qed

end
