(* ===== verification/OpTrace.thy ===== *)
theory OpTrace
  imports Workspace
begin

text \<open>
  The calculus of logs for changes of the file system: \<open>changes C p\<close> says that every change \<open>p\<close> makes
  satisfies \<open>C\<close>, a condition on the history at the moment of the change and on the change. It is an
  instance of the laws of traces, so that it passes through sequences, branches and loops.
\<close>

definition opsR :: "(hist \<Rightarrow> fsOp \<Rightarrow> bool) \<Rightarrow> wsWorld \<Rightarrow> gitCmd list \<Rightarrow> wsWorld \<Rightarrow> bool" where
  "opsR C w cs w' \<longleftrightarrow>
     (\<exists>new. wsOps w' = wsOps w @ new
        \<and> (\<forall>k < length new. fst (new ! k) \<le> length (gitLog w')
             \<and> C (wsOps w @ take k new, take (fst (new ! k)) (gitLog w')) (snd (new ! k))))"

lemma opsR_append:
  assumes l: "gitLog w2 = gitLog w1 @ b" and "opsR C w a w1" "opsR C w1 b w2"
  shows "opsR C w cs w2"
proof -
  obtain n1 where n1: "wsOps w1 = wsOps w @ n1"
      "\<And>k. k < length n1 \<Longrightarrow> fst (n1 ! k) \<le> length (gitLog w1)
         \<and> C (wsOps w @ take k n1, take (fst (n1 ! k)) (gitLog w1)) (snd (n1 ! k))"
    using assms(2) unfolding opsR_def by blast
  obtain n2 where n2: "wsOps w2 = wsOps w1 @ n2"
      "\<And>k. k < length n2 \<Longrightarrow> fst (n2 ! k) \<le> length (gitLog w2)
         \<and> C (wsOps w1 @ take k n2, take (fst (n2 ! k)) (gitLog w2)) (snd (n2 ! k))"
    using assms(3) unfolding opsR_def by blast
  have "fst ((n1 @ n2) ! k) \<le> length (gitLog w2)
      \<and> C (wsOps w @ take k (n1 @ n2), take (fst ((n1 @ n2) ! k)) (gitLog w2)) (snd ((n1 @ n2) ! k))"
    if "k < length (n1 @ n2)" for k
  proof (cases "k < length n1")
    case True
    then show ?thesis using n1(2) [OF True] l by (auto simp: nth_append)
  next
    case False
    then have "k - length n1 < length n2" using that by simp
    from n2(2) [OF this] n1(1) False show ?thesis by (simp add: nth_append)
  qed
  then show ?thesis unfolding opsR_def using n1(1) n2(1) by (intro exI [of _ "n1 @ n2"]) simp
qed

interpretation changing: trace_law "opsR C" for C
proof unfold_locales
  fix w w' :: wsWorld assume "wsOps w' = wsOps w"
  then show "opsR C w [] w'" by (simp add: opsR_def)
next
  fix w1 w w2 :: wsWorld and a b
  assume "gitLog w2 = gitLog w1 @ b" "opsR C w a w1" "opsR C w1 b w2"
  then show "opsR C w (a @ b) w2" by (rule opsR_append)
qed

abbreviation changes :: "(hist \<Rightarrow> fsOp \<Rightarrow> bool) \<Rightarrow> 'a ws \<Rightarrow> bool" where
  "changes C p \<equiv> traces (opsR C) p"

lemma changes_git: "changes C (gitRun env dir args)" "changes C (gitOk env dir args)"
  by (auto intro!: changing.t_gitRun changing.t_gitOk simp: opsR_def)

lemma changes_fsDo: "(\<And>w. C (histOf w) op) \<Longrightarrow> changes C (fsDo env op)"
  by (auto simp: traces_def fsDo_def gitLog_def opsR_def histOf_def)

lemma changes_unstage: "changes C (unstageOversized env dir)"
  by (auto simp: traces_def unstageOversized_def gitLog_def opsR_def resets_def split: option.split)

lemma changes_silent: "(\<And>w. gitLog (f w) = gitLog w \<and> wsOps (f w) = wsOps w) \<Longrightarrow> changes C (State (\<lambda>w. (g w, f w)))"
  by (simp add: traces_def opsR_def)

lemmas changes_rules = changes_git changes_unstage changing.t_bind changing.t_if changing.t_option changing.t_sum
  changing.t_prod changing.t_return changing.t_asks changing.t_record

lemma changes_mono:
  assumes "changes C p" "\<And>h op. C h op \<Longrightarrow> D h op"
  shows "changes D p"
  unfolding traces_def
proof
  fix w
  from assms(1) obtain cs where cs: "gitLog (snd (run_state p w)) = gitLog w @ cs" "opsR C w cs (snd (run_state p w))"
    unfolding traces_def by blast
  have "opsR D w cs (snd (run_state p w))" using cs(2) assms(2) unfolding opsR_def by meson
  with cs(1) show "\<exists>cs. gitLog (snd (run_state p w)) = gitLog w @ cs \<and> opsR D w cs (snd (run_state p w))" by blast
qed

text \<open>For a condition on the change alone.\<close>

lemma changes_all:
  assumes "changes (\<lambda>_. Q) p"
  shows "\<exists>new. wsOps (snd (run_state p w)) = wsOps w @ new \<and> (\<forall>e \<in> set new. Q (snd e))"
proof -
  obtain new where "wsOps (snd (run_state p w)) = wsOps w @ new" "\<forall>k < length new. Q (snd (new ! k))"
    using assms unfolding traces_def opsR_def by blast
  then show ?thesis by (auto simp: all_set_conv_all_nth)
qed

lemma changes_extend:
  "changes C p \<Longrightarrow> \<exists>new cs. wsOps (snd (run_state p w)) = wsOps w @ new \<and> gitLog (snd (run_state p w)) = gitLog w @ cs"
  unfolding traces_def opsR_def by blast

section \<open>At one world\<close>

text \<open>The same at a given world, for sequences in which a change depends on what came before it.\<close>

definition changesAt :: "(hist \<Rightarrow> fsOp \<Rightarrow> bool) \<Rightarrow> wsWorld \<Rightarrow> 'a ws \<Rightarrow> bool" where
  "changesAt C w p \<longleftrightarrow> (\<exists>cs. gitLog (snd (run_state p w)) = gitLog w @ cs \<and> opsR C w cs (snd (run_state p w)))"

lemma changes_iff: "changes C p \<longleftrightarrow> (\<forall>w. changesAt C w p)"
  by (simp add: traces_def changesAt_def)

lemma changesAt_of: "changes C p \<Longrightarrow> changesAt C w p"
  by (simp add: changes_iff)

lemma changesAt_bind:
  assumes p: "changesAt C w p" and f: "\<And>x w1. run_state p w = (x, w1) \<Longrightarrow> changesAt C w1 (f x)"
  shows "changesAt C w (State_Monad.bind p f)"
proof -
  obtain x w1 where x: "run_state p w = (x, w1)" by (cases "run_state p w")
  obtain a where a: "gitLog w1 = gitLog w @ a" "opsR C w a w1" using p x unfolding changesAt_def by auto
  obtain b where b: "gitLog (snd (run_state (f x) w1)) = gitLog w1 @ b" "opsR C w1 b (snd (run_state (f x) w1))"
    using f [OF x] unfolding changesAt_def by auto
  have "opsR C w (a @ b) (snd (run_state (f x) w1))" by (rule opsR_append [OF b(1) a(2) b(2)])
  with a b x show ?thesis unfolding changesAt_def by auto
qed

lemma changesAt_fsDo: "C (histOf w) op \<Longrightarrow> changesAt C w (fsDo env op)"
  by (auto simp: changesAt_def fsDo_def gitLog_def opsR_def histOf_def)

lemma changesAt_option:
  "(e = None \<Longrightarrow> changesAt C w g) \<Longrightarrow> (\<And>x. e = Some x \<Longrightarrow> changesAt C w (h x)) \<Longrightarrow>
   changesAt C w (case e of None \<Rightarrow> g | Some x \<Rightarrow> h x)"
  by (simp split: option.split)

lemma changesAt_return: "changesAt C w (State_Monad.return a)"
  by (rule changesAt_of [OF changing.t_return])

lemma run_fsDo: "run_state (fsDo env op) w = (e, w1) \<Longrightarrow>
    e = eFs env (histOf w) op \<and> wsOps w1 = wsOps w @ [(length (gitLog w), op)] \<and> gitLog w1 = gitLog w"
  by (auto simp: fsDo_def gitLog_def)

lemma run_statOf: "run_state (statOf env path) w = (st, w1) \<Longrightarrow> st = eStat env (histOf w) path \<and> w1 = w"
  by (auto simp: statOf_def asks_def)

end
