(* ===== verification/Skills.thy ===== *)
theory Skills
  imports Bootstrap OpTrace PathTree
begin

text \<open>
  Skills and typed agents (\<^verbatim>\<open>internal/bootstrap/skills.go\<close>, \<^verbatim>\<open>internal/bootstrap/agents.go\<close>): the clone of
  the skills repository into a staging directory and its promotion, the extra sources of a project,
  and the walk that copies the skill directories of a profile. The programs run in the world of
  bootstrap; a tree is read when the walk over it starts, and the copies of the walk go elsewhere.
\<close>

section \<open>Profiles\<close>

definition parseProfiles :: "(string \<Rightarrow> string list option) \<Rightarrow> string \<Rightarrow> string list" where
  "parseProfiles yaml skillMD =
     (let s = replaceAll skillMD [CHR 0x0D, CHR 0x0A] nl
      in if \<not> hasPrefix s (''---'' @ nl) then []
         else (case strIndex (drop 4 s) (nl @ ''---'') of
                 None \<Rightarrow> []
               | Some k \<Rightarrow> (case yaml (take k (drop 4 s)) of None \<Rightarrow> [] | Some profiles \<Rightarrow> profiles)))"

definition shouldInstall :: "string \<Rightarrow> string list \<Rightarrow> bool" where
  "shouldInstall activeProfile profiles \<longleftrightarrow>
     activeProfile = [] \<or> profiles = [] \<or> list_ex (\<lambda>p. p = ''*'' \<or> p = activeProfile) profiles"

section \<open>Cloning the skills repository\<close>

definition skillsRefSentinel :: string where "skillsRefSentinel = ''.tatara-skills-ref''"

text \<open>The sequence of git commands that fetches a ref of any kind into a fresh directory; it stops at the first error.\<close>

definition fetchSteps :: "string \<Rightarrow> string \<Rightarrow> string \<Rightarrow> gitCmd list" where
  "fetchSteps dir url ref =
     [([], [''init'', ''-q'', dir]),
      (dir, [''remote'', ''add'', ''origin'', url]),
      (dir, [''fetch'', ''--depth'', ''1'', ''origin'', ref]),
      (dir, [''checkout'', ''-q'', ''--detach'', ''FETCH_HEAD''])]"

fun gitSteps :: "wsEnv \<Rightarrow> gitCmd list \<Rightarrow> string option ws" where
  "gitSteps env [] = State_Monad.return None"
| "gitSteps env ((dir, args) # cs) = do {
     e \<leftarrow> gitRun env dir args;
     (case e of Some err \<Rightarrow> State_Monad.return (Some err) | None \<Rightarrow> gitSteps env cs) }"

text \<open>Moving a finished staging clone onto the clone directory, which is removed first when it holds a clone.\<close>

definition replaceSkillsClone :: "wsEnv \<Rightarrow> string \<Rightarrow> string \<Rightarrow> string option ws" where
  "replaceSkillsClone env staging dst = do {
     gitSt \<leftarrow> statOf env (pathJoin [dst, ''.git'']);
     sentSt \<leftarrow> statOf env (pathJoin [dst, skillsRefSentinel]);
     (if gitSt \<noteq> Present \<and> sentSt \<noteq> Present
      then State_Monad.return (Some (''refusing to replace '' @ dst @ '': not a skills clone''))
      else do {
        e \<leftarrow> fsDo env (OpRemoveAll dst);
        (case e of
           Some err \<Rightarrow> State_Monad.return (Some (''remove previous skills clone: '' @ err))
         | None \<Rightarrow> fsDo env (OpRename staging dst)) }) }"

definition promoteSkillsClone :: "wsEnv \<Rightarrow> string \<Rightarrow> string \<Rightarrow> string option ws" where
  "promoteSkillsClone env staging dst = do {
     st \<leftarrow> statOf env dst;
     (case st of
        Present \<Rightarrow> replaceSkillsClone env staging dst
      | NotExist \<Rightarrow> fsDo env (OpRename staging dst)
      | StatError \<Rightarrow> State_Monad.return (Some (''stat '' @ dst))) }"

definition skillsStaging :: "Params \<Rightarrow> string" where
  "skillsStaging p = pathClean (pSkillsCloneDir p) @ ''.staging''"

definition skillsRefOf :: "Params \<Rightarrow> string" where
  "skillsRefOf p = (if pSkillsRef p = [] then ''main'' else pSkillsRef p)"

definition skillsAttempt :: "wsEnv \<Rightarrow> Params \<Rightarrow> string option ws" where
  "skillsAttempt env p = do {
     fsDo env (OpRemoveAll (skillsStaging p));
     e \<leftarrow> gitSteps env (fetchSteps (skillsStaging p) (pSkillsRepo p) (skillsRefOf p));
     (case e of
        Some err \<Rightarrow> State_Monad.return (Some err)
      | None \<Rightarrow> do {
          e2 \<leftarrow> fsDo env (OpWriteFile (pathJoin [skillsStaging p, skillsRefSentinel]) (skillsRefOf p));
          (case e2 of
             Some err \<Rightarrow> State_Monad.return (Some err)
           | None \<Rightarrow> promoteSkillsClone env (skillsStaging p) (pSkillsCloneDir p)) }) }"

fun skillsAttempts :: "wsEnv \<Rightarrow> Params \<Rightarrow> nat \<Rightarrow> bool ws" where
  "skillsAttempts env p 0 = State_Monad.return False"
| "skillsAttempts env p (Suc n) = do {
     e \<leftarrow> skillsAttempt env p;
     (if e = None then State_Monad.return True else skillsAttempts env p n) }"

definition countCloneFailure :: "string \<Rightarrow> unit ws" where
  "countCloneFailure label = State (\<lambda>w. ((), w\<lparr>wsCloneFailures := inc label (wsCloneFailures w)\<rparr>))"

text \<open>It never fails a boot. The deferred removal of the staging directory comes last.\<close>

definition cloneSkillsRepo :: "wsEnv \<Rightarrow> Params \<Rightarrow> unit ws" where
  "cloneSkillsRepo env p =
     (if pSkillsRepo p = [] \<or> pSkillsCloneDir p = [] then State_Monad.return ()
      else do {
        (if pGitToken p \<noteq> [] then gitConfig env ''credential.helper'' credentialHelper else State_Monad.return None);
        b \<leftarrow> readFile env (pathJoin [pSkillsCloneDir p, skillsRefSentinel]);
        (if map_option trimSpace b = Some (skillsRefOf p) then State_Monad.return ()
         else do {
           ok \<leftarrow> skillsAttempts env p 3;
           (if ok then State_Monad.return () else countCloneFailure ''skills_repo'');
           fsDo env (OpRemoveAll (skillsStaging p));
           State_Monad.return () }) })"

section \<open>Copying skill directories\<close>

definition nodeName :: "skNode \<Rightarrow> string" where
  "nodeName e = (case e of SDir n _ \<Rightarrow> n | SUnlisted n _ \<Rightarrow> n | SFile n \<Rightarrow> n | SBroken n _ \<Rightarrow> n)"

text \<open>The path \<^verbatim>\<open>filepath.Walk\<close> reports for the entry reached by the given names.\<close>

definition nodePath :: "string \<Rightarrow> string list \<Rightarrow> string" where
  "nodePath src rel = (if rel = [] then src else pathJoin (src # rel))"

fun copyNode :: "wsEnv \<Rightarrow> string \<Rightarrow> string \<Rightarrow> string list \<Rightarrow> skNode \<Rightarrow> string option ws"
  and copyNodes :: "wsEnv \<Rightarrow> string \<Rightarrow> string \<Rightarrow> string list \<Rightarrow> skNode list \<Rightarrow> string option ws"
where
  "copyNode env src dst rel (SDir _ es) = do {
     e \<leftarrow> fsDo env (OpMkdirAll (pathJoin [dst, relName rel]));
     (case e of Some err \<Rightarrow> State_Monad.return (Some err) | None \<Rightarrow> copyNodes env src dst rel es) }"
| "copyNode env src dst rel (SUnlisted _ err) = State_Monad.return (Some err)"
| "copyNode env src dst rel (SFile _) = fsDo env (OpCopyFile (nodePath src rel) (pathJoin [dst, relName rel]))"
| "copyNode env src dst rel (SBroken _ err) = State_Monad.return (Some err)"
| "copyNodes env src dst rel [] = State_Monad.return None"
| "copyNodes env src dst rel (e # es) = do {
     r \<leftarrow> copyNode env src dst (rel @ [nodeName e]) e;
     (case r of Some err \<Rightarrow> State_Monad.return (Some err) | None \<Rightarrow> copyNodes env src dst rel es) }"

definition copySkillDir :: "wsEnv \<Rightarrow> string \<Rightarrow> string \<Rightarrow> skNode \<Rightarrow> string option ws" where
  "copySkillDir env src dst tree = copyNode env src dst [] tree"

text \<open>The walk of one source: the number of skills installed so far is threaded through, an error ends it.\<close>

fun installNode :: "wsEnv \<Rightarrow> Params \<Rightarrow> string \<Rightarrow> string \<Rightarrow> string list \<Rightarrow> skNode \<Rightarrow> nat \<Rightarrow> (nat \<times> string option) ws"
  and installNodes :: "wsEnv \<Rightarrow> Params \<Rightarrow> string \<Rightarrow> string \<Rightarrow> string list \<Rightarrow> skNode list \<Rightarrow> nat \<Rightarrow> (nat \<times> string option) ws"
where
  "installNode env p src dst rel (SDir name es) n =
     (if rel = [] then installNodes env p src dst rel es n
      else do {
        b \<leftarrow> readFile env (pathJoin [nodePath src rel, ''SKILL.md'']);
        (case b of
           None \<Rightarrow> installNodes env p src dst rel es n
         | Some md \<Rightarrow>
             if \<not> shouldInstall (pSkillProfile p) (parseProfiles (eYaml env) md) then State_Monad.return (n, None)
             else do {
               e \<leftarrow> copySkillDir env (nodePath src rel) (pathJoin [dst, pathBase (nodePath src rel)]) (SDir name es);
               State_Monad.return (if e = None then (n + 1, None) else (n, e)) }) })"
| "installNode env p src dst rel (SUnlisted _ err) n = State_Monad.return (n, Some err)"
| "installNode env p src dst rel (SFile _) n = State_Monad.return (n, None)"
| "installNode env p src dst rel (SBroken _ err) n = State_Monad.return (n, Some err)"
| "installNodes env p src dst rel [] n = State_Monad.return (n, None)"
| "installNodes env p src dst rel (e # es) n = do {
     (m, r) \<leftarrow> installNode env p src dst (rel @ [nodeName e]) e n;
     (if r \<noteq> None then State_Monad.return (m, r) else installNodes env p src dst rel es m) }"

definition installSkillsFromSrc :: "wsEnv \<Rightarrow> Params \<Rightarrow> string \<Rightarrow> string \<Rightarrow> (nat \<times> string option) ws" where
  "installSkillsFromSrc env p src dst = do {
     tree \<leftarrow> asks (\<lambda>w. eWalk env (histOf w) src);
     installNode env p src dst [] tree 0 }"

definition skillsDst :: "Params \<Rightarrow> string" where
  "skillsDst p = pathJoin [pWorkspace p, ''.claude'', ''skills'']"

definition hasSkillsSrc :: "Params \<Rightarrow> bool" where
  "hasSkillsSrc p \<longleftrightarrow> list_ex (\<lambda>src. src \<noteq> []) (pSkillsSrc p)"

fun installSources :: "wsEnv \<Rightarrow> Params \<Rightarrow> string list \<Rightarrow> nat \<Rightarrow> (nat \<times> string option) ws" where
  "installSources env p [] cnt = State_Monad.return (cnt, None)"
| "installSources env p (src # srcs) cnt =
     (if src = [] then installSources env p srcs cnt
      else do {
        st \<leftarrow> statOf env src;
        (if st = NotExist then installSources env p srcs cnt
         else do {
           (n, e) \<leftarrow> installSkillsFromSrc env p src (skillsDst p);
           (case e of
              Some err \<Rightarrow> State_Monad.return (cnt, Some (''install skills from '' @ src @ '': '' @ err))
            | None \<Rightarrow> installSources env p srcs (cnt + n)) }) })"

definition countSkills :: "Params \<Rightarrow> nat \<Rightarrow> unit ws" where
  "countSkills p n =
     State (\<lambda>w. ((), w\<lparr>wsSkills := (wsSkills w)(pSkillProfile p := wsSkills w (pSkillProfile p) + n)\<rparr>))"

definition installSkills :: "wsEnv \<Rightarrow> Params \<Rightarrow> (nat \<times> string option) ws" where
  "installSkills env p = do {
     e \<leftarrow> fsDo env (OpMkdirAll (skillsDst p));
     (case e of
        Some err \<Rightarrow> State_Monad.return (0, Some (''mkdir skills: '' @ err))
      | None \<Rightarrow> do {
          (cnt, e2) \<leftarrow> installSources env p (pSkillsSrc p) 0;
          (if e2 \<noteq> None then State_Monad.return (cnt, e2)
           else do { countSkills p cnt; State_Monad.return (cnt, None) }) }) }"

section \<open>Extra sources\<close>

record extraSkillSource =
  exName :: string
  exURL :: string
  exRef :: string
  exSubdir :: string

definition parseExtraSkillSources :: "string \<Rightarrow> extraSkillSource list" where
  "parseExtraSkillSources raw =
     (if trimSpace raw = [] then []
      else (case unmarshal (decSlice \<lparr>exName = [], exURL = [], exRef = [], exSubdir = []\<rparr>
                   (decStruct [(''name'', fieldDec exName exName_update decString),
                               (''url'', fieldDec exURL exURL_update decString),
                               (''ref'', fieldDec exRef exRef_update decString),
                               (''subdir'', fieldDec exSubdir exSubdir_update decString)])) raw [] of
              None \<Rightarrow> []
            | Some out \<Rightarrow> out))"

text \<open>The regular expression \<^verbatim>\<open>^[a-z0-9-]+$\<close>.\<close>

definition extraSkillSourceNameRE :: "string \<Rightarrow> bool" where
  "extraSkillSourceNameRE s \<longleftrightarrow>
     s \<noteq> [] \<and> list_all (\<lambda>c. byte c = 45 \<or> 48 \<le> byte c \<and> byte c \<le> 57 \<or> 97 \<le> byte c \<and> byte c \<le> 122) s"

definition cloneExtraSkillSource :: "wsEnv \<Rightarrow> extraSkillSource \<Rightarrow> string \<Rightarrow> string option ws" where
  "cloneExtraSkillSource env s dir = do {
     st \<leftarrow> statOf env (pathJoin [dir, ''.git'']);
     (if st = Present then State_Monad.return None
      else do {
        fsDo env (OpRemoveAll dir);
        gitSteps env (fetchSteps dir (exURL s) (if exRef s = [] then ''main'' else exRef s)) }) }"

definition extraBase :: "Params \<Rightarrow> string" where
  "extraBase p = pathJoin [pWorkspace p, ''.extra-skills'']"

definition validURL :: "string \<Rightarrow> bool" where
  "validURL u \<longleftrightarrow> hasPrefix u ''https://'' \<or> hasPrefix u ''http://''"

definition escapingSubdir :: "string \<Rightarrow> bool" where
  "escapingSubdir d \<longleftrightarrow> d \<noteq> [] \<and> (pathRooted d \<or> hasPrefix (pathClean d) ''..'')"

fun extraSources :: "wsEnv \<Rightarrow> Params \<Rightarrow> string list \<Rightarrow> extraSkillSource list \<Rightarrow> nat \<Rightarrow> nat ws" where
  "extraSources env p seen [] cnt = State_Monad.return cnt"
| "extraSources env p seen (s # ss) cnt =
     (if exName s = [] \<or> exURL s = [] then extraSources env p seen ss cnt
      else if \<not> extraSkillSourceNameRE (exName s) then extraSources env p seen ss cnt
      else if exName s \<in> set seen then extraSources env p seen ss cnt
      else if \<not> validURL (exURL s) then extraSources env p (exName s # seen) ss cnt
      else if escapingSubdir (exSubdir s) then extraSources env p (exName s # seen) ss cnt
      else do {
        e \<leftarrow> cloneExtraSkillSource env s (pathJoin [extraBase p, exName s]);
        (if e \<noteq> None then do { countCloneFailure ''extra''; extraSources env p (exName s # seen) ss cnt }
         else do {
           (n, err) \<leftarrow> installSkillsFromSrc env p
             (if exSubdir s = [] then pathJoin [extraBase p, exName s]
              else pathJoin [pathJoin [extraBase p, exName s], exSubdir s]) (skillsDst p);
           extraSources env p (exName s # seen) ss (if err = None then cnt + n else cnt) }) })"

definition installExtraSkillSources :: "wsEnv \<Rightarrow> Params \<Rightarrow> unit ws" where
  "installExtraSkillSources env p =
     (let sources = parseExtraSkillSources (pExtraSkillSources p)
      in if sources = [] then State_Monad.return ()
         else do {
           e \<leftarrow> fsDo env (OpMkdirAll (skillsDst p));
           (if e \<noteq> None then State_Monad.return ()
            else do {
              cnt \<leftarrow> extraSources env p [] sources 0;
              countSkills p cnt }) })"

section \<open>Typed agents\<close>

fun installEntries :: "wsEnv \<Rightarrow> string \<Rightarrow> string \<Rightarrow> dirent list \<Rightarrow> nat \<Rightarrow> (nat \<times> string option) ws" where
  "installEntries env src dst [] n = State_Monad.return (n, None)"
| "installEntries env src dst (DDir _ _ # es) n = installEntries env src dst es n"
| "installEntries env src dst (DFile name regular info # es) n =
     (if \<not> hasSuffix name ''.md'' then installEntries env src dst es n
      else (case info of
              None \<Rightarrow> State_Monad.return (n, Some (''stat '' @ name))
            | Some _ \<Rightarrow> do {
                e \<leftarrow> fsDo env (OpCopyFile (pathJoin [src, name]) (pathJoin [dst, name]));
                (case e of
                   Some err \<Rightarrow> State_Monad.return (n, Some (''copy agent '' @ name @ '': '' @ err))
                 | None \<Rightarrow> installEntries env src dst es (n + 1)) }))"

definition installAgentsFromSrc :: "wsEnv \<Rightarrow> string \<Rightarrow> string \<Rightarrow> (nat \<times> string option) ws" where
  "installAgentsFromSrc env src dst = do {
     l \<leftarrow> asks (\<lambda>w. eReadDir env (histOf w) src);
     (case l of
        Listing es \<Rightarrow> installEntries env src dst es 0
      | ListMissing \<Rightarrow> State_Monad.return (0, Some (''read dir '' @ src))
      | ListError err \<Rightarrow> State_Monad.return (0, Some (''read dir '' @ src @ '': '' @ err))) }"

definition agentsDst :: "Params \<Rightarrow> string" where
  "agentsDst p = pathJoin [pWorkspace p, ''.claude'', ''agents'']"

fun agentSources :: "wsEnv \<Rightarrow> Params \<Rightarrow> string list \<Rightarrow> nat \<Rightarrow> (nat \<times> string option) ws" where
  "agentSources env p [] cnt = State_Monad.return (cnt, None)"
| "agentSources env p (src # srcs) cnt =
     (if src = [] then agentSources env p srcs cnt
      else do {
        st \<leftarrow> statOf env src;
        (if st = NotExist then agentSources env p srcs cnt
         else do {
           (n, e) \<leftarrow> installAgentsFromSrc env src (agentsDst p);
           (case e of
              Some err \<Rightarrow> State_Monad.return (cnt, Some (''install agents from '' @ src @ '': '' @ err))
            | None \<Rightarrow> agentSources env p srcs (cnt + n)) }) })"

definition installAgents :: "wsEnv \<Rightarrow> Params \<Rightarrow> string option ws" where
  "installAgents env p = do {
     e \<leftarrow> fsDo env (OpMkdirAll (agentsDst p));
     (case e of
        Some err \<Rightarrow> State_Monad.return (Some (''mkdir agents: '' @ err))
      | None \<Rightarrow> do {
          (cnt, e2) \<leftarrow> agentSources env p (pAgentsSrc p) 0;
          (if e2 \<noteq> None then State_Monad.return e2
           else State (\<lambda>w. (None, w\<lparr>wsAgents := wsAgents w + cnt\<rparr>))) }) }"

section \<open>The previous clone is replaced last\<close>

text \<open>
  The moment at which the previous clone may go: the last change stamped the staging tree, the last
  command checked it out without an error, and the clone directory holds a clone.
\<close>

definition stagedCheckout :: "wsEnv \<Rightarrow> Params \<Rightarrow> hist \<Rightarrow> bool" where
  "stagedCheckout env p h \<longleftrightarrow>
     fst h \<noteq> [] \<and> snd (last (fst h)) = OpWriteFile (pathJoin [skillsStaging p, skillsRefSentinel]) (skillsRefOf p)
     \<and> snd h \<noteq> [] \<and> last (snd h) = (skillsStaging p, [''checkout'', ''-q'', ''--detach'', ''FETCH_HEAD''])
     \<and> eGit env (butlast (fst h)) (butlast (snd h)) (skillsStaging p) [''checkout'', ''-q'', ''--detach'', ''FETCH_HEAD''] = None"

definition skillsChange :: "wsEnv \<Rightarrow> Params \<Rightarrow> hist \<Rightarrow> fsOp \<Rightarrow> bool" where
  "skillsChange env p h op =
     (case op of
        OpRemoveAll d \<Rightarrow> d = skillsStaging p
          \<or> d = pSkillsCloneDir p \<and> stagedCheckout env p h
            \<and> (eStat env h (pathJoin [d, ''.git'']) = Present \<or> eStat env h (pathJoin [d, skillsRefSentinel]) = Present)
      | OpWriteFile f c \<Rightarrow> f = pathJoin [skillsStaging p, skillsRefSentinel] \<and> c = skillsRefOf p
      | OpRename a b \<Rightarrow> a = skillsStaging p \<and> b = pSkillsCloneDir p
      | _ \<Rightarrow> False)"

lemma changes_gitSteps: "changes C (gitSteps env cs)"
  by (induction cs rule: gitSteps.induct) (auto intro!: changes_rules)

lemma gitSteps_success:
  "run_state (gitSteps env cs) w = (None, w1) \<Longrightarrow> wsOps w1 = wsOps w \<and> gitLog w1 = gitLog w @ cs
     \<and> (cs \<noteq> [] \<longrightarrow> eGit env (wsOps w) (butlast (gitLog w1)) (fst (last cs)) (snd (last cs)) = None)"
proof (induction cs arbitrary: w)
  case (Cons c cs)
  obtain dir args where c: "c = (dir, args)" by (cases c)
  define u where "u = snd (run_state (gitRun env dir args) w)"
  have u: "wsOps u = wsOps w" "gitLog u = gitLog w @ [c]" by (simp_all add: u_def gitRun_def runGit_def gitLog_def c)
  have "eGit env (wsOps w) (gitLog w) dir args = None" "run_state (gitSteps env cs) u = (None, w1)"
    using Cons.prems
    by (auto simp: c gitRun_def runGit_def u_def gitLog_def split: option.splits)
  with Cons.IH [OF this(2)] u show ?case by (cases "cs = []") (auto simp: c)
qed simp

lemma rename_changes: "changesAt (skillsChange env p) w (fsDo env (OpRename (skillsStaging p) (pSkillsCloneDir p)))"
  by (rule changesAt_fsDo) (simp add: skillsChange_def)

lemma changesAt_stat: "changesAt C w (statOf env f)"
  by (intro changesAt_of changes_rules)

lemma replace_changes:
  assumes "stagedCheckout env p (histOf w)"
  shows "changesAt (skillsChange env p) w (replaceSkillsClone env (skillsStaging p) (pSkillsCloneDir p))"
  unfolding replaceSkillsClone_def
proof (rule changesAt_bind [OF changesAt_stat], rule changesAt_bind [OF changesAt_stat])
  fix g v s u
  assume "run_state (statOf env (pathJoin [pSkillsCloneDir p, ''.git''])) w = (g, v)"
    "run_state (statOf env (pathJoin [pSkillsCloneDir p, skillsRefSentinel])) v = (s, u)"
  then have g: "g = eStat env (histOf w) (pathJoin [pSkillsCloneDir p, ''.git''])"
    "s = eStat env (histOf w) (pathJoin [pSkillsCloneDir p, skillsRefSentinel])" "u = w"
    by (auto dest!: run_statOf)
  have "\<not> (g \<noteq> Present \<and> s \<noteq> Present) \<Longrightarrow> changesAt (skillsChange env p) w (fsDo env (OpRemoveAll (pSkillsCloneDir p)))"
    using assms g by (intro changesAt_fsDo) (auto simp: skillsChange_def)
  then show "changesAt (skillsChange env p) u
      (if g \<noteq> Present \<and> s \<noteq> Present
       then State_Monad.return (Some (''refusing to replace '' @ pSkillsCloneDir p @ '': not a skills clone''))
       else do {
         e \<leftarrow> fsDo env (OpRemoveAll (pSkillsCloneDir p));
         (case e of
            Some err \<Rightarrow> State_Monad.return (Some (''remove previous skills clone: '' @ err))
          | None \<Rightarrow> fsDo env (OpRename (skillsStaging p) (pSkillsCloneDir p))) })"
    unfolding g(3) by (auto intro!: changesAt_bind changesAt_option changesAt_return rename_changes simp del: append.simps)
qed

lemma promote_changes:
  assumes "stagedCheckout env p (histOf w)"
  shows "changesAt (skillsChange env p) w (promoteSkillsClone env (skillsStaging p) (pSkillsCloneDir p))"
  unfolding promoteSkillsClone_def
  by (rule changesAt_bind [OF changesAt_stat])
     (use assms in \<open>auto dest!: run_statOf split: statResult.split intro!: replace_changes rename_changes changesAt_return\<close>)

lemma attempt_changes: "changes (skillsChange env p) (skillsAttempt env p)"
  unfolding changes_iff
proof
  fix w
  let ?st = "skillsStaging p" and ?C = "skillsChange env p"
  let ?cs = "fetchSteps ?st (pSkillsRepo p) (skillsRefOf p)"
  have stamp: "changesAt ?C v (fsDo env (OpWriteFile (pathJoin [?st, skillsRefSentinel]) (skillsRefOf p)))" for v
    by (rule changesAt_fsDo) (simp add: skillsChange_def)
  have clear: "changesAt ?C v (fsDo env (OpRemoveAll ?st))" for v
    by (rule changesAt_fsDo) (simp add: skillsChange_def)
  have ready: "stagedCheckout env p (histOf w3)"
    if "run_state (gitSteps env ?cs) w1 = (None, w2)"
      "run_state (fsDo env (OpWriteFile (pathJoin [?st, skillsRefSentinel]) (skillsRefOf p))) w2 = (e, w3)" for w1 w2 w3 e
    using gitSteps_success [OF that(1)] run_fsDo [OF that(2)]
    by (auto simp: stagedCheckout_def histOf_def gitLog_def fetchSteps_def butlast_append)
  show "changesAt ?C w (skillsAttempt env p)"
    unfolding skillsAttempt_def
    by (intro changesAt_bind [OF clear] changesAt_bind [OF changesAt_of [OF changes_gitSteps]] changesAt_option
          changesAt_return changesAt_bind [OF stamp])
       (auto intro: promote_changes ready)
qed

lemma cloneSkills_changes: "changes (skillsChange env p) (cloneSkillsRepo env p)"
proof -
  have "changes (skillsChange env p) (skillsAttempts env p n)" for n
    by (induction n) (auto intro!: changes_rules attempt_changes)
  moreover have "changes (skillsChange env p) (countCloneFailure l)" for l
    unfolding countCloneFailure_def by (rule changes_silent) (simp add: gitLog_def)
  moreover have "changes (skillsChange env p) (fsDo env (OpRemoveAll (skillsStaging p)))"
    by (rule changes_fsDo) (simp add: skillsChange_def)
  ultimately show ?thesis
    unfolding cloneSkillsRepo_def gitConfig_def by (intro changes_rules)
qed


section \<open>Extra sources stay where they belong\<close>

text \<open>The names of directory entries are plain, in every tree of the file system.\<close>

fun okTree :: "skNode \<Rightarrow> bool" and okTrees :: "skNode list \<Rightarrow> bool" where
  "okTree (SDir _ es) = okTrees es"
| "okTree (SUnlisted _ _) = True"
| "okTree (SFile _) = True"
| "okTree (SBroken _ _) = True"
| "okTrees [] = True"
| "okTrees (e # es) = (plainName (nodeName e) \<and> okTree e \<and> okTrees es)"

definition copyChange :: "string \<Rightarrow> string \<Rightarrow> fsOp \<Rightarrow> bool" where
  "copyChange src dst op =
     (case op of OpMkdirAll d \<Rightarrow> below dst d | OpCopyFile a b \<Rightarrow> below src a \<and> below dst b | _ \<Rightarrow> False)"

definition installChange :: "string \<Rightarrow> string \<Rightarrow> fsOp \<Rightarrow> bool" where
  "installChange src dst op =
     (case op of OpMkdirAll d \<Rightarrow> strictlyBelow dst d | OpCopyFile a b \<Rightarrow> below src a \<and> strictlyBelow dst b | _ \<Rightarrow> False)"

lemma below_nodePath: "src \<noteq> [] \<Longrightarrow> list_all plainName rel \<Longrightarrow> below src (nodePath src rel)"
  by (simp add: nodePath_def below_join)

lemma pathJoin_two:
  assumes "d \<noteq> []" "list_all plainName rel" "rel \<noteq> []"
  shows "pathJoin [d, joinWith ''/'' rel] = pathJoin (d # rel)"
proof -
  have f: "filter (\<lambda>e. e \<noteq> []) (d # rel) = d # rel" using assms by (auto simp: plainName_def list_all_iff intro!: filter_True)
  have "joinWith ''/'' rel \<noteq> []"
    using joinWith_elems_eq_Nil [of rel "''/''"] assms(2,3) by (auto simp: plainName_def list_all_iff)
  then show ?thesis using assms(1,3) unfolding pathJoin_def Let_def f by (simp add: joinWith_Cons)
qed

lemma below_relName:
  assumes "d \<noteq> []" "list_all plainName rel"
  shows "below d (pathJoin [d, relName rel])"
proof (cases "rel = []")
  case True
  have "pathElems (d @ ''/'' @ ''.'') = pathElems d \<and> pathRooted (d @ ''/'' @ ''.'') = pathRooted d"
    using pathElems_join [OF assms(1), of "''.''"] by (simp add: plainElems_def)
  then show ?thesis using True assms(1) by (simp add: relName_def pathJoin_def below_def)
next
  case False
  then show ?thesis using pathJoin_two [OF assms False] below_join [OF assms] by (simp add: relName_def)
qed

lemma copyNode_changes:
  assumes "src \<noteq> []" "dst \<noteq> []"
  shows "list_all plainName rel \<Longrightarrow> okTree t \<Longrightarrow> changes (\<lambda>_. copyChange src dst) (copyNode env src dst rel t)"
    and "list_all plainName rel \<Longrightarrow> okTrees ts \<Longrightarrow> changes (\<lambda>_. copyChange src dst) (copyNodes env src dst rel ts)"
  using assms
  by (induction env src dst rel t and env src dst rel ts rule: copyNode_copyNodes.induct)
     (auto intro!: changes_rules changes_fsDo simp: copyChange_def below_relName below_nodePath)

lemma copySkillDir_changes:
  assumes "src \<noteq> []" "dst \<noteq> []" "rel \<noteq> []" "list_all plainName rel" "okTree t"
  shows "changes (\<lambda>_. installChange src dst)
    (copySkillDir env (nodePath src rel) (pathJoin [dst, pathBase (nodePath src rel)]) t)"
proof -
  have l: "plainName (last rel)" using assms(3,4) by (auto simp: list_all_iff)
  have b: "pathBase (nodePath src rel) = last rel" using pathBase_join assms by (simp add: nodePath_def)
  have d: "strictlyBelow dst (pathJoin [dst, last rel])" using strictlyBelow_join [of dst "[last rel]"] assms(2) l by simp
  have ne: "nodePath src rel \<noteq> []" "pathJoin [dst, last rel] \<noteq> []"
    using assms(1-3) l by (auto simp: nodePath_def pathJoin_def pathClean_ne Let_def)
  show ?thesis
    unfolding copySkillDir_def b
    by (rule changes_mono [OF copyNode_changes(1) [OF ne]])
       (use assms d below_nodePath [OF assms(1,4)] in
         \<open>auto simp: copyChange_def installChange_def split: fsOp.splits intro: strictlyBelow_trans below_trans\<close>)
qed

lemma installNode_changes:
  assumes "src \<noteq> []" "dst \<noteq> []"
  shows "list_all plainName rel \<Longrightarrow> okTree t \<Longrightarrow> changes (\<lambda>_. installChange src dst) (installNode env p src dst rel t n)"
    and "list_all plainName rel \<Longrightarrow> okTrees ts \<Longrightarrow> changes (\<lambda>_. installChange src dst) (installNodes env p src dst rel ts n)"
  using assms
  by (induction env p src dst rel t n and env p src dst rel ts n rule: installNode_installNodes.induct)
     (auto intro!: changes_rules copySkillDir_changes)

lemma installSkillsFromSrc_changes:
  assumes "src \<noteq> []" "dst \<noteq> []" "\<And>h f. okTree (eWalk env h f)"
  shows "changes (\<lambda>_. installChange src dst) (installSkillsFromSrc env p src dst)"
  unfolding changes_iff installSkillsFromSrc_def
  by (intro allI, rule changesAt_bind [OF changesAt_of [OF changing.t_asks(1)]])
     (auto simp: asks_def assms intro!: changesAt_of [OF installNode_changes(1)])

lemma extraName_plain: "extraSkillSourceNameRE n \<Longrightarrow> plainName n"
  by (cases n) (auto simp: extraSkillSourceNameRE_def plainName_def list_all_iff)

definition extraChange :: "Params \<Rightarrow> fsOp \<Rightarrow> bool" where
  "extraChange p op =
     (case op of
        OpRemoveAll d \<Rightarrow> strictlyBelow (extraBase p) d
      | OpMkdirAll d \<Rightarrow> below (skillsDst p) d
      | OpCopyFile a b \<Rightarrow> strictlyBelow (extraBase p) a \<and> strictlyBelow (skillsDst p) b
      | _ \<Rightarrow> False)"

lemma extraBase_ne: "extraBase p \<noteq> []" "skillsDst p \<noteq> []"
  by (simp_all add: extraBase_def skillsDst_def pathJoin_def Let_def pathClean_ne)

lemma extraDir_below: "extraSkillSourceNameRE n \<Longrightarrow> strictlyBelow (extraBase p) (pathJoin [extraBase p, n])"
  using strictlyBelow_join [of "extraBase p" "[n]"] extraBase_ne extraName_plain by simp

lemma extraSrc_below:
  assumes "extraSkillSourceNameRE n" "\<not> escapingSubdir d"
  shows "strictlyBelow (extraBase p)
    (if d = [] then pathJoin [extraBase p, n] else pathJoin [pathJoin [extraBase p, n], d])"
proof -
  have ne: "pathJoin [extraBase p, n] \<noteq> []" by (simp add: pathJoin_def Let_def pathClean_ne extraBase_ne)
  have "below (pathJoin [extraBase p, n]) (pathJoin [pathJoin [extraBase p, n], d])" if "d \<noteq> []"
    using assms(2) that by (intro below_relative ne) (auto simp: escapingSubdir_def)
  with extraDir_below [OF assms(1), of p] show ?thesis by (auto intro: strictlyBelow_trans)
qed

lemma extraInstall_changes:
  assumes "extraSkillSourceNameRE n" "\<not> escapingSubdir d" "\<And>h f. okTree (eWalk env h f)"
  shows "changes (\<lambda>_. extraChange p) (installSkillsFromSrc env p
    (if d = [] then pathJoin [extraBase p, n] else pathJoin [pathJoin [extraBase p, n], d]) (skillsDst p))"
    (is "changes _ (installSkillsFromSrc env p ?src _)")
proof -
  have "?src \<noteq> []" by (simp add: pathJoin_def Let_def pathClean_ne extraBase_ne)
  from installSkillsFromSrc_changes [OF this extraBase_ne(2) assms(3)]
  show ?thesis
    by (rule changes_mono)
       (use extraSrc_below [OF assms(1,2), of p] in
         \<open>auto simp: installChange_def extraChange_def strictlyBelow_def [of "skillsDst p"] split: fsOp.splits if_splits
           intro: strictlyBelow_trans\<close>)
qed

lemma extraSources_changes:
  assumes "\<And>h f. okTree (eWalk env h f)"
  shows "changes (\<lambda>_. extraChange p) (extraSources env p seen ss cnt)"
proof (induction ss arbitrary: seen cnt)
  case (Cons s ss)
  have clone: "changes (\<lambda>_. extraChange p) (cloneExtraSkillSource env s (pathJoin [extraBase p, exName s]))"
    if "extraSkillSourceNameRE (exName s)"
    unfolding cloneExtraSkillSource_def
    by (intro changes_rules changes_gitSteps changes_fsDo) (simp add: extraChange_def extraDir_below that)
  have count: "changes (\<lambda>_. extraChange p) (countCloneFailure l)" for l
    unfolding countCloneFailure_def by (rule changes_silent) (simp add: gitLog_def)
  show ?case
    unfolding extraSources.simps
    by (intro changing.t_if changing.t_bind changing.t_prod Cons.IH count clone extraInstall_changes) (simp_all add: assms)
qed (simp add: changing.t_return)

text \<open>
  C15. The extra skill sources of a project, whatever the JSON that lists them says and whatever their
  repositories contain. Everything deleted lies strictly below \<^verbatim>\<open>.extra-skills\<close>, everything copied comes from
  there and goes strictly below \<^verbatim>\<open>.claude/skills\<close>, directories are made nowhere else, and no file is
  written or moved otherwise. File names are assumed not to be \<^verbatim>\<open>.\<close>, \<^verbatim>\<open>..\<close> or to contain a slash.
\<close>

theorem extra_sources_confined:
  assumes "\<And>h f. okTree (eWalk env h f)"
  shows "\<exists>new. wsOps (snd (run_state (installExtraSkillSources env p) w)) = wsOps w @ new
    \<and> (\<forall>e \<in> set new. extraChange p (snd e))"
proof (rule changes_all)
  have "changes (\<lambda>_. extraChange p) (countSkills p n)" for n
    unfolding countSkills_def by (rule changes_silent) (simp add: gitLog_def)
  then show "changes (\<lambda>_. extraChange p) (installExtraSkillSources env p)"
    unfolding installExtraSkillSources_def Let_def
    by (intro changes_rules changes_fsDo extraSources_changes assms) (simp add: extraChange_def)
qed

text \<open>
  A clone of an extra source that failed after its \<^verbatim>\<open>git init\<close> is taken for a complete one by the next
  boot on the same volume: it runs no command and reports success, and the walk that follows sees
  whatever the first boot left. The hypothesis is what \<^verbatim>\<open>git init\<close> does: it leaves a \<^verbatim>\<open>.git\<close> in the
  directory, which later git commands keep.
\<close>

theorem extra_clone_not_retried:
  assumes init: "\<And>ops pre post. eGit env ops pre [] [''init'', ''-q'', dir] = None \<Longrightarrow>
      eStat env (ops, pre @ ([], [''init'', ''-q'', dir]) # post) (pathJoin [dir, ''.git'']) = Present"
    and fresh: "eStat env (histOf w) (pathJoin [dir, ''.git'']) \<noteq> Present"
    and begun: "eGit env (wsOps w @ [(length (gitLog w), OpRemoveAll dir)]) (gitLog w) [] [''init'', ''-q'', dir] = None"
    and first: "run_state (cloneExtraSkillSource env s dir) w = (Some err, w1)"
  shows "run_state (cloneExtraSkillSource env s dir) w1 = (None, w1)"
proof -
  let ?w0 = "snd (run_state (fsDo env (OpRemoveAll dir)) w)"
  obtain cs where cs: "fetchSteps dir (exURL s) (if exRef s = [] then ''main'' else exRef s) = ([], [''init'', ''-q'', dir]) # cs"
    by (simp add: fetchSteps_def)
  obtain w2 where w2: "run_state (gitRun env [] [''init'', ''-q'', dir]) ?w0 = (None, w2)"
      "wsOps w2 = wsOps w @ [(length (gitLog w), OpRemoveAll dir)]" "gitLog w2 = gitLog w @ [([], [''init'', ''-q'', dir])]"
    using begun by (simp add: gitRun_def runGit_def gitLog_def fsDo_def)
  have "run_state (gitSteps env cs) w2 = (Some err, w1)"
    using first fresh w2(1) by (auto simp: cs cloneExtraSkillSource_def statOf_def asks_def fsDo_def)
  moreover have "traces quietR (gitSteps env cs)"
    by (induction cs rule: gitSteps.induct) (auto intro!: quieting.t_rules quiet_git)
  ultimately obtain post where "wsOps w1 = wsOps w2" "gitLog w1 = gitLog w2 @ post"
    using quietD [of "gitSteps env cs" w2] changes_extend [OF changes_gitSteps, of env cs w2] by auto
  then have "eStat env (histOf w1) (pathJoin [dir, ''.git'']) = Present"
    using init [OF begun, of post] w2 by (simp add: histOf_def gitLog_def)
  then show ?thesis by (simp add: cloneExtraSkillSource_def statOf_def asks_def)
qed

section \<open>Concrete sources\<close>

text \<open>A host whose fetches fail, and a tree with one skill below a category.\<close>

definition skillEnv :: wsEnv where
  "skillEnv = demoEnv\<lparr>
     eGit := (\<lambda>_ _ _ args. if args \<noteq> [] \<and> hd args = ''fetch'' then Some ''exit status 128'' else None),
     eStat := (\<lambda>h path. if \<exists>c \<in> set (snd h). fst c = [] \<and> snd c \<noteq> [] \<and> path = pathJoin [last (snd c), ''.git''] then Present else NotExist),
     eRead := (\<lambda>h path. if hasSuffix path ''tdd/SKILL.md'' then Some ''text'' else None),
     eWalk := (\<lambda>h path. SDir ''src'' [SDir ''code'' [SDir ''tdd'' [SFile ''SKILL.md'']]])\<rparr>"

definition extraDemo :: extraSkillSource where
  "extraDemo = \<lparr>exName = ''team'', exURL = ''https://github.com/o/skills'', exRef = [], exSubdir = []\<rparr>"

theorem extra_clone_not_retried_witness:
  "let w1 = snd (run_state (cloneExtraSkillSource skillEnv extraDemo ''/w/.extra-skills/team'') demoWs)
   in fst (run_state (cloneExtraSkillSource skillEnv extraDemo ''/w/.extra-skills/team'') demoWs) = Some ''exit status 128''
    \<and> run_state (cloneExtraSkillSource skillEnv extraDemo ''/w/.extra-skills/team'') w1 = (None, w1)"
proof -
  let ?d = "''/w/.extra-skills/team''"
  define w1 where "w1 = snd (run_state (cloneExtraSkillSource skillEnv extraDemo ?d) demoWs)"
  have r: "run_state (cloneExtraSkillSource skillEnv extraDemo ?d) demoWs = (Some ''exit status 128'', w1)"
    unfolding w1_def
    by (simp add: cloneExtraSkillSource_def fetchSteps_def extraDemo_def gitRun_def runGit_def fsDo_def statOf_def asks_def
        skillEnv_def demoEnv_def demoWs_def histOf_def)
  have "run_state (cloneExtraSkillSource skillEnv extraDemo ?d) w1 = (None, w1)"
    by (rule extra_clone_not_retried [OF _ _ _ r]) (simp_all add: skillEnv_def demoWs_def histOf_def)
  then show ?thesis unfolding Let_def r snd_conv fst_conv by simp
qed

definition extraParams :: Params where
  "extraParams = (demoParams ''t'' [])\<lparr>pExtraSkillSources :=
     ''[{'' @ jsonQuote ''name'' @ '':'' @ jsonQuote ''team'' @ '','' @ jsonQuote ''url'' @ '':'' @ jsonQuote ''https://github.com/o/s'' @ ''}]''\<rparr>"

theorem extra_sources_confined_witness:
  "list_all (\<lambda>e. extraChange extraParams (snd e)) (wsOps (snd (run_state (installExtraSkillSources skillEnv extraParams) demoWs)))"
  using extra_sources_confined [of skillEnv extraParams demoWs]
  by (simp add: skillEnv_def plainName_def nodeName_def) (auto simp: demoWs_def list_all_iff)

end
