(* ===== verification/AgentConfig.thy ===== *)
theory AgentConfig
  imports Bootstrap OpTrace
begin

text \<open>
  The configuration documents bootstrap writes for the agent: \<^verbatim>\<open>.mcp.json\<close> (\<^verbatim>\<open>internal/bootstrap/mcp.go\<close>),
  \<^verbatim>\<open>settings.json\<close> (\<^verbatim>\<open>settings.go\<close>) and \<^verbatim>\<open>~/.claude.json\<close> (\<^verbatim>\<open>claudejson.go\<close>), as the Go values that are
  marshalled.
\<close>

section \<open>MCP servers\<close>

record mcpDoc =
  MCPServers :: "(string \<times> string) list"

definition mcpFields :: "mcpDoc field list" where
  "mcpFields = [(''mcpServers'', fieldDec MCPServers MCPServers_update decRawMap)]"

definition parseMcpDoc :: "string \<Rightarrow> mcpDoc option" where
  "parseMcpDoc b = unmarshal (decStruct mcpFields) b \<lparr>MCPServers = []\<rparr>"

type_synonym mcpServers = "(string \<times> goAny) list"

definition addServers :: "mcpDoc \<Rightarrow> mcpServers \<Rightarrow> mcpServers" where
  "addServers doc m = mapSets (map (\<lambda>(k, raw). (k, AnyRaw raw)) (MCPServers doc)) m"

definition mergeBase_mcp :: "string \<Rightarrow> (string + mcpServers)" where
  "mergeBase_mcp baseMCP =
     (if baseMCP = [] then Inr []
      else (case parseMcpDoc baseMCP of None \<Rightarrow> Inl ''parse base mcp'' | Some doc \<Rightarrow> Inr (addServers doc [])))"

definition pathExt :: "string \<Rightarrow> string" where
  "pathExt name = (case strLastIndex name ''.'' of None \<Rightarrow> [] | Some i \<Rightarrow> drop i name)"

text \<open>The overlay files in the order of the directory listing, each read and parsed in turn.\<close>

fun mergeOverlay :: "wsEnv \<Rightarrow> string \<Rightarrow> dirent list \<Rightarrow> mcpServers \<Rightarrow> (string + mcpServers) ws" where
  "mergeOverlay env dir [] m = State_Monad.return (Inr m)"
| "mergeOverlay env dir (DDir _ _ # es) m = mergeOverlay env dir es m"
| "mergeOverlay env dir (DFile name regular info # es) m =
     (if pathExt name \<noteq> ''.json'' then mergeOverlay env dir es m
      else do {
        b \<leftarrow> readFile env (pathJoin [dir, name]);
        (case b of
           None \<Rightarrow> State_Monad.return (Inl (''read overlay '' @ name))
         | Some t \<Rightarrow>
             (case parseMcpDoc t of
                None \<Rightarrow> State_Monad.return (Inl (''parse overlay '' @ name))
              | Some frag \<Rightarrow> mergeOverlay env dir es (addServers frag m))) })"

record extraServer =
  esName :: string
  esURL :: string
  esType :: string

definition parseExtraServers :: "string \<Rightarrow> extraServer list option" where
  "parseExtraServers raw =
     unmarshal (decSlice \<lparr>esName = [], esURL = [], esType = []\<rparr>
       (decStruct [(''name'', fieldDec esName esName_update decString),
                   (''url'', fieldDec esURL esURL_update decString),
                   (''type'', fieldDec esType esType_update decString)])) raw []"

definition reservedServers :: "string list" where
  "reservedServers = [''tatara'', ''grafana'', ''serena'']"

definition serverEntry :: "string \<Rightarrow> string \<Rightarrow> goAny" where
  "serverEntry typ url = AnyMap [(''type'', AnyStr typ), (''url'', AnyStr url)]"

definition addExtra :: "extraServer \<Rightarrow> mcpServers \<Rightarrow> mcpServers" where
  "addExtra e m =
     (if esName e = [] \<or> esURL e = [] then m
      else if esName e \<in> set reservedServers then m
      else mapSet (esName e) (serverEntry (if esType e = [] then ''http'' else esType e) (esURL e)) m)"

definition mergeExtras :: "string \<Rightarrow> mcpServers \<Rightarrow> mcpServers" where
  "mergeExtras raw m =
     (if raw = [] then m
      else (case parseExtraServers raw of None \<Rightarrow> m | Some extras \<Rightarrow> fold addExtra extras m))"

definition mergePlatform :: "Params \<Rightarrow> mcpServers \<Rightarrow> mcpServers" where
  "mergePlatform p m =
     (let m1 = (if pGrafanaMCPURL p = [] then m else mapSet ''grafana'' (serverEntry ''http'' (pGrafanaMCPURL p)) m)
      in if pSerenaMCPURL p = [] then m1 else mapSet ''serena'' (serverEntry ''http'' (pSerenaMCPURL p)) m1)"

definition overlayServers :: "wsEnv \<Rightarrow> Params \<Rightarrow> mcpServers \<Rightarrow> (string + mcpServers) ws" where
  "overlayServers env p m =
     (if pMCPOverlayDir p = [] then State_Monad.return (Inr m)
      else do {
        l \<leftarrow> asks (\<lambda>w. eReadDir env (histOf w) (pMCPOverlayDir p));
        (case l of
           Listing es \<Rightarrow> mergeOverlay env (pMCPOverlayDir p) es m
         | ListMissing \<Rightarrow> State_Monad.return (Inr m)
         | ListError err \<Rightarrow> State_Monad.return (Inl (''read mcp overlay: '' @ err))) })"

definition mergeMCP :: "wsEnv \<Rightarrow> Params \<Rightarrow> string option ws" where
  "mergeMCP env p =
     (case mergeBase_mcp (pBaseMCP p) of
        Inl err \<Rightarrow> State_Monad.return (Some err)
      | Inr base \<Rightarrow> do {
          o1 \<leftarrow> overlayServers env p base;
          (case o1 of
             Inl err \<Rightarrow> State_Monad.return (Some err)
           | Inr m \<Rightarrow>
               fsDo env (OpWriteJSON (pathJoin [pWorkspace p, ''.mcp.json''])
                 (AnyMap [(''mcpServers'', AnyMap (mergePlatform p (mergeExtras (pExtraMCPServers p) m)))]))) })"

section \<open>Settings\<close>

definition denied :: "string list" where
  "denied =
     [''AskUserQuestion'', ''ExitPlanMode'', ''EnterPlanMode'',
      ''Bash(kubectl set *)'', ''Bash(kubectl patch *)'', ''Bash(kubectl edit *)'',
      ''Bash(helm upgrade *)'', ''Bash(helm install *)'', ''Bash(helm uninstall *)'', ''Bash(helm rollback *)'',
      ''Bash(git push --force*)'', ''Bash(git push -f *)'', ''Bash(rm -rf /*)'',
      ''Read(**/*.tfstate)'', ''Read(**/secrets/**)'',
      ''Read(**/*.secret.*.yaml)'', ''Read(**/*.secret.*.yml)'', ''Read(**/default.secrets.yaml)'']"

definition hookSettings :: "string \<Rightarrow> goAny" where
  "hookSettings command =
     AnyMap [(''Stop'', AnyArr [AnyMap [(''matcher'', AnyStr []),
       (''hooks'', AnyArr [AnyMap [(''type'', AnyStr ''command''), (''command'', AnyStr command)]])]])]"

definition settingsPermissions :: "Params \<Rightarrow> (string \<times> goAny) list" where
  "settingsPermissions p =
     (let perms = [(''deny'', AnyArr (map AnyStr denied))];
          perms1 = (if pPermissionMode p = [] then perms else mapSet ''defaultMode'' (AnyStr (pPermissionMode p)) perms)
      in if pAllowedTools p = [] then perms1 else mapSet ''allow'' (AnyArr (map AnyStr (pAllowedTools p))) perms1)"

definition settingsDoc :: "Params \<Rightarrow> (string \<times> goAny) list" where
  "settingsDoc p =
     (let s = [(''hooks'', hookSettings (pHookCommand p)),
               (''enableAllProjectMcpServers'', AnyBool (pEnableAllMCP p)),
               (''attribution'', AnyMap [(''commit'', AnyStr []), (''pr'', AnyStr []), (''sessionUrl'', AnyBool False)])];
          s1 = (if pStatusLineCommand p = [] then s
                else mapSet ''statusLine'' (AnyMap [(''type'', AnyStr ''command''), (''command'', AnyStr (pStatusLineCommand p))]) s);
          s2 = (if pEffort p = [] then s1 else mapSet ''effortLevel'' (AnyStr (pEffort p)) s1)
      in mapSet ''permissions'' (AnyMap (settingsPermissions p)) s2)"

definition writeSettings :: "wsEnv \<Rightarrow> Params \<Rightarrow> string \<Rightarrow> string option ws" where
  "writeSettings env p claudeHome =
     fsDo env (OpWriteJSON (pathJoin [claudeHome, ''settings.json'']) (AnyMap (settingsDoc p)))"

section \<open>The state file of the agent\<close>

definition lastN :: "string \<Rightarrow> nat \<Rightarrow> string" where
  "lastN s n = (if length s \<le> n then s else drop (length s - n) s)"

definition toStringSlice :: "goAny option \<Rightarrow> string list" where
  "toStringSlice v =
     (case v of
        Some (AnyArr raw) \<Rightarrow> concat (map (\<lambda>e. case e of AnyStr s \<Rightarrow> [s] | _ \<Rightarrow> []) raw)
      | _ \<Rightarrow> [])"

definition trustProject :: "string \<Rightarrow> (string \<times> goAny) list \<Rightarrow> (string \<times> goAny) list" where
  "trustProject workspace doc =
     (let projects = asMap (map_of doc ''projects'');
          proj = asMap (map_of projects workspace)
      in mapSet ''projects''
           (AnyMap (mapSet workspace (AnyMap (mapSet ''hasTrustDialogAccepted'' (AnyBool True) proj)) projects)) doc)"

definition approveKey :: "string \<Rightarrow> (string \<times> goAny) list \<Rightarrow> (string \<times> goAny) list" where
  "approveKey key doc =
     (let suffix = lastN key 20;
          responses = asMap (map_of doc ''customApiKeyResponses'');
          approved = toStringSlice (map_of responses ''approved'');
          approved1 = (if suffix \<in> set approved then approved else approved @ [suffix]);
          rejected = map_of responses ''rejected'';
          responses1 = (if rejected = None \<or> rejected = Some AnyNull then mapSet ''rejected'' (AnyArr []) responses else responses)
      in mapSet ''customApiKeyResponses'' (AnyMap (mapSet ''approved'' (AnyArr (map AnyStr approved1)) responses1)) doc)"

definition claudeDoc :: "Params \<Rightarrow> (string \<times> goAny) list \<Rightarrow> (string \<times> goAny) list" where
  "claudeDoc p doc =
     (let d1 = mapSet ''hasCompletedOnboarding'' (AnyBool True) doc;
          d2 = mapSet ''autoUpdates'' (AnyBool True) d1;
          d3 = trustProject (pWorkspace p) d2
      in if pAnthropicAPIKey p = [] then d3 else approveKey (pAnthropicAPIKey p) d3)"

text \<open>An error, or the panic of an assignment to the nil map.\<close>

datatype claudeErr = WriteClaude string | NilMapPanic

definition writeClaudeJSON :: "wsEnv \<Rightarrow> Params \<Rightarrow> claudeErr option ws" where
  "writeClaudeJSON env p = do {
     b \<leftarrow> readFile env (pathJoin [pHomeDir p, ''.claude.json'']);
     (case (case b of None \<Rightarrow> Some [] | Some t \<Rightarrow> unmarshalDoc (eFloat env) t) of
        None \<Rightarrow> State_Monad.return (Some NilMapPanic)
      | Some doc \<Rightarrow> do {
          e \<leftarrow> fsDo env (OpWriteJSON (pathJoin [pHomeDir p, ''.claude.json'']) (AnyMap (claudeDoc p doc)));
          State_Monad.return (map_option WriteClaude e) }) }"

section \<open>Which server wins\<close>

text \<open>Layers of servers, of which a later one wins.\<close>

definition layered :: "(string \<rightharpoonup> goAny) list \<Rightarrow> (string \<rightharpoonup> goAny)" where
  "layered ls = foldl (++) Map.empty ls"

definition docLayer :: "mcpDoc \<Rightarrow> (string \<rightharpoonup> goAny)" where
  "docLayer doc = map_option AnyRaw \<circ> map_of (MCPServers doc)"

definition extraLayer :: "extraServer list \<Rightarrow> (string \<rightharpoonup> goAny)" where
  "extraLayer es name =
     (if name \<in> set reservedServers then None
      else map_option (\<lambda>e. serverEntry (if esType e = [] then ''http'' else esType e) (esURL e))
             (find (\<lambda>e. esName e = name \<and> esName e \<noteq> [] \<and> esURL e \<noteq> []) (rev es)))"

definition platformLayer :: "Params \<Rightarrow> (string \<rightharpoonup> goAny)" where
  "platformLayer p name =
     (if name = ''serena'' \<and> pSerenaMCPURL p \<noteq> [] then Some (serverEntry ''http'' (pSerenaMCPURL p))
      else if name = ''grafana'' \<and> pGrafanaMCPURL p \<noteq> [] then Some (serverEntry ''http'' (pGrafanaMCPURL p))
      else None)"

definition overlayNames :: "dirent list \<Rightarrow> string list" where
  "overlayNames es = concat (map (\<lambda>e. case e of DDir _ _ \<Rightarrow> [] | DFile n _ _ \<Rightarrow> if pathExt n = ''.json'' then [n] else []) es)"

text \<open>The entries of the overlay directory, none when it is not configured or missing.\<close>

definition overlayEntries :: "wsEnv \<Rightarrow> Params \<Rightarrow> hist \<Rightarrow> dirent list" where
  "overlayEntries env p h =
     (if pMCPOverlayDir p = [] then []
      else (case eReadDir env h (pMCPOverlayDir p) of Listing es \<Rightarrow> es | _ \<Rightarrow> []))"

lemma distinct_mapSets: "distinct (map fst m) \<Longrightarrow> distinct (map fst (mapSets es m))"
  by (induction es arbitrary: m) (auto simp: mapSets_def distinct_mapSet)

lemma map_of_rev_distinct:
  assumes "distinct (map fst es)"
  shows "map_of (rev es) = map_of es"
proof -
  have "set (rev es) = set es" "distinct (map fst (rev es))" using assms by (simp_all add: rev_map [symmetric])
  with assms show ?thesis by (intro map_of_inject_set [THEN iffD2]) auto
qed

lemma mcpFields_distinct:
  "decMembers mcpFields ms d = Some doc \<Longrightarrow> distinct (map fst (MCPServers d)) \<Longrightarrow> distinct (map fst (MCPServers doc))"
proof (induction ms arbitrary: d)
  case (Cons x ms)
  obtain k raw v where x: "x = (k, raw, v)" by (cases x)
  have look: "lookupField mcpFields k
      = (if equalFold ''mcpServers'' k then Some (fieldDec MCPServers MCPServers_update decRawMap) else None)"
    by (simp add: mcpFields_def)
  show ?case
  proof (cases "equalFold ''mcpServers'' k")
    case True
    with Cons.prems(1) obtain l where l: "decRawMap raw v (MCPServers d) = Some l"
      "decMembers mcpFields ms (d\<lparr>MCPServers := l\<rparr>) = Some doc"
      by (auto simp: x look fieldDec_def split: option.splits)
    moreover have "distinct (map fst l)"
      using l(1) Cons.prems(2) by (auto simp: decRawMap_def distinct_mapSets split: json.splits)
    ultimately show ?thesis using Cons.IH [of "d\<lparr>MCPServers := l\<rparr>"] by simp
  next
    case False
    then show ?thesis using Cons by (simp add: x look)
  qed
qed simp

lemma parseMcpDoc_distinct: "parseMcpDoc b = Some doc \<Longrightarrow> distinct (map fst (MCPServers doc))"
  by (auto simp: parseMcpDoc_def unmarshal_def decStruct_def split: option.splits json.splits dest: mcpFields_distinct)

lemma addServers_layer:
  assumes "parseMcpDoc b = Some doc"
  shows "map_of (addServers doc m) = map_of m ++ docLayer doc"
proof -
  let ?es = "map (\<lambda>(k, raw). (k, AnyRaw raw)) (MCPServers doc)"
  have "distinct (map fst ?es)" using parseMcpDoc_distinct [OF assms] by (simp add: case_prod_unfold comp_def)
  moreover have "map_of ?es = docLayer doc" by (simp add: docLayer_def map_of_map)
  ultimately show ?thesis by (simp add: addServers_def map_of_rev_distinct)
qed

lemma addExtra_layer: "map_of (fold addExtra es m) = map_of m ++ extraLayer es"
proof (induction es rule: rev_induct)
  case (snoc e es)
  let ?v = "serverEntry (if esType e = [] then ''http'' else esType e) (esURL e)"
  have "extraLayer (es @ [e]) = (if esName e = [] \<or> esURL e = [] \<or> esName e \<in> set reservedServers
      then extraLayer es else (extraLayer es)(esName e \<mapsto> ?v))"
    by (rule ext) (auto simp: extraLayer_def)
  moreover have "map_of (addExtra e m') = (if esName e = [] \<or> esURL e = [] \<or> esName e \<in> set reservedServers
      then map_of m' else (map_of m')(esName e \<mapsto> ?v))" for m'
    by (simp add: addExtra_def)
  ultimately show ?case using snoc by (simp del: fun_upd_apply)
qed (simp add: extraLayer_def map_add_def fun_eq_iff)

text \<open>The servers a project lists, none when the list does not parse.\<close>

definition projectServers :: "Params \<Rightarrow> extraServer list" where
  "projectServers p =
     (if pExtraMCPServers p = [] then [] else (case parseExtraServers (pExtraMCPServers p) of None \<Rightarrow> [] | Some es \<Rightarrow> es))"

lemma mergeExtras_layer: "map_of (mergeExtras (pExtraMCPServers p) m) = map_of m ++ extraLayer (projectServers p)"
  using addExtra_layer [of "[]" m]
  by (simp add: mergeExtras_def projectServers_def addExtra_layer split: option.split)

lemma mergePlatform_layer: "map_of (mergePlatform p m) = map_of m ++ platformLayer p"
  by (rule ext) (auto simp: mergePlatform_def platformLayer_def Let_def map_add_def)

lemma mergeOverlay_layer:
  "run_state (mergeOverlay env dir es m) w = (Inr m', w') \<Longrightarrow>
   w' = w \<and> (\<exists>frags. list_all2 (\<lambda>n doc. \<exists>t. eRead env (histOf w) (pathJoin [dir, n]) = Some t \<and> parseMcpDoc t = Some doc)
       (overlayNames es) frags \<and> map_of m' = foldl (++) (map_of m) (map docLayer frags))"
proof (induction es arbitrary: m)
  case (Cons e es)
  let ?P = "\<lambda>n doc. \<exists>t. eRead env (histOf w) (pathJoin [dir, n]) = Some t \<and> parseMcpDoc t = Some doc"
  consider (skip) "overlayNames (e # es) = overlayNames es" "run_state (mergeOverlay env dir es m) w = (Inr m', w')"
    | (overlay) name t doc where "overlayNames (e # es) = name # overlayNames es"
        "eRead env (histOf w) (pathJoin [dir, name]) = Some t" "parseMcpDoc t = Some doc"
        "run_state (mergeOverlay env dir es (addServers doc m)) w = (Inr m', w')"
    using Cons.prems
    by (cases e) (auto simp: overlayNames_def readFile_def asks_def split: option.splits if_splits)
  then show ?case
  proof cases
    case skip
    with Cons.IH show ?thesis by simp
  next
    case overlay
    from Cons.IH [OF overlay(4)] obtain frags where f: "w' = w" "list_all2 ?P (overlayNames es) frags"
      "map_of m' = foldl (++) (map_of (addServers doc m)) (map docLayer frags)" by blast
    have "list_all2 ?P (overlayNames (e # es)) (doc # frags)" using f(2) overlay(2,3) unfolding overlay(1) by simp
    moreover have "map_of m' = foldl (++) (map_of m) (map docLayer (doc # frags))"
      using f(3) addServers_layer [OF overlay(3)] by simp
    ultimately show ?thesis using f(1) by blast
  qed
qed (simp add: overlayNames_def)

text \<open>
  C17. Which server an agent gets for a name. What is written to \<^verbatim>\<open>.mcp.json\<close> is the layering of the baked
  configuration, the overlay files in the order of their names, the servers of the project, and the
  platform's own, a later layer winning; a project server never takes the name of a platform one.
\<close>

theorem mcp_precedence:
  assumes "run_state (mergeMCP env p) w = (None, w')"
  shows "\<exists>base frags m. mergeBase_mcp (pBaseMCP p) = Inr base
    \<and> list_all2 (\<lambda>n doc. \<exists>t. eRead env (histOf w) (pathJoin [pMCPOverlayDir p, n]) = Some t \<and> parseMcpDoc t = Some doc)
        (overlayNames (overlayEntries env p (histOf w))) frags
    \<and> snd (last (wsOps w')) = OpWriteJSON (pathJoin [pWorkspace p, ''.mcp.json'']) (AnyMap [(''mcpServers'', AnyMap m)])
    \<and> map_of m = layered (map_of base # map docLayer frags @ [extraLayer (projectServers p), platformLayer p])"
proof -
  let ?es = "overlayEntries env p (histOf w)"
  obtain base where base: "mergeBase_mcp (pBaseMCP p) = Inr base"
    using assms by (cases "mergeBase_mcp (pBaseMCP p)") (auto simp: mergeMCP_def)
  obtain r w1 where o: "run_state (overlayServers env p base) w = (r, w1)" by (cases "run_state (overlayServers env p base) w")
  obtain m where m: "r = Inr m" using assms base o by (cases r) (auto simp: mergeMCP_def)
  let ?m = "mergePlatform p (mergeExtras (pExtraMCPServers p) m)"
  have "run_state (mergeOverlay env (pMCPOverlayDir p) ?es base) w = (Inr m, w1)"
    using o m by (auto simp: overlayServers_def overlayEntries_def asks_def split: if_splits dirListing.splits)
  from mergeOverlay_layer [OF this] obtain frags where f: "w1 = w"
    "list_all2 (\<lambda>n doc. \<exists>t. eRead env (histOf w) (pathJoin [pMCPOverlayDir p, n]) = Some t \<and> parseMcpDoc t = Some doc) (overlayNames ?es) frags"
    "map_of m = foldl (++) (map_of base) (map docLayer frags)" by blast
  have "snd (last (wsOps w')) = OpWriteJSON (pathJoin [pWorkspace p, ''.mcp.json'']) (AnyMap [(''mcpServers'', AnyMap ?m)])"
    using assms base o m by (auto simp: mergeMCP_def fsDo_def)
  moreover have "map_of ?m = layered (map_of base # map docLayer frags @ [extraLayer (projectServers p), platformLayer p])"
    by (simp add: mergePlatform_layer mergeExtras_layer f(3) layered_def)
  ultimately show ?thesis using base f(2) by blast
qed

section \<open>The state of the agent survives\<close>

lemma asMap_AnyMap [simp]: "asMap (Some (AnyMap m)) = m"
  by (simp add: asMap_def)

lemma toStringSlice_strings [simp]: "toStringSlice (Some (AnyArr (map AnyStr l))) = l"
  by (induction l) (auto simp: toStringSlice_def)

text \<open>The merged document, one key at a time.\<close>

lemma claudeDoc_keys:
  "map_of (claudeDoc p doc) k =
     (if k = ''customApiKeyResponses'' \<and> pAnthropicAPIKey p \<noteq> []
      then map_of (approveKey (pAnthropicAPIKey p) doc) k
      else if k = ''projects'' then map_of (trustProject (pWorkspace p) doc) k
      else if k = ''autoUpdates'' \<or> k = ''hasCompletedOnboarding'' then Some (AnyBool True)
      else map_of doc k)"
  by (auto simp: claudeDoc_def trustProject_def approveKey_def Let_def)

lemma approved_spec:
  "\<exists>responses approved. map_of (approveKey key doc) ''customApiKeyResponses'' = Some (AnyMap responses)
     \<and> map_of responses ''approved'' = Some (AnyArr (map AnyStr approved))
     \<and> set approved = insert (lastN key 20) (set (toStringSlice (map_of (asMap (map_of doc ''customApiKeyResponses'')) ''approved'')))
     \<and> (\<forall>k. k \<noteq> ''approved'' \<and> k \<noteq> ''rejected'' \<longrightarrow> map_of responses k = map_of (asMap (map_of doc ''customApiKeyResponses'')) k)"
proof -
  let ?old = "toStringSlice (map_of (asMap (map_of doc ''customApiKeyResponses'')) ''approved'')"
  let ?new = "if lastN key 20 \<in> set ?old then ?old else ?old @ [lastN key 20]"
  have "set ?new = insert (lastN key 20) (set ?old)" by auto
  then show ?thesis unfolding approveKey_def Let_def by (intro exI conjI) (auto simp del: map_append)
qed

lemma trusted_spec:
  "\<exists>projects proj. map_of (trustProject ws doc) ''projects'' = Some (AnyMap projects)
     \<and> map_of projects ws = Some (AnyMap proj) \<and> map_of proj ''hasTrustDialogAccepted'' = Some (AnyBool True)
     \<and> (\<forall>k. k \<noteq> ''hasTrustDialogAccepted'' \<longrightarrow> map_of proj k = map_of (asMap (map_of (asMap (map_of doc ''projects'')) ws)) k)
     \<and> (\<forall>other. other \<noteq> ws \<longrightarrow> map_of projects other = map_of (asMap (map_of doc ''projects'')) other)"
  by (auto simp: trustProject_def Let_def)

text \<open>
  C35. Seeding the state file of the agent over one that exists. Unless the file holds the word \<^verbatim>\<open>null\<close>, on
  which the process panics, the document written back keeps every key but the ones that suppress
  dialogs, every project but the workspace, every setting of the workspace but its trust, and every
  API key approved earlier; onboarding, trust and the current key are settled in it.
\<close>

theorem claude_state_kept:
  assumes "eRead env (histOf w) (pathJoin [pHomeDir p, ''.claude.json'']) = Some existing"
    and "run_state (writeClaudeJSON env p) w = (res, w')"
  shows "case unmarshalDoc (eFloat env) existing of
      None \<Rightarrow> res = Some NilMapPanic \<and> w' = w
    | Some doc \<Rightarrow> \<exists>doc'. snd (last (wsOps w')) = OpWriteJSON (pathJoin [pHomeDir p, ''.claude.json'']) (AnyMap doc')
        \<and> map_of doc' ''hasCompletedOnboarding'' = Some (AnyBool True)
        \<and> (\<forall>k. k \<notin> {''hasCompletedOnboarding'', ''autoUpdates'', ''projects'', ''customApiKeyResponses''} \<longrightarrow> map_of doc' k = map_of doc k)
        \<and> (\<exists>projects proj. map_of doc' ''projects'' = Some (AnyMap projects)
             \<and> map_of projects (pWorkspace p) = Some (AnyMap proj) \<and> map_of proj ''hasTrustDialogAccepted'' = Some (AnyBool True)
             \<and> (\<forall>k. k \<noteq> ''hasTrustDialogAccepted'' \<longrightarrow> map_of proj k = map_of (asMap (map_of (asMap (map_of doc ''projects'')) (pWorkspace p))) k)
             \<and> (\<forall>other. other \<noteq> pWorkspace p \<longrightarrow> map_of projects other = map_of (asMap (map_of doc ''projects'')) other))
        \<and> (if pAnthropicAPIKey p = [] then map_of doc' ''customApiKeyResponses'' = map_of doc ''customApiKeyResponses''
           else \<exists>responses approved. map_of doc' ''customApiKeyResponses'' = Some (AnyMap responses)
             \<and> map_of responses ''approved'' = Some (AnyArr (map AnyStr approved))
             \<and> set approved = insert (lastN (pAnthropicAPIKey p) 20)
                  (set (toStringSlice (map_of (asMap (map_of doc ''customApiKeyResponses'')) ''approved''))))"
proof (cases "unmarshalDoc (eFloat env) existing")
  case None
  then show ?thesis using assms by (auto simp: writeClaudeJSON_def readFile_def asks_def)
next
  case (Some doc)
  have op: "snd (last (wsOps w')) = OpWriteJSON (pathJoin [pHomeDir p, ''.claude.json'']) (AnyMap (claudeDoc p doc))"
    using assms Some by (auto simp: writeClaudeJSON_def readFile_def asks_def fsDo_def)
  show ?thesis
    unfolding Some option.case
    using op trusted_spec [of "pWorkspace p" doc] approved_spec [of "pAnthropicAPIKey p" doc]
    by (intro exI [of _ "claudeDoc p doc"]) (auto simp: claudeDoc_keys)
qed

section \<open>Concrete documents\<close>

text \<open>One overlay file that sets up one server, and an agent whose state file holds \<^verbatim>\<open>null\<close>.\<close>

definition overlayText :: string where
  "overlayText = ''{'' @ jsonQuote ''mcpServers'' @ '':{'' @ jsonQuote ''x'' @ '':1}}''"

definition cfgEnv :: wsEnv where
  "cfgEnv = demoEnv\<lparr>eReadDir := (\<lambda>_ _. Listing [DFile ''a.json'' True (Some 1), DFile ''README'' True (Some 1)]),
     eRead := (\<lambda>_ path. Some (if hasSuffix path ''.claude.json'' then ''null'' else overlayText))\<rparr>"

definition cfgParams :: Params where
  "cfgParams = (demoParams ''t'' [])\<lparr>pMCPOverlayDir := ''/etc/mcp'', pGrafanaMCPURL := ''http://grafana''\<rparr>"

lemma overlay_parses: "parseMcpDoc overlayText = Some \<lparr>MCPServers = [(''x'', ''1'')]\<rparr>"
  by code_simp

lemma ext_demo: "pathExt ''a.json'' = ''.json''" "pathExt ''README'' = []"
  by code_simp+

theorem mcp_precedence_witness:
  "\<exists>m. snd (last (wsOps (snd (run_state (mergeMCP cfgEnv cfgParams) demoWs))))
       = OpWriteJSON ''/workspace/.mcp.json'' (AnyMap [(''mcpServers'', AnyMap m)])
     \<and> map_of m ''x'' = Some (AnyRaw ''1'') \<and> map_of m ''grafana'' = Some (serverEntry ''http'' ''http://grafana'')"
proof -
  have rd: "hasSuffix (pathJoin [''/etc/mcp'', ''a.json'']) ''.claude.json'' = False" by code_simp
  have j: "pathJoin [''/workspace'', ''.mcp.json''] = ''/workspace/.mcp.json''" by code_simp
  define w' where "w' = snd (run_state (mergeMCP cfgEnv cfgParams) demoWs)"
  have "run_state (mergeMCP cfgEnv cfgParams) demoWs = (None, w')"
    by (simp add: w'_def mergeMCP_def mergeBase_mcp_def overlayServers_def cfgParams_def demoParams_def asks_def cfgEnv_def
        readFile_def ext_demo rd overlay_parses fsDo_def demoEnv_def)
  then obtain base frags m where m: "mergeBase_mcp (pBaseMCP cfgParams) = Inr base"
    "list_all2 (\<lambda>n doc. \<exists>t. eRead cfgEnv (histOf demoWs) (pathJoin [pMCPOverlayDir cfgParams, n]) = Some t \<and> parseMcpDoc t = Some doc)
        (overlayNames [DFile ''a.json'' True (Some 1), DFile ''README'' True (Some 1)]) frags"
    "snd (last (wsOps w')) = OpWriteJSON (pathJoin [pWorkspace cfgParams, ''.mcp.json'']) (AnyMap [(''mcpServers'', AnyMap m)])"
    "map_of m = layered (map_of base # map docLayer frags @ [extraLayer (projectServers cfgParams), platformLayer cfgParams])"
    using mcp_precedence [of cfgEnv cfgParams demoWs w']
    by (auto simp: cfgParams_def cfgEnv_def overlayEntries_def)
  have "frags = [\<lparr>MCPServers = [(''x'', ''1'')]\<rparr>]"
    using m(2) by (auto simp: overlayNames_def ext_demo cfgEnv_def cfgParams_def rd overlay_parses list_all2_Cons1)
  with m show ?thesis
    unfolding w'_def [symmetric]
    by (auto simp: layered_def docLayer_def extraLayer_def platformLayer_def projectServers_def cfgParams_def demoParams_def
        reservedServers_def j map_add_def split: option.splits)
qed

text \<open>A state file with a setting of the user's own.\<close>

definition stateText :: string where
  "stateText = ''{'' @ jsonQuote ''theme'' @ '':'' @ jsonQuote ''dark'' @ ''}''"

theorem claude_state_kept_witness:
  "fst (run_state (writeClaudeJSON cfgEnv cfgParams) demoWs) = Some NilMapPanic
   \<and> (\<exists>doc'. snd (last (wsOps (snd (run_state (writeClaudeJSON (cfgEnv\<lparr>eRead := \<lambda>_ _. Some stateText\<rparr>) cfgParams) demoWs))))
        = OpWriteJSON ''/home/agent/.claude.json'' (AnyMap doc') \<and> map_of doc' ''theme'' = Some (AnyStr ''dark''))"
proof
  have rd: "eRead cfgEnv (histOf demoWs) (pathJoin [pHomeDir cfgParams, ''.claude.json'']) = Some ''null''"
    by (simp add: cfgEnv_def cfgParams_def demoParams_def) code_simp
  have "unmarshalDoc (eFloat cfgEnv) ''null'' = None" by code_simp
  with claude_state_kept [OF rd prod.collapse [symmetric]]
  show "fst (run_state (writeClaudeJSON cfgEnv cfgParams) demoWs) = Some NilMapPanic" by simp
next
  let ?env = "cfgEnv\<lparr>eRead := \<lambda>_ _. Some stateText\<rparr>"
  have rd: "eRead ?env (histOf demoWs) (pathJoin [pHomeDir cfgParams, ''.claude.json'']) = Some stateText" by simp
  have doc: "unmarshalDoc (eFloat ?env) stateText = Some [(''theme'', AnyStr ''dark'')]" by code_simp
  have path: "pathJoin [pHomeDir cfgParams, ''.claude.json''] = ''/home/agent/.claude.json''" by code_simp
  note kept = claude_state_kept [OF rd prod.collapse [symmetric], unfolded doc option.case path]
  obtain doc' where "snd (last (wsOps (snd (run_state (writeClaudeJSON ?env cfgParams) demoWs))))
      = OpWriteJSON ''/home/agent/.claude.json'' (AnyMap doc')"
    "\<forall>k. k \<notin> {''hasCompletedOnboarding'', ''autoUpdates'', ''projects'', ''customApiKeyResponses''} \<longrightarrow>
       map_of doc' k = map_of [(''theme'', AnyStr ''dark'')] k"
    using kept by (elim exE conjE)
  then show "\<exists>doc'. snd (last (wsOps (snd (run_state (writeClaudeJSON ?env cfgParams) demoWs))))
      = OpWriteJSON ''/home/agent/.claude.json'' (AnyMap doc') \<and> map_of doc' ''theme'' = Some (AnyStr ''dark'')"
    by (intro exI [of _ doc']) simp
qed

end
