(* ===== verification/Render.thy ===== *)
theory Render
  imports Skills AgentConfig
begin

text \<open>
  The whole of \<^verbatim>\<open>Render\<close> (\<^verbatim>\<open>internal/bootstrap/bootstrap.go\<close>): the workspace is claimed, the repositories are
  cloned or resumed, the instructions and configuration of the agent are written, skills and agents
  are installed, and last the identity of the workspace is stamped.
\<close>

section \<open>Static blocks of the instructions\<close>

definition headlessDirective :: string where
  "headlessDirective = joinWith nl
    [[],
     [],
     ''---'',
     [],
     ''## Headless agent: no interactive prompts'',
     [],
     ''You run headless in a pod. There is no human at the terminal. Claude's built-in'',
     ''interactive tools AskUserQuestion, ExitPlanMode and EnterPlanMode are disabled'',
     ''(denied) and error if called. Do not call them. Do not enter plan mode; there is'',
     ''no one to approve a plan. Do not wait on a dialog or picker.'',
     [],
     ''When you need a decision, a choice between options, or any clarification,'',
     ''surface it on the issue thread with the issue_write(action='' @ [quote] @ ''comment'' @ [quote] @ '', ...) MCP'',
     ''tool: lay out the options and your recommendation there and continue with your'',
     ''best judgement.'',
     [],
     ''If a decision blocks you from making any progress at all, say so in the outcome'',
     ''you submit: end the turn through submit_outcome with the reason spelled out.'',
     ''Every task ends through submit_outcome, and it is the one channel to a human'',
     ''your agent kind is always granted - issue_write is not granted to every kind,'',
     ''and your skill names the tools you actually have.'',
     []]"

definition delegationDirective :: string where
  "delegationDirective = joinWith nl
    [[],
     [],
     ''---'',
     [],
     ''## Delegate work to typed subagents'',
     [],
     ''Four typed subagents are available via the Agent tool, each pinned to a'',
     ''model tier via its own frontmatter: delegate to them instead of doing this'',
     ''work yourself.'',
     [],
     ''- **explorer**: read-only code search, locating where something lives in'',
     ''  the codebase.'',
     ''- **tester**: run and write tests.'',
     ''- **builder**: multi-file implementation from a clear, already-decided plan.'',
     ''- **architect**: hard reasoning, design, and adversarial verification.'',
     [],
     ''Keep planning, design, review, and merge decisions on yourself. Delegate the'',
     ''mechanical legwork; do not delegate the thinking.'',
     []]"

definition autoPushBlock :: string where
  "autoPushBlock = joinWith nl
    [[],
     [],
     ''---'',
     [],
     ''## Your task branch is pushed for you, mid-turn'',
     [],
     ''The wrapper pushes your task branch to origin every couple of minutes, not only'',
     ''when the turn ends. It is a safety net: this pod's disk does not survive the'',
     ''pod, so a commit that has not reached origin is lost if the pod is killed. The'',
     ''wrapper only ever pushes - it never stages and never commits on your behalf, so'',
     ''what reaches origin is exactly the commits you chose to make.'',
     [],
     ''The consequence for you is that a commit is public the moment you make it. Do'',
     ''not plan to amend, reword, squash, or otherwise rewrite a commit once it'',
     ''exists: publishing a rewritten commit needs a force-push, and force-push is'',
     ''denied in this pod. If you need to change something you have already committed,'',
     ''make a new commit on top of it.'',
     [],
     ''Commit when your work reaches a sensible point, and commit more often than you'',
     ''otherwise would. Every commit you make is durable; everything you have not'',
     ''committed is not.'',
     []]"

definition autoPushDirective :: "string \<Rightarrow> duration \<Rightarrow> string" where
  "autoPushDirective taskBranch interval = (if AutoPushEnabled taskBranch interval then autoPushBlock else [])"

definition globalClaudeMd :: "Params \<Rightarrow> resumedRepo list \<Rightarrow> string list \<Rightarrow> string" where
  "globalClaudeMd p resumedRepos workspaceNotes =
     trimLeft (pGlobalClaudeMd p @ headlessDirective @ delegationDirective
       @ autoPushDirective (pTaskBranch p) (pBranchPushInterval p) @ resumeDirective resumedRepos workspaceNotes) nl"

section \<open>Render\<close>

datatype bootErr =
    MkdirHome string
  | MkdirWorkspace string
  | RepoErr renderErr
  | ConfigErr string
  | ClaudeJSONErr claudeErr
  | SkillsErr string
  | NoSkillsErr "string list"
  | AgentsErr string
  | IdentityErr string

definition writeIfSet :: "wsEnv \<Rightarrow> string \<Rightarrow> string \<Rightarrow> string option ws" where
  "writeIfSet env path content =
     (if content = [] then State_Monad.return None else fsDo env (OpWriteFile path content))"

definition countRender :: "string \<Rightarrow> unit ws" where
  "countRender label = State (\<lambda>w. ((), w\<lparr>wsRender := inc label (wsRender w)\<rparr>))"

definition mapErr :: "('e \<Rightarrow> bootErr) \<Rightarrow> 'e option ws \<Rightarrow> bootErr option ws" where
  "mapErr f p = do { e \<leftarrow> p; State_Monad.return (map_option f e) }"

text \<open>
  The steps after the repositories, each followed by the same treatment of its error: the failure is
  counted and returned. A panic is not counted.
\<close>

fun renderSteps :: "bootErr option ws list \<Rightarrow> bootErr option ws" where
  "renderSteps [] = do { countRender ''ok''; State_Monad.return None }"
| "renderSteps (p # ps) = do {
     e \<leftarrow> p;
     (case e of
        Some err \<Rightarrow> do {
          (if err = ClaudeJSONErr NilMapPanic then State_Monad.return () else countRender ''fail'');
          State_Monad.return (Some err) }
      | None \<Rightarrow> renderSteps ps) }"

definition claudeHome :: "Params \<Rightarrow> string" where
  "claudeHome p = pathJoin [pHomeDir p, ''.claude'']"

definition installStep :: "wsEnv \<Rightarrow> Params \<Rightarrow> bootErr option ws" where
  "installStep env p = do {
     cloneSkillsRepo env p;
     (n, e) \<leftarrow> installSkills env p;
     State_Monad.return (case e of
         Some err \<Rightarrow> Some (SkillsErr err)
       | None \<Rightarrow> if n = 0 \<and> hasSkillsSrc p then Some (NoSkillsErr (pSkillsSrc p)) else None) }"

definition extraStep :: "wsEnv \<Rightarrow> Params \<Rightarrow> bootErr option ws" where
  "extraStep env p = do { installExtraSkillSources env p; State_Monad.return None }"

definition configSteps :: "wsEnv \<Rightarrow> Params \<Rightarrow> resumedRepo list \<Rightarrow> string list \<Rightarrow> bootErr option ws list" where
  "configSteps env p resumedRepos workspaceNotes =
     [mapErr ConfigErr (writeIfSet env (pathJoin [pWorkspace p, ''CLAUDE.md'']) (pProjectClaudeMd p)),
      mapErr ConfigErr (fsDo env (OpWriteFile (pathJoin [claudeHome p, ''CLAUDE.md'']) (globalClaudeMd p resumedRepos workspaceNotes))),
      mapErr ConfigErr (mergeMCP env p),
      mapErr ConfigErr (writeSettings env p (claudeHome p)),
      mapErr ClaudeJSONErr (writeClaudeJSON env p),
      installStep env p,
      extraStep env p,
      mapErr AgentsErr (installAgents env p)]"

definition Render :: "wsEnv \<Rightarrow> Params \<Rightarrow> bootErr option ws" where
  "Render env p = do {
     e1 \<leftarrow> fsDo env (OpMkdirAll (claudeHome p));
     (case e1 of
        Some err \<Rightarrow> State_Monad.return (Some (MkdirHome err))
      | None \<Rightarrow> do {
          e2 \<leftarrow> fsDo env (OpMkdirAll (pWorkspace p));
          (case e2 of
             Some err \<Rightarrow> State_Monad.return (Some (MkdirWorkspace err))
           | None \<Rightarrow> do {
               r \<leftarrow> renderRepos env p;
               (case r of
                  Inl err \<Rightarrow> State_Monad.return (Some (RepoErr err))
                | Inr (workspaceNotes, resumedRepos) \<Rightarrow>
                    renderSteps (configSteps env p resumedRepos workspaceNotes
                      @ [mapErr IdentityErr (writeWorkspaceIdentity env p)])) }) }) }"

section \<open>The identity is stamped last\<close>

text \<open>A change that writes the identity file.\<close>

definition isStamp :: "Params \<Rightarrow> fsOp \<Rightarrow> bool" where
  "isStamp p op = (case op of OpWriteFile f _ \<Rightarrow> f = pathJoin [pWorkspace p, workspaceIdentityFile] | _ \<Rightarrow> False)"

lemma pathBase_join1:
  assumes "plainName n"
  shows "pathBase (pathJoin [d, n]) = n"
proof (cases "d = []")
  case True
  have "splitOn (CHR ''/'') n = [n]" using splitOn_joinWith [of "[n]"] assms by (simp add: plainName_def)
  then have "pathElems n = [n]" "\<not> pathRooted n"
    using assms by (auto simp: pathElems_def pathStep_def plainName_def pathRooted_def hasPrefix_def split: if_splits) (cases n; auto)+
  then have "pathJoin [d, n] = n" using assms True by (simp add: pathJoin_def pathClean_def plainName_def)
  then show ?thesis using pathBase_ends(1) [OF assms] by simp
next
  case False
  then show ?thesis using pathBase_join [of d "[n]"] assms by simp
qed

lemma not_stamp:
  assumes "plainName n" "n \<noteq> workspaceIdentityFile"
  shows "\<not> isStamp p (OpWriteFile (pathJoin [d, n]) c)"
proof
  assume "isStamp p (OpWriteFile (pathJoin [d, n]) c)"
  then have "pathJoin [d, n] = pathJoin [pWorkspace p, workspaceIdentityFile]" by (simp add: isStamp_def)
  moreover have "plainName workspaceIdentityFile" by (simp add: plainName_def workspaceIdentityFile_def)
  ultimately show False using pathBase_join1 [of n d] pathBase_join1 [of workspaceIdentityFile "pWorkspace p"] assms by simp
qed

abbreviation unstamped :: "Params \<Rightarrow> 'a ws \<Rightarrow> bool" where
  "unstamped p q \<equiv> changes (\<lambda>_ op. \<not> isStamp p op) q"

text \<open>The work on the repositories only makes and removes directories and lock files.\<close>

definition treeOp :: "fsOp \<Rightarrow> bool" where
  "treeOp op = (case op of OpRemoveAll _ \<Rightarrow> True | OpMkdirAll _ \<Rightarrow> True | OpRemove _ \<Rightarrow> True | _ \<Rightarrow> False)"

lemma treeOp_simps [simp]: "treeOp (OpRemoveAll d)" "treeOp (OpMkdirAll d)" "treeOp (OpRemove d)"
  by (simp_all add: treeOp_def)

abbreviation onlyTree :: "'a ws \<Rightarrow> bool" where
  "onlyTree q \<equiv> changes (\<lambda>_. treeOp) q"

lemma onlyTree_fs: "treeOp op \<Longrightarrow> onlyTree (fsDo env op)"
  by (rule changes_fsDo)

lemma changes_firstName: "(\<And>n. changes C (f n)) \<Longrightarrow> changes C (firstName f ns)"
  by (induction ns) (auto intro!: changes_rules)

lemma changes_counters: "changes C (countClone l)" "changes C (recordReconcile r)" "changes C (bootHook env name cmd)"
    "changes C (countCloneFailure l)" "changes C (countSkills p n)" "changes C (countRender l)"
  unfolding countClone_def recordReconcile_def bootHook_def countCloneFailure_def countSkills_def countRender_def
  by (auto intro!: changes_silent changing.t_if changing.t_return simp: gitLog_def)

lemmas tree_rules = changes_rules onlyTree_fs changes_firstName changes_counters treeOp_simps

lemma onlyTree_locks: "onlyTree (removeLocks env d ls)"
  by (induction env d ls rule: removeLocks.induct) (auto intro!: tree_rules)

lemma onlyTree_abort: "onlyTree (abortOps env dest ops)"
  by (induction ops) (auto intro!: tree_rules)

lemma onlyTree_prepare: "onlyTree (PrepareWorkspace env dest)"
  unfolding PrepareWorkspace_def isUsableRepo_def clearStaleLocks_def abortInProgress_def rescueWorkingTree_def
    rescueUnabortable_def rescueDirty_def wipeOut_def wipeUnrecoverable_def claimRescueBranch_def nameRescueBranch_def
    headSHA_def Let_def
  by (intro tree_rules onlyTree_locks onlyTree_abort)

lemma onlyTree_checkout: "onlyTree (checkoutTaskBranch env dir tb base full rec persistent)"
  unfolding checkoutTaskBranch_def checkoutKnown_def checkoutArm_def unshallowBestEffort_def mergeRemoteTaskBranch_def
    reconcileWithBase_def mergeBase_def
  by (intro tree_rules)

lemma onlyTree_repo: "onlyTree (bootRepo env p r dest)"
  unfolding bootRepo_def by (intro tree_rules onlyTree_prepare onlyTree_checkout)

lemma changes_step:
  assumes "\<And>e. changes C (a e)" "\<And>e. changes C (b e)" "\<And>e. changes C (c e)" "\<And>e. changes C (d e)"
  shows "changes C (case s of StepPrepare e \<Rightarrow> a e | StepClone e \<Rightarrow> b e | StepCheckout e \<Rightarrow> c e | StepDone e \<Rightarrow> d e)"
  using assms by (cases s) auto

lemma onlyTree_repos: "onlyTree (bootRepos env p prim seen rs)"
proof (induction rs arbitrary: prim seen)
  case (Cons r rs)
  show ?case
    unfolding bootRepos.simps(2) Let_def by (intro tree_rules changes_step onlyTree_repo Cons)
qed (simp add: changing.t_return)

lemma onlyTree_renderRepos: "onlyTree (renderRepos env p)"
  unfolding renderRepos_def claimWorkspace_def readWorkspaceIdentity_def configureGit_def gitConfig_def bootSingle_def Let_def
  by (intro tree_rules onlyTree_repos)

text \<open>Installing copies files and makes directories; the configuration is written elsewhere.\<close>

definition noWrite :: "fsOp \<Rightarrow> bool" where
  "noWrite op = (case op of OpWriteFile _ _ \<Rightarrow> False | _ \<Rightarrow> True)"

lemma noWrite_simps [simp]: "noWrite (OpRemoveAll d)" "noWrite (OpMkdirAll d)" "noWrite (OpRemove d)" "noWrite (OpCopyFile a b)"
    "noWrite (OpWriteJSON f v)" "noWrite (OpRename a b)" "\<not> noWrite (OpWriteFile f c)"
  by (simp_all add: noWrite_def)

lemma unstamped_noWrite: "changes (\<lambda>_. noWrite) q \<Longrightarrow> unstamped p q"
  by (erule changes_mono) (auto simp: noWrite_def isStamp_def split: fsOp.splits)

abbreviation quietWrites :: "'a ws \<Rightarrow> bool" where
  "quietWrites q \<equiv> changes (\<lambda>_. noWrite) q"

lemma quietWrites_fs: "noWrite op \<Longrightarrow> quietWrites (fsDo env op)"
  by (rule changes_fsDo)

lemmas write_rules = changes_rules quietWrites_fs changes_counters changes_gitSteps noWrite_simps

lemma quietWrites_copy: "quietWrites (copyNode env src dst rel t)" "quietWrites (copyNodes env src dst rel ts)"
  by (induction env src dst rel t and env src dst rel ts rule: copyNode_copyNodes.induct) (auto intro!: write_rules)

lemma quietWrites_install: "quietWrites (installNode env p src dst rel t n)" "quietWrites (installNodes env p src dst rel ts n)"
  by (induction env p src dst rel t n and env p src dst rel ts n rule: installNode_installNodes.induct)
     (auto intro!: write_rules quietWrites_copy simp: copySkillDir_def)

lemma quietWrites_from: "quietWrites (installSkillsFromSrc env p src dst)"
  unfolding installSkillsFromSrc_def by (intro write_rules quietWrites_install)

lemma quietWrites_sources: "quietWrites (installSources env p srcs cnt)"
  by (induction srcs arbitrary: cnt) (auto intro!: write_rules quietWrites_from)

lemma quietWrites_skills: "quietWrites (installSkills env p)"
  unfolding installSkills_def by (intro write_rules quietWrites_sources)

lemma quietWrites_extraSources: "quietWrites (extraSources env p seen ss cnt)"
proof (induction ss arbitrary: seen cnt)
  case (Cons s ss)
  show ?case
    unfolding extraSources.simps cloneExtraSkillSource_def by (intro write_rules quietWrites_from Cons)
qed (simp add: changing.t_return)

lemma quietWrites_extra: "quietWrites (installExtraSkillSources env p)"
  unfolding installExtraSkillSources_def Let_def by (intro write_rules quietWrites_extraSources)

lemma quietWrites_entries: "quietWrites (installEntries env src dst es n)"
  by (induction env src dst es n rule: installEntries.induct) (auto intro!: write_rules split: option.split)

lemma quietWrites_agentSources: "quietWrites (agentSources env p srcs cnt)"
proof (induction srcs arbitrary: cnt)
  case (Cons src srcs)
  have "quietWrites (case l of Listing es \<Rightarrow> installEntries env src (agentsDst p) es 0
      | ListMissing \<Rightarrow> State_Monad.return (0, Some (''read dir '' @ src))
      | ListError err \<Rightarrow> State_Monad.return (0, Some (''read dir '' @ src @ '': '' @ err)))" for l
    by (cases l) (simp_all add: quietWrites_entries changing.t_return)
  then show ?case
    unfolding agentSources.simps installAgentsFromSrc_def by (intro write_rules Cons)
qed (simp add: changing.t_return)

lemma quietWrites_agents: "quietWrites (installAgents env p)"
  unfolding installAgents_def
  by (intro write_rules quietWrites_agentSources changes_silent) (simp add: gitLog_def)

lemma quietWrites_overlay: "quietWrites (mergeOverlay env dir es m)"
proof (induction es arbitrary: m)
  case (Cons e es)
  then show ?case by (cases e) (auto intro!: write_rules)
qed (simp add: changing.t_return)

lemma quietWrites_mcp: "quietWrites (mergeMCP env p)"
proof -
  have "quietWrites (case l of Listing es \<Rightarrow> mergeOverlay env (pMCPOverlayDir p) es m
      | ListMissing \<Rightarrow> State_Monad.return (Inr m)
      | ListError err \<Rightarrow> State_Monad.return (Inl (''read mcp overlay: '' @ err)))" for l m
    by (cases l) (simp_all add: quietWrites_overlay changing.t_return)
  then show ?thesis unfolding mergeMCP_def overlayServers_def by (intro write_rules)
qed

lemma unstamped_fs: "\<not> isStamp p op \<Longrightarrow> unstamped p (fsDo env op)"
  by (rule changes_fsDo)

lemma unstamped_clone: "unstamped q (cloneSkillsRepo env p)"
proof (rule changes_mono [OF cloneSkills_changes])
  fix h op assume "skillsChange env p h op"
  moreover have "plainName skillsRefSentinel" "skillsRefSentinel \<noteq> workspaceIdentityFile"
    by (simp_all add: plainName_def skillsRefSentinel_def workspaceIdentityFile_def)
  ultimately show "\<not> isStamp q op"
    using not_stamp [of skillsRefSentinel q "skillsStaging p" "skillsRefOf p"]
    by (cases op) (auto simp: skillsChange_def isStamp_def)
qed

lemma configSteps_unstamped: "\<forall>q \<in> set (configSteps env p resumed told). unstamped p q"
proof -
  have md: "plainName ''CLAUDE.md''" "''CLAUDE.md'' \<noteq> workspaceIdentityFile"
    by (simp_all add: plainName_def workspaceIdentityFile_def)
  have err: "unstamped p q \<Longrightarrow> unstamped p (mapErr f q)" for f and q :: "'e option ws"
    unfolding mapErr_def by (intro changes_rules)
  have "unstamped p (writeIfSet env (pathJoin [pWorkspace p, ''CLAUDE.md'']) c)" for c
    unfolding writeIfSet_def by (intro changes_rules unstamped_fs not_stamp md)
  moreover have "unstamped p (writeSettings env p h)" for h
    unfolding writeSettings_def by (rule unstamped_fs) (simp add: isStamp_def)
  moreover have "unstamped p (writeClaudeJSON env p)"
    unfolding writeClaudeJSON_def by (intro changes_rules unstamped_fs) (simp add: isStamp_def)
  moreover have "unstamped p (installStep env p)"
    unfolding installStep_def
    by (intro changes_rules unstamped_clone unstamped_noWrite [OF quietWrites_skills])
  moreover have "unstamped p (extraStep env p)"
    unfolding extraStep_def by (intro changes_rules unstamped_noWrite [OF quietWrites_extra])
  ultimately show ?thesis
    unfolding configSteps_def
    by (auto intro!: err unstamped_fs simp: not_stamp [OF md] intro!: unstamped_noWrite [OF quietWrites_mcp] unstamped_noWrite [OF quietWrites_agents])
qed

text \<open>
  A program whose only write of the identity, if any, is its last change, and which reports
  success only then.
\<close>

definition stampsLast :: "wsEnv \<Rightarrow> Params \<Rightarrow> bootErr option ws \<Rightarrow> bool" where
  "stampsLast env p q \<longleftrightarrow> (\<forall>w.
     let (res, w') = run_state q w;
         stamp = OpWriteFile (pathJoin [pWorkspace p, workspaceIdentityFile]) (identityText p)
     in \<exists>new. (\<forall>e \<in> set new. \<not> isStamp p (snd e)) \<and>
       (wsOps w' = wsOps w @ new @ [(length (gitLog w'), stamp)] \<and> res = map_option IdentityErr (eFs env (wsOps w @ new, gitLog w') stamp)
        \<or> wsOps w' = wsOps w @ new \<and> res \<noteq> None))"

lemma stampsLast_fail: "stampsLast env p (State_Monad.return (Some err))"
  by (simp add: stampsLast_def)

lemma stampsLast_write: "stampsLast env p (renderSteps [mapErr IdentityErr (writeWorkspaceIdentity env p)])"
  unfolding stampsLast_def Let_def
  by (auto simp: mapErr_def writeWorkspaceIdentity_def fsDo_def gitLog_def histOf_def countRender_def isStamp_def
      split: option.splits intro!: exI [of _ "[]"])

lemma stampsLast_bind:
  assumes q: "unstamped p q" and f: "\<And>x. stampsLast env p (f x)"
  shows "stampsLast env p (State_Monad.bind q f)"
  unfolding stampsLast_def
proof
  fix w
  obtain x w1 where x: "run_state q w = (x, w1)" by (cases "run_state q w")
  obtain res w' where r: "run_state (f x) w1 = (res, w')" by (cases "run_state (f x) w1")
  let ?stamp = "OpWriteFile (pathJoin [pWorkspace p, workspaceIdentityFile]) (identityText p)"
  obtain a where a: "wsOps w1 = wsOps w @ a" "\<forall>e \<in> set a. \<not> isStamp p (snd e)" using changes_all [OF q, of w] x by auto
  obtain b where b: "\<forall>e \<in> set b. \<not> isStamp p (snd e)"
    "wsOps w' = wsOps w1 @ b @ [(length (gitLog w'), ?stamp)] \<and> res = map_option IdentityErr (eFs env (wsOps w1 @ b, gitLog w') ?stamp)
     \<or> wsOps w' = wsOps w1 @ b \<and> res \<noteq> None"
    using f [of x, unfolded stampsLast_def, rule_format, of w1] r by (auto simp: Let_def)
  have "\<forall>e \<in> set (a @ b). \<not> isStamp p (snd e)" using a b by auto
  with a(1) b(2) have "\<exists>new. (\<forall>e \<in> set new. \<not> isStamp p (snd e)) \<and>
       (wsOps w' = wsOps w @ new @ [(length (gitLog w'), ?stamp)] \<and> res = map_option IdentityErr (eFs env (wsOps w @ new, gitLog w') ?stamp)
        \<or> wsOps w' = wsOps w @ new \<and> res \<noteq> None)"
    by (intro exI [of _ "a @ b"]) auto
  with x r show "let (res, w') = run_state (State_Monad.bind q f) w; stamp = ?stamp
     in \<exists>new. (\<forall>e \<in> set new. \<not> isStamp p (snd e)) \<and>
       (wsOps w' = wsOps w @ new @ [(length (gitLog w'), stamp)] \<and> res = map_option IdentityErr (eFs env (wsOps w @ new, gitLog w') stamp)
        \<or> wsOps w' = wsOps w @ new \<and> res \<noteq> None)"
    by (simp add: Let_def)
qed

lemma stampsLast_steps:
  "\<forall>q \<in> set qs. unstamped p q \<Longrightarrow> stampsLast env p (renderSteps (qs @ [mapErr IdentityErr (writeWorkspaceIdentity env p)]))"
proof (induction qs)
  case Nil
  then show ?case using stampsLast_write by simp
next
  case (Cons q qs)
  have fail: "stampsLast env p (do {
       (if err = ClaudeJSONErr NilMapPanic then State_Monad.return () else countRender ''fail'');
       State_Monad.return (Some err) })" for err
    by (intro stampsLast_bind stampsLast_fail changes_rules changes_counters)
  show ?case
    unfolding append_Cons renderSteps.simps
    by (rule stampsLast_bind) (use Cons fail in \<open>auto split: option.split\<close>)
qed

lemma Render_stampsLast: "stampsLast env p (Render env p)"
proof -
  have mk: "unstamped p (fsDo env (OpMkdirAll d))" for d by (rule unstamped_fs) (simp add: isStamp_def)
  have repos: "unstamped p (renderRepos env p)"
    by (rule changes_mono [OF onlyTree_renderRepos]) (auto simp: treeOp_def isStamp_def split: fsOp.splits)
  show ?thesis
    unfolding Render_def
    by (intro stampsLast_bind [OF mk] stampsLast_bind [OF repos])
       (auto split: option.split sum.split prod.split
         intro!: stampsLast_fail stampsLast_bind [OF mk] stampsLast_bind [OF repos] stampsLast_steps configSteps_unstamped)
qed

text \<open>
  C9. A boot stamps the workspace as its own in its very last change, and only once everything before it
  succeeded; a boot that fails anywhere else leaves the identity of the previous one untouched. So a
  half-built tree is never taken for the tree of this task by the next boot.
\<close>

theorem render_stamps_last:
  "let (res, w') = run_state (Render env p) w;
       stamp = OpWriteFile (pathJoin [pWorkspace p, workspaceIdentityFile]) (identityText p)
   in \<exists>new. list_all (\<lambda>e. \<not> isStamp p (snd e)) new \<and>
     (wsOps w' = wsOps w @ new @ [(length (gitLog w'), stamp)] \<and> res = map_option IdentityErr (eFs env (wsOps w @ new, gitLog w') stamp)
      \<or> wsOps w' = wsOps w @ new \<and> res \<noteq> None)"
  using Render_stampsLast [of env p] unfolding stampsLast_def list_all_iff by blast

section \<open>No boot without the skills it asked for\<close>

text \<open>The changes between two worlds of a run, and what it means that a skill was installed among them.\<close>

definition newOps :: "wsWorld \<Rightarrow> wsWorld \<Rightarrow> fsOp list" where
  "newOps u v = map snd (drop (length (wsOps u)) (wsOps v))"

definition extends :: "wsWorld \<Rightarrow> wsWorld \<Rightarrow> bool" where
  "extends u v \<longleftrightarrow> (\<exists>x. wsOps v = wsOps u @ x)"

definition skillMade :: "wsEnv \<Rightarrow> Params \<Rightarrow> string \<Rightarrow> string \<Rightarrow> wsWorld \<Rightarrow> wsWorld \<Rightarrow> bool" where
  "skillMade env p src dst u v \<longleftrightarrow>
     (\<exists>rel md h. rel \<noteq> [] \<and> eRead env h (pathJoin [nodePath src rel, ''SKILL.md'']) = Some md
        \<and> shouldInstall (pSkillProfile p) (parseProfiles (eYaml env) md)
        \<and> OpMkdirAll (pathJoin [pathJoin [dst, pathBase (nodePath src rel)], ''.'']) \<in> set (newOps u v))"

lemma extends_trans: "extends u v \<Longrightarrow> extends v w \<Longrightarrow> extends u w"
  by (auto simp: extends_def)

lemma extends_run: "changes C q \<Longrightarrow> run_state q u = (x, v) \<Longrightarrow> extends u v"
  using changes_extend [of C q u] by (auto simp: extends_def)

lemma skillMade_mono:
  assumes "skillMade env p src dst u v" "extends w u" "extends u v" "extends v w'"
  shows "skillMade env p src dst w w'"
proof -
  have "set (newOps u v) \<subseteq> set (newOps w w')" using assms(2-4) by (auto simp: newOps_def extends_def)
  with assms(1) show ?thesis unfolding skillMade_def by blast
qed

lemma copySkillDir_makes:
  assumes "run_state (copySkillDir env src dst (SDir name es)) u = (None, v)"
  shows "OpMkdirAll (pathJoin [dst, ''.'']) \<in> set (newOps u v)"
proof -
  obtain e w1 where e: "run_state (fsDo env (OpMkdirAll (pathJoin [dst, ''.'']))) u = (e, w1)" by fastforce
  note f = run_fsDo [OF e]
  have "e = None" "run_state (copyNodes env src dst [] es) w1 = (None, v)"
    using assms e by (cases e; simp add: copySkillDir_def relName_def)+
  from extends_run [OF quietWrites_copy(2) this(2)] f show ?thesis by (auto simp: newOps_def extends_def)
qed

lemma installNode_makes:
  "run_state (installNode env p src dst rel t n) u = ((m, r), v) \<Longrightarrow> m = n \<or> m > n \<and> skillMade env p src dst u v"
  "run_state (installNodes env p src dst rel ts n) u = ((m, r), v) \<Longrightarrow> m = n \<or> m > n \<and> skillMade env p src dst u v"
proof (induction env p src dst rel t n and env p src dst rel ts n arbitrary: u m r v and u m r v rule: installNode_installNodes.induct)
  case (1 env p src dst rel name es n)
  let ?c = "copySkillDir env (nodePath src rel) (pathJoin [dst, pathBase (nodePath src rel)]) (SDir name es)"
  show ?case
  proof (cases "rel = []")
    case True
    with 1 show ?thesis by auto
  next
    case rel: False
    show ?thesis
    proof (cases "eRead env (histOf u) (pathJoin [nodePath src rel, ''SKILL.md''])")
      case None
      with 1 rel show ?thesis by (auto simp: readFile_def asks_def)
    next
      case (Some md)
      obtain e w1 where e: "run_state ?c u = (e, w1)" by (cases "run_state ?c u")
      consider "m = n" | "shouldInstall (pSkillProfile p) (parseProfiles (eYaml env) md)" "e = None" "m = n + 1" "v = w1"
        using "1.prems" rel Some e by (auto simp: readFile_def asks_def split: if_splits)
      then show ?thesis
      proof cases
        case 2
        with copySkillDir_makes e have "OpMkdirAll (pathJoin [pathJoin [dst, pathBase (nodePath src rel)], ''.'']) \<in> set (newOps u v)"
          by auto
        with 2 Some rel show ?thesis unfolding skillMade_def by (intro disjI2 conjI exI [of _ rel] exI [of _ md] exI [of _ "histOf u"]) auto
      qed simp
    qed
  qed
next
  case (6 env p src dst rel e es n)
  obtain m1 r1 w1 where h: "run_state (installNode env p src dst (rel @ [nodeName e]) e n) u = ((m1, r1), w1)"
    by (cases "run_state (installNode env p src dst (rel @ [nodeName e]) e n) u") (auto)
  have x1: "extends u w1" by (rule extends_run [OF quietWrites_install(1) h])
  from "6.IH"(1) [OF h] have i1: "m1 = n \<or> m1 > n \<and> skillMade env p src dst u w1" .
  have mono: "skillMade env p src dst u v" if "extends w1 v" "skillMade env p src dst u w1 \<or> skillMade env p src dst w1 v"
    using that skillMade_mono [of env p src dst u w1 u v] skillMade_mono [of env p src dst w1 v u v] x1
    by (auto simp: extends_def)
  show ?case
  proof (cases "r1 = None")
    case True
    then have t: "run_state (installNodes env p src dst rel es m1) w1 = ((m, r), v)" using "6.prems" h by simp
    have x2: "extends w1 v" by (rule extends_run [OF quietWrites_install(2) t])
    from "6.IH"(2) [OF _ t, of None] i1 mono [OF x2] show ?thesis by auto
  next
    case False
    then have "m = m1" "v = w1" using "6.prems" h by auto
    with i1 show ?thesis by simp
  qed
qed auto

lemma installSkillsFromSrc_makes:
  assumes "run_state (installSkillsFromSrc env p src dst) u = ((m, r), v)" "m > 0"
  shows "skillMade env p src dst u v"
  using installNode_makes(1) [of env p src dst "[]" "eWalk env (histOf u) src" 0 u m r v] assms
  by (auto simp: installSkillsFromSrc_def asks_def)

lemma installSources_makes:
  "run_state (installSources env p srcs cnt) u = ((m, None), v) \<Longrightarrow> m > cnt \<Longrightarrow>
   \<exists>src \<in> set srcs. src \<noteq> [] \<and> skillMade env p src (skillsDst p) u v"
proof (induction srcs arbitrary: cnt u)
  case (Cons src srcs)
  consider (skip) "run_state (installSources env p srcs cnt) u = ((m, None), v)"
    | (use) n w1 where "src \<noteq> []" "run_state (installSkillsFromSrc env p src (skillsDst p)) u = ((n, None), w1)"
        "run_state (installSources env p srcs (cnt + n)) w1 = ((m, None), v)"
    using Cons.prems(1) by (fastforce simp: statOf_def asks_def split: if_splits prod.splits option.splits)
  then show ?case
  proof cases
    case skip
    with Cons show ?thesis by (meson list.set_intros(2))
  next
    case use
    have x: "extends u w1" "extends w1 v"
      by (rule extends_run [OF quietWrites_from use(2)], rule extends_run [OF quietWrites_sources use(3)])
    show ?thesis
    proof (cases "n > 0")
      case True
      from installSkillsFromSrc_makes [OF use(2) this] skillMade_mono [of env p src "skillsDst p" u w1 u v] x use(1)
      show ?thesis by (auto simp: extends_def)
    next
      case False
      with Cons.IH [OF use(3)] Cons.prems(2) obtain s where "s \<in> set srcs" "s \<noteq> []" "skillMade env p s (skillsDst p) w1 v" by auto
      with skillMade_mono [of env p s "skillsDst p" w1 v u v] x show ?thesis by (auto simp: extends_def)
    qed
  qed
qed simp

lemma installStep_makes:
  assumes "run_state (installStep env p) u = (None, v)" "hasSkillsSrc p"
  shows "\<exists>src \<in> set (pSkillsSrc p). src \<noteq> [] \<and> skillMade env p src (skillsDst p) u v"
proof -
  obtain w1 where w1: "run_state (cloneSkillsRepo env p) u = ((), w1)" by (cases "run_state (cloneSkillsRepo env p) u") auto
  obtain n r where i: "run_state (installSkills env p) w1 = ((n, r), v)" "r = None" "n > 0"
    using assms w1 by (cases "run_state (installSkills env p) w1") (auto simp: installStep_def split: option.splits if_splits)
  obtain e w2 where e: "run_state (fsDo env (OpMkdirAll (skillsDst p))) w1 = (e, w2)"
    by (cases "run_state (fsDo env (OpMkdirAll (skillsDst p))) w1")
  obtain k w3 where k: "run_state (installSources env p (pSkillsSrc p) 0) w2 = ((k, None), w3)"
      "run_state (countSkills p k) w3 = ((), v)" "k > 0"
    using i e by (cases "run_state (installSources env p (pSkillsSrc p) 0) w2")
      (auto simp: installSkills_def countSkills_def split: option.splits if_splits)
  have x: "extends u w1" "extends w1 w2" "extends w2 w3" "extends w3 v"
    by (rule extends_run [OF cloneSkills_changes w1], rule extends_run [OF changes_fsDo [of "\<lambda>_ _. True"] e], simp,
        rule extends_run [OF quietWrites_sources k(1)], rule extends_run [OF changes_counters(5) k(2)])
  from installSources_makes [OF k(1,3)] obtain src where "src \<in> set (pSkillsSrc p)" "src \<noteq> []"
    "skillMade env p src (skillsDst p) w2 w3" by blast
  with skillMade_mono [of env p src "skillsDst p" w2 w3 u v] x show ?thesis by (blast intro: extends_trans)
qed

lemma renderSteps_success:
  assumes "run_state (renderSteps qs) w = (None, w')" "q \<in> set qs" "\<forall>q \<in> set qs. changes (\<lambda>_ _. True) q"
  shows "\<exists>u v. run_state q u = (None, v) \<and> extends w u \<and> extends v w'"
  using assms
proof (induction qs arbitrary: w)
  case (Cons r qs)
  obtain w1 where r: "run_state r w = (None, w1)" "run_state (renderSteps qs) w1 = (None, w')"
    using Cons.prems(1) by (cases "run_state r w") (auto split: option.splits prod.splits)
  have x: "extends w w1" using extends_run [of "\<lambda>_ _. True" r] r(1) Cons.prems(3) by auto
  have all: "\<forall>q \<in> set qs. changes (\<lambda>_ _. True) q" using Cons.prems(3) by simp
  have "changes (\<lambda>_ _. True) (renderSteps qs)"
    using all by (induction qs) (auto intro!: changes_rules changes_counters)
  from extends_run [OF this r(2)] have y: "extends w1 w'" .
  show ?case
  proof (cases "q = r")
    case True
    then show ?thesis using r(1) y by (intro exI [of _ w] exI [of _ w1]) (simp add: extends_def)
  next
    case False
    with Cons.IH [OF r(2) _ all] Cons.prems(2) show ?thesis using extends_trans [OF x] by auto
  qed
qed simp


section \<open>A concrete boot\<close>

definition bootParams :: Params where
  "bootParams = (demoParams ''t'' [])\<lparr>pSkillsSrc := [''/skills'']\<rparr>"

definition bootEnv :: wsEnv where
  "bootEnv = demoEnv\<lparr>eRead := (\<lambda>_ _. Some ''text''), eWalk := (\<lambda>_ _. SDir ''skills'' [SDir ''tdd'' [SFile ''SKILL.md'']])\<rparr>"

lemma text_not_json: "parseIdentity ''text'' = None" "unmarshalDoc fl ''text'' = Some []"
proof -
  have "parseJson ''text'' = None" by code_simp
  then show "parseIdentity ''text'' = None" "unmarshalDoc fl ''text'' = Some []"
    by (simp_all add: parseIdentity_def unmarshal_def unmarshalDoc_def)
qed

lemma renderSteps_all: "\<forall>q \<in> set qs. \<forall>w. fst (run_state q w) = None \<Longrightarrow> fst (run_state (renderSteps qs) w) = None"
  by (induction qs arbitrary: w) (auto simp: split_def)


end
