(* ===== verification/AppConfig.thy ===== *)
theory AppConfig
  imports Session Repo
begin

text \<open>
  \<^verbatim>\<open>cmd/wrapper/config.go\<close> and the small functions of \<^verbatim>\<open>app.go\<close> that turn the configuration into
  the inputs of the other components. The environment is the list \<^verbatim>\<open>os.Environ\<close> returns; a file
  is given by its contents, if it can be read. The two command-line flags are parsed as the
  package \<^verbatim>\<open>flag\<close> does it.
\<close>

section \<open>The configuration\<close>

record config =
  HTTPAddr :: string
  InternalAddr :: string
  OIDCIssuer :: string
  OIDCAudience :: string
  LogLevel :: string
  Model :: string
  Effort :: string
  PermissionMode :: string
  RepoURL :: string
  RepoBranch :: string
  GitToken :: string
  GitUserName :: string
  GitUserEmail :: string
  TaskBranch :: string
  CheckoutBranch :: string
  DefaultCallbackURL :: string
  OperatorPushURL :: string
  RunID :: string
  PodName :: string
  Kind :: string
  RepoName :: string
  Project :: string
  TaskName :: string
  CallbackHMACSecret :: string
  TurnTimeoutSeconds :: int
  PodTTLSeconds :: int
  BootTimeoutSeconds :: int
  PushIntervalSeconds :: int
  BranchPushIntervalSeconds :: int
  WebhookRetries :: int
  Workspace :: string
  HomeDir :: string
  ClaudePath :: string
  HookPath :: string
  StatusLinePath :: string
  GlobalClaudeMdPath :: string
  ProjectClaudeMdPath :: string
  MCPBasePath :: string
  MCPOverlayDir :: string
  GrafanaMCPURL :: string
  SerenaMCPURL :: string
  ExtraMCPServers :: string
  ExtraSkillSources :: string
  SkillsSrcDirs :: string
  SkillProfile :: string
  SkillsRepo :: string
  SkillsRef :: string
  AllowedToolsPath :: string
  Repos :: "RepoSpec list"
  HookPreClone :: string
  HookPostClone :: string
  HookConversationStart :: string
  HookConversationRestart :: string
  HookAgentTurnFinished :: string
  HookConversationFinished :: string
  FullClone :: bool

type_synonym environ = "string list"

definition lookupEnv :: "environ \<Rightarrow> string \<Rightarrow> string option" where
  "lookupEnv env k = map_of (List.map_filter splitEnv env) k"

definition getenv :: "environ \<Rightarrow> string \<Rightarrow> string" where
  "getenv env k = (case lookupEnv env k of None \<Rightarrow> [] | Some v \<Rightarrow> v)"

definition envOr :: "environ \<Rightarrow> string \<Rightarrow> string \<Rightarrow> string" where
  "envOr env k def = (case lookupEnv env k of Some v \<Rightarrow> v | None \<Rightarrow> def)"

datatype config_error = EnvInt string | EnvBool string | ReposJSON | FlagError

text \<open>\<^verbatim>\<open>strconv.Atoi\<close> for a 64-bit \<^verbatim>\<open>int\<close> and \<^verbatim>\<open>strconv.ParseBool\<close>.\<close>

definition atoi :: "string \<Rightarrow> int option" where
  "atoi s = (if hasPrefix s ''+'' then (if hasPrefix (tl s) ''-'' then None else int64OfText (tl s)) else int64OfText s)"

definition parseBool :: "string \<Rightarrow> bool option" where
  "parseBool s =
     (if s \<in> {''1'', ''t'', ''T'', ''true'', ''TRUE'', ''True''} then Some True
      else if s \<in> {''0'', ''f'', ''F'', ''false'', ''FALSE'', ''False''} then Some False else None)"

definition envIntOr :: "environ \<Rightarrow> string \<Rightarrow> int \<Rightarrow> config_error + int" where
  "envIntOr env k def =
     (case lookupEnv env k of
        None \<Rightarrow> Inr def
      | Some v \<Rightarrow> if v = [] then Inr def
                 else (case atoi v of None \<Rightarrow> Inl (EnvInt k) | Some n \<Rightarrow> Inr n))"

definition envBoolOr :: "environ \<Rightarrow> string \<Rightarrow> bool \<Rightarrow> config_error + bool" where
  "envBoolOr env k def =
     (case lookupEnv env k of
        None \<Rightarrow> Inr def
      | Some v \<Rightarrow> if v = [] then Inr def
                 else (case parseBool v of None \<Rightarrow> Inl (EnvBool k) | Some b \<Rightarrow> Inr b))"

section \<open>Flags\<close>

text \<open>
  \<^verbatim>\<open>FlagSet.Parse\<close> with string flags of the given names: the assignments in order, or
  \<^const>\<open>None\<close> for every error, \<^verbatim>\<open>-help\<close> included. Parsing stops at the first argument that is
  not a flag and after \<^verbatim>\<open>--\<close>.
\<close>

definition flagBody :: "string \<Rightarrow> string option" where
  "flagBody s =
     (if length s < 2 \<or> hd s \<noteq> CHR ''-'' then None
      else if s ! 1 = CHR ''-'' then (if length s = 2 then None else Some (drop 2 s))
      else Some (drop 1 s))"

definition flagSplit :: "string \<Rightarrow> string \<times> string option" where
  "flagSplit b = (case strIndex b ''='' of None \<Rightarrow> (b, None) | Some i \<Rightarrow> (take i b, Some (drop (i + 1) b)))"

fun parseFlags :: "string list \<Rightarrow> string list \<Rightarrow> (string \<times> string) list option" where
  "parseFlags names [] = Some []"
| "parseFlags names (s # args) =
     (case flagBody s of
        None \<Rightarrow> Some []
      | Some b \<Rightarrow>
          if b = [] \<or> hd b = CHR ''-'' \<or> hd b = CHR ''='' then None
          else (case flagSplit b of
                  (name, Some v) \<Rightarrow>
                    if name \<notin> set names then None
                    else map_option (Cons (name, v)) (parseFlags names args)
                | (name, None) \<Rightarrow>
                    if name \<notin> set names then None
                    else (case args of
                            [] \<Rightarrow> None
                          | v # rest \<Rightarrow> map_option (Cons (name, v)) (parseFlags names rest))))"

definition flagValue :: "(string \<times> string) list \<Rightarrow> string \<Rightarrow> string \<Rightarrow> string" where
  "flagValue fs name def = foldl (\<lambda>acc (n, v). if n = name then v else acc) def fs"

section \<open>loadConfig\<close>

definition decRepoSpec :: "RepoSpec decoder" where
  "decRepoSpec =
     decStruct [(''name'', fieldDec rsName rsName_update decString), (''url'', fieldDec rsURL rsURL_update decString),
                (''branch'', fieldDec rsBranch rsBranch_update decString)]"

definition parseRepos :: "string \<Rightarrow> RepoSpec list option" where
  "parseRepos raw =
     (if raw = [] then Some []
      else unmarshal (decSlice \<lparr>rsName = [], rsURL = [], rsBranch = []\<rparr> decRepoSpec) raw [])"

definition envConfig ::
  "environ \<Rightarrow> int \<Rightarrow> int \<Rightarrow> int \<Rightarrow> int \<Rightarrow> int \<Rightarrow> int \<Rightarrow> bool \<Rightarrow> RepoSpec list \<Rightarrow> (string \<times> string) list \<Rightarrow> config" where
  "envConfig env ti pttl bt wr pint bpi fc repos flags =
     \<lparr>HTTPAddr = flagValue flags ''http-addr'' (envOr env ''HTTP_ADDR'' '':8080''),
      InternalAddr = flagValue flags ''internal-addr'' (envOr env ''INTERNAL_ADDR'' ''127.0.0.1:8090''),
      OIDCIssuer = envOr env ''OIDC_ISSUER'' ''https://auth.szymonrichert.pl/realms/master'',
      OIDCAudience = envOr env ''OIDC_AUDIENCE'' ''tatara-claude-code-wrapper'',
      LogLevel = envOr env ''LOG_LEVEL'' ''info'',
      Model = envOr env ''MODEL'' [],
      Effort = envOr env ''EFFORT'' [],
      PermissionMode = envOr env ''PERMISSION_MODE'' ''bypassPermissions'',
      RepoURL = envOr env ''REPO_URL'' [],
      RepoBranch = envOr env ''REPO_BRANCH'' [],
      GitToken = envOr env ''GIT_TOKEN'' [],
      GitUserName = envOr env ''GIT_USER_NAME'' ''tatara-agent'',
      GitUserEmail = envOr env ''GIT_USER_EMAIL'' ''tatara-agent@szymonrichert.pl'',
      TaskBranch = envOr env ''TASK_BRANCH'' [],
      CheckoutBranch = envOr env ''CHECKOUT_BRANCH'' [],
      DefaultCallbackURL = envOr env ''DEFAULT_CALLBACK_URL'' [],
      OperatorPushURL = envOr env ''OPERATOR_PUSH_URL'' [],
      RunID = envOr env ''RUN_ID'' [],
      PodName = envOr env ''POD_NAME'' [],
      Kind = envOr env ''TATARA_KIND'' [],
      RepoName = envOr env ''TATARA_REPO'' [],
      Project = envOr env ''TATARA_PROJECT'' [],
      TaskName = envOr env ''TATARA_TASK'' [],
      CallbackHMACSecret = envOr env ''CALLBACK_HMAC_SECRET'' [],
      TurnTimeoutSeconds = ti,
      PodTTLSeconds = pttl,
      BootTimeoutSeconds = bt,
      PushIntervalSeconds = pint,
      BranchPushIntervalSeconds = bpi,
      WebhookRetries = wr,
      Workspace = envOr env ''WORKSPACE'' ''/workspace'',
      HomeDir = envOr env ''HOME_DIR'' (getenv env ''HOME''),
      ClaudePath = envOr env ''CLAUDE_PATH'' ''claude'',
      HookPath = envOr env ''HOOK_PATH'' ''/usr/local/bin/cc-stop-hook'',
      StatusLinePath = envOr env ''STATUSLINE_PATH'' ''/usr/local/bin/cc-statusline'',
      GlobalClaudeMdPath = envOr env ''GLOBAL_CLAUDE_MD_PATH'' ''/etc/wrapper/global-claude.md'',
      ProjectClaudeMdPath = envOr env ''PROJECT_CLAUDE_MD_PATH'' ''/etc/wrapper/project-claude.md'',
      MCPBasePath = envOr env ''MCP_BASE_PATH'' ''/etc/wrapper/mcp-base.json'',
      MCPOverlayDir = envOr env ''MCP_OVERLAY_DIR'' ''/etc/wrapper/mcp.d'',
      GrafanaMCPURL = getenv env ''TATARA_GRAFANA_MCP_URL'',
      SerenaMCPURL = getenv env ''TATARA_SERENA_URL'',
      ExtraMCPServers = getenv env ''TATARA_EXTRA_MCP_SERVERS'',
      ExtraSkillSources = getenv env ''TATARA_EXTRA_SKILL_SOURCES'',
      SkillsSrcDirs = envOr env ''SKILLS_SRC_DIRS'' ''/etc/wrapper/skills/skills'',
      SkillProfile = getenv env ''TATARA_SKILL_PROFILE'',
      SkillsRepo = envOr env ''TATARA_SKILLS_REPO'' ''https://github.com/szymonrychu/tatara-agent-skills'',
      SkillsRef = envOr env ''TATARA_SKILLS_REF'' ''main'',
      AllowedToolsPath = envOr env ''ALLOWED_TOOLS_PATH'' ''/etc/wrapper/allowed-tools.txt'',
      Repos = repos,
      HookPreClone = envOr env ''HOOK_PRE_CLONE'' [],
      HookPostClone = envOr env ''HOOK_POST_CLONE'' [],
      HookConversationStart = envOr env ''HOOK_CONVERSATION_START'' [],
      HookConversationRestart = envOr env ''HOOK_CONVERSATION_RESTART'' [],
      HookAgentTurnFinished = envOr env ''HOOK_AGENT_TURN_FINISHED'' [],
      HookConversationFinished = envOr env ''HOOK_CONVERSATION_FINISHED'' [],
      FullClone = fc\<rparr>"

definition loadConfig :: "string list \<Rightarrow> environ \<Rightarrow> config_error + config" where
  "loadConfig args env =
     (case envIntOr env ''TURN_TIMEOUT_SECONDS'' 1800 of Inl e \<Rightarrow> Inl e | Inr ti \<Rightarrow>
     (case envIntOr env ''AGENT_POD_TTL_SECONDS'' 0 of Inl e \<Rightarrow> Inl e | Inr pttl \<Rightarrow>
     (case envIntOr env ''BOOT_TIMEOUT_SECONDS'' 60 of Inl e \<Rightarrow> Inl e | Inr bt \<Rightarrow>
     (case envIntOr env ''WEBHOOK_RETRIES'' 3 of Inl e \<Rightarrow> Inl e | Inr wr \<Rightarrow>
     (case envIntOr env ''PUSH_INTERVAL_SECONDS'' 15 of Inl e \<Rightarrow> Inl e | Inr pint \<Rightarrow>
     (case envIntOr env ''BRANCH_PUSH_INTERVAL_SECONDS'' 120 of Inl e \<Rightarrow> Inl e | Inr bpi \<Rightarrow>
     (case envBoolOr env ''TATARA_WORKSPACE_FULL_CLONE'' False of Inl e \<Rightarrow> Inl e | Inr fc \<Rightarrow>
     (case parseRepos (getenv env ''TATARA_REPOS'') of None \<Rightarrow> Inl ReposJSON | Some repos \<Rightarrow>
     (case parseFlags [''http-addr'', ''internal-addr''] args of None \<Rightarrow> Inl FlagError | Some flags \<Rightarrow>
        Inr (envConfig env ti pttl bt wr pint bpi fc repos flags))))))))))"

section \<open>Derived inputs\<close>

definition primaryRepoName :: "config \<Rightarrow> string" where
  "primaryRepoName cfg =
     (let dir = RepoDir (Workspace cfg) (RepoURL cfg) in if dir \<noteq> [] then pathBase dir else [])"

text \<open>\<^verbatim>\<open>strings.SplitN(s, ":", 2)\<close>.\<close>

definition splitColon2 :: "string \<Rightarrow> string list" where
  "splitColon2 s = (case strIndex s '':'' of None \<Rightarrow> [s] | Some i \<Rightarrow> [take i s, drop (i + 1) s])"

definition skillsCloneDir :: "string \<Rightarrow> string" where
  "skillsCloneDir srcDirs =
     (case find (\<lambda>p. p \<noteq> []) (splitColon2 srcDirs) of Some p \<Rightarrow> pathDir p | None \<Rightarrow> ''/etc/wrapper/skills'')"

datatype slogLevel = LevelDebug | LevelInfo | LevelWarn | LevelError

definition parseLevel :: "string \<Rightarrow> slogLevel" where
  "parseLevel s =
     (let l = toLower s
      in if l = ''debug'' then LevelDebug else if l = ''warn'' then LevelWarn
         else if l = ''error'' then LevelError else LevelInfo)"

definition claudeEnv :: "environ \<Rightarrow> config \<Rightarrow> string list" where
  "claudeEnv env cfg =
     ''TERM=xterm-256color'' # filter (\<lambda>e. \<not> hasPrefix e ''CLAUDE_CODE_SUBAGENT_MODEL='') env
     @ (if HomeDir cfg \<noteq> [] then [''HOME='' @ HomeDir cfg] else [])"

definition setenv :: "string \<Rightarrow> string \<Rightarrow> environ \<Rightarrow> environ" where
  "setenv k v env =
     (if lookupEnv env k = None then env @ [k @ ''='' @ v]
      else map (\<lambda>e. if map_option fst (splitEnv e) = Some k then k @ ''='' @ v else e) env)"

definition setGitHubTokenEnv :: "string \<Rightarrow> environ \<Rightarrow> environ" where
  "setGitHubTokenEnv token env =
     (if token = [] then env else setenv ''MISE_GITHUB_TOKEN'' token (setenv ''GITHUB_TOKEN'' token env))"

definition readLines :: "string option \<Rightarrow> string list" where
  "readLines contents =
     (case contents of
        None \<Rightarrow> []
      | Some b \<Rightarrow> filter (\<lambda>s. s \<noteq> []) (map trimSpace (splitOn (CHR 0x0A) b)))"

definition newSafetyPusher :: "config \<Rightarrow> safetyPusher" where
  "newSafetyPusher cfg =
     \<lparr>spWorkspace = Workspace cfg, spTaskBranch = TaskBranch cfg, spRepos = Repos cfg, spRepoURL = RepoURL cfg,
      spInterval = wrap64 (seconds (BranchPushIntervalSeconds cfg)), spRunning = False, spTotal = (\<lambda>_. 0)\<rparr>"


section \<open>When loading fails\<close>

definition intOk :: "environ \<Rightarrow> string \<Rightarrow> bool" where
  "intOk env k \<longleftrightarrow> (case lookupEnv env k of None \<Rightarrow> True | Some v \<Rightarrow> v = [] \<or> atoi v \<noteq> None)"

definition boolOk :: "environ \<Rightarrow> string \<Rightarrow> bool" where
  "boolOk env k \<longleftrightarrow> (case lookupEnv env k of None \<Rightarrow> True | Some v \<Rightarrow> v = [] \<or> parseBool v \<noteq> None)"

lemma envIntOr_cases: "envIntOr env k d = (if intOk env k then Inr (projr (envIntOr env k d)) else Inl (EnvInt k))"
  by (auto simp: envIntOr_def intOk_def split: option.splits)

lemma envBoolOr_cases: "envBoolOr env k d = (if boolOk env k then Inr (projr (envBoolOr env k d)) else Inl (EnvBool k))"
  by (auto simp: envBoolOr_def boolOk_def split: option.splits)

lemma intOk_iff: "(\<exists>n. envIntOr env k d = Inr n) = intOk env k" "(\<exists>e. envIntOr env k d = Inl e) = (\<not> intOk env k)"
  using envIntOr_cases [of env k d] by (auto split: if_splits)

section \<open>The token in the environment\<close>

lemma foldl_upd_where:
  "foldl (\<lambda>out (k, v). if P k then out(k \<mapsto> v) else out) m kvs k =
     (if P k then (case map_of (rev kvs) k of Some v \<Rightarrow> Some v | None \<Rightarrow> m k) else m k)"
proof (induction kvs arbitrary: m)
  case (Cons kv kvs)
  then show ?case by (cases kv) (auto simp: map_add_def split: option.splits)
qed simp

lemma foldl_explicit_other:
  "k \<notin> set ks \<Longrightarrow> foldl (\<lambda>out k. case f k of Some v \<Rightarrow> out(k \<mapsto> v) | None \<Rightarrow> out) m ks k = m k"
  by (induction ks arbitrary: m) (auto split: option.split)

lemma map_of_unique:
  "(k, v) \<in> set kvs \<Longrightarrow> \<forall>(k', v') \<in> set kvs. k' = k \<longrightarrow> v' = v \<Longrightarrow> map_of kvs k = Some v"
  by (induction kvs) auto

text \<open>Every binding of a name that was set has the value it was set to.\<close>

definition boundTo :: "environ \<Rightarrow> string \<Rightarrow> string \<Rightarrow> bool" where
  "boundTo env k v \<longleftrightarrow> (k, v) \<in> set (List.map_filter splitEnv env)
     \<and> (\<forall>(k', v') \<in> set (List.map_filter splitEnv env). k' = k \<longrightarrow> v' = v)"

lemma boundTo_lookup: "boundTo env k v \<Longrightarrow> map_of (rev (List.map_filter splitEnv env)) k = Some v"
  unfolding boundTo_def by (rule map_of_unique) auto

lemma map_filter_set: "x \<in> set (List.map_filter f xs) \<longleftrightarrow> (\<exists>y \<in> set xs. f y = Some x)"
  by (force simp: List.map_filter_def)

lemma boundTo_setenv:
  assumes "splitEnv (k @ ''='' @ v) = Some (k, v)"
  shows "boundTo (setenv k v env) k v"
proof (cases "lookupEnv env k")
  case None
  then have "k \<notin> fst ` set (List.map_filter splitEnv env)" by (simp add: lookupEnv_def map_of_eq_None_iff)
  with None assms show ?thesis
    by (force simp: boundTo_def setenv_def map_filter_set)
next
  case (Some v0)
  then have "(k, v0) \<in> set (List.map_filter splitEnv env)" by (simp add: lookupEnv_def map_of_SomeD)
  then obtain e where "e \<in> set env" "splitEnv e = Some (k, v0)" by (auto simp: map_filter_set)
  with Some assms show ?thesis
    by (force simp: boundTo_def setenv_def map_filter_set)
qed

lemma boundTo_setenv_other:
  assumes "boundTo env k v" "k' \<noteq> k" "splitEnv (k' @ ''='' @ v') = Some (k', v')"
  shows "boundTo (setenv k' v' env) k v"
proof -
  have in': "p \<in> set (List.map_filter splitEnv (setenv k' v' env)) \<Longrightarrow>
      p \<in> set (List.map_filter splitEnv env) \<or> p = (k', v')" for p
    using assms(3) by (auto simp: setenv_def map_filter_set split: if_splits)
  obtain e where e: "e \<in> set env" "splitEnv e = Some (k, v)"
    using assms(1) by (auto simp: boundTo_def map_filter_set)
  then have "e \<in> set (setenv k' v' env)" using assms(2) by (auto simp: setenv_def intro: rev_image_eqI)
  with e(2) have "(k, v) \<in> set (List.map_filter splitEnv (setenv k' v' env))" by (auto simp: map_filter_set)
  with assms(1,2) in' show ?thesis unfolding boundTo_def by blast
qed

lemma secretsFromEnv_bound:
  assumes "boundTo env k v" "list_ex (hasSuffix (toUpper k)) secretPatterns" "k \<notin> set explicitSecrets"
  shows "secretsFromEnv env k = Some v"
  using assms
  by (simp add: secretsFromEnv_def Let_def foldl_explicit_other foldl_upd_where boundTo_lookup)

lemma token_names:
  "splitEnv (''GITHUB_TOKEN'' @ ''='' @ v) = Some (''GITHUB_TOKEN'', v)"
  "splitEnv (''MISE_GITHUB_TOKEN'' @ ''='' @ v) = Some (''MISE_GITHUB_TOKEN'', v)"
  "list_ex (hasSuffix (toUpper ''GITHUB_TOKEN'')) secretPatterns" "''GITHUB_TOKEN'' \<notin> set explicitSecrets"
  "list_ex (hasSuffix (toUpper ''MISE_GITHUB_TOKEN'')) secretPatterns" "''MISE_GITHUB_TOKEN'' \<notin> set explicitSecrets"
  by (simp_all add: splitEnv_def hasPrefix_def explicitSecrets_def) code_simp+

section \<open>Properties\<close>

text \<open>
  \<^verbatim>\<open>loadConfig\<close> succeeds exactly when each of the six integer variables is unset, empty or a 64-bit decimal
  integer, \<^verbatim>\<open>TATARA_WORKSPACE_FULL_CLONE\<close> is unset, empty or a boolean, \<^verbatim>\<open>TATARA_REPOS\<close> is unset, empty or
  a JSON array of repositories, and the flags parse; otherwise it reports the first of these that fails, in that order.
\<close>

theorem load_config_errors:
  "loadConfig args env =
     (case find (\<lambda>k. \<not> intOk env k) [''TURN_TIMEOUT_SECONDS'', ''AGENT_POD_TTL_SECONDS'', ''BOOT_TIMEOUT_SECONDS'',
             ''WEBHOOK_RETRIES'', ''PUSH_INTERVAL_SECONDS'', ''BRANCH_PUSH_INTERVAL_SECONDS''] of
        Some k \<Rightarrow> Inl (EnvInt k)
      | None \<Rightarrow>
          if \<not> boolOk env ''TATARA_WORKSPACE_FULL_CLONE'' then Inl (EnvBool ''TATARA_WORKSPACE_FULL_CLONE'')
          else if parseRepos (getenv env ''TATARA_REPOS'') = None then Inl ReposJSON
          else if parseFlags [''http-addr'', ''internal-addr''] args = None then Inl FlagError
          else Inr (projr (loadConfig args env)))"
  unfolding loadConfig_def
  apply (subst (1 2) envIntOr_cases [of env "''TURN_TIMEOUT_SECONDS''"])
  apply (subst (1 2) envIntOr_cases [of env "''AGENT_POD_TTL_SECONDS''"])
  apply (subst (1 2) envIntOr_cases [of env "''BOOT_TIMEOUT_SECONDS''"])
  apply (subst (1 2) envIntOr_cases [of env "''WEBHOOK_RETRIES''"])
  apply (subst (1 2) envIntOr_cases [of env "''PUSH_INTERVAL_SECONDS''"])
  apply (subst (1 2) envIntOr_cases [of env "''BRANCH_PUSH_INTERVAL_SECONDS''"])
  apply (subst (1 2) envBoolOr_cases [of env "''TATARA_WORKSPACE_FULL_CLONE''"])
  apply (simp split: option.split)
  done

text \<open>
  The git token never appears in the transcript output: once \<^verbatim>\<open>setGitHubTokenEnv\<close> has exported it, the
  secrets read from the environment include it under both names, so, for any order \<open>vs\<close> in which these secrets
  reach the redactor, a scrubbed text does not contain a token of at least eight bytes that has no bracket and is no
  part of the words of a replacement.
\<close>

theorem git_token_scrubbed:
  assumes "token \<noteq> []" "map_of vs = secretsFromEnv (setGitHubTokenEnv token env)"
    "8 \<le> length token" "separable (NewRedactor vs) token"
  shows "secretsFromEnv (setGitHubTokenEnv token env) ''GITHUB_TOKEN'' = Some token
    \<and> secretsFromEnv (setGitHubTokenEnv token env) ''MISE_GITHUB_TOKEN'' = Some token
    \<and> \<not> strContains (Scrub (NewRedactor vs) s) token"
proof -
  have b: "boundTo (setGitHubTokenEnv token env) ''GITHUB_TOKEN'' token"
    "boundTo (setGitHubTokenEnv token env) ''MISE_GITHUB_TOKEN'' token"
    using assms(1) boundTo_setenv [OF token_names(1)] boundTo_setenv [OF token_names(2)]
    by (simp_all add: setGitHubTokenEnv_def boundTo_setenv_other [OF _ _ token_names(2)])
  note s = secretsFromEnv_bound [OF b(1) token_names(3,4)] secretsFromEnv_bound [OF b(2) token_names(5,6)]
  then have "map_of vs ''GITHUB_TOKEN'' = Some token" using assms(2) by simp
  then have "(''GITHUB_TOKEN'', token) \<in> set vs" by (rule map_of_SomeD)
  with s show ?thesis using Scrub_registered assms(3,4) by blast
qed


theorem git_token_scrubbed_witness:
  "\<not> strContains (Scrub (NewRedactor [(''GITHUB_TOKEN'', ''ghp12345''), (''MISE_GITHUB_TOKEN'', ''ghp12345'')])
      ''https://x:ghp12345@h'') ''ghp12345''"
proof -
  let ?vs = "[(''GITHUB_TOKEN'', ''ghp12345''), (''MISE_GITHUB_TOKEN'', ''ghp12345'')]"
  have kvs: "List.map_filter splitEnv (setGitHubTokenEnv ''ghp12345'' []) = ?vs" by code_simp
  have "map_of ?vs = secretsFromEnv (setGitHubTokenEnv ''ghp12345'' [])"
    unfolding secretsFromEnv_def kvs by (rule ext) (simp add: token_names explicitSecrets_def)
  moreover have "separable (NewRedactor ?vs) ''ghp12345''" by code_simp
  ultimately show ?thesis using git_token_scrubbed [of "''ghp12345''" ?vs "[]"] by simp
qed

end
