(* ===== verification/Webhook.thy ===== *)
theory Webhook
  imports GoPrelude
begin

text \<open>
  The package \<^verbatim>\<open>internal/webhook\<close>: the callback sender. One delivery is the retry loop
  \<^verbatim>\<open>deliver\<close>; the sender around it is the closed flag, the wait group of deliveries in flight
  and the outcome counter, which the step relation \<open>sender_step\<close> interleaves in any order. The
  HTTP transport, the URL parser and the HMAC are parameters (a \<open>wire\<close>): the theorems hold for
  every behaviour of the receiver.
\<close>

section \<open>One POST\<close>

record webhookConfig =
  whRetries :: int
  whBackoff :: duration
  whSecret :: string

record request =
  rqURL :: string
  rqHeaders :: "(string \<times> string) list"
  rqBody :: string

datatype post_error = NewRequestError | DoError | StatusError int

text \<open>
  What is outside the package: whether \<^verbatim>\<open>http.NewRequestWithContext\<close> accepts the URL, the
  hexadecimal HMAC-SHA256 of a body under a secret, what \<^verbatim>\<open>client.Do\<close> returns on the n-th
  attempt (\<^const>\<open>None\<close> is an error), and whether the n-th wait ends on the cancelled context.
\<close>

record wire =
  wiURL :: "string \<Rightarrow> bool"
  wiHMAC :: "string \<Rightarrow> string \<Rightarrow> string"
  wiDo :: "nat \<Rightarrow> request \<Rightarrow> int option"
  wiAbort :: "nat \<Rightarrow> bool"

definition maxBackoff :: duration where
  "maxBackoff = seconds 60"

definition postRequest :: "wire \<Rightarrow> webhookConfig \<Rightarrow> string \<Rightarrow> string \<Rightarrow> request" where
  "postRequest w cfg url body =
     \<lparr>rqURL = url,
      rqHeaders = (''Content-Type'', ''application/json'')
        # (if whSecret cfg \<noteq> [] then [(''X-Tatara-Signature'', ''sha256='' @ wiHMAC w (whSecret cfg) body)] else []),
      rqBody = body\<rparr>"

definition post :: "wire \<Rightarrow> webhookConfig \<Rightarrow> nat \<Rightarrow> string \<Rightarrow> string \<Rightarrow> request list \<times> post_error option" where
  "post w cfg n url body =
     (if \<not> wiURL w url then ([], Some NewRequestError)
      else (let req = postRequest w cfg url body
            in ([req],
                case wiDo w n req of
                  None \<Rightarrow> Some DoError
                | Some status \<Rightarrow> if status \<ge> 300 then Some (StatusError status) else None)))"

section \<open>The retry loop\<close>

datatype devent = Sent request | Slept duration

definition nextBackoff :: "duration \<Rightarrow> duration" where
  "nextBackoff b = (let b' = wrap64 (b * 2) in if b' > maxBackoff then maxBackoff else b')"

text \<open>
  The loop body at \<^verbatim>\<open>attempt\<close>, the number of attempts made so far as an index into the wire; the
  result is what it did and the label of \<^verbatim>\<open>WebhookDelivery\<close> it counted.
\<close>

function deliver_loop ::
  "wire \<Rightarrow> webhookConfig \<Rightarrow> string \<Rightarrow> string \<Rightarrow> duration \<Rightarrow> int \<Rightarrow> devent list \<times> string" where
  "deliver_loop w cfg url body backoff attempt =
     (if attempt > whRetries cfg then ([], ''dropped'')
      else (case post w cfg (nat attempt) url body of
              (sent, None) \<Rightarrow> (map Sent sent, ''ok'')
            | (sent, Some _) \<Rightarrow>
                if attempt = whRetries cfg then (map Sent sent, ''dropped'')
                else if wiAbort w (nat attempt) then (map Sent sent, ''dropped'')
                else (let (evs, l) = deliver_loop w cfg url body (nextBackoff backoff) (attempt + 1)
                      in (map Sent sent @ Slept backoff # evs, l))))"
  by pat_completeness auto
termination
  by (relation "measure (\<lambda>(w, cfg, url, body, backoff, attempt). nat (whRetries cfg + 1 - attempt))") auto

declare deliver_loop.simps [simp del]

definition deliver :: "wire \<Rightarrow> webhookConfig \<Rightarrow> string \<Rightarrow> string \<Rightarrow> devent list \<times> string" where
  "deliver w cfg url body = deliver_loop w cfg url body (whBackoff cfg) 0"

section \<open>The sender\<close>

text \<open>
  \<^verbatim>\<open>wg\<close> counts the deliveries between \<^verbatim>\<open>wg.Add\<close> and \<^verbatim>\<open>wg.Done\<close>: \<open>inFlight\<close> lists them (URL,
  turn, body). The ghost fields list what \<^verbatim>\<open>DeliverPayload\<close> accepted and say whether a call of
  \<^verbatim>\<open>Shutdown\<close> has returned.
\<close>

record Sender =
  sdCfg :: webhookConfig
  sdClosed :: bool
  sdCancelled :: bool
  inFlight :: "(string \<times> string \<times> string) list"
  sdDelivery :: "string counters"
  gAccepted :: "string list"
  gReturned :: bool

definition webhook_New :: "webhookConfig \<Rightarrow> Sender" where
  "webhook_New cfg =
     \<lparr>sdCfg = (if whBackoff cfg \<le> 0 then cfg\<lparr>whBackoff := seconds 1\<rparr> else cfg), sdClosed = False,
      sdCancelled = False, inFlight = [], sdDelivery = (\<lambda>_. 0), gAccepted = [], gReturned = False\<rparr>"

text \<open>The payload as \<^verbatim>\<open>json.Marshal\<close> renders it, \<^const>\<open>None\<close> when it cannot.\<close>

definition DeliverPayload :: "string \<Rightarrow> string \<Rightarrow> string option \<Rightarrow> Sender \<Rightarrow> Sender" where
  "DeliverPayload url turnID payload s =
     (if url = [] then s
      else if sdClosed s then s
      else (let s1 = s\<lparr>gAccepted := turnID # gAccepted s\<rparr>
            in case payload of
                 None \<Rightarrow> s1\<lparr>sdDelivery := inc ''dropped'' (sdDelivery s1)\<rparr>
               | Some body \<Rightarrow> s1\<lparr>inFlight := (url, turnID, body) # inFlight s1\<rparr>))"

definition Deliver :: "string \<Rightarrow> (string \<times> string option) option \<Rightarrow> Sender \<Rightarrow> Sender" where
  "Deliver url rec s = (case rec of None \<Rightarrow> s | Some (rid, payload) \<Rightarrow> DeliverPayload url rid payload s)"

text \<open>The goroutine of a delivery: it runs \<^verbatim>\<open>deliver\<close>, counts its outcome and leaves the group.\<close>

definition finishDelivery :: "wire \<Rightarrow> string \<times> string \<times> string \<Rightarrow> Sender \<Rightarrow> Sender" where
  "finishDelivery w d s =
     (case d of (url, turnID, body) \<Rightarrow>
        s\<lparr>sdDelivery := inc (snd (deliver w (sdCfg s) url body)) (sdDelivery s),
          inFlight := remove1 d (inFlight s)\<rparr>)"

text \<open>
  \<^verbatim>\<open>Shutdown\<close> in its parts: it closes the sender; it cancels the deliveries when its window
  elapses; it returns once the group is empty, and cancels then in any case.
\<close>

definition shutdownClose :: "Sender \<Rightarrow> Sender" where
  "shutdownClose s = s\<lparr>sdClosed := True\<rparr>"

definition shutdownCancel :: "Sender \<Rightarrow> Sender" where
  "shutdownCancel s = s\<lparr>sdCancelled := True\<rparr>"

definition shutdownReturn :: "Sender \<Rightarrow> Sender" where
  "shutdownReturn s = s\<lparr>sdCancelled := True, gReturned := True\<rparr>"

text \<open>
  A wait can end on the context only once the context is cancelled, which is what a \<open>wire\<close> of
  a finishing delivery has to respect.
\<close>

inductive sender_step :: "Sender \<Rightarrow> Sender \<Rightarrow> bool" where
  deliver_call: "sender_step s (DeliverPayload url turnID payload s)"
| delivery_ends: "d \<in> set (inFlight s) \<Longrightarrow> \<forall>n. wiAbort w n \<longrightarrow> sdCancelled s
    \<Longrightarrow> sender_step s (finishDelivery w d s)"
| shutdown_close: "sender_step s (shutdownClose s)"
| shutdown_cancel: "sdClosed s \<Longrightarrow> sender_step s (shutdownCancel s)"
| shutdown_return: "sdClosed s \<Longrightarrow> inFlight s = [] \<Longrightarrow> sender_step s (shutdownReturn s)"

inductive sender_reach :: "webhookConfig \<Rightarrow> Sender \<Rightarrow> bool" for cfg where
  sender_new: "sender_reach cfg (webhook_New cfg)"
| sender_next: "sender_reach cfg s \<Longrightarrow> sender_step s s' \<Longrightarrow> sender_reach cfg s'"

section \<open>The loop: outcome, attempts, waits\<close>

definition sentOf :: "devent list \<Rightarrow> request list" where
  "sentOf evs = List.map_filter (\<lambda>e. case e of Sent r \<Rightarrow> Some r | Slept _ \<Rightarrow> None) evs"

definition sleptOf :: "devent list \<Rightarrow> duration list" where
  "sleptOf evs = List.map_filter (\<lambda>e. case e of Sent _ \<Rightarrow> None | Slept d \<Rightarrow> Some d) evs"

lemma sentOf_simps [simp]:
  "sentOf [] = []" "sentOf (Sent r # evs) = r # sentOf evs" "sentOf (Slept d # evs) = sentOf evs"
  "sentOf (xs @ ys) = sentOf xs @ sentOf ys" "sentOf (map Sent rs) = rs"
  by (induction rs) (simp_all add: sentOf_def map_filter_def)

lemma sleptOf_simps [simp]:
  "sleptOf [] = []" "sleptOf (Sent r # evs) = sleptOf evs" "sleptOf (Slept d # evs) = d # sleptOf evs"
  "sleptOf (xs @ ys) = sleptOf xs @ sleptOf ys" "sleptOf (map Sent rs) = []"
  by (induction rs) (simp_all add: sleptOf_def map_filter_def)

text \<open>A body of the loop whose post is known.\<close>

lemma deliver_loop_unfold:
  "deliver_loop w cfg url body b a =
     (if a > whRetries cfg then ([], ''dropped'')
      else (let (sent, e) = post w cfg (nat a) url body
            in if e = None then (map Sent sent, ''ok'')
               else if a = whRetries cfg \<or> wiAbort w (nat a) then (map Sent sent, ''dropped'')
               else (let (evs, l) = deliver_loop w cfg url body (nextBackoff b) (a + 1)
                     in (map Sent sent @ Slept b # evs, l))))"
  by (subst deliver_loop.simps) (auto split: option.split prod.split)

lemma post_sent: "fst (post w cfg n url body) = (if wiURL w url then [postRequest w cfg url body] else [])"
  by (simp add: post_def Let_def)

text \<open>The attempts succeed at index n: \<^verbatim>\<open>post\<close> returned nil there.\<close>

definition succeeds :: "wire \<Rightarrow> webhookConfig \<Rightarrow> string \<Rightarrow> string \<Rightarrow> nat \<Rightarrow> bool" where
  "succeeds w cfg url body n \<longleftrightarrow> snd (post w cfg n url body) = None"

text \<open>The index at which the loop that starts at a stops: a success, an aborted wait or the last one.\<close>

lemma deliver_loop_result:
  assumes "a \<le> whRetries cfg" "0 \<le> a"
  shows "\<exists>k. nat a \<le> k \<and> k \<le> nat (whRetries cfg)
      \<and> (\<forall>n. nat a \<le> n \<and> n < k \<longrightarrow> \<not> succeeds w cfg url body n \<and> \<not> wiAbort w n)
      \<and> (succeeds w cfg url body k \<or> wiAbort w k \<or> k = nat (whRetries cfg))
      \<and> snd (deliver_loop w cfg url body b a) = (if succeeds w cfg url body k then ''ok'' else ''dropped'')
      \<and> sentOf (fst (deliver_loop w cfg url body b a))
          = (if wiURL w url then replicate (Suc k - nat a) (postRequest w cfg url body) else [])
      \<and> length (sleptOf (fst (deliver_loop w cfg url body b a))) = k - nat a"
  using assms
proof (induction "nat (whRetries cfg - a)" arbitrary: a b)
  case 0
  then have [simp]: "a = whRetries cfg" by simp
  show ?case
    by (rule exI [of _ "nat a"], subst (1 2 3) deliver_loop_unfold)
      (use 0 in \<open>auto simp: succeeds_def split_def post_sent\<close>)
next
  case (Suc n)
  show ?case
  proof (cases "succeeds w cfg url body (nat a) \<or> wiAbort w (nat a) \<or> a = whRetries cfg")
    case True
    then show ?thesis
      by (intro exI [of _ "nat a"], subst (1 2 3) deliver_loop_unfold)
        (use Suc.prems in \<open>auto simp: succeeds_def split_def post_sent\<close>)
  next
    case False
    have "n = nat (whRetries cfg - (a + 1))" "a + 1 \<le> whRetries cfg" "0 \<le> a + 1"
      using Suc.hyps(2) Suc.prems False by auto
    from Suc.hyps(1) [OF this, of "nextBackoff b"] obtain k where k:
      "nat (a + 1) \<le> k" "k \<le> nat (whRetries cfg)"
      "\<forall>n. nat (a + 1) \<le> n \<and> n < k \<longrightarrow> \<not> succeeds w cfg url body n \<and> \<not> wiAbort w n"
      "succeeds w cfg url body k \<or> wiAbort w k \<or> k = nat (whRetries cfg)"
      "snd (deliver_loop w cfg url body (nextBackoff b) (a + 1)) = (if succeeds w cfg url body k then ''ok'' else ''dropped'')"
      "sentOf (fst (deliver_loop w cfg url body (nextBackoff b) (a + 1)))
        = (if wiURL w url then replicate (Suc k - nat (a + 1)) (postRequest w cfg url body) else [])"
      "length (sleptOf (fst (deliver_loop w cfg url body (nextBackoff b) (a + 1)))) = k - nat (a + 1)"
      by blast
    have step: "deliver_loop w cfg url body b a =
        (map Sent (fst (post w cfg (nat a) url body))
           @ Slept b # fst (deliver_loop w cfg url body (nextBackoff b) (a + 1)),
         snd (deliver_loop w cfg url body (nextBackoff b) (a + 1)))"
      by (subst deliver_loop_unfold) (use False Suc.prems in \<open>auto simp: succeeds_def split_def Let_def\<close>)
    have a: "nat (a + 1) = Suc (nat a)" using Suc.prems by simp
    have "Suc k - nat a = Suc (k - nat a)" "k - nat a = Suc (k - Suc (nat a))"
      using k(1) by (auto simp: a)
    moreover have "\<forall>n. nat a \<le> n \<and> n < k \<longrightarrow> \<not> succeeds w cfg url body n \<and> \<not> wiAbort w n"
      using k(3) False by (metis a le_neq_implies_less Suc_leI)
    ultimately show ?thesis
      using k by (intro exI [of _ k]) (auto simp: step a post_sent)
  qed
qed

lemma sleeps_capped:
  assumes "0 \<le> b" "b \<le> maxBackoff"
  shows "list_all (\<lambda>d. 0 \<le> d \<and> d \<le> maxBackoff) (sleptOf (fst (deliver_loop w cfg url body b a)))"
  using assms
proof (induction w cfg url body b a rule: deliver_loop.induct)
  case (1 w cfg url body b a)
  have "0 \<le> nextBackoff b" "nextBackoff b \<le> maxBackoff"
    using 1(2,3) by (auto simp: nextBackoff_def Let_def maxBackoff_def seconds_def)
  with 1 show ?case
    by (subst deliver_loop.simps) (auto split: option.split prod.splits)
qed

lemma nextBackoff_range:
  assumes "0 \<le> b" "b < 4611686018427387904"
  shows "0 \<le> nextBackoff b \<and> nextBackoff b \<le> maxBackoff"
  using assms by (auto simp: nextBackoff_def Let_def maxBackoff_def seconds_def)

text \<open>The first wait is the configured one; every later one is capped.\<close>

lemma sleeps_first:
  assumes "0 \<le> b" "b < 4611686018427387904"
  shows "case sleptOf (fst (deliver_loop w cfg url body b a)) of
           [] \<Rightarrow> True
         | d # ds \<Rightarrow> d = b \<and> list_all (\<lambda>d. 0 \<le> d \<and> d \<le> maxBackoff) ds"
proof -
  define r where "r = deliver_loop w cfg url body (nextBackoff b) (a + 1)"
  have "list_all (\<lambda>d. 0 \<le> d \<and> d \<le> maxBackoff) (sleptOf (fst r))"
    unfolding r_def using nextBackoff_range [OF assms] by (intro sleeps_capped) auto
  then show ?thesis
    unfolding deliver_loop_unfold [of w cfg url body b a] r_def [symmetric]
    by (simp add: split_def Let_def)
qed

section \<open>The sender: every accepted delivery is counted once\<close>

definition sender_inv :: "Sender \<Rightarrow> bool" where
  "sender_inv s \<longleftrightarrow>
     sdDelivery s ''ok'' + sdDelivery s ''dropped'' + length (inFlight s) = length (gAccepted s)
     \<and> (gReturned s \<longrightarrow> sdClosed s \<and> inFlight s = [])"

lemma deliver_label: "snd (deliver w cfg url body) = ''ok'' \<or> snd (deliver w cfg url body) = ''dropped''"
proof (cases "0 \<le> whRetries cfg")
  case True
  then show ?thesis using deliver_loop_result [of 0 cfg w url body "whBackoff cfg"] by (auto simp: deliver_def)
next
  case False
  then show ?thesis by (simp add: deliver_def deliver_loop_unfold [of w cfg url body "whBackoff cfg" 0])
qed

lemma deliver_counts:
  "inc (snd (deliver w cfg url body)) c ''ok'' + inc (snd (deliver w cfg url body)) c ''dropped''
   = Suc (c ''ok'' + c ''dropped'')"
  using deliver_label [of w cfg url body] by (elim disjE) (simp_all add: inc_def)

lemma sender_step_inv:
  assumes "sender_step s s'" "sender_inv s"
  shows "sender_inv s' \<and> sdCfg s' = sdCfg s"
  using assms
proof cases
  case (deliver_call url turnID payload)
  with assms(2) show ?thesis by (auto simp: sender_inv_def DeliverPayload_def Let_def split: option.split)
next
  case (delivery_ends d w)
  obtain url tid body where d: "d = (url, tid, body)" by (cases d)
  from delivery_ends(2) have "length (inFlight s) = Suc (length (remove1 d (inFlight s)))"
    using length_pos_if_in_set [of d "inFlight s"] by (simp add: length_remove1)
  with assms(2) delivery_ends deliver_counts [of w "sdCfg s" url body "sdDelivery s"] show ?thesis
    by (auto simp: sender_inv_def finishDelivery_def d)
qed (auto simp: sender_inv_def shutdownClose_def shutdownCancel_def shutdownReturn_def)

lemma sender_reach_inv: "sender_reach cfg s \<Longrightarrow> sender_inv s \<and> sdCfg s = sdCfg (webhook_New cfg)"
proof (induction rule: sender_reach.induct)
  case sender_new
  then show ?case by (simp add: sender_inv_def webhook_New_def)
next
  case (sender_next s s')
  then show ?case using sender_step_inv by metis
qed

section \<open>Properties\<close>

definition hookWire :: wire where
  "hookWire = \<lparr>wiURL = (\<lambda>_. True), wiHMAC = (\<lambda>k b. k @ b), wiDo = (\<lambda>n _. Some (if n < 2 then 503 else 204)),
     wiAbort = (\<lambda>_. False)\<rparr>"

definition hookCfg :: webhookConfig where
  "hookCfg = \<lparr>whRetries = 3, whBackoff = 0, whSecret = ''k''\<rparr>"

text \<open>
  C37. One delivery, with a non-negative retry count, stops at an attempt k that is at most
  \<^verbatim>\<open>Retries\<close>: all earlier attempts failed and their waits were not aborted, and attempt k
  succeeded, had its wait aborted by the shutdown, or was the last one. It has posted the same request, signed when
  a secret is configured, exactly k + 1 times (never, when the URL does not parse), has waited k times, and counts
  one outcome, "ok" if and only if attempt k succeeded.
\<close>

theorem deliver_outcome:
  assumes "0 \<le> whRetries cfg"
  shows "\<exists>k \<le> nat (whRetries cfg).
      (\<forall>n < k. \<not> succeeds w cfg url body n \<and> \<not> wiAbort w n)
      \<and> (succeeds w cfg url body k \<or> wiAbort w k \<or> k = nat (whRetries cfg))
      \<and> snd (deliver w cfg url body) = (if succeeds w cfg url body k then ''ok'' else ''dropped'')
      \<and> sentOf (fst (deliver w cfg url body))
          = (if wiURL w url then replicate (Suc k) (postRequest w cfg url body) else [])
      \<and> length (sleptOf (fst (deliver w cfg url body))) = k"
  using deliver_loop_result [of 0 cfg w url body "whBackoff cfg"] assms
  by (auto simp: deliver_def simp del: replicate_Suc)

theorem deliver_outcome_witness:
  "snd (deliver hookWire hookCfg ''http://op'' ''{}'') = ''ok''
   \<and> length (sleptOf (fst (deliver hookWire hookCfg ''http://op'' ''{}''))) = 2"
proof -
  have s: "succeeds hookWire hookCfg ''http://op'' ''{}'' n \<longleftrightarrow> 2 \<le> n" for n
    by (auto simp: succeeds_def post_def hookWire_def)
  obtain k where k: "k \<le> 3" "\<forall>n < k. \<not> 2 \<le> n" "2 \<le> k \<or> k = 3"
    "snd (deliver hookWire hookCfg ''http://op'' ''{}'') = (if 2 \<le> k then ''ok'' else ''dropped'')"
    "length (sleptOf (fst (deliver hookWire hookCfg ''http://op'' ''{}''))) = k"
    using deliver_outcome [of hookCfg hookWire "''http://op''" "''{}''"]
    by (auto simp: s) (auto simp: hookCfg_def hookWire_def)
  then have "\<not> 2 < k" by auto
  with k show ?thesis by auto
qed

text \<open>
  The waits of a delivery, for any configured backoff below \<open>2 ^ 62\<close> ns (so that doubling
  it stays an int64): the first is the configured backoff, one second when none is configured, and every later
  one lies between 0 and \<^verbatim>\<open>maxBackoff\<close>; no wait is ever negative through overflow, whatever the retry count.
\<close>

theorem deliver_backoff:
  assumes "whBackoff cfg < 4611686018427387904"
  shows "case sleptOf (fst (deliver w (sdCfg (webhook_New cfg)) url body)) of
           [] \<Rightarrow> True
         | d # ds \<Rightarrow> d = (if whBackoff cfg \<le> 0 then seconds 1 else whBackoff cfg)
                     \<and> list_all (\<lambda>d. 0 \<le> d \<and> d \<le> maxBackoff) ds"
proof -
  let ?b = "whBackoff (sdCfg (webhook_New cfg))"
  have b: "?b = (if whBackoff cfg \<le> 0 then seconds 1 else whBackoff cfg)" by (simp add: webhook_New_def)
  with assms have "0 \<le> ?b" "?b < 4611686018427387904" by (auto simp: seconds_def)
  from sleeps_first [OF this] show ?thesis unfolding deliver_def b .
qed

theorem deliver_backoff_witness:
  "case sleptOf (fst (deliver hookWire (sdCfg (webhook_New hookCfg)) ''u'' ''b'')) of
     [] \<Rightarrow> True | d # ds \<Rightarrow> d = seconds 1 \<and> list_all (\<lambda>d. 0 \<le> d \<and> d \<le> maxBackoff) ds"
proof -
  have b: "whBackoff hookCfg = 0" by (simp add: hookCfg_def)
  then show ?thesis
    using deliver_backoff [of hookCfg hookWire "''u''" "''b''"] by (simp split: list.splits)
qed

text \<open>
  In every reachable state of the sender, the deliveries it accepted are exactly those in flight plus those
  counted "ok" or "dropped": none is counted twice and none is forgotten. Once a call of \<^verbatim>\<open>Shutdown\<close> has
  returned nothing is in flight, every accepted delivery has been counted, and a later \<^verbatim>\<open>DeliverPayload\<close>
  changes nothing.
\<close>

theorem sender_accounts:
  assumes "sender_reach cfg s"
  shows "sdDelivery s ''ok'' + sdDelivery s ''dropped'' + length (inFlight s) = length (gAccepted s)
    \<and> (gReturned s \<longrightarrow> inFlight s = []
         \<and> sdDelivery s ''ok'' + sdDelivery s ''dropped'' = length (gAccepted s)
         \<and> (\<forall>url tid payload. DeliverPayload url tid payload s = s))"
  using sender_reach_inv [OF assms] by (auto simp: sender_inv_def DeliverPayload_def)

definition hookDone :: Sender where
  "hookDone = shutdownReturn (finishDelivery hookWire (''u'', ''t'', ''b'')
     (shutdownClose (DeliverPayload ''u'' ''t'' (Some ''b'') (webhook_New hookCfg))))"

lemma hookDone_reach: "sender_reach hookCfg hookDone"
  unfolding hookDone_def
  by (intro sender_next [OF _ shutdown_return] sender_next [OF _ delivery_ends] sender_next [OF _ shutdown_close]
      sender_next [OF _ deliver_call] sender_new)
    (simp_all add: finishDelivery_def shutdownClose_def DeliverPayload_def webhook_New_def hookWire_def)

theorem sender_accounts_witness:
  "gReturned hookDone \<and> sdDelivery hookDone ''ok'' + sdDelivery hookDone ''dropped'' = 1"
proof -
  have "gReturned hookDone" "length (gAccepted hookDone) = 1"
    by (simp_all add: hookDone_def shutdownReturn_def finishDelivery_def shutdownClose_def DeliverPayload_def webhook_New_def)
  with sender_accounts [OF hookDone_reach] show ?thesis by simp
qed

end
