(* ===== verification/App.thy ===== *)
theory App
  imports AppConfig Webhook AccountUsage "HOL-Library.Multiset"
begin

text \<open>
  \<^verbatim>\<open>cmd/wrapper/app.go\<close> and \<^verbatim>\<open>callback_payload.go\<close>: what happens when a turn is done. The finaliser
  pushes the agent's work, collects the reports of the turn, and then either re-prompts the agent
  about a rejected outcome call, holding the reports for the next turn, or delivers the callback.
  \<open>finalizeTurn\<close> is the whole of it for one turn; it is composed of the critical sections of
  the application's own locks, which the step relation \<open>fin_step\<close> interleaves for any number of
  finalisers, since each runs on a goroutine of its own.
\<close>

section \<open>Repository lists\<close>

definition unionRepos :: "string list \<Rightarrow> string list \<Rightarrow> string list" where
  "unionRepos a b = foldl (\<lambda>out name. if name \<in> set out then out else out @ [name]) [] (a @ b)"

definition subtractRepos :: "string list \<Rightarrow> string list \<Rightarrow> string list" where
  "subtractRepos a b = (if a = [] \<or> b = [] then a else filter (\<lambda>name. name \<notin> set b) a)"

definition mergeRepoLists ::
  "string list \<Rightarrow> string list \<Rightarrow> string list \<Rightarrow> string list \<Rightarrow> string list \<times> string list" where
  "mergeRepoLists heldPushed heldFailed thisPushed thisFailed =
     (let allPushed = unionRepos heldPushed thisPushed
      in (subtractRepos allPushed thisFailed, unionRepos (subtractRepos heldFailed allPushed) thisFailed))"

section \<open>The application's state\<close>

definition maxOutcomeReprompts :: int where "maxOutcomeReprompts = 2"

text \<open>
  The fields of \<^verbatim>\<open>app\<close> the finaliser uses, each with the lock of its own, and the counters
  \<^verbatim>\<open>CommitPushTotal\<close>, \<^verbatim>\<open>OutcomeRepromptTotal\<close> and \<^verbatim>\<open>LifecycleHookTotal\<close>.
\<close>

record app =
  outcomeReprompts :: int
  heldInternalIssues :: "InternalIssueReport list"
  heldPushedRepos :: "string list"
  heldFailedRepos :: "string list"
  appRateLimits :: "Latest option"
  commitPushTotal :: "string counters"
  outcomeRepromptTotal :: "(string \<times> string) counters"
  lifecycleHookTotal :: "(string \<times> string) counters"

definition newAppState :: app where
  "newAppState =
     \<lparr>outcomeReprompts = 0, heldInternalIssues = [], heldPushedRepos = [], heldFailedRepos = [],
      appRateLimits = Some zeroLatest, commitPushTotal = (\<lambda>_. 0), outcomeRepromptTotal = (\<lambda>_. 0),
      lifecycleHookTotal = (\<lambda>_. 0)\<rparr>"

definition holdInternalIssues :: "InternalIssueReport list \<Rightarrow> app \<Rightarrow> app" where
  "holdInternalIssues reports a =
     (if reports = [] then a else a\<lparr>heldInternalIssues := heldInternalIssues a @ reports\<rparr>)"

definition takePendingInternalIssues :: "app \<Rightarrow> InternalIssueReport list \<times> app" where
  "takePendingInternalIssues a = (heldInternalIssues a, a\<lparr>heldInternalIssues := []\<rparr>)"

definition holdRepoLists :: "string list \<Rightarrow> string list \<Rightarrow> app \<Rightarrow> app" where
  "holdRepoLists pushed failed a =
     (let (p, f) = mergeRepoLists (heldPushedRepos a) (heldFailedRepos a) pushed failed
      in a\<lparr>heldPushedRepos := p, heldFailedRepos := f\<rparr>)"

definition takePendingRepoLists :: "app \<Rightarrow> (string list \<times> string list) \<times> app" where
  "takePendingRepoLists a =
     ((heldPushedRepos a, heldFailedRepos a), a\<lparr>heldPushedRepos := [], heldFailedRepos := []\<rparr>)"

section \<open>The callback's body\<close>

record callbackPayload =
  cbTurnID :: string
  cbTaskName :: string
  cbState :: turn_state
  cbFinalText :: string
  cbStopReason :: string
  cbError :: string
  cbDurationSeconds :: rat
  cbUsage :: string
  cbPushedRepos :: "string list"
  cbFailedRepos :: "string list"
  cbInternalIssues :: "InternalIssueReport list"
  cbAccountUsage :: "accountUsagePayload option"

text \<open>\<^verbatim>\<open>Time.Sub\<close>, which saturates at the ends of int64.\<close>

definition timeSub :: "time \<Rightarrow> time \<Rightarrow> duration" where
  "timeSub t u = max (-9223372036854775808) (min 9223372036854775807 (t - u))"

definition newCallbackPayload :: "Record \<Rightarrow> string \<Rightarrow> accountUsagePayload option \<Rightarrow> callbackPayload" where
  "newCallbackPayload rec taskName usage =
     \<lparr>cbTurnID = rID rec, cbTaskName = taskName, cbState = rState rec, cbFinalText = rFinalText rec,
      cbStopReason = rStopReason rec, cbError = rError rec,
      cbDurationSeconds = (case rCompletedAt rec of None \<Rightarrow> 0
                           | Some t \<Rightarrow> of_int (timeSub t (rStartedAt rec)) / 1000000000),
      cbUsage = rUsage rec, cbPushedRepos = rPushedRepos rec, cbFailedRepos = rFailedRepos rec,
      cbInternalIssues = rInternalIssues rec, cbAccountUsage = usage\<rparr>"

section \<open>Re-prompting\<close>

definition retryableOutcomeFailure :: "string \<Rightarrow> bool" where
  "retryableOutcomeFailure errText =
     (case OutcomeErrorStatus errText of None \<Rightarrow> True | Some status \<Rightarrow> status \<ge> 500)"

definition repromptDirective :: "string \<Rightarrow> string \<Rightarrow> bool \<Rightarrow> string" where
  "repromptDirective tool errText0 retryable =
     (let errText = trimSpace errText0
      in if retryable then
           ''Your '' @ tool @ '' call failed on the operator's side, which is not a rejection of '' @
           ''what you sent: '' @ errText @ ''. That is a transient failure, so the same call should succeed. '' @
           ''Call '' @ tool @ '' again with the SAME arguments. Do not finish the turn until the call succeeds.''
         else
           ''Your '' @ tool @ '' call was REFUSED by the operator: '' @ errText @ ''. This is a client error, so the '' @
           ''IDENTICAL call will never succeed - do not resend it unchanged and do not retry it in a loop. '' @
           ''If the refusal names something you can correct (a missing or malformed argument), fix that one '' @
           ''thing and call '' @ tool @ '' once more. If instead it describes a precondition you cannot change, STOP: '' @
           ''finish the turn and file it with report_internal_issue.'')"

definition repromptReserve :: "app \<Rightarrow> app option" where
  "repromptReserve a =
     (if outcomeReprompts a \<ge> maxOutcomeReprompts then None
      else Some (a\<lparr>outcomeReprompts := outcomeReprompts a + 1\<rparr>))"

definition repromptRollback :: "app \<Rightarrow> app" where
  "repromptRollback a = a\<lparr>outcomeReprompts := outcomeReprompts a - 1\<rparr>"

text \<open>The clock, the fresh id and the write errors one call of \<^verbatim>\<open>Submit\<close> sees.\<close>

record submitInput =
  siNowA :: time
  siTurnID :: string
  siNow :: time
  siPasteErr :: "string option"
  siKeyErr :: "string option"
  siNowT :: time

definition submitFn :: "submitInput \<Rightarrow> string \<Rightarrow> string \<Rightarrow> Manager \<Rightarrow> (session_error + string) \<times> Manager" where
  "submitFn si txt callbackURL m =
     Submit txt callbackURL False (siNowA si) (siTurnID si) (siNow si) (siPasteErr si) (siKeyErr si) (siNowT si) m"

definition reprompt :: "submitInput \<Rightarrow> string \<Rightarrow> string \<Rightarrow> string \<Rightarrow> app \<times> Manager \<Rightarrow> bool \<times> app \<times> Manager" where
  "reprompt si tool errText callbackURL am =
     (case repromptReserve (fst am) of
        None \<Rightarrow> (False, am)
      | Some a1 \<Rightarrow>
          (case submitFn si (repromptDirective tool errText (retryableOutcomeFailure errText)) callbackURL (snd am) of
             (Inl _, m1) \<Rightarrow> (False, repromptRollback a1, m1)
           | (Inr _, m1) \<Rightarrow> (True, a1, m1)))"

section \<open>Finalising a turn\<close>

text \<open>Commit and push; the boolean says whether there was an error.\<close>

definition pushWork :: "workTree \<Rightarrow> GitRunner \<Rightarrow> config \<Rightarrow> Record \<Rightarrow> gitWorld \<Rightarrow> (bool \<times> Record) \<times> gitWorld" where
  "pushWork tree git cfg rec w =
     (let msg = ''tatara agent: '' @ TaskBranch cfg
      in if Repos cfg \<noteq> [] then
           (case CommitAndPushAll tree git (Workspace cfg) (Repos cfg) (TaskBranch cfg) msg w of
              ((pushed, failed, errs), w1) \<Rightarrow>
                ((errs \<noteq> [], rec\<lparr>rPushedRepos := pushed, rFailedRepos := failed\<rparr>), w1))
         else
           (let repoDir = RepoDir (Workspace cfg) (RepoURL cfg);
                name = primaryRepoName cfg;
                (res, w1) = (if repoDir = [] then (Inl ''cannot derive repo dir'', w)
                             else CommitAndPush tree git repoDir (TaskBranch cfg) msg w);
                rec1 = (if res = Inr True then rec\<lparr>rPushedRepos := [name]\<rparr> else rec)
            in if isl res \<and> name \<noteq> [] then ((True, rec1\<lparr>rFailedRepos := [name]\<rparr>), w1)
               else ((isl res, rec1), w1)))"

definition finPush ::
  "workTree \<Rightarrow> GitRunner \<Rightarrow> config \<Rightarrow> Record \<Rightarrow> app \<Rightarrow> gitWorld \<Rightarrow> Record \<times> app \<times> gitWorld" where
  "finPush tree git cfg rec a w =
     (if TaskBranch cfg = [] then (rec, a, w)
      else (case pushWork tree git cfg rec w of
              ((err, rec1), w1) \<Rightarrow>
                (rec1, a\<lparr>commitPushTotal := inc (if err then ''fail'' else ''ok'') (commitPushTotal a)\<rparr>, w1)))"

definition finIssues :: "InternalIssueReport list \<Rightarrow> Record \<times> app \<Rightarrow> Record \<times> app" where
  "finIssues drained ra =
     (let (held, a1) = takePendingInternalIssues (snd ra)
      in ((fst ra)\<lparr>rInternalIssues := held @ drained\<rparr>, a1))"

definition finRepos :: "Record \<times> app \<Rightarrow> Record \<times> app" where
  "finRepos ra =
     (let ((heldPushed, heldFailed), a1) = takePendingRepoLists (snd ra);
          (p, f) = mergeRepoLists heldPushed heldFailed (rPushedRepos (fst ra)) (rFailedRepos (fst ra))
      in ((fst ra)\<lparr>rPushedRepos := p, rFailedRepos := f\<rparr>, a1))"

definition finHold :: "Record \<Rightarrow> app \<Rightarrow> app" where
  "finHold rec a = holdRepoLists (rPushedRepos rec) (rFailedRepos rec) (holdInternalIssues (rInternalIssues rec) a)"

definition countReprompt :: "string \<Rightarrow> string \<Rightarrow> app \<Rightarrow> app" where
  "countReprompt tool result a =
     a\<lparr>outcomeRepromptTotal := inc (tool, result) (outcomeRepromptTotal a)\<rparr>"

definition callbackURLOf :: "Record \<Rightarrow> string \<Rightarrow> string" where
  "callbackURLOf rec defaultCB = (if rCallbackURL rec = [] then defaultCB else rCallbackURL rec)"

text \<open>
  What the finaliser of one turn reads from outside: the tree and git, whether the tailer caught
  up, the file system of the transcript, the inputs of a re-prompt's \<^verbatim>\<open>Submit\<close>, the JSON encoder
  of the payload and the result of the lifecycle hook.
\<close>

record finEnv =
  feTree :: workTree
  feGit :: GitRunner
  feCaughtUp :: "bool option"
  feFS :: filesystem
  feSubmit :: submitInput
  feMarshal :: "callbackPayload \<Rightarrow> string option"
  feHookFails :: bool

record pod =
  pdApp :: app
  pdSess :: Manager
  pdSender :: Sender
  pdGit :: gitWorld

definition RunHook :: "string \<Rightarrow> string \<Rightarrow> bool \<Rightarrow> app \<Rightarrow> app" where
  "RunHook name command fails a =
     (if command = [] then a
      else a\<lparr>lifecycleHookTotal := inc (if fails then ''fail'' else ''ok'', name) (lifecycleHookTotal a)\<rparr>)"

definition finDeliver :: "finEnv \<Rightarrow> config \<Rightarrow> string \<Rightarrow> Record \<Rightarrow> pod \<Rightarrow> pod" where
  "finDeliver env cfg defaultCB rec pd =
     pd\<lparr>pdSender := DeliverPayload (callbackURLOf rec defaultCB) (rID rec)
          (feMarshal env (newCallbackPayload rec (TaskName cfg) (app_accountUsage (appRateLimits (pdApp pd))))) (pdSender pd),
        pdApp := RunHook ''agentTurnFinished'' (HookAgentTurnFinished cfg) (feHookFails env) (pdApp pd)\<rparr>"

text \<open>What the finaliser scans the transcript for: a rejected outcome call, \<^const>\<open>None\<close> on an error too.\<close>

definition rejectedOutcome :: "finEnv \<Rightarrow> Manager \<Rightarrow> (string \<times> string) option" where
  "rejectedOutcome env m =
     (let path = mTranscriptPath m
      in if path = [] then None
         else (case FailedCriticalOutcome (feFS env) path of Inl _ \<Rightarrow> None | Inr found \<Rightarrow> found))"

text \<open>The first half, up to the scan: push, drain, merge.\<close>

definition finCollect :: "finEnv \<Rightarrow> config \<Rightarrow> Record \<Rightarrow> pod \<Rightarrow> Record \<times> pod" where
  "finCollect env cfg rec pd =
     (let (rec1, a1, w1) = finPush (feTree env) (feGit env) cfg rec (pdApp pd) (pdGit pd);
          (drained, m1) = session_DrainInternalIssues (feCaughtUp env) (rID rec1) (pdSess pd);
          (rec2, a2) = finRepos (finIssues drained (rec1, a1))
      in (rec2, pd\<lparr>pdApp := a2, pdSess := m1, pdGit := w1\<rparr>))"

definition finalizeTurn :: "finEnv \<Rightarrow> config \<Rightarrow> string \<Rightarrow> Record \<Rightarrow> pod \<Rightarrow> pod" where
  "finalizeTurn env cfg defaultCB rec pd =
     (let (rec2, pd1) = finCollect env cfg rec pd
      in case rejectedOutcome env (pdSess pd1) of
           None \<Rightarrow> finDeliver env cfg defaultCB rec2 pd1
         | Some (tool, errText) \<Rightarrow>
             (let result = (if retryableOutcomeFailure errText then ''reprompted'' else ''reprompted_corrective'');
                  (ok, a2, m2) = reprompt (feSubmit env) tool errText (rCallbackURL rec2) (pdApp pd1, pdSess pd1)
              in if ok then pd1\<lparr>pdApp := finHold rec2 (countReprompt tool result a2), pdSess := m2\<rparr>
                 else finDeliver env cfg defaultCB rec2
                        (pd1\<lparr>pdApp := countReprompt tool ''budget_exhausted'' a2, pdSess := m2\<rparr>)))"

end
