(* ===== verification/Finalise.thy ===== *)
theory Finalise
  imports App
begin

text \<open>
  The finaliser of turns, \<^verbatim>\<open>cmd/wrapper/app.go\<close>: the lists of pushed and failed repositories as a
  status per repository, what one run of \<open>finalizeTurn\<close> does, and what any interleaving of
  finalisers keeps.
\<close>

section \<open>Repository lists\<close>

lemma foldl_union:
  "distinct out \<Longrightarrow> set (foldl (\<lambda>out name. if name \<in> set out then out else out @ [name]) out xs) = set out \<union> set xs
     \<and> distinct (foldl (\<lambda>out name. if name \<in> set out then out else out @ [name]) out xs)"
  by (induction xs arbitrary: out) auto

lemma unionRepos_set [simp]: "set (unionRepos a b) = set a \<union> set b"
  and unionRepos_distinct [simp]: "distinct (unionRepos a b)"
  using foldl_union [of "[]" "a @ b"] by (simp_all add: unionRepos_def)

lemma subtractRepos_set [simp]: "set (subtractRepos a b) = set a - set b"
  by (auto simp: subtractRepos_def)

lemma subtractRepos_distinct [simp]: "distinct a \<Longrightarrow> distinct (subtractRepos a b)"
  by (simp add: subtractRepos_def)

lemma mergeRepoLists_sets:
  assumes "mergeRepoLists hp hf tp tf = (p, f)"
  shows "set p = (set hp \<union> set tp) - set tf" "set f = (set hf - (set hp \<union> set tp)) \<union> set tf"
    "distinct p" "distinct f"
  using assms by (auto simp: mergeRepoLists_def Let_def)

lemma merge_nil_left: "mergeRepoLists [] [] p f = (subtractRepos (unionRepos [] p) f, unionRepos [] f)"
  by (simp add: mergeRepoLists_def subtractRepos_def Let_def)

text \<open>What the two lists say of a repository: pushed, failed, or nothing.\<close>

definition repoStatus :: "string list \<times> string list \<Rightarrow> string \<Rightarrow> bool option" where
  "repoStatus pf r = (if r \<in> set (fst pf) then Some True else if r \<in> set (snd pf) then Some False else None)"

text \<open>One turn's report on top of what was known: its own word wins, a failure over a push.\<close>

definition reportStatus :: "string list \<times> string list \<Rightarrow> (string \<Rightarrow> bool option) \<Rightarrow> string \<Rightarrow> bool option" where
  "reportStatus pf st r = (if r \<in> set (snd pf) then Some False else if r \<in> set (fst pf) then Some True else st r)"

lemma merge_status: "repoStatus (mergeRepoLists hp hf tp tf) = reportStatus (tp, tf) (repoStatus (hp, hf))"
proof (rule ext)
  fix r
  obtain p f where pf: "mergeRepoLists hp hf tp tf = (p, f)" by (cases "mergeRepoLists hp hf tp tf")
  note mergeRepoLists_sets [OF pf]
  then show "repoStatus (mergeRepoLists hp hf tp tf) r = reportStatus (tp, tf) (repoStatus (hp, hf)) r"
    by (simp add: pf repoStatus_def reportStatus_def)
qed

definition heldLists :: "app \<Rightarrow> string list \<times> string list" where
  "heldLists a = (heldPushedRepos a, heldFailedRepos a)"

definition holdAll :: "(string list \<times> string list) list \<Rightarrow> app \<Rightarrow> app" where
  "holdAll reports a = foldl (\<lambda>a pf. holdRepoLists (fst pf) (snd pf) a) a reports"

lemma heldLists_hold: "heldLists (holdRepoLists p f a) = mergeRepoLists (heldPushedRepos a) (heldFailedRepos a) p f"
  by (simp add: heldLists_def holdRepoLists_def split_def Let_def)

lemma holdAll_status:
  "repoStatus (heldLists (holdAll reports a)) = foldl (\<lambda>st pf. reportStatus pf st) (repoStatus (heldLists a)) reports"
proof (induction reports arbitrary: a)
  case (Cons pf reports)
  have "repoStatus (heldLists (holdRepoLists (fst pf) (snd pf) a)) = reportStatus pf (repoStatus (heldLists a))"
    using merge_status [of "heldPushedRepos a" "heldFailedRepos a" "fst pf" "snd pf"]
    by (simp add: heldLists_hold) (simp add: heldLists_def)
  with Cons [of "holdRepoLists (fst pf) (snd pf) a"] show ?case by (simp add: holdAll_def)
qed (simp add: holdAll_def)

definition cleanLists :: "app \<Rightarrow> bool" where
  "cleanLists a \<longleftrightarrow> set (heldPushedRepos a) \<inter> set (heldFailedRepos a) = {}
     \<and> distinct (heldPushedRepos a) \<and> distinct (heldFailedRepos a)"

lemma holdRepoLists_clean: "cleanLists (holdRepoLists p f a)"
proof -
  obtain p' f' where pf: "mergeRepoLists (heldPushedRepos a) (heldFailedRepos a) p f = (p', f')"
    by (cases "mergeRepoLists (heldPushedRepos a) (heldFailedRepos a) p f")
  note mergeRepoLists_sets [OF pf]
  then show ?thesis by (auto simp: cleanLists_def holdRepoLists_def pf)
qed

lemma holdAll_clean: "cleanLists a \<Longrightarrow> cleanLists (holdAll reports a)"
  by (induction reports arbitrary: a) (simp_all add: holdAll_def holdRepoLists_clean)

section \<open>One run of the finaliser\<close>

lemma finPush_frame:
  "finPush tree git cfg rec a w = (rec1, a1, w1) \<Longrightarrow>
     rec1 = rec\<lparr>rPushedRepos := rPushedRepos rec1, rFailedRepos := rFailedRepos rec1\<rparr>
     \<and> a1 = a\<lparr>commitPushTotal := commitPushTotal a1\<rparr>"
  by (cases rec, cases a) (auto simp: finPush_def pushWork_def Let_def split_def split: if_splits)

lemma finPush_ids:
  assumes "finPush tree git cfg rec a w = (rec1, a1, w1)"
  shows "rID rec1 = rID rec" "rCallbackURL rec1 = rCallbackURL rec" "heldInternalIssues a1 = heldInternalIssues a"
    "heldLists a1 = heldLists a" "outcomeReprompts a1 = outcomeReprompts a"
proof -
  obtain p f c where "rec1 = rec\<lparr>rPushedRepos := p, rFailedRepos := f\<rparr>" "a1 = a\<lparr>commitPushTotal := c\<rparr>"
    using finPush_frame [OF assms] by blast
  then show "rID rec1 = rID rec" "rCallbackURL rec1 = rCallbackURL rec" "heldInternalIssues a1 = heldInternalIssues a"
    "heldLists a1 = heldLists a" "outcomeReprompts a1 = outcomeReprompts a"
    by (simp_all add: heldLists_def)
qed

text \<open>The reports a turn brings: what its push said and what the tailer drained for it.\<close>

definition turnLists :: "finEnv \<Rightarrow> config \<Rightarrow> Record \<Rightarrow> pod \<Rightarrow> string list \<times> string list" where
  "turnLists env cfg rec pd =
     (let rec1 = fst (finPush (feTree env) (feGit env) cfg rec (pdApp pd) (pdGit pd))
      in (rPushedRepos rec1, rFailedRepos rec1))"

definition turnIssues :: "finEnv \<Rightarrow> Record \<Rightarrow> pod \<Rightarrow> InternalIssueReport list" where
  "turnIssues env rec pd = fst (session_DrainInternalIssues (feCaughtUp env) (rID rec) (pdSess pd))"

lemma finCollect_result:
  assumes "finCollect env cfg rec pd = (rec2, pd1)"
  shows "rID rec2 = rID rec" "rCallbackURL rec2 = rCallbackURL rec"
    "rInternalIssues rec2 = heldInternalIssues (pdApp pd) @ turnIssues env rec pd"
    "(rPushedRepos rec2, rFailedRepos rec2) =
       mergeRepoLists (heldPushedRepos (pdApp pd)) (heldFailedRepos (pdApp pd))
         (fst (turnLists env cfg rec pd)) (snd (turnLists env cfg rec pd))"
    "heldInternalIssues (pdApp pd1) = []" "heldLists (pdApp pd1) = ([], [])"
    "outcomeReprompts (pdApp pd1) = outcomeReprompts (pdApp pd)" "pdSender pd1 = pdSender pd"
    "pdSess pd1 = snd (session_DrainInternalIssues (feCaughtUp env) (rID rec) (pdSess pd))"
proof -
  obtain rec1 a1 w1 where p: "finPush (feTree env) (feGit env) cfg rec (pdApp pd) (pdGit pd) = (rec1, a1, w1)"
    by (metis prod_cases3)
  note i = finPush_ids [OF p]
  have "(rec2, pd1) =
     (let (rec2, a2) = finRepos (finIssues (turnIssues env rec pd) (rec1, a1))
      in (rec2, pd\<lparr>pdApp := a2, pdSess := snd (session_DrainInternalIssues (feCaughtUp env) (rID rec) (pdSess pd)), pdGit := w1\<rparr>))"
    using assms by (simp add: finCollect_def p i(1) turnIssues_def split_def Let_def)
  then show "rID rec2 = rID rec" "rCallbackURL rec2 = rCallbackURL rec"
    "rInternalIssues rec2 = heldInternalIssues (pdApp pd) @ turnIssues env rec pd"
    "(rPushedRepos rec2, rFailedRepos rec2) =
       mergeRepoLists (heldPushedRepos (pdApp pd)) (heldFailedRepos (pdApp pd))
         (fst (turnLists env cfg rec pd)) (snd (turnLists env cfg rec pd))"
    "heldInternalIssues (pdApp pd1) = []" "heldLists (pdApp pd1) = ([], [])"
    "outcomeReprompts (pdApp pd1) = outcomeReprompts (pdApp pd)" "pdSender pd1 = pdSender pd"
    "pdSess pd1 = snd (session_DrainInternalIssues (feCaughtUp env) (rID rec) (pdSess pd))"
    using i
    by (simp_all add: finRepos_def finIssues_def takePendingRepoLists_def takePendingInternalIssues_def turnLists_def
        heldLists_def p Let_def split_def)
qed

text \<open>A re-prompt is an ordinary turn: it never spends the handoff allowance.\<close>

lemma Submit_ordinary_handoff: "mHandoffAdmitted (snd (Submit t u False a i n e1 e2 n2 m)) = mHandoffAdmitted m"
  by (auto simp: Submit_def admit_def refuse_def reserve_def setMet_def ptyWrite_def failSubmitWrite_def armTimer_def
      ensureTailerFollowing_def clearCurrentLocked_def observeTurn_def stopTimer_def resetTimer_def Let_def split_def
      split: option.splits sum.splits prod.splits)


lemma reprompt_cases:
  obtains (refused) "reprompt si tool err url (a, m) = (False, a, m)" "outcomeReprompts a \<ge> maxOutcomeReprompts"
  | (rolled_back) m1 where "reprompt si tool err url (a, m) = (False, a, m1)" "outcomeReprompts a < maxOutcomeReprompts"
      "m1 = snd (submitFn si (repromptDirective tool err (retryableOutcomeFailure err)) url m)"
  | (sent) i m1 where "reprompt si tool err url (a, m) = (True, a\<lparr>outcomeReprompts := outcomeReprompts a + 1\<rparr>, m1)"
      "outcomeReprompts a < maxOutcomeReprompts"
      "submitFn si (repromptDirective tool err (retryableOutcomeFailure err)) url m = (Inr i, m1)"
proof (cases "outcomeReprompts a \<ge> maxOutcomeReprompts")
  case True
  then show ?thesis by (intro refused) (simp_all add: reprompt_def repromptReserve_def)
next
  case False
  obtain res m1 where s: "submitFn si (repromptDirective tool err (retryableOutcomeFailure err)) url m = (res, m1)"
    by (cases "submitFn si (repromptDirective tool err (retryableOutcomeFailure err)) url m")
  have b: "repromptRollback (a\<lparr>outcomeReprompts := outcomeReprompts a + 1\<rparr>) = a"
    by (cases a) (simp add: repromptRollback_def)
  show ?thesis
  proof (cases res)
    case (Inl e)
    with False s b show ?thesis by (intro rolled_back [of m1]) (simp_all add: reprompt_def repromptReserve_def)
  next
    case (Inr i)
    with False s show ?thesis by (intro sent [of m1 i]) (simp_all add: reprompt_def repromptReserve_def)
  qed
qed

lemma finDeliver_app [simp]:
  "heldInternalIssues (pdApp (finDeliver env cfg cb rec pd)) = heldInternalIssues (pdApp pd)"
  "heldLists (pdApp (finDeliver env cfg cb rec pd)) = heldLists (pdApp pd)"
  "outcomeReprompts (pdApp (finDeliver env cfg cb rec pd)) = outcomeReprompts (pdApp pd)"
  "pdSess (finDeliver env cfg cb rec pd) = pdSess pd"
  by (simp_all add: finDeliver_def RunHook_def heldLists_def)

lemma countReprompt_app [simp]:
  "heldInternalIssues (countReprompt tool r a) = heldInternalIssues a" "heldLists (countReprompt tool r a) = heldLists a"
  "outcomeReprompts (countReprompt tool r a) = outcomeReprompts a" "appRateLimits (countReprompt tool r a) = appRateLimits a"
  by (simp_all add: countReprompt_def heldLists_def)

lemma heldLists_reprompts [simp]: "heldLists (a\<lparr>outcomeReprompts := n\<rparr>) = heldLists a"
  by (simp add: heldLists_def)

lemma finHold_app:
  assumes "heldInternalIssues a = []" "heldLists a = ([], [])"
  shows "heldInternalIssues (finHold rec a) = rInternalIssues rec"
    "heldLists (finHold rec a) = mergeRepoLists [] [] (rPushedRepos rec) (rFailedRepos rec)"
    "outcomeReprompts (finHold rec a) = outcomeReprompts a"
  using assms by (auto simp: finHold_def holdRepoLists_def holdInternalIssues_def heldLists_def Let_def split_def)

lemma merge_again: "mergeRepoLists hp hf tp tf = (p, f) \<Longrightarrow> mergeRepoLists [] [] p f = (p, f)"
proof -
  assume pf: "mergeRepoLists hp hf tp tf = (p, f)"
  have u: "distinct xs \<Longrightarrow> unionRepos [] xs = xs" for xs
  proof -
    have "distinct (out @ xs) \<Longrightarrow> foldl (\<lambda>out name. if name \<in> set out then out else out @ [name]) out xs = out @ xs"
      for out by (induction xs arbitrary: out) auto
    from this [of "[]"] show "distinct xs \<Longrightarrow> unionRepos [] xs = xs" by (simp add: unionRepos_def)
  qed
  note s = mergeRepoLists_sets [OF pf]
  have "subtractRepos p f = p"
    using s(1,2) by (auto simp: subtractRepos_def filter_id_conv)
  with s(3,4) show ?thesis by (simp add: merge_nil_left u)
qed

text \<open>The two ends of a run: the callback is delivered, or it is suppressed by an accepted re-prompt.\<close>

lemma finalizeTurn_cases:
  assumes "finCollect env cfg rec pd = (rec2, pd1)"
  obtains (delivered) a2 m2 where
      "finalizeTurn env cfg cb rec pd = finDeliver env cfg cb rec2 (pd1\<lparr>pdApp := a2, pdSess := m2\<rparr>)"
      "heldInternalIssues a2 = []" "heldLists a2 = ([], [])" "outcomeReprompts a2 = outcomeReprompts (pdApp pd)"
      "appRateLimits a2 = appRateLimits (pdApp pd1)" "mHandoffAdmitted m2 = mHandoffAdmitted (pdSess pd1)"
  | (suppressed) tool err i m2 a2 where
      "rejectedOutcome env (pdSess pd1) = Some (tool, err)" "outcomeReprompts (pdApp pd) < maxOutcomeReprompts"
      "submitFn (feSubmit env) (repromptDirective tool err (retryableOutcomeFailure err)) (rCallbackURL rec) (pdSess pd1)
         = (Inr i, m2)"
      "finalizeTurn env cfg cb rec pd = pd1\<lparr>pdApp := finHold rec2 a2, pdSess := m2\<rparr>"
      "heldInternalIssues a2 = []" "heldLists a2 = ([], [])" "outcomeReprompts a2 = outcomeReprompts (pdApp pd) + 1"
proof -
  note c = finCollect_result(1-8) [OF assms]
  have same: "pd1\<lparr>pdApp := pdApp pd1, pdSess := pdSess pd1\<rparr> = pd1" by (cases pd1) simp
  have handoff: "mHandoffAdmitted (snd (submitFn si t u m)) = mHandoffAdmitted m" for si t u m
    by (simp add: submitFn_def Submit_ordinary_handoff)
  show ?thesis
  proof (cases "rejectedOutcome env (pdSess pd1)")
    case None
    then show ?thesis
      by (intro delivered [where ?a2.0 = "pdApp pd1" and ?m2.0 = "pdSess pd1"]) (simp_all add: finalizeTurn_def assms same c)
  next
    case (Some te)
    obtain tool err where te: "te = (tool, err)" by (cases te)
    let ?fail = "\<lambda>a m. finDeliver env cfg cb rec2 (pd1\<lparr>pdApp := countReprompt tool ''budget_exhausted'' a, pdSess := m\<rparr>)"
    show ?thesis
    proof (cases rule: reprompt_cases [of "feSubmit env" tool err "rCallbackURL rec" "pdApp pd1" "pdSess pd1"])
      case refused
      then show ?thesis
        by (intro delivered [where ?a2.0 = "countReprompt tool ''budget_exhausted'' (pdApp pd1)" and ?m2.0 = "pdSess pd1"])
          (simp_all add: finalizeTurn_def assms Some te c)
    next
      case (rolled_back m1)
      then show ?thesis
        by (intro delivered [where ?a2.0 = "countReprompt tool ''budget_exhausted'' (pdApp pd1)" and ?m2.0 = m1])
          (simp_all add: finalizeTurn_def assms Some te c handoff)
    next
      case (sent i m1)
      let ?res = "if retryableOutcomeFailure err then ''reprompted'' else ''reprompted_corrective''"
      show ?thesis
        by (rule suppressed [where tool = tool and err = err and i = i and ?m2.0 = m1 and ?a2.0 =
              "countReprompt tool ?res ((pdApp pd1)\<lparr>outcomeReprompts := outcomeReprompts (pdApp pd1) + 1\<rparr>)"])
          (use sent in \<open>simp_all add: finalizeTurn_def assms Some te c Let_def\<close>)
    qed
  qed
qed


section \<open>Any number of finalisers\<close>

text \<open>
  Where a finaliser stands, between two critical sections. A rejected outcome carries the tool.
\<close>

datatype finPC = AtPush | AtIssues | AtRepos | AtScan | AtReserve string | AtSubmit string | AtRollback string
  | AtHoldIssues | AtHoldRepos | AtDeliver | AtEnd

text \<open>
  The application, the finalisers that have started, and what has happened so far: the reports the
  tailer handed out, the callbacks delivered, the re-prompts accepted, and the lists every push
  reported.
\<close>

record finState =
  fsApp :: app
  fsFins :: "(finPC \<times> Record) list"
  gDrained :: "InternalIssueReport list"
  gDelivered :: "Record list"
  gReprompts :: nat
  gPushed :: "string set"
  gFailed :: "string set"

definition finStart :: finState where
  "finStart = \<lparr>fsApp = newAppState, fsFins = [], gDrained = [], gDelivered = [], gReprompts = 0,
     gPushed = {}, gFailed = {}\<rparr>"

text \<open>
  One step of one finaliser. What it meets outside the application is arbitrary: the lists its push
  reports, the reports the tailer drains for its turn, the verdict of its scan, the answer of the
  session to its \<^verbatim>\<open>Submit\<close>, the counters.
\<close>

inductive fin_step :: "finState \<Rightarrow> finState \<Rightarrow> bool" where
  spawn: "rPushedRepos rec = [] \<Longrightarrow> rFailedRepos rec = [] \<Longrightarrow>
    fin_step s (s\<lparr>fsFins := fsFins s @ [(AtPush, rec)]\<rparr>)"
| push: "fsFins s = xs @ (AtPush, rec) # ys \<Longrightarrow>
    fin_step s (s\<lparr>fsFins := xs @ (AtIssues, rec\<lparr>rPushedRepos := p, rFailedRepos := f\<rparr>) # ys,
      fsApp := (fsApp s)\<lparr>commitPushTotal := c\<rparr>, gPushed := gPushed s \<union> set p, gFailed := gFailed s \<union> set f\<rparr>)"
| issues: "fsFins s = xs @ (AtIssues, rec) # ys \<Longrightarrow> finIssues drained (rec, fsApp s) = (rec', a') \<Longrightarrow>
    fin_step s (s\<lparr>fsFins := xs @ (AtRepos, rec') # ys, fsApp := a', gDrained := gDrained s @ drained\<rparr>)"
| repos: "fsFins s = xs @ (AtRepos, rec) # ys \<Longrightarrow> finRepos (rec, fsApp s) = (rec', a') \<Longrightarrow>
    fin_step s (s\<lparr>fsFins := xs @ (AtScan, rec') # ys, fsApp := a'\<rparr>)"
| scan_clean: "fsFins s = xs @ (AtScan, rec) # ys \<Longrightarrow>
    fin_step s (s\<lparr>fsFins := xs @ (AtDeliver, rec) # ys\<rparr>)"
| scan_rejected: "fsFins s = xs @ (AtScan, rec) # ys \<Longrightarrow>
    fin_step s (s\<lparr>fsFins := xs @ (AtReserve tool, rec) # ys\<rparr>)"
| reserve_refused: "fsFins s = xs @ (AtReserve tool, rec) # ys \<Longrightarrow> repromptReserve (fsApp s) = None \<Longrightarrow>
    fin_step s (s\<lparr>fsFins := xs @ (AtDeliver, rec) # ys, fsApp := countReprompt tool ''budget_exhausted'' (fsApp s)\<rparr>)"
| reserve_ok: "fsFins s = xs @ (AtReserve tool, rec) # ys \<Longrightarrow> repromptReserve (fsApp s) = Some a' \<Longrightarrow>
    fin_step s (s\<lparr>fsFins := xs @ (AtSubmit tool, rec) # ys, fsApp := a'\<rparr>)"
| submit_fails: "fsFins s = xs @ (AtSubmit tool, rec) # ys \<Longrightarrow>
    fin_step s (s\<lparr>fsFins := xs @ (AtRollback tool, rec) # ys\<rparr>)"
| rollback: "fsFins s = xs @ (AtRollback tool, rec) # ys \<Longrightarrow>
    fin_step s (s\<lparr>fsFins := xs @ (AtDeliver, rec) # ys,
      fsApp := countReprompt tool ''budget_exhausted'' (repromptRollback (fsApp s))\<rparr>)"
| submit_ok: "fsFins s = xs @ (AtSubmit tool, rec) # ys \<Longrightarrow> result \<in> {''reprompted'', ''reprompted_corrective''} \<Longrightarrow>
    fin_step s (s\<lparr>fsFins := xs @ (AtHoldIssues, rec) # ys, fsApp := countReprompt tool result (fsApp s),
      gReprompts := gReprompts s + 1\<rparr>)"
| hold_issues: "fsFins s = xs @ (AtHoldIssues, rec) # ys \<Longrightarrow>
    fin_step s (s\<lparr>fsFins := xs @ (AtHoldRepos, rec) # ys, fsApp := holdInternalIssues (rInternalIssues rec) (fsApp s)\<rparr>)"
| hold_repos: "fsFins s = xs @ (AtHoldRepos, rec) # ys \<Longrightarrow>
    fin_step s (s\<lparr>fsFins := xs @ (AtEnd, rec) # ys,
      fsApp := holdRepoLists (rPushedRepos rec) (rFailedRepos rec) (fsApp s)\<rparr>)"
| deliver: "fsFins s = xs @ (AtDeliver, rec) # ys \<Longrightarrow>
    fin_step s (s\<lparr>fsFins := xs @ (AtEnd, rec) # ys, gDelivered := gDelivered s @ [rec],
      fsApp := (fsApp s)\<lparr>lifecycleHookTotal := h\<rparr>\<rparr>)"

inductive fin_reach :: "finState \<Rightarrow> bool" where
  fin_init: "fin_reach finStart"
| fin_next: "fin_reach s \<Longrightarrow> fin_step s s' \<Longrightarrow> fin_reach s'"

section \<open>What interleavings keep\<close>

text \<open>The reports a finaliser holds in its record, and the two lists it carries.\<close>

definition carriesIssues :: "finPC \<Rightarrow> bool" where
  "carriesIssues pc \<longleftrightarrow> pc \<noteq> AtPush \<and> pc \<noteq> AtIssues \<and> pc \<noteq> AtHoldRepos \<and> pc \<noteq> AtEnd"

definition finIssuesOf :: "finPC \<times> Record \<Rightarrow> InternalIssueReport multiset" where
  "finIssuesOf f = (if carriesIssues (fst f) then mset (rInternalIssues (snd f)) else {#})"

definition holdsBudget :: "finPC \<Rightarrow> nat" where
  "holdsBudget pc = (case pc of AtSubmit _ \<Rightarrow> 1 | AtRollback _ \<Rightarrow> 1 | _ \<Rightarrow> 0)"

definition issues_inv :: "finState \<Rightarrow> bool" where
  "issues_inv s \<longleftrightarrow>
     mset (heldInternalIssues (fsApp s)) + sum_list (map finIssuesOf (fsFins s))
     + mset (concat (map rInternalIssues (gDelivered s))) = mset (gDrained s)"

definition budget_inv :: "finState \<Rightarrow> bool" where
  "budget_inv s \<longleftrightarrow>
     outcomeReprompts (fsApp s) = int (gReprompts s) + int (sum_list (map (holdsBudget \<circ> fst) (fsFins s)))
     \<and> outcomeReprompts (fsApp s) \<le> maxOutcomeReprompts"

lemma issues_inv_step: "fin_step s s' \<Longrightarrow> issues_inv s \<Longrightarrow> issues_inv s'"
  by (induction rule: fin_step.induct)
    (auto simp: issues_inv_def finIssuesOf_def carriesIssues_def finIssues_def finRepos_def takePendingInternalIssues_def
      takePendingRepoLists_def countReprompt_def repromptReserve_def repromptRollback_def holdInternalIssues_def
      holdRepoLists_def Let_def split_def ac_simps split: if_splits)

lemma budget_inv_step: "fin_step s s' \<Longrightarrow> budget_inv s \<Longrightarrow> budget_inv s'"
  by (induction rule: fin_step.induct)
    (auto simp: budget_inv_def holdsBudget_def finIssues_def finRepos_def takePendingInternalIssues_def
      takePendingRepoLists_def countReprompt_def repromptReserve_def repromptRollback_def holdInternalIssues_def
      holdRepoLists_def Let_def split_def split: if_splits)


text \<open>The lists: pushed names come from a push; a failure is carried until it is delivered or cancelled by a push.\<close>

lemma merge_sets [simp]:
  "set (fst (mergeRepoLists hp hf tp tf)) = (set hp \<union> set tp) - set tf"
  "set (snd (mergeRepoLists hp hf tp tf)) = (set hf - (set hp \<union> set tp)) \<union> set tf"
  using mergeRepoLists_sets [of hp hf tp tf "fst (mergeRepoLists hp hf tp tf)" "snd (mergeRepoLists hp hf tp tf)"]
  by simp_all

definition failedOfFin :: "finPC \<times> Record \<Rightarrow> string set" where
  "failedOfFin f = (if fst f = AtEnd then {} else set (rFailedRepos (snd f)))"

definition knownFailed :: "finState \<Rightarrow> string set" where
  "knownFailed s = set (heldFailedRepos (fsApp s)) \<union> (\<Union>f \<in> set (fsFins s). failedOfFin f)
     \<union> (\<Union>r \<in> set (gDelivered s). set (rFailedRepos r))"

definition lists_inv :: "finState \<Rightarrow> bool" where
  "lists_inv s \<longleftrightarrow> set (heldPushedRepos (fsApp s)) \<subseteq> gPushed s
     \<and> (\<forall>f \<in> set (fsFins s). set (rPushedRepos (snd f)) \<subseteq> gPushed s)
     \<and> (\<forall>f \<in> set (fsFins s). fst f = AtPush \<longrightarrow> rFailedRepos (snd f) = [])
     \<and> gFailed s \<subseteq> gPushed s \<union> knownFailed s \<and> cleanLists (fsApp s)"

lemmas fin_sections = finIssues_def finRepos_def takePendingInternalIssues_def takePendingRepoLists_def
  countReprompt_def repromptReserve_def repromptRollback_def holdInternalIssues_def Let_def split_def

lemma cleanLists_frame:
  "cleanLists (a\<lparr>commitPushTotal := c\<rparr>) = cleanLists a" "cleanLists (a\<lparr>heldInternalIssues := i\<rparr>) = cleanLists a"
  "cleanLists (a\<lparr>outcomeRepromptTotal := t\<rparr>) = cleanLists a" "cleanLists (a\<lparr>outcomeReprompts := n\<rparr>) = cleanLists a"
  "cleanLists (a\<lparr>lifecycleHookTotal := h\<rparr>) = cleanLists a"
  "cleanLists (a\<lparr>heldPushedRepos := [], heldFailedRepos := []\<rparr>)"
  by (simp_all add: cleanLists_def)

lemma lists_inv_step:
  assumes "fin_step s s'" "lists_inv s"
  shows "lists_inv s'"
  using assms
proof (cases rule: fin_step.cases)
  case (repos xs rec ys rec' a')
  with assms(2) show ?thesis
    by (auto simp: lists_inv_def knownFailed_def failedOfFin_def fin_sections cleanLists_frame; blast)
next
  case (hold_repos xs rec ys)
  have "cleanLists (holdRepoLists (rPushedRepos rec) (rFailedRepos rec) (fsApp s))" by (rule holdRepoLists_clean)
  with hold_repos assms(2) show ?thesis
    by (auto simp: lists_inv_def knownFailed_def failedOfFin_def holdRepoLists_def Let_def split_def; blast)
qed (auto simp: lists_inv_def knownFailed_def failedOfFin_def fin_sections cleanLists_frame split: if_splits; blast)+

lemma fin_reach_inv: "fin_reach s \<Longrightarrow> issues_inv s \<and> budget_inv s \<and> lists_inv s"
proof (induction rule: fin_reach.induct)
  case fin_init
  then show ?case
    by (simp add: issues_inv_def budget_inv_def lists_inv_def finStart_def newAppState_def maxOutcomeReprompts_def
        cleanLists_def knownFailed_def)
next
  case (fin_next s s')
  then show ?case using issues_inv_step budget_inv_step lists_inv_step by blast
qed


section \<open>A run of the finaliser is a sequence of steps\<close>

text \<open>One finaliser stands at a place with a record, the application is in a state, and the callbacks so far.\<close>

definition finAt :: "finState \<Rightarrow> (finPC \<times> Record) list \<Rightarrow> finPC \<Rightarrow> Record \<Rightarrow> (finPC \<times> Record) list \<Rightarrow> app \<Rightarrow> Record list \<Rightarrow> bool" where
  "finAt s xs pc rec ys a d \<longleftrightarrow> fsFins s = xs @ (pc, rec) # ys \<and> fsApp s = a \<and> gDelivered s = d"

lemma run_collect:
  assumes "finAt s xs AtPush rec ys (pdApp pd) d" "finCollect env cfg rec pd = (rec2, pd1)"
  shows "\<exists>s'. fin_step\<^sup>*\<^sup>* s s' \<and> finAt s' xs AtScan rec2 ys (pdApp pd1) d"
proof -
  obtain rec1 a1 w1 where p: "finPush (feTree env) (feGit env) cfg rec (pdApp pd) (pdGit pd) = (rec1, a1, w1)"
    by (metis prod_cases3)
  obtain c where c: "a1 = (pdApp pd)\<lparr>commitPushTotal := c\<rparr>" using finPush_frame [OF p] by blast
  let ?s1 = "s\<lparr>fsFins := xs @ (AtIssues, rec1) # ys, fsApp := (fsApp s)\<lparr>commitPushTotal := c\<rparr>,
      gPushed := gPushed s \<union> set (rPushedRepos rec1), gFailed := gFailed s \<union> set (rFailedRepos rec1)\<rparr>"
  have 1: "fin_step s ?s1"
  proof -
    have "fsFins s = xs @ (AtPush, rec) # ys" using assms(1) by (simp add: finAt_def)
    note push = fin_step.push [OF this, where p = "rPushedRepos rec1" and f = "rFailedRepos rec1" and c = c]
    show ?thesis using push unfolding conjunct1 [OF finPush_frame [OF p], symmetric] .
  qed
  obtain rec' a' where i: "finIssues (turnIssues env rec pd) (rec1, a1) = (rec', a')"
    by (cases "finIssues (turnIssues env rec pd) (rec1, a1)")
  let ?s2 = "?s1\<lparr>fsFins := xs @ (AtRepos, rec') # ys, fsApp := a', gDrained := gDrained s @ turnIssues env rec pd\<rparr>"
  have 2: "fin_step ?s1 ?s2"
    using fin_step.issues [of ?s1 xs rec1 ys "turnIssues env rec pd" rec' a'] i assms(1) by (simp add: finAt_def c)
  have r: "finRepos (rec', a') = (rec2, pdApp pd1)"
    using assms(2) i finPush_ids(1) [OF p] by (auto simp: finCollect_def p turnIssues_def split_def Let_def)
  have 3: "fin_step ?s2 (?s2\<lparr>fsFins := xs @ (AtScan, rec2) # ys, fsApp := pdApp pd1\<rparr>)"
    using fin_step.repos [of ?s2 xs rec' ys rec2 "pdApp pd1"] r by simp
  have "fin_step\<^sup>*\<^sup>* s (?s2\<lparr>fsFins := xs @ (AtScan, rec2) # ys, fsApp := pdApp pd1\<rparr>)"
    using 1 2 3 by (meson converse_rtranclp_into_rtranclp rtranclp.rtrancl_refl)
  then show ?thesis using assms(1) by (intro exI conjI) (auto simp: finAt_def)
qed

lemma run_deliver:
  assumes "finAt s xs AtDeliver rec ys (pdApp pd) d"
  shows "\<exists>s'. fin_step\<^sup>*\<^sup>* s s' \<and> finAt s' xs AtEnd rec ys (pdApp (finDeliver env cfg cb rec pd)) (d @ [rec])"
proof -
  obtain h where h: "pdApp (finDeliver env cfg cb rec pd) = (pdApp pd)\<lparr>lifecycleHookTotal := h\<rparr>"
  proof (cases "HookAgentTurnFinished cfg = []")
    case True
    then show ?thesis
      by (intro that [of "lifecycleHookTotal (pdApp pd)"], cases "pdApp pd") (simp add: finDeliver_def RunHook_def)
  next
    case False
    then show ?thesis by (intro that) (simp add: finDeliver_def RunHook_def)
  qed
  let ?t = "s\<lparr>fsFins := xs @ (AtEnd, rec) # ys, gDelivered := d @ [rec],
      fsApp := pdApp (finDeliver env cfg cb rec pd)\<rparr>"
  have "fin_step s ?t" using fin_step.deliver [of s xs rec ys h] assms h by (simp add: finAt_def)
  then have "fin_step\<^sup>*\<^sup>* s ?t" by (rule r_into_rtranclp)
  then show ?thesis by (intro exI [of _ ?t] conjI) (simp_all add: finAt_def)
qed

lemma run_reprompt_fails:
  assumes "finAt s xs AtScan rec ys a d" "reprompt si tool err url (a, m) = (False, a', m')"
  shows "\<exists>s'. fin_step\<^sup>*\<^sup>* s s' \<and> finAt s' xs AtDeliver rec ys (countReprompt tool ''budget_exhausted'' a') d"
proof -
  let ?s1 = "s\<lparr>fsFins := xs @ (AtReserve tool, rec) # ys\<rparr>"
  have 1: "fin_step s ?s1" using fin_step.scan_rejected assms(1) by (simp add: finAt_def)
  show ?thesis
  proof (cases "repromptReserve a")
    case None
    have "fin_step ?s1 (?s1\<lparr>fsFins := xs @ (AtDeliver, rec) # ys, fsApp := countReprompt tool ''budget_exhausted'' a\<rparr>)"
      using fin_step.reserve_refused [of ?s1 xs tool rec ys] None assms(1) by (simp add: finAt_def)
    with 1 have "fin_step\<^sup>*\<^sup>* s (?s1\<lparr>fsFins := xs @ (AtDeliver, rec) # ys, fsApp := countReprompt tool ''budget_exhausted'' a\<rparr>)"
      by (meson converse_rtranclp_into_rtranclp rtranclp.rtrancl_refl)
    moreover have "a' = a" using assms(2) None by (simp add: reprompt_def)
    ultimately show ?thesis using assms(1) by (intro exI conjI) (auto simp: finAt_def)
  next
    case (Some a1)
    let ?s2 = "?s1\<lparr>fsFins := xs @ (AtSubmit tool, rec) # ys, fsApp := a1\<rparr>"
    let ?s3 = "?s2\<lparr>fsFins := xs @ (AtRollback tool, rec) # ys\<rparr>"
    let ?s4 = "?s3\<lparr>fsFins := xs @ (AtDeliver, rec) # ys, fsApp := countReprompt tool ''budget_exhausted'' (repromptRollback a1)\<rparr>"
    have "fin_step ?s1 ?s2" "fin_step ?s2 ?s3" "fin_step ?s3 ?s4"
      using fin_step.reserve_ok [of ?s1 xs tool rec ys a1] fin_step.submit_fails [of ?s2 xs tool rec ys]
        fin_step.rollback [of ?s3 xs tool rec ys] Some assms(1) by (simp_all add: finAt_def)
    with 1 have "fin_step\<^sup>*\<^sup>* s ?s4" by (meson converse_rtranclp_into_rtranclp rtranclp.rtrancl_refl)
    moreover have "a' = repromptRollback a1"
      using assms(2) Some by (auto simp: reprompt_def split: prod.splits sum.splits)
    ultimately show ?thesis using assms(1) by (intro exI conjI) (auto simp: finAt_def)
  qed
qed

lemma run_reprompt_ok:
  assumes "finAt s xs AtScan rec ys a d" "reprompt si tool err url (a, m) = (True, a', m')"
    "result \<in> {''reprompted'', ''reprompted_corrective''}"
  shows "\<exists>s'. fin_step\<^sup>*\<^sup>* s s' \<and> finAt s' xs AtEnd rec ys (finHold rec (countReprompt tool result a')) d"
proof -
  let ?s1 = "s\<lparr>fsFins := xs @ (AtReserve tool, rec) # ys\<rparr>"
  let ?s2 = "?s1\<lparr>fsFins := xs @ (AtSubmit tool, rec) # ys, fsApp := a'\<rparr>"
  let ?s3 = "?s2\<lparr>fsFins := xs @ (AtHoldIssues, rec) # ys, fsApp := countReprompt tool result a', gReprompts := gReprompts s + 1\<rparr>"
  let ?a4 = "holdInternalIssues (rInternalIssues rec) (countReprompt tool result a')"
  let ?s4 = "?s3\<lparr>fsFins := xs @ (AtHoldRepos, rec) # ys, fsApp := ?a4\<rparr>"
  let ?s5 = "?s4\<lparr>fsFins := xs @ (AtEnd, rec) # ys, fsApp := finHold rec (countReprompt tool result a')\<rparr>"
  have "repromptReserve a = Some a'"
    using assms(2) by (auto simp: reprompt_def split: option.splits prod.splits sum.splits)
  then have "fin_step s ?s1" "fin_step ?s1 ?s2" "fin_step ?s2 ?s3" "fin_step ?s3 ?s4" "fin_step ?s4 ?s5"
    using fin_step.scan_rejected [of s xs rec ys tool] fin_step.reserve_ok [of ?s1 xs tool rec ys a']
      fin_step.submit_ok [of ?s2 xs tool rec ys result] fin_step.hold_issues [of ?s3 xs rec ys]
      fin_step.hold_repos [of ?s4 xs rec ys] assms(1,3) by (simp_all add: finAt_def finHold_def)
  then have "fin_step\<^sup>*\<^sup>* s ?s5" by (meson converse_rtranclp_into_rtranclp rtranclp.rtrancl_refl)
  then show ?thesis using assms(1) by (intro exI conjI) (auto simp: finAt_def)
qed

lemma run_finalizeTurn:
  assumes "finAt s xs AtPush rec ys (pdApp pd) d"
  shows "\<exists>s' d'. fin_step\<^sup>*\<^sup>* s s'
     \<and> finAt s' xs AtEnd (fst (finCollect env cfg rec pd)) ys (pdApp (finalizeTurn env cfg cb rec pd)) d'"
proof -
  obtain rec2 pd1 where c: "finCollect env cfg rec pd = (rec2, pd1)" by (cases "finCollect env cfg rec pd")
  obtain s1 where s1: "fin_step\<^sup>*\<^sup>* s s1" "finAt s1 xs AtScan rec2 ys (pdApp pd1) d"
    using run_collect [OF assms c] by blast
  show ?thesis
  proof (cases "rejectedOutcome env (pdSess pd1)")
    case None
    let ?s2 = "s1\<lparr>fsFins := xs @ (AtDeliver, rec2) # ys\<rparr>"
    have 2: "fin_step s1 ?s2" using fin_step.scan_clean s1(2) by (simp add: finAt_def)
    obtain s3 where "fin_step\<^sup>*\<^sup>* ?s2 s3" "finAt s3 xs AtEnd rec2 ys (pdApp (finDeliver env cfg cb rec2 pd1)) (d @ [rec2])"
      using run_deliver [of ?s2 xs rec2 ys pd1 d env cfg cb] s1(2) by (auto simp: finAt_def)
    with 2 s1(1) show ?thesis
      by (intro exI [of _ s3] exI conjI) (auto simp: finalizeTurn_def c None)
  next
    case (Some te)
    obtain tool err where te: "te = (tool, err)" by (cases te)
    obtain ok a2 m2 where r: "reprompt (feSubmit env) tool err (rCallbackURL rec2) (pdApp pd1, pdSess pd1) = (ok, a2, m2)"
      by (metis prod_cases3)
    show ?thesis
    proof (cases ok)
      case True
      define res where "res = (if retryableOutcomeFailure err then ''reprompted'' else ''reprompted_corrective'')"
      have "res \<in> {''reprompted'', ''reprompted_corrective''}" by (simp add: res_def)
      then obtain s3 where "fin_step\<^sup>*\<^sup>* s1 s3" "finAt s3 xs AtEnd rec2 ys (finHold rec2 (countReprompt tool res a2)) d"
        using run_reprompt_ok [OF s1(2) r [unfolded True [THEN eqTrueI]]] True by blast
      with True s1(1) show ?thesis
        by (intro exI [of _ s3] exI conjI) (auto simp: finalizeTurn_def c Some te r Let_def res_def)
    next
      case False
      let ?pd2 = "pd1\<lparr>pdApp := countReprompt tool ''budget_exhausted'' a2, pdSess := m2\<rparr>"
      obtain s2 where s2: "fin_step\<^sup>*\<^sup>* s1 s2" "finAt s2 xs AtDeliver rec2 ys (pdApp ?pd2) d"
        using run_reprompt_fails [OF s1(2), of "feSubmit env" tool err "rCallbackURL rec2" "pdSess pd1" a2 m2] r False by auto
      obtain s3 where "fin_step\<^sup>*\<^sup>* s2 s3" "finAt s3 xs AtEnd rec2 ys (pdApp (finDeliver env cfg cb rec2 ?pd2)) (d @ [rec2])"
        using run_deliver [OF s2(2)] by blast
      with False s1(1) s2(1) show ?thesis
        by (intro exI [of _ s3] exI conjI) (auto simp: finalizeTurn_def c Some te r Let_def)
    qed
  qed
qed


section \<open>Properties\<close>

text \<open>
  C4. No report of an agent is lost or sent twice, in any interleaving of finalisers: the reports drained from the
  tailer so far are, as a multiset, exactly those held for a later turn, those a running finaliser carries and those in
  delivered callbacks. Once no finaliser is running, every report has been delivered or is held for the next callback.
\<close>

theorem reports_conserved:
  assumes "fin_reach s"
  shows "mset (heldInternalIssues (fsApp s)) + sum_list (map finIssuesOf (fsFins s))
       + mset (concat (map rInternalIssues (gDelivered s))) = mset (gDrained s)
    \<and> (list_all (\<lambda>f. fst f = AtEnd) (fsFins s) \<longrightarrow>
         mset (heldInternalIssues (fsApp s)) + mset (concat (map rInternalIssues (gDelivered s))) = mset (gDrained s))"
proof -
  have "issues_inv s" using fin_reach_inv [OF assms] by blast
  moreover have "list_all (\<lambda>f. fst f = AtEnd) fs \<Longrightarrow> sum_list (map finIssuesOf fs) = {#}" for fs
    by (induction fs) (auto simp: finIssuesOf_def carriesIssues_def)
  ultimately show ?thesis by (auto simp: issues_inv_def)
qed

definition demoIssue :: InternalIssueReport where
  "demoIssue = \<lparr>iiCategory = ''tooling'', iiSeverity = ''low'', iiDescription = ''d'', iiOffendingTool = [], iiResourceID = []\<rparr>"

definition demoRec :: Record where
  "demoRec = newRecord ''t1'' ''x'' [] 5"

text \<open>One turn that drained a report, was re-prompted, and holds it.\<close>

lemma demoRun: "\<exists>s. fin_reach s \<and> list_all (\<lambda>f. fst f = AtEnd) (fsFins s) \<and> gDrained s = [demoIssue] \<and> gReprompts s = 1 \<and> gFailed s = {''r''} \<and> gPushed s = {}"
proof -
  let ?r1 = "demoRec\<lparr>rPushedRepos := [], rFailedRepos := [''r'']\<rparr>"
  let ?r2 = "?r1\<lparr>rInternalIssues := [demoIssue]\<rparr>"
  let ?n = newAppState
  let ?s0 = "finStart\<lparr>fsFins := [(AtPush, demoRec)]\<rparr>"
  let ?s1 = "?s0\<lparr>fsFins := [(AtIssues, ?r1)], gFailed := {''r''}\<rparr>"
  let ?s2 = "?s1\<lparr>fsFins := [(AtRepos, ?r2)], gDrained := [demoIssue]\<rparr>"
  let ?s3 = "?s2\<lparr>fsFins := [(AtScan, ?r2)]\<rparr>"
  let ?s4 = "?s3\<lparr>fsFins := [(AtReserve ''submit_outcome'', ?r2)]\<rparr>"
  let ?s5 = "?s4\<lparr>fsFins := [(AtSubmit ''submit_outcome'', ?r2)], fsApp := ?n\<lparr>outcomeReprompts := 1\<rparr>\<rparr>"
  let ?a6 = "countReprompt ''submit_outcome'' ''reprompted'' (?n\<lparr>outcomeReprompts := 1\<rparr>)"
  let ?s6 = "?s5\<lparr>fsFins := [(AtHoldIssues, ?r2)], fsApp := ?a6, gReprompts := 1\<rparr>"
  let ?s7 = "?s6\<lparr>fsFins := [(AtHoldRepos, ?r2)], fsApp := holdInternalIssues [demoIssue] ?a6\<rparr>"
  let ?s8 = "?s7\<lparr>fsFins := [(AtEnd, ?r2)], fsApp := holdRepoLists [] [''r''] (holdInternalIssues [demoIssue] ?a6)\<rparr>"
  have "fin_step finStart ?s0" using fin_step.spawn [of demoRec finStart] by (simp add: finStart_def demoRec_def newRecord_def)
  moreover have "fin_step ?s0 ?s1"
    using fin_step.push [where s = ?s0 and xs = "[]" and rec = demoRec and ys = "[]" and p = "[]" and f = "[''r'']" and c = "commitPushTotal ?n"]
    by (simp add: finStart_def newAppState_def)
  moreover have "fin_step ?s1 ?s2"
    using fin_step.issues [where s = ?s1 and xs = "[]" and rec = ?r1 and ys = "[]" and drained = "[demoIssue]" and rec' = ?r2 and a' = ?n]
    by (simp add: finStart_def newAppState_def finIssues_def takePendingInternalIssues_def)
  moreover have "fin_step ?s2 ?s3"
    using fin_step.repos [where s = ?s2 and xs = "[]" and rec = ?r2 and ys = "[]" and rec' = ?r2 and a' = ?n]
    by (simp add: finStart_def newAppState_def finRepos_def takePendingRepoLists_def mergeRepoLists_def unionRepos_def subtractRepos_def demoRec_def newRecord_def)
  moreover have "fin_step ?s3 ?s4" using fin_step.scan_rejected [where s = ?s3 and xs = "[]" and rec = ?r2 and ys = "[]"] by simp
  moreover have "fin_step ?s4 ?s5"
    using fin_step.reserve_ok [where s = ?s4 and xs = "[]" and rec = ?r2 and ys = "[]" and a' = "?n\<lparr>outcomeReprompts := 1\<rparr>"]
    by (simp add: finStart_def newAppState_def repromptReserve_def maxOutcomeReprompts_def)
  moreover have "fin_step ?s5 ?s6"
    using fin_step.submit_ok [where s = ?s5 and xs = "[]" and rec = ?r2 and ys = "[]" and result = "''reprompted''"]
    by (simp add: finStart_def)
  moreover have "fin_step ?s6 ?s7" using fin_step.hold_issues [where s = ?s6 and xs = "[]" and rec = ?r2 and ys = "[]"] by simp
  moreover have "fin_step ?s7 ?s8" using fin_step.hold_repos [where s = ?s7 and xs = "[]" and rec = ?r2 and ys = "[]"] by simp
  ultimately have "fin_reach ?s8" using fin_init fin_next by meson
  then show ?thesis by (intro exI [of _ ?s8]) (simp add: finStart_def)
qed

theorem reports_conserved_witness:
  "\<exists>s. fin_reach s \<and> mset (heldInternalIssues (fsApp s)) + mset (concat (map rInternalIssues (gDelivered s))) = {#demoIssue#}"
proof -
  obtain s where s: "fin_reach s" "list_all (\<lambda>f. fst f = AtEnd) (fsFins s)" "gDrained s = [demoIssue]" using demoRun by blast
  show ?thesis using reports_conserved [OF s(1)] s by (intro exI [of _ s]) simp
qed

text \<open>
  C21. The re-prompt budget holds in every interleaving: at most \<^verbatim>\<open>maxOutcomeReprompts\<close> re-prompts are ever accepted in
  the life of a pod, the counter stays between 0 and that bound, and a re-prompt the session refused gives its slot
  back: once no finaliser is running the counter equals the number of accepted re-prompts.
\<close>

theorem reprompt_bound:
  assumes "fin_reach s"
  shows "int (gReprompts s) \<le> maxOutcomeReprompts \<and> 0 \<le> outcomeReprompts (fsApp s)
    \<and> outcomeReprompts (fsApp s) \<le> maxOutcomeReprompts
    \<and> (list_all (\<lambda>f. fst f = AtEnd) (fsFins s) \<longrightarrow> outcomeReprompts (fsApp s) = int (gReprompts s))"
proof -
  have "budget_inv s" using fin_reach_inv [OF assms] by blast
  moreover have "list_all (\<lambda>f. fst f = AtEnd) fs \<Longrightarrow> sum_list (map (holdsBudget \<circ> fst) fs) = 0" for fs :: "(finPC \<times> Record) list"
    by (induction fs) (auto simp: holdsBudget_def)
  ultimately show ?thesis by (auto simp: budget_inv_def)
qed

theorem reprompt_bound_witness:
  "\<exists>s. fin_reach s \<and> outcomeReprompts (fsApp s) = 1 \<and> int (gReprompts s) \<le> maxOutcomeReprompts"
proof -
  obtain s where s: "fin_reach s" "list_all (\<lambda>f. fst f = AtEnd) (fsFins s)" "gReprompts s = 1" using demoRun by blast
  show ?thesis using reprompt_bound [OF s(1)] s by (intro exI [of _ s]) simp
qed

text \<open>
  A repository whose push failed is never forgotten: in every interleaving of finalisers, a repository that some
  turn reported as failed and no turn has pushed is in the failed list that is held, that a running finaliser carries,
  or that a delivered callback had. And the held lists never name a repository twice or in both.
\<close>

theorem failures_kept:
  assumes "fin_reach s" "r \<in> gFailed s" "r \<notin> gPushed s"
  shows "r \<in> knownFailed s \<and> cleanLists (fsApp s)"
  using fin_reach_inv [OF assms(1)] assms(2,3) by (auto simp: lists_inv_def)

theorem failures_kept_witness:
  "\<exists>s. fin_reach s \<and> ''r'' \<in> knownFailed s"
proof -
  obtain s where s: "fin_reach s" "gFailed s = {''r''}" "gPushed s = {}" using demoRun by blast
  show ?thesis using failures_kept [OF s(1), of "''r''"] s by (intro exI [of _ s]) simp
qed

text \<open>
  C22. The held lists implement a status per repository: after any sequence of suppressed turns, what the two lists say of
  a repository is what the last turn that mentioned it said, a failure winning over a push within one turn. The
  lists have no repetition and no repository in common.
\<close>

theorem held_last_report:
  "repoStatus (heldLists (holdAll reports newAppState)) = foldl (\<lambda>st pf. reportStatus pf st) (\<lambda>_. None) reports
   \<and> cleanLists (holdAll reports newAppState)"
proof -
  have "repoStatus (heldLists newAppState) = (\<lambda>_. None)" by (auto simp: repoStatus_def heldLists_def newAppState_def)
  moreover have "cleanLists newAppState" by (simp add: cleanLists_def newAppState_def)
  ultimately show ?thesis using holdAll_status [of reports newAppState] holdAll_clean by simp
qed

text \<open>
  C5. What finalising a turn does, in every case. The reports it works with are those held from suppressed turns followed
  by this turn's, and the merge of the repository lists. Either the callback is delivered, exactly once, to the turn's
  own URL or else the default one, with these reports, and nothing is held any more; or a rejected outcome call was found,
  the budget allowed a re-prompt, the session accepted it as a new turn with the same callback URL, the budget
  shrinks by one, no callback is sent and all of these reports are held. A re-prompt never uses the handoff allowance.
\<close>

theorem finalize_outcome:
  "let pd' = finalizeTurn env cfg cb rec pd;
       issues = heldInternalIssues (pdApp pd) @ turnIssues env rec pd;
       lists = mergeRepoLists (heldPushedRepos (pdApp pd)) (heldFailedRepos (pdApp pd))
                 (fst (turnLists env cfg rec pd)) (snd (turnLists env cfg rec pd))
   in mHandoffAdmitted (pdSess pd') = mHandoffAdmitted (pdSess pd) \<and>
      ((\<exists>payload. pdSender pd' = DeliverPayload (callbackURLOf rec cb) (rID rec) (feMarshal env payload) (pdSender pd)
          \<and> cbTurnID payload = rID rec \<and> cbInternalIssues payload = issues
          \<and> (cbPushedRepos payload, cbFailedRepos payload) = lists
          \<and> heldInternalIssues (pdApp pd') = [] \<and> heldLists (pdApp pd') = ([], [])
          \<and> outcomeReprompts (pdApp pd') = outcomeReprompts (pdApp pd))
       \<or> (\<exists>tool err i m. outcomeReprompts (pdApp pd) < maxOutcomeReprompts
          \<and> submitFn (feSubmit env) (repromptDirective tool err (retryableOutcomeFailure err)) (rCallbackURL rec) m = (Inr i, pdSess pd')
          \<and> pdSender pd' = pdSender pd \<and> heldInternalIssues (pdApp pd') = issues \<and> heldLists (pdApp pd') = lists
          \<and> outcomeReprompts (pdApp pd') = outcomeReprompts (pdApp pd) + 1))"
proof -
  obtain rec2 pd1 where fc: "finCollect env cfg rec pd = (rec2, pd1)" by (cases "finCollect env cfg rec pd")
  note c = finCollect_result [OF fc]
  have drain: "mHandoffAdmitted (snd (session_DrainInternalIssues cu i m)) = mHandoffAdmitted m" for cu i m
    by (auto simp: session_DrainInternalIssues_def setMet_def Let_def split_def split: option.split)
  from fc show ?thesis
  proof (cases rule: finalizeTurn_cases [where cb = cb, consumes 1, case_names delivered suppressed])
    case (delivered a2 m2)
    let ?p = "newCallbackPayload rec2 (TaskName cfg) (app_accountUsage (appRateLimits a2))"
    have "pdSender (finalizeTurn env cfg cb rec pd)
        = DeliverPayload (callbackURLOf rec cb) (rID rec) (feMarshal env ?p) (pdSender pd)"
      unfolding delivered(1) by (simp add: finDeliver_def c callbackURLOf_def)
    moreover have "cbTurnID ?p = rID rec"
      "cbInternalIssues ?p = heldInternalIssues (pdApp pd) @ turnIssues env rec pd"
      "(cbPushedRepos ?p, cbFailedRepos ?p) = (rPushedRepos rec2, rFailedRepos rec2)"
      by (simp_all add: newCallbackPayload_def c)
    ultimately show ?thesis
      unfolding Let_def using delivered c(4) by (intro conjI disjI1 exI [of _ ?p]) (simp_all add: c drain)
  next
    case (suppressed tool err i m2 a2)
    have "mHandoffAdmitted m2 = mHandoffAdmitted (pdSess pd1)"
      using suppressed(3) Submit_ordinary_handoff by (metis snd_conv submitFn_def)
    moreover have "mergeRepoLists [] [] (rPushedRepos rec2) (rFailedRepos rec2) = (rPushedRepos rec2, rFailedRepos rec2)"
      by (rule merge_again [OF c(4) [symmetric]])
    ultimately show ?thesis
      unfolding Let_def using suppressed finHold_app [OF suppressed(5,6), of rec2] c(4)
      by (intro conjI disjI2 exI [of _ tool] exI [of _ err] exI [of _ i] exI [of _ "pdSess pd1"]) (simp_all add: c drain)
  qed
qed

text \<open>
  C20. The interleaving semantics covers the finaliser: from any state in which a finaliser of a turn is about to start,
  the whole of \<^verbatim>\<open>finalizeTurn\<close>, run without interruption, is a sequence of steps that leaves the application in
  exactly the state the function computes and the finaliser at its end. So the invariants over interleavings hold of it.
\<close>

theorem finalize_is_a_run:
  assumes "fin_reach s" "finAt s xs AtPush rec ys (pdApp pd) d"
  shows "\<exists>s' d'. fin_step\<^sup>*\<^sup>* s s' \<and> fin_reach s'
     \<and> finAt s' xs AtEnd (fst (finCollect env cfg rec pd)) ys (pdApp (finalizeTurn env cfg cb rec pd)) d'"
proof -
  obtain s' d' where s': "fin_step\<^sup>*\<^sup>* s s'"
    "finAt s' xs AtEnd (fst (finCollect env cfg rec pd)) ys (pdApp (finalizeTurn env cfg cb rec pd)) d'"
    using run_finalizeTurn [OF assms(2)] by blast
  from s'(1) assms(1) have "fin_reach s'" by (induction rule: rtranclp_induct) (auto intro: fin_next)
  with s' show ?thesis by blast
qed

theorem finalize_is_a_run_witness:
  "\<forall>env cfg cb m sd w. \<exists>s' d'. fin_reach s' \<and> finAt s' [] AtEnd
     (fst (finCollect env cfg demoRec \<lparr>pdApp = newAppState, pdSess = m, pdSender = sd, pdGit = w\<rparr>)) []
     (pdApp (finalizeTurn env cfg cb demoRec \<lparr>pdApp = newAppState, pdSess = m, pdSender = sd, pdGit = w\<rparr>)) d'"
proof (intro allI)
  fix env cfg cb m sd w
  let ?s0 = "finStart\<lparr>fsFins := [(AtPush, demoRec)]\<rparr>"
  have "fin_step finStart ?s0" using fin_step.spawn [of demoRec finStart] by (simp add: finStart_def demoRec_def newRecord_def)
  then have "fin_reach ?s0" by (rule fin_next [OF fin_init])
  then show "\<exists>s' d'. fin_reach s' \<and> finAt s' [] AtEnd
     (fst (finCollect env cfg demoRec \<lparr>pdApp = newAppState, pdSess = m, pdSender = sd, pdGit = w\<rparr>)) []
     (pdApp (finalizeTurn env cfg cb demoRec \<lparr>pdApp = newAppState, pdSess = m, pdSender = sd, pdGit = w\<rparr>)) d'"
    using finalize_is_a_run [of ?s0 "[]" demoRec "[]" "\<lparr>pdApp = newAppState, pdSess = m, pdSender = sd, pdGit = w\<rparr>" "[]" env cfg cb]
    by (auto simp: finAt_def finStart_def)
qed

end
