(* ===== verification/PushClient.thy ===== *)
theory PushClient
  imports GoPath
begin

text \<open>
  The client that pushes the metrics of a run to the operator (\<^verbatim>\<open>internal/pushclient/pushclient.go\<close>):
  the endpoint that identifies the run, the families that are pushed, one push, and the interleaving
  of the push loop with the shutdown. Gathering and encoding a family are the metrics library's.
\<close>

section \<open>Configuration and endpoint\<close>

record pushConfig =
  pcURL :: string
  pcRunID :: string
  pcPod :: string
  pcJob :: string
  pcInterval :: duration

definition defaultJob :: string where "defaultJob = ''tatara-claude-code-wrapper''"

definition push_New :: "pushConfig \<Rightarrow> pushConfig" where
  "push_New cfg =
     (let c1 = (if pcJob cfg = [] then cfg\<lparr>pcJob := defaultJob\<rparr> else cfg)
      in if pcInterval c1 \<le> 0 then c1\<lparr>pcInterval := seconds 15\<rparr> else c1)"

definition push_Enabled :: "pushConfig \<Rightarrow> bool" where
  "push_Enabled cfg \<longleftrightarrow> pcURL cfg \<noteq> [] \<and> pcRunID cfg \<noteq> []"

text \<open>\<^verbatim>\<open>url.QueryEscape\<close>, and \<^verbatim>\<open>url.Values.Encode\<close> on the values set, which sorts the keys.\<close>

definition unreservedByte :: "nat \<Rightarrow> bool" where
  "unreservedByte b \<longleftrightarrow> 48 \<le> b \<and> b \<le> 57 \<or> 65 \<le> b \<and> b \<le> 90 \<or> 97 \<le> b \<and> b \<le> 122 \<or> b \<in> {45, 95, 46, 126}"

definition upperHex :: "nat \<Rightarrow> char" where
  "upperHex n = char_of (if n < 10 then 48 + n else 55 + n)"

definition escapeQueryByte :: "char \<Rightarrow> string" where
  "escapeQueryByte c =
     (if unreservedByte (byte c) then [c]
      else if c = CHR '' '' then ''+''
      else [CHR ''%'', upperHex (byte c div 16), upperHex (byte c mod 16)])"

definition queryEscape :: "string \<Rightarrow> string" where
  "queryEscape s = concat (map escapeQueryByte s)"

definition valuesEncode :: "(string \<times> string) list \<Rightarrow> string" where
  "valuesEncode vs = joinWith ''&'' (map (\<lambda>(k, v). queryEscape k @ ''='' @ queryEscape v) vs)"

definition endpointValues :: "pushConfig \<Rightarrow> (string \<times> string) list" where
  "endpointValues cfg =
     (''job'', pcJob cfg) # (if pcPod cfg = [] then [] else [(''pod'', pcPod cfg)]) @ [(''run_id'', pcRunID cfg)]"

definition push_endpoint :: "pushConfig \<Rightarrow> string" where
  "push_endpoint cfg =
     pcURL cfg @ (if CHR ''?'' \<in> set (pcURL cfg) then ''&'' else ''?'') @ valuesEncode (endpointValues cfg)"

section \<open>What is pushed\<close>

definition pushAllowedPrefixes :: "string list" where
  "pushAllowedPrefixes = [''ccw_'', ''tatara_wrapper_'']"

definition allowedFamily :: "string \<Rightarrow> bool" where
  "allowedFamily name \<longleftrightarrow> list_ex (hasPrefix name) pushAllowedPrefixes"

text \<open>A family is its name and a content only the library looks into; \<open>enc\<close> is its text encoder.\<close>

type_synonym 'f family = "string \<times> 'f"

definition allowlisted :: "'f family list option \<Rightarrow> 'f family list option" where
  "allowlisted g = map_option (filter (\<lambda>mf. allowedFamily (fst mf))) g"

fun encodeFamilies :: "('f family \<Rightarrow> string option) \<Rightarrow> 'f family list \<Rightarrow> string \<Rightarrow> string option" where
  "encodeFamilies enc [] buf = Some buf"
| "encodeFamilies enc (mf # mfs) buf =
     (case enc mf of None \<Rightarrow> None | Some t \<Rightarrow> encodeFamilies enc mfs (buf @ t))"

definition push_encode :: "('f family \<Rightarrow> string option) \<Rightarrow> 'f family list option \<Rightarrow> string option" where
  "push_encode enc g = (case allowlisted g of None \<Rightarrow> None | Some mfs \<Rightarrow> encodeFamilies enc mfs [])"

section \<open>One push, and the loop\<close>

datatype pushReq = PushPost string string | PushDelete string

text \<open>The reply to a request: none, or a status.\<close>

type_synonym pushReply = "int option"

datatype loopPhase = LoopIdle | LoopPushing | LoopSelect | LoopDone

datatype shutPhase = ShutNone | ShutWaiting | ShutDeleted

record pusher =
  psCfg :: pushConfig
  psLoop :: loopPhase
  psShut :: shutPhase
  psCancelled :: bool
  psLog :: "pushReq list"
  psTotal :: "string counters"

definition countPush :: "string \<Rightarrow> pusher \<Rightarrow> pusher" where
  "countPush label s = s\<lparr>psTotal := inc label (psTotal s)\<rparr>"

text \<open>What one push meets: the gathered families, whether the request can be built, the reply.\<close>

definition pushOnce ::
  "('f family \<Rightarrow> string option) \<Rightarrow> 'f family list option \<Rightarrow> bool \<Rightarrow> pushReply \<Rightarrow> pusher \<Rightarrow> pusher" where
  "pushOnce enc g built reply s =
     (case push_encode enc g of
        None \<Rightarrow> countPush ''encode_fail'' s
      | Some body \<Rightarrow>
          if \<not> built then countPush ''encode_fail'' s
          else (let s1 = s\<lparr>psLog := psLog s @ [PushPost (push_endpoint (psCfg s)) body]\<rparr>
                in case reply of
                     None \<Rightarrow> countPush ''transport_fail'' s1
                   | Some status \<Rightarrow> if status \<ge> 300 then countPush ''rejected'' s1 else countPush ''ok'' s1))"

definition push_delete :: "bool \<Rightarrow> pusher \<Rightarrow> pusher" where
  "push_delete built s = (if built then s\<lparr>psLog := psLog s @ [PushDelete (push_endpoint (psCfg s))]\<rparr> else s)"

definition newPusher :: "pushConfig \<Rightarrow> pusher" where
  "newPusher cfg = \<lparr>psCfg = push_New cfg, psLoop = LoopIdle, psShut = ShutNone, psCancelled = False, psLog = [], psTotal = (\<lambda>_. 0)\<rparr>"

text \<open>
  The loop goroutine and the shutdown, step by step. The loop pushes at once and then at every tick; a
  \<^verbatim>\<open>select\<close> with a tick pending may still choose it after the cancellation. Shutdown cancels, waits for
  the loop and deletes. The application starts the client once, before anything can shut it down.
\<close>

inductive push_step :: "('f family \<Rightarrow> string option) \<Rightarrow> pusher \<Rightarrow> pusher \<Rightarrow> bool" for enc where
  start: "push_Enabled (psCfg s) \<Longrightarrow> psLoop s = LoopIdle \<Longrightarrow> psShut s = ShutNone \<Longrightarrow> push_step enc s (s\<lparr>psLoop := LoopPushing\<rparr>)"
| push: "psLoop s = LoopPushing \<Longrightarrow> push_step enc s ((pushOnce enc g built reply s)\<lparr>psLoop := LoopSelect\<rparr>)"
| tick: "psLoop s = LoopSelect \<Longrightarrow> push_step enc s (s\<lparr>psLoop := LoopPushing\<rparr>)"
| quit: "psLoop s = LoopSelect \<Longrightarrow> psCancelled s \<Longrightarrow> push_step enc s (s\<lparr>psLoop := LoopDone\<rparr>)"
| shutdown: "push_Enabled (psCfg s) \<Longrightarrow> psShut s = ShutNone \<Longrightarrow> push_step enc s (s\<lparr>psShut := ShutWaiting, psCancelled := True\<rparr>)"
| waited: "psShut s = ShutWaiting \<Longrightarrow> psLoop s \<in> {LoopIdle, LoopDone} \<Longrightarrow>
    push_step enc s ((push_delete built s)\<lparr>psShut := ShutDeleted\<rparr>)"

section \<open>The endpoint identifies the run\<close>

text \<open>The reverse of the escaping, \<^verbatim>\<open>url.QueryUnescape\<close> on well-formed text.\<close>

definition hexValue :: "char \<Rightarrow> nat" where
  "hexValue c = (if byte c \<le> 57 then byte c - 48 else byte c - 55)"

fun queryUnescape :: "string \<Rightarrow> string" where
  "queryUnescape [] = []"
| "queryUnescape (c # s) =
     (if c = CHR ''+'' then CHR '' '' # queryUnescape s
      else if c = CHR ''%'' then
        (case s of a # b # t \<Rightarrow> char_of (hexValue a * 16 + hexValue b) # queryUnescape t | _ \<Rightarrow> [])
      else c # queryUnescape s)"

lemma hexValue_upperHex: "n < 16 \<Longrightarrow> hexValue (upperHex n) = n"
  by (auto simp: hexValue_def upperHex_def)

lemma unescape_byte: "queryUnescape (escapeQueryByte c @ t) = c # queryUnescape t"
proof (cases "unreservedByte (byte c) \<or> c = CHR '' ''")
  case True
  then show ?thesis by (auto simp: escapeQueryByte_def unreservedByte_def)
next
  case False
  have "byte c < 256" using nat_of_char_less_256 by simp
  then have "byte c div 16 < 16" "byte c mod 16 < 16" by (simp_all add: less_mult_imp_div_less)
  then have "char_of (hexValue (upperHex (byte c div 16)) * 16 + hexValue (upperHex (byte c mod 16))) = c"
    by (simp add: hexValue_upperHex)
  with False show ?thesis by (simp add: escapeQueryByte_def)
qed

lemma unescape_escape: "queryUnescape (queryEscape s) = s"
  by (induction s) (auto simp: queryEscape_def unescape_byte)

lemma queryEscape_inject: "queryEscape s = queryEscape t \<longleftrightarrow> s = t"
  by (metis unescape_escape)

lemma queryEscape_chars: "c \<in> set (queryEscape s) \<Longrightarrow> c \<noteq> CHR ''&'' \<and> c \<noteq> CHR ''=''"
proof -
  have hex: "upperHex (n mod 256 div 16) \<notin> {CHR ''&'', CHR ''=''}" "upperHex (n mod 16) \<notin> {CHR ''&'', CHR ''=''}" for n
  proof -
    have u: "k < 16 \<Longrightarrow> upperHex k \<notin> {CHR ''&'', CHR ''=''}" for k
    proof -
      assume "k < 16"
      then have "byte (upperHex k) = (if k < 10 then 48 + k else 55 + k)" by (simp add: upperHex_def)
      moreover have "byte (CHR ''&'') = 38" "byte (CHR ''='') = 61" by simp_all
      ultimately show ?thesis by (auto split: if_splits)
    qed
    show "upperHex (n mod 256 div 16) \<notin> {CHR ''&'', CHR ''=''}" "upperHex (n mod 16) \<notin> {CHR ''&'', CHR ''=''}"
      by (rule u, simp)+
  qed
  assume "c \<in> set (queryEscape s)"
  then obtain d where d: "c \<in> set (escapeQueryByte d)" by (auto simp: queryEscape_def)
  have "byte d mod 256 = byte d" using nat_of_char_less_256 [of d] by simp
  with d hex [of "byte d"] show ?thesis
    by (auto simp: escapeQueryByte_def unreservedByte_def split: if_splits)
qed

lemma valuesEncode_inject:
  assumes "valuesEncode vs = valuesEncode us" "vs \<noteq> []" "us \<noteq> []"
  shows "vs = us"
proof -
  let ?f = "\<lambda>(k, v). queryEscape k @ ''='' @ queryEscape v"
  have no: "CHR ''&'' \<notin> set (?f x)" for x using queryEscape_chars by (auto simp: split_def)
  have "splitOn (CHR ''&'') (valuesEncode ws) = map ?f ws" if "ws \<noteq> []" for ws
    unfolding valuesEncode_def using no that by (intro splitOn_joinWith) auto
  with assms have "map ?f vs = map ?f us" by metis
  moreover have "inj ?f"
  proof (rule injI)
    fix x y assume eq: "?f x = ?f y"
    obtain k v where x: "x = (k, v)" by (cases x)
    obtain l u where y: "y = (l, u)" by (cases y)
    have "splitOn (CHR ''='') (queryEscape a @ ''='' @ queryEscape b) = [queryEscape a, queryEscape b]" for a b
      using splitOn_joinWith [of "[queryEscape a, queryEscape b]" "CHR ''=''"] queryEscape_chars by auto
    with eq show "x = y" by (simp add: x y) (metis list.inject queryEscape_inject)
  qed
  ultimately show ?thesis by (simp add: inj_map_eq_map)
qed

text \<open>
  Two runs that push to the same URL share an endpoint, and with it their series, only if they have
  the same run id, the same pod and the same job, whatever characters these contain.
\<close>

theorem endpoint_identifies_run:
  assumes "push_endpoint c = push_endpoint d" "pcURL c = pcURL d"
  shows "pcRunID c = pcRunID d \<and> pcPod c = pcPod d \<and> pcJob c = pcJob d"
proof -
  have "valuesEncode (endpointValues c) = valuesEncode (endpointValues d)"
    using assms by (simp add: push_endpoint_def split: if_splits)
  then have "endpointValues c = endpointValues d" by (rule valuesEncode_inject) (simp_all add: endpointValues_def)
  then show ?thesis by (auto simp: endpointValues_def split: if_splits)
qed

section \<open>The life of the client\<close>

lemma encodeFamilies_body:
  "encodeFamilies enc mfs buf = Some body \<Longrightarrow> body = buf @ concat (map (\<lambda>mf. the (enc mf)) mfs)"
  by (induction mfs arbitrary: buf) (fastforce split: option.splits)+

text \<open>The requests a run may have made before its shutdown.\<close>

definition ownPost :: "('f family \<Rightarrow> string option) \<Rightarrow> pushConfig \<Rightarrow> pushReq \<Rightarrow> bool" where
  "ownPost enc cfg r \<longleftrightarrow>
     (\<exists>mfs. list_all (\<lambda>mf. allowedFamily (fst mf)) mfs \<and> r = PushPost (push_endpoint cfg) (concat (map (\<lambda>mf. the (enc mf)) mfs)))"

definition push_inv :: "('f family \<Rightarrow> string option) \<Rightarrow> pushConfig \<Rightarrow> pusher \<Rightarrow> bool" where
  "push_inv enc cfg s \<longleftrightarrow> psCfg s = cfg
     \<and> (psShut s = ShutDeleted \<longrightarrow> psLoop s = LoopIdle \<or> psLoop s = LoopDone)
     \<and> (\<exists>posts dels. psLog s = posts @ dels \<and> list_all (ownPost enc cfg) posts
          \<and> (if psShut s = ShutDeleted then dels \<in> {[], [PushDelete (push_endpoint cfg)]} else dels = [])
          \<and> length posts = psTotal s ''ok'' + psTotal s ''rejected'' + psTotal s ''transport_fail'')"

lemma pushOnce_keeps:
  "psCfg (pushOnce enc g built reply s) = psCfg s" "psShut (pushOnce enc g built reply s) = psShut s"
  by (auto simp: pushOnce_def countPush_def Let_def split: option.split)

lemma pushOnce_inv:
  assumes "push_inv enc cfg s" "psLoop s = LoopPushing"
  shows "push_inv enc cfg ((pushOnce enc g built reply s)\<lparr>psLoop := LoopSelect\<rparr>)"
proof -
  have sh: "psShut s \<noteq> ShutDeleted" and cfg: "psCfg s = cfg" using assms by (auto simp: push_inv_def)
  have log: "list_all (ownPost enc cfg) (psLog s)"
    "length (psLog s) = psTotal s ''ok'' + psTotal s ''rejected'' + psTotal s ''transport_fail''"
    using assms sh by (auto simp: push_inv_def)
  have body: "ownPost enc cfg (PushPost (push_endpoint cfg) b)" if "push_encode enc g = Some b" for b
  proof -
    from that obtain l where l: "g = Some l" "encodeFamilies enc (filter (\<lambda>mf. allowedFamily (fst mf)) l) [] = Some b"
      by (auto simp: push_encode_def allowlisted_def split: option.splits)
    then show ?thesis
      using encodeFamilies_body [OF l(2)] unfolding ownPost_def
      by (intro exI [of _ "filter (\<lambda>mf. allowedFamily (fst mf)) l"]) (auto simp: list_all_iff)
  qed
  let ?t = "pushOnce enc g built reply s"
  have "list_all (ownPost enc cfg) (psLog ?t)
      \<and> length (psLog ?t) = psTotal ?t ''ok'' + psTotal ?t ''rejected'' + psTotal ?t ''transport_fail''"
    using log body cfg by (auto simp: pushOnce_def countPush_def inc_def Let_def split: option.split)
  then show ?thesis using sh cfg by (simp add: push_inv_def pushOnce_keeps)
qed

lemma push_step_inv: "push_step enc s t \<Longrightarrow> push_inv enc cfg s \<Longrightarrow> push_inv enc cfg t"
proof (induction rule: push_step.induct)
  case (push s g built reply)
  then show ?case by (rule pushOnce_inv [rotated])
next
  case (waited s built)
  then show ?case by (auto simp: push_inv_def push_delete_def)
qed (auto simp: push_inv_def)

text \<open>
  C34. Whatever ticks, replies and shutdown interleave: the deletion of the series of the run is the last
  request it ever makes, every request before it pushes families the wrapper owns to the endpoint of the
  run, and each of them is counted once, as accepted, rejected or failed.
\<close>

theorem push_then_delete:
  assumes "(push_step enc)\<^sup>*\<^sup>* (newPusher cfg) s"
  shows "\<exists>posts dels. psLog s = posts @ dels \<and> list_all (ownPost enc (push_New cfg)) posts
    \<and> (dels = [] \<or> dels = [PushDelete (push_endpoint (push_New cfg))] \<and> psShut s = ShutDeleted)
    \<and> length posts = psTotal s ''ok'' + psTotal s ''rejected'' + psTotal s ''transport_fail''"
proof -
  have "push_inv enc (push_New cfg) s"
    using assms
  proof (induction rule: rtranclp_induct)
    case base
    then show ?case by (simp add: push_inv_def newPusher_def)
  next
    case (step t u)
    then show ?case by (blast intro: push_step_inv)
  qed
  then show ?thesis unfolding push_inv_def by (auto split: if_splits)
qed

section \<open>A concrete run\<close>

definition demoPush :: pushConfig where
  "demoPush = \<lparr>pcURL = ''http://operator/push'', pcRunID = ''run 1&x'', pcPod = [], pcJob = [], pcInterval = 0\<rparr>"

theorem endpoint_identifies_run_witness:
  "push_endpoint (push_New demoPush) = push_endpoint (push_New (demoPush\<lparr>pcJob := defaultJob\<rparr>))
   \<and> pcJob (push_New demoPush) = defaultJob"
proof -
  have e: "push_endpoint (push_New demoPush) = push_endpoint (push_New (demoPush\<lparr>pcJob := defaultJob\<rparr>))" by code_simp
  have j: "pcJob (push_New (demoPush\<lparr>pcJob := defaultJob\<rparr>)) = defaultJob" by code_simp
  have "pcURL (push_New demoPush) = pcURL (push_New (demoPush\<lparr>pcJob := defaultJob\<rparr>))" by code_simp
  from endpoint_identifies_run [OF e this] e j show ?thesis by simp
qed

definition demoEnc :: "nat family \<Rightarrow> string option" where
  "demoEnc mf = Some (fst mf)"

theorem push_then_delete_witness:
  "\<exists>s. (push_step demoEnc)\<^sup>*\<^sup>* (newPusher demoPush) s \<and> psShut s = ShutDeleted \<and> length (psLog s) = 2
     \<and> (\<exists>posts dels. psLog s = posts @ dels \<and> list_all (ownPost demoEnc (push_New demoPush)) posts
          \<and> (dels = [] \<or> dels = [PushDelete (push_endpoint (push_New demoPush))] \<and> psShut s = ShutDeleted))"
proof -
  let ?s0 = "newPusher demoPush"
  let ?s1 = "?s0\<lparr>psLoop := LoopPushing\<rparr>"
  let ?s2 = "(pushOnce demoEnc (Some [(''go_gc'', 5), (''ccw_turns'', 7)]) True (Some 204) ?s1)\<lparr>psLoop := LoopSelect\<rparr>"
  let ?s3 = "?s2\<lparr>psShut := ShutWaiting, psCancelled := True\<rparr>"
  let ?s4 = "?s3\<lparr>psLoop := LoopDone\<rparr>"
  let ?s5 = "(push_delete True ?s4)\<lparr>psShut := ShutDeleted\<rparr>"
  have en: "push_Enabled (psCfg ?s0)" by code_simp
  have sh: "psShut ?s0 = ShutNone" "psLoop ?s0 = LoopIdle" by (simp_all add: newPusher_def)
  have enc: "push_encode demoEnc (Some [(''go_gc'', 5), (''ccw_turns'', 7)]) = Some ''ccw_turns''" by code_simp
  have "push_step demoEnc ?s0 ?s1" using en sh by (intro push_step.start)
  moreover have "push_step demoEnc ?s1 ?s2" by (intro push_step.push) simp
  moreover have "push_step demoEnc ?s2 ?s3" using en sh by (intro push_step.shutdown) (simp_all add: pushOnce_keeps)
  moreover have "push_step demoEnc ?s3 ?s4" by (intro push_step.quit) simp_all
  moreover have "push_step demoEnc ?s4 ?s5" by (intro push_step.waited) simp_all
  ultimately have r: "(push_step demoEnc)\<^sup>*\<^sup>* ?s0 ?s5" by (meson rtranclp.rtrancl_into_rtrancl rtranclp.rtrancl_refl)
  have "length (psLog ?s5) = 2" by (simp add: push_delete_def pushOnce_def enc countPush_def newPusher_def)
  with r push_then_delete [OF r] show ?thesis by (intro exI [of _ ?s5]) (auto simp: push_delete_def)
qed

end
