(* ===== verification/AppLife.thy ===== *)
theory AppLife
  imports Render Finalise SessionProps PushClient
begin

text \<open>
  The life of the application (\<^verbatim>\<open>newApp\<close>, \<^verbatim>\<open>run\<close> and \<^verbatim>\<open>shutdown\<close> of \<^verbatim>\<open>cmd/wrapper/app.go\<close>): the parameters
  bootstrap is given, and the shutdown sequence interleaved with the session, the finalisers of turns
  and the callback sender.
\<close>

section \<open>The parameters of bootstrap\<close>

definition readFileOrEmpty :: "string option \<Rightarrow> string" where
  "readFileOrEmpty contents = (case contents of None \<Rightarrow> [] | Some b \<Rightarrow> b)"

definition readBytesOrDefault :: "string option \<Rightarrow> string \<Rightarrow> string" where
  "readBytesOrDefault contents def = (case contents of None \<Rightarrow> def | Some b \<Rightarrow> b)"

definition emptyMcp :: string where
  "emptyMcp = ''{'' @ jsonQuote ''mcpServers'' @ '':{}}''"

text \<open>The files are read through \<open>rd\<close>, the environment variable of the API key is an argument.\<close>

definition buildBootstrapParams :: "(string \<Rightarrow> string option) \<Rightarrow> string \<Rightarrow> config \<Rightarrow> Params" where
  "buildBootstrapParams rd apiKey cfg =
     \<lparr>pHomeDir = HomeDir cfg,
      pWorkspace = Workspace cfg,
      pGlobalClaudeMd = readFileOrEmpty (rd (GlobalClaudeMdPath cfg)),
      pProjectClaudeMd = readFileOrEmpty (rd (ProjectClaudeMdPath cfg)),
      pBaseMCP = readBytesOrDefault (rd (MCPBasePath cfg)) emptyMcp,
      pMCPOverlayDir = MCPOverlayDir cfg,
      pGrafanaMCPURL = GrafanaMCPURL cfg,
      pSerenaMCPURL = SerenaMCPURL cfg,
      pExtraMCPServers = ExtraMCPServers cfg,
      pExtraSkillSources = ExtraSkillSources cfg,
      pSkillsSrc = splitOn (CHR '':'') (SkillsSrcDirs cfg),
      pSkillProfile = SkillProfile cfg,
      pSkillsRepo = SkillsRepo cfg,
      pSkillsRef = SkillsRef cfg,
      pSkillsCloneDir = skillsCloneDir (SkillsSrcDirs cfg),
      pAgentsSrc = [pathJoin [skillsCloneDir (SkillsSrcDirs cfg), ''.claude'', ''agents'']],
      pHookCommand = HookPath cfg,
      pStatusLineCommand = StatusLinePath cfg,
      pAllowedTools = readLines (rd (AllowedToolsPath cfg)),
      pEnableAllMCP = True,
      pPermissionMode = PermissionMode cfg,
      pEffort = Effort cfg,
      pAnthropicAPIKey = apiKey,
      pRepoURL = RepoURL cfg,
      pRepoBranch = RepoBranch cfg,
      pGitToken = GitToken cfg,
      pGitUserName = GitUserName cfg,
      pGitUserEmail = GitUserEmail cfg,
      pTaskBranch = TaskBranch cfg,
      pCheckoutBranch = CheckoutBranch cfg,
      pBranchPushInterval = wrap64 (seconds (BranchPushIntervalSeconds cfg)),
      pFullClone = FullClone cfg,
      pRepos = Repos cfg,
      pTaskName = TaskName cfg,
      pProjectName = Project cfg,
      pHookPreClone = HookPreClone cfg,
      pHookPostClone = HookPostClone cfg,
      pHookConversationStart = HookConversationStart cfg,
      pHookConversationRestart = HookConversationRestart cfg,
      pHookAgentTurnFinished = HookAgentTurnFinished cfg,
      pHookConversationFinished = HookConversationFinished cfg\<rparr>"

definition appPushConfig :: "config \<Rightarrow> pushConfig" where
  "appPushConfig cfg = \<lparr>pcURL = OperatorPushURL cfg, pcRunID = RunID cfg, pcPod = PodName cfg, pcJob = [],
     pcInterval = wrap64 (seconds (PushIntervalSeconds cfg))\<rparr>"

text \<open>
  The agent is told that its commits are pushed mid-turn exactly when the safety net of the same
  configuration is going to run, and never with the directories differing: it pushes in the
  directories the repositories are cloned into.
\<close>

theorem autopush_told_iff_running:
  "(autoPushDirective (pTaskBranch (buildBootstrapParams rd key cfg)) (pBranchPushInterval (buildBootstrapParams rd key cfg)) \<noteq> []
      \<longleftrightarrow> safety_Enabled (newSafetyPusher cfg))
   \<and> safety_repoDirs (newSafetyPusher cfg)
     = filter (\<lambda>d. d \<noteq> []) (map (RepoDir (pWorkspace (buildBootstrapParams rd key cfg)))
         (if pRepos (buildBootstrapParams rd key cfg) = [] then [pRepoURL (buildBootstrapParams rd key cfg)]
          else map rsURL (pRepos (buildBootstrapParams rd key cfg))))"
proof -
  have "autoPushBlock \<noteq> []" by (simp add: autoPushBlock_def nl_def)
  then show ?thesis
    by (auto simp: autoPushDirective_def buildBootstrapParams_def safety_Enabled_def newSafetyPusher_def safety_repoDirs_def
        filter_map comp_def)
qed

section \<open>A turn in flight at the shutdown\<close>

lemma Shutdown_keeps:
  "mStopping (session_Shutdown e m)" "gDone (session_Shutdown e m) = gDone m"
  "mStore (session_Shutdown e m) = mStore m" "mCurrent (session_Shutdown e m) = mCurrent m"
  by (auto simp: session_Shutdown_def ptyWrite_def Let_def split_def frame split: option.split)

text \<open>
  Shutting the session down leaves the turn in flight unresolved, and so does the end of the process
  that follows: no report reaches the finaliser, which is what commits, pushes and calls back.
\<close>

theorem shutdown_abandons_turn:
  "let m' = watch addOk showInt fs jsonl spawned boots eP eS now (session_Shutdown eCtrlC m)
   in gDone m' = gDone m \<and> mStore m' = mStore m \<and> mCurrent m' = mCurrent m"
  by (simp add: watch_def watchExit_def Shutdown_keeps)

section \<open>The shutdown sequence\<close>

datatype downPhase = Serving | PusherStopped | SafetyStopped | SessionStopped | TurnsDrained | HookFired | SenderStopped | ServersStopped

text \<open>
  The parts a shutdown touches. \<^verbatim>\<open>lfTurns\<close> are the turns whose finaliser is running, the group \<^verbatim>\<open>turnWG\<close>, and
  \<^verbatim>\<open>lfEnded\<close> those whose finaliser ended;
  \<^verbatim>\<open>lfLost\<close> records the turns whose callback met a closed sender, \<^verbatim>\<open>lfExpired\<close> that the drain ended on the
  context, and \<^verbatim>\<open>lfLate\<close> that a turn ended after the drain.
\<close>

record life =
  lfPhase :: downPhase
  lfSafety :: safetyPusher
  lfSess :: Manager
  lfSender :: Sender
  lfTurns :: "string list"
  lfEnded :: "string list"
  lfExpired :: bool
  lfLate :: bool
  lfLost :: "string list"

definition drained :: "downPhase \<Rightarrow> bool" where
  "drained ph \<longleftrightarrow> ph \<in> {TurnsDrained, HookFired, SenderStopped, ServersStopped}"

text \<open>\<^verbatim>\<open>OnTurnDone\<close> for the turns a step of the session reports: a finaliser each.\<close>

definition sessionStep :: "Manager \<Rightarrow> life \<Rightarrow> life" where
  "sessionStep m' l =
     (let ended = map rID (drop (length (gDone (lfSess l))) (gDone m'))
      in l\<lparr>lfSess := m', lfTurns := lfTurns l @ ended, lfLate := (lfLate l \<or> ended \<noteq> [] \<and> drained (lfPhase l))\<rparr>)"

definition finishTurn :: "string \<Rightarrow> string \<Rightarrow> string option \<Rightarrow> life \<Rightarrow> life" where
  "finishTurn t url payload l =
     l\<lparr>lfTurns := remove1 t (lfTurns l), lfEnded := t # lfEnded l, lfSender := DeliverPayload url t payload (lfSender l),
       lfLost := (if sdClosed (lfSender l) then t # lfLost l else lfLost l)\<rparr>"

definition suppressTurn :: "string \<Rightarrow> life \<Rightarrow> life" where
  "suppressTurn t l = l\<lparr>lfTurns := remove1 t (lfTurns l), lfEnded := t # lfEnded l\<rparr>"

text \<open>The session has started by now; \<^verbatim>\<open>OnTurnDone\<close> was set before, so what it reported already has its finalisers.\<close>

definition newLife :: "safetyPusher \<Rightarrow> webhookConfig \<Rightarrow> Manager \<Rightarrow> life" where
  "newLife net wh m = \<lparr>lfPhase = Serving, lfSafety = safety_Start net, lfSess = m, lfSender = webhook_New wh,
     lfTurns = map rID (gDone m), lfEnded = [], lfExpired = False, lfLate = False, lfLost = []\<rparr>"

inductive life_step :: "(rat \<Rightarrow> bool) \<Rightarrow> (string \<Rightarrow> string) \<Rightarrow> life \<Rightarrow> life \<Rightarrow> bool" for addOk err where
  session: "mstep addOk err (lfSess l) ev m' \<Longrightarrow> life_step addOk err l (sessionStep m' l)"
| finalised: "t \<in> set (lfTurns l) \<Longrightarrow> life_step addOk err l (finishTurn t url payload l)"
| suppressed: "t \<in> set (lfTurns l) \<Longrightarrow> life_step addOk err l (suppressTurn t l)"
| delivered: "d \<in> set (inFlight (lfSender l)) \<Longrightarrow> life_step addOk err l (l\<lparr>lfSender := finishDelivery wi d (lfSender l)\<rparr>)"
| stop_pusher: "lfPhase l = Serving \<Longrightarrow> life_step addOk err l (l\<lparr>lfPhase := PusherStopped\<rparr>)"
| stop_safety: "lfPhase l = PusherStopped \<Longrightarrow>
    life_step addOk err l (l\<lparr>lfPhase := SafetyStopped, lfSafety := (lfSafety l)\<lparr>spRunning := False\<rparr>\<rparr>)"
| stop_session: "lfPhase l = SafetyStopped \<Longrightarrow>
    life_step addOk err l ((sessionStep (session_Shutdown eCtrlC (lfSess l)) l)\<lparr>lfPhase := SessionStopped\<rparr>)"
| drain: "lfPhase l = SessionStopped \<Longrightarrow> lfTurns l = [] \<Longrightarrow> life_step addOk err l (l\<lparr>lfPhase := TurnsDrained\<rparr>)"
| drain_expired: "lfPhase l = SessionStopped \<Longrightarrow> life_step addOk err l (l\<lparr>lfPhase := TurnsDrained, lfExpired := True\<rparr>)"
| finish_hook: "lfPhase l = TurnsDrained \<Longrightarrow> life_step addOk err l (l\<lparr>lfPhase := HookFired\<rparr>)"
| stop_sender: "lfPhase l = HookFired \<Longrightarrow> life_step addOk err l (l\<lparr>lfPhase := SenderStopped, lfSender := shutdownClose (lfSender l)\<rparr>)"
| stop_servers: "lfPhase l = SenderStopped \<Longrightarrow> life_step addOk err l (l\<lparr>lfPhase := ServersStopped\<rparr>)"

definition down_inv :: "life \<Rightarrow> bool" where
  "down_inv l \<longleftrightarrow>
     (sdClosed (lfSender l) \<longrightarrow> lfPhase l \<in> {SenderStopped, ServersStopped})
     \<and> (drained (lfPhase l) \<and> lfTurns l \<noteq> [] \<longrightarrow> lfExpired l \<or> lfLate l)
     \<and> (lfLost l \<noteq> [] \<longrightarrow> lfExpired l \<or> lfLate l)
     \<and> (lfPhase l \<notin> {Serving, PusherStopped} \<longrightarrow> \<not> spRunning (lfSafety l))"

lemma DeliverPayload_closed [simp]: "sdClosed (DeliverPayload url t payload s) = sdClosed s"
  by (simp add: DeliverPayload_def Let_def split: option.split)

lemma finishDelivery_closed [simp]: "sdClosed (finishDelivery w d s) = sdClosed s"
  by (simp add: finishDelivery_def split_def)

lemma life_step_inv: "life_step addOk err l l' \<Longrightarrow> down_inv l \<Longrightarrow> down_inv l'"
proof (induction rule: life_step.induct)
  case (session l ev m')
  then show ?case by (auto simp: down_inv_def sessionStep_def Let_def)
next
  case (finalised t l url payload)
  then have "lfTurns l \<noteq> []" by auto
  with finalised show ?case by (auto simp: down_inv_def finishTurn_def drained_def)
next
  case (suppressed t l)
  then have "lfTurns l \<noteq> []" by auto
  with suppressed show ?case by (auto simp: down_inv_def suppressTurn_def)
next
  case (stop_session l eCtrlC)
  then show ?case by (auto simp: down_inv_def sessionStep_def drained_def Let_def)
qed (auto simp: down_inv_def drained_def shutdownClose_def)


definition demoNet :: safetyPusher where
  "demoNet = \<lparr>spWorkspace = ''/workspace'', spTaskBranch = ''tatara/t'', spRepos = [], spRepoURL = ''https://github.com/o/r'',
     spInterval = seconds 120, spRunning = False, spTotal = (\<lambda>_. 0)\<rparr>"


section \<open>One finaliser per reported turn\<close>

definition grows :: "Manager \<Rightarrow> Manager \<Rightarrow> bool" where
  "grows m m' \<longleftrightarrow> (\<exists>new. gDone m' = gDone m @ new)"

lemma grows_same: "gDone m' = gDone m \<Longrightarrow> grows m m'"
  by (simp add: grows_def)

lemma grows_meter: "gDone m1 = gDone m \<Longrightarrow> grows m (meterThenDone addOk r tid m1)"
  using meterThenDone_fires [of addOk r tid m1] by (auto simp: grows_def)

lemma grows_resolvers:
  "core_inv m \<Longrightarrow> grows m (snd (session_Complete addOk r now m))"
  "grows m (completeAfterInterrupt addOk fs tid path now m)"
  "grows m (completeFromTranscript addOk fs tid started path ft us sr now m)"
  "grows m (failTurn tid reason now m)"
  "grows m (failSubmitWrite tid stage werr now m)"
proof -
  show "grows m (snd (session_Complete addOk r now m))" if "core_inv m"
    using that
    by (cases rule: session_Complete_cases [of m addOk r now])
      (simp_all add: grows_meter grows_same ghost_frame hookPath_frame)
  show "grows m (completeAfterInterrupt addOk fs tid path now m)"
    by (simp add: completeAfterInterrupt_def Let_def ghost_frame grows_meter grows_same split: sum.split prod.split)
  show "grows m (completeFromTranscript addOk fs tid started path ft us sr now m)"
    by (auto simp: completeFromTranscript_def Let_def meterTokens_def fireDone_def setMet_def ghost_frame grows_def split: sum.split option.split)
  show "grows m (failTurn tid reason now m)"
    by (auto simp: failTurn_def Let_def fireDone_def ghost_frame grows_def split: sum.split option.split)
  show "grows m (failSubmitWrite tid stage werr now m)"
    by (auto simp: failSubmitWrite_def ghost_frame intro!: grows_same split: sum.split)
qed

lemma grows_exec:
  assumes "core_inv m"
  shows "grows m (exec addOk err ev m)"
proof (cases ev)
  case (ELine raw now)
  then show ?thesis
    by (auto simp: tailLine_def Let_def onTailerActivity_def resetTimer_def recordProbeOutcomes_frame
        intro!: grows_same split: option.split prod.split)
qed (use assms in \<open>auto simp: ghost_rest ghost_frame grows_resolvers admit_def refuse_def setMet_def reserve_def onTailerActivity_def
       resetTimer_def Let_def intro!: grows_same\<close>)

text \<open>
  What holds of the turns in every life of an application whose session is reachable at the start:
  the turns reported are, each exactly once, those with a finaliser running and those whose finaliser
  ended.
\<close>

definition turns_inv :: "(rat \<Rightarrow> bool) \<Rightarrow> (string \<Rightarrow> string) \<Rightarrow> life \<Rightarrow> bool" where
  "turns_inv addOk err l \<longleftrightarrow> reachable addOk err (lfSess l)
     \<and> mset (lfTurns l) + mset (lfEnded l) = mset (map rID (gDone (lfSess l)))"

lemma turns_inv_step:
  assumes "life_step addOk err l l'" "turns_inv addOk err l"
  shows "turns_inv addOk err l'"
proof -
  have sess: "turns_inv addOk err (sessionStep m' l)" if "reachable addOk err m'" "grows (lfSess l) m'" for m'
    using that assms(2) by (auto simp: turns_inv_def sessionStep_def grows_def Let_def)
  have ended: "mset (remove1 t ts) + mset (t # es) = mset ts + mset es" if "t \<in> set ts" for t ts and es :: "string list"
    using that by simp
  have fin: "turns_inv addOk err k" if "lfSess k = lfSess l" "mset (lfTurns k) + mset (lfEnded k) = mset (lfTurns l) + mset (lfEnded l)" for k
    using that assms(2) unfolding turns_inv_def by simp
  from assms(1) show ?thesis
  proof cases
    case (session ev m')
    then obtain "enabled ev (lfSess l)" and m': "m' = exec addOk err ev (lfSess l)" by (auto simp: mstep_iff)
    moreover have "reachable addOk err (lfSess l)" using assms(2) by (simp add: turns_inv_def)
    ultimately show ?thesis
      unfolding session(1) using session(2) sess grows_exec [OF reachable_core] reachable.after by blast
  next
    case (stop_session e)
    have "mstep addOk err (lfSess l) (EShutdown e) (session_Shutdown e (lfSess l))"
      using mstep.step [of "EShutdown e" "lfSess l" addOk err] by simp
    with assms(2) have "reachable addOk err (session_Shutdown e (lfSess l))" by (auto simp: turns_inv_def intro: reachable.after)
    from sess [OF this] have "turns_inv addOk err (sessionStep (session_Shutdown e (lfSess l)) l)"
      by (simp add: grows_def Shutdown_keeps)
    then show ?thesis unfolding stop_session(1) by (simp add: turns_inv_def)
  next
    case (finalised t url payload)
    then show ?thesis using fin [of l'] ended [of t "lfTurns l" "lfEnded l"] by (simp add: finishTurn_def)
  next
    case (suppressed t)
    then show ?thesis using fin [of l'] ended [of t "lfTurns l" "lfEnded l"] by (simp add: suppressTurn_def)
  qed (use assms(2) in \<open>simp_all add: turns_inv_def\<close>)
qed

lemma turns_inv_run:
  assumes "(life_step addOk err)\<^sup>*\<^sup>* (newLife net wh m) l" "reachable addOk err m"
  shows "turns_inv addOk err l"
  using assms(1)
proof (induction rule: rtranclp_induct)
  case base
  then show ?case using assms(2) by (simp add: turns_inv_def newLife_def)
next
  case (step l l')
  then show ?case by (blast intro: turns_inv_step)
qed

end
