(* ===== verification/NewApp.thy ===== *)
theory NewApp
  imports AppLife HttpApi
begin

text \<open>
  The boot of the application (\<^verbatim>\<open>newApp\<close> of \<^verbatim>\<open>cmd/wrapper/app.go\<close>): bootstrap renders the workspace, the
  repository hooks are installed (\<^verbatim>\<open>internal/bootstrap/hooks.go\<close>), the MCP server of the operator is
  registered (\<^verbatim>\<open>internal/bootstrap/mcp_register.go\<close>), the session is constructed and started, and the
  interface is guarded by a verifier when an issuer is configured.
\<close>

section \<open>Programs run during the boot\<close>

text \<open>A program run with \<^verbatim>\<open>os/exec\<close>: its directory (empty for the wrapper's own), name, arguments and environment.\<close>

record procCmd =
  xDir :: string
  xName :: string
  xArgs :: "string list"
  xEnv :: environ

text \<open>The workspace, the environment of the process, the programs run, and \<^verbatim>\<open>BootstrapHookInstall\<close>.\<close>

record bootWorld =
  bwWs :: wsWorld
  bwEnviron :: environ
  bwRun :: "procCmd list"
  bwHookInstall :: "(string \<times> string) counters"

text \<open>
  What the boot asks the outside: bootstrap's world, whether a program run after those in the log fails,
  whether a program is on the path, the discovery of an OIDC provider and its verifier for an audience, the
  order in which the secrets of a map reach the redactor, the clock, the process claude gets, and the
  events of the session until \<^verbatim>\<open>bootWait\<close> returns.
\<close>

record appEnv =
  aeWs :: wsEnv
  aeRun :: "procCmd list \<Rightarrow> procCmd \<Rightarrow> string option"
  aeLookPath :: "string \<Rightarrow> bool"
  aeProvider :: "string \<Rightarrow> (string + (string \<Rightarrow> string \<Rightarrow> idToken option))"
  aeSecrets :: "(string \<rightharpoonup> string) \<Rightarrow> secretPair list"
  aeNow :: time
  aePid :: nat
  aeBoot :: "mevent list"

definition procRun :: "appEnv \<Rightarrow> procCmd \<Rightarrow> bootWorld \<Rightarrow> string option \<times> bootWorld" where
  "procRun env c w = (aeRun env (bwRun w) c, w\<lparr>bwRun := bwRun w @ [c]\<rparr>)"

definition execRunnerDir :: "appEnv \<Rightarrow> string \<Rightarrow> string \<Rightarrow> string list \<Rightarrow> bootWorld \<Rightarrow> string option \<times> bootWorld" where
  "execRunnerDir env dir name args w =
     procRun env \<lparr>xDir = dir, xName = name, xArgs = args, xEnv = bwEnviron w\<rparr> w"

definition execRunner :: "appEnv \<Rightarrow> string \<Rightarrow> string list \<Rightarrow> bootWorld \<Rightarrow> string option \<times> bootWorld" where
  "execRunner env name args w = procRun env \<lparr>xDir = [], xName = name, xArgs = args, xEnv = bwEnviron w\<rparr> w"

definition runHookInstall :: "appEnv \<Rightarrow> string \<Rightarrow> string \<Rightarrow> string \<Rightarrow> string list \<Rightarrow> bootWorld \<Rightarrow> bootWorld" where
  "runHookInstall env dir binary label args w =
     (case execRunnerDir env dir binary args w of
        (err, w1) \<Rightarrow> w1\<lparr>bwHookInstall := inc (if err \<noteq> None then ''fail'' else ''ok'', label) (bwHookInstall w1)\<rparr>)"

definition preCommitArgs :: "string list" where
  "preCommitArgs = [''exec'', ''--'', ''pre-commit'', ''install'', ''--hook-type'', ''pre-commit'', ''--hook-type'', ''pre-push'',
     ''--allow-missing-config'']"

definition InstallHooks :: "appEnv \<Rightarrow> string \<Rightarrow> RepoSpec list \<Rightarrow> string \<Rightarrow> bootWorld \<Rightarrow> bootWorld" where
  "InstallHooks env workspace repos repoURL w =
     foldl (\<lambda>w dir. runHookInstall env dir ''mise'' ''pre-commit'' preCommitArgs
                       (runHookInstall env dir ''mise'' ''mise'' [''install''] w))
       w (hook_repoDirs workspace repos repoURL)"

definition RegisterTataraMCP :: "appEnv \<Rightarrow> string \<Rightarrow> bootWorld \<Rightarrow> string option \<times> bootWorld" where
  "RegisterTataraMCP env workspace w = execRunner env ''tatara'' [''mcp-config'', workspace] w"

datatype appErr =
    RenderFailed bootErr
  | TataraMissing
  | TataraFailed string
  | SpawnFailed string
  | AuthInvalid auth_error
  | DiscoveryFailed string

definition tataraLookAndRegister :: "appEnv \<Rightarrow> string \<Rightarrow> bootWorld \<Rightarrow> appErr option \<times> bootWorld" where
  "tataraLookAndRegister env workspace w =
     (if \<not> aeLookPath env ''tatara'' then (Some TataraMissing, w)
      else (case RegisterTataraMCP env workspace w of (e, w1) \<Rightarrow> (map_option TataraFailed e, w1)))"

section \<open>The session\<close>

definition appRepo :: "config \<Rightarrow> string" where
  "appRepo cfg = (if Repos cfg \<noteq> [] then rsURL (hd (Repos cfg)) else RepoURL cfg)"

definition sessionConfig :: "config \<Rightarrow> Config" where
  "sessionConfig cfg =
     \<lparr>cWorkspace = Workspace cfg, cHomeDir = HomeDir cfg, cModel = Model cfg, cEffort = Effort cfg, cRepo = appRepo cfg,
      cTurnTimeout = wrap64 (seconds (TurnTimeoutSeconds cfg)), cPodTTL = wrap64 (seconds (PodTTLSeconds cfg)),
      cBootTimeout = wrap64 (seconds (BootTimeoutSeconds cfg)), cSubmitDelay = 0, cSubmitSeq = DefaultSubmitSeq,
      cMaxRestarts = 0, cKind = Kind cfg, cRepoName = RepoName cfg, cProject = Project cfg\<rparr>"

text \<open>The command line of a first launch; the environment is the one \<^verbatim>\<open>newApp\<close> computed.\<close>

definition spawnClaude :: "config \<Rightarrow> environ \<Rightarrow> procCmd" where
  "spawnClaude cfg environ =
     \<lparr>xDir = Workspace cfg, xName = ClaudePath cfg, xArgs = claudeArgs (sessionConfig cfg) False, xEnv = environ\<rparr>"

text \<open>The events of the session while \<^verbatim>\<open>Start\<close> waits, those that cannot happen being skipped.\<close>

fun whileBooting :: "(rat \<Rightarrow> bool) \<Rightarrow> (string \<Rightarrow> string) \<Rightarrow> mevent list \<Rightarrow> Manager \<Rightarrow> Manager" where
  "whileBooting addOk err [] m = m"
| "whileBooting addOk err (ev # evs) m = whileBooting addOk err evs (if enabled ev m then exec addOk err ev m else m)"

definition session_Start ::
  "(rat \<Rightarrow> bool) \<Rightarrow> (string \<Rightarrow> string) \<Rightarrow> appEnv \<Rightarrow> procCmd \<Rightarrow> Manager \<Rightarrow> bootWorld \<Rightarrow> (string option \<times> Manager) \<times> bootWorld" where
  "session_Start addOk err env cmd m w =
     (case procRun env cmd w of
        (Some e, w1) \<Rightarrow> ((Some e, m), w1)
      | (None, w1) \<Rightarrow> ((None, whileBooting addOk err (aeBoot env) (installProc (aePid env) m)), w1))"

section \<open>The verifier\<close>

definition NewVerifier :: "appEnv \<Rightarrow> authConfig \<Rightarrow> appErr + (string \<Rightarrow> idToken option)" where
  "NewVerifier env c =
     (case auth_Validate c of
        Some e \<Rightarrow> Inl (AuthInvalid e)
      | None \<Rightarrow> (case aeProvider env (auIssuer c) of
                   Inl e \<Rightarrow> Inl (DiscoveryFailed e)
                 | Inr provider \<Rightarrow> Inr (provider (auAudience c))))"

definition appVerifier :: "appEnv \<Rightarrow> config \<Rightarrow> appErr + (string \<Rightarrow> idToken option) option" where
  "appVerifier env cfg =
     (if OIDCIssuer cfg \<noteq> [] then
        (case NewVerifier env \<lparr>auIssuer = OIDCIssuer cfg, auAudience = OIDCAudience cfg\<rparr> of
           Inl e \<Rightarrow> Inl e
         | Inr v \<Rightarrow> Inr (Some v))
      else Inr None)"

section \<open>The boot\<close>

record booted =
  abSess :: Manager
  abApp :: app
  abSender :: Sender
  abVerifier :: "(string \<Rightarrow> idToken option) option"
  abPusher :: pusher
  abSafety :: safetyPusher

definition appHook :: "appEnv \<Rightarrow> string \<Rightarrow> string \<Rightarrow> bootWorld \<Rightarrow> bootWorld" where
  "appHook env name command w = w\<lparr>bwWs := snd (run_state (bootHook (aeWs env) name command) (bwWs w))\<rparr>"

text \<open>From the registration on: the session with its tailer, its start, the hook, the verifier, the clients.\<close>

definition startApp ::
  "(rat \<Rightarrow> bool) \<Rightarrow> (string \<Rightarrow> string) \<Rightarrow> appEnv \<Rightarrow> config \<Rightarrow> bootWorld \<Rightarrow> (appErr + booted) \<times> bootWorld" where
  "startApp addOk err env cfg w =
     (let sess = StartTailer (logTranscriptEnabled (getenv (bwEnviron w) ''CCW_LOG_TRANSCRIPT''))
                   (aeSecrets env (secretsFromEnv (bwEnviron w))) (session_New (sessionConfig cfg) NewStore (aeNow env))
      in case session_Start addOk err env (spawnClaude cfg (claudeEnv (bwEnviron w) cfg)) sess w of
           ((Some e, _), w1) \<Rightarrow> (Inl (SpawnFailed e), w1)
         | ((None, sess1), w1) \<Rightarrow>
             (let w2 = appHook env ''conversationStart'' (HookConversationStart cfg) w1
              in case appVerifier env cfg of
                   Inl e \<Rightarrow> (Inl e, w2)
                 | Inr v \<Rightarrow>
                     (Inr \<lparr>abSess = sess1, abApp = newAppState\<lparr>lifecycleHookTotal := wsHooks (bwWs w2)\<rparr>,
                           abSender = webhook_New \<lparr>whRetries = WebhookRetries cfg, whBackoff = 0, whSecret = CallbackHMACSecret cfg\<rparr>,
                           abVerifier = v, abPusher = newPusher (appPushConfig cfg), abSafety = newSafetyPusher cfg\<rparr>, w2)))"

definition newApp ::
  "(rat \<Rightarrow> bool) \<Rightarrow> (string \<Rightarrow> string) \<Rightarrow> appEnv \<Rightarrow> config \<Rightarrow> bootWorld \<Rightarrow> (appErr + booted) \<times> bootWorld" where
  "newApp addOk err env cfg w =
     (let p = buildBootstrapParams (eRead (aeWs env) (histOf (bwWs w))) (getenv (bwEnviron w) ''ANTHROPIC_API_KEY'') cfg
      in case run_state (Render (aeWs env) p) (bwWs w) of
           (Some e, ws) \<Rightarrow> (Inl (RenderFailed e), w\<lparr>bwWs := ws\<rparr>)
         | (None, ws) \<Rightarrow>
             (let w1 = w\<lparr>bwWs := ws, bwEnviron := setGitHubTokenEnv (GitToken cfg) (bwEnviron w)\<rparr>;
                  w2 = InstallHooks env (Workspace cfg) (Repos cfg) (RepoURL cfg) w1
              in case tataraLookAndRegister env (Workspace cfg) w2 of
                   (Some e, w3) \<Rightarrow> (Inl e, w3)
                 | (None, w3) \<Rightarrow> startApp addOk err env cfg w3))"

section \<open>What the boot runs\<close>

definition installCmds :: "environ \<Rightarrow> string \<Rightarrow> procCmd list" where
  "installCmds environ dir =
     [\<lparr>xDir = dir, xName = ''mise'', xArgs = [''install''], xEnv = environ\<rparr>,
      \<lparr>xDir = dir, xName = ''mise'', xArgs = preCommitArgs, xEnv = environ\<rparr>]"

lemma runHookInstall_keeps [simp]:
  "bwEnviron (runHookInstall env dir binary label args w) = bwEnviron w"
  "bwWs (runHookInstall env dir binary label args w) = bwWs w"
  "bwRun (runHookInstall env dir binary label args w) = bwRun w @ [\<lparr>xDir = dir, xName = binary, xArgs = args, xEnv = bwEnviron w\<rparr>]"
  by (simp_all add: runHookInstall_def execRunnerDir_def procRun_def)

lemma InstallHooks_keeps [simp]:
  "bwEnviron (InstallHooks env ws repos url w) = bwEnviron w"
  "bwWs (InstallHooks env ws repos url w) = bwWs w"
  "bwRun (InstallHooks env ws repos url w) = bwRun w @ concat (map (installCmds (bwEnviron w)) (hook_repoDirs ws repos url))"
proof -
  let ?f = "\<lambda>w dir. runHookInstall env dir ''mise'' ''pre-commit'' preCommitArgs (runHookInstall env dir ''mise'' ''mise'' [''install''] w)"
  have "bwEnviron (foldl ?f w ds) = bwEnviron w \<and> bwWs (foldl ?f w ds) = bwWs w
      \<and> bwRun (foldl ?f w ds) = bwRun w @ concat (map (installCmds (bwEnviron w)) ds)" for ds
    by (induction ds arbitrary: w) (auto simp: installCmds_def)
  then show "bwEnviron (InstallHooks env ws repos url w) = bwEnviron w"
    "bwWs (InstallHooks env ws repos url w) = bwWs w"
    "bwRun (InstallHooks env ws repos url w) = bwRun w @ concat (map (installCmds (bwEnviron w)) (hook_repoDirs ws repos url))"
    by (simp_all add: InstallHooks_def)
qed

lemma whileBooting_reachable: "reachable addOk err m \<Longrightarrow> reachable addOk err (whileBooting addOk err evs m)"
  by (induction evs arbitrary: m) (auto intro: reachable.after mstep.step)

lemma started_reachable: "reachable addOk err (installProc p (StartTailer on secrets (session_New c NewStore start)))"
proof -
  have n: "enabled (EStartTailer on secrets) (session_New c NewStore start)" by (simp add: session_New_def)
  have "reachable addOk err (StartTailer on secrets (session_New c NewStore start))"
    using reachable.after [OF reachable.init mstep.step [OF n]] by simp
  from reachable.after [OF this mstep.step [of "EStart p"]] show ?thesis by simp
qed

text \<open>The shape of a successful boot.\<close>

lemma newApp_success:
  assumes "newApp addOk err env cfg w = (Inr a, w')"
  defines "p \<equiv> buildBootstrapParams (eRead (aeWs env) (histOf (bwWs w))) (getenv (bwEnviron w) ''ANTHROPIC_API_KEY'') cfg"
  defines "environ \<equiv> setGitHubTokenEnv (GitToken cfg) (bwEnviron w)"
  shows "fst (run_state (Render (aeWs env) p) (bwWs w)) = None"
    and "bwRun w' = bwRun w @ concat (map (installCmds environ) (hook_repoDirs (Workspace cfg) (Repos cfg) (RepoURL cfg)))
           @ [\<lparr>xDir = [], xName = ''tatara'', xArgs = [''mcp-config'', Workspace cfg], xEnv = environ\<rparr>]
           @ [spawnClaude cfg (claudeEnv environ cfg)]"
    and "appVerifier env cfg = Inr (abVerifier a)"
    and "reachable addOk err (abSess a)"
proof -
  note boot = newApp_def startApp_def session_Start_def tataraLookAndRegister_def RegisterTataraMCP_def execRunner_def procRun_def
    appHook_def Let_def
  show "fst (run_state (Render (aeWs env) p) (bwWs w)) = None"
    "bwRun w' = bwRun w @ concat (map (installCmds environ) (hook_repoDirs (Workspace cfg) (Repos cfg) (RepoURL cfg)))
           @ [\<lparr>xDir = [], xName = ''tatara'', xArgs = [''mcp-config'', Workspace cfg], xEnv = environ\<rparr>]
           @ [spawnClaude cfg (claudeEnv environ cfg)]"
    "appVerifier env cfg = Inr (abVerifier a)"
    "reachable addOk err (abSess a)"
    using assms(1) unfolding p_def environ_def
    by (auto simp: boot split: prod.splits option.splits if_splits sum.splits
        intro!: whileBooting_reachable started_reachable)
qed

text \<open>The environment of claude keeps what the wrapper's binds.\<close>

lemma split_append:
  assumes "CHR ''='' \<notin> set k"
  shows "splitEnv (k @ CHR ''='' # v) = Some (k, v)"
proof -
  have "strIndex (k @ CHR ''='' # v) ''='' = Some (length k)"
    using assms by (induction k) (auto simp: hasPrefix_def)
  then show ?thesis by (simp add: splitEnv_def)
qed

lemma boundTo_iff:
  "boundTo env k v \<longleftrightarrow> (\<exists>e \<in> set env. splitEnv e = Some (k, v)) \<and> (\<forall>e \<in> set env. \<forall>v'. splitEnv e = Some (k, v') \<longrightarrow> v' = v)"
  unfolding boundTo_def Ball_def Bex_def split_paired_All case_prod_conv map_filter_set by blast

lemma subagent_name:
  assumes "hasPrefix e ''CLAUDE_CODE_SUBAGENT_MODEL=''"
  shows "\<exists>v. splitEnv e = Some (''CLAUDE_CODE_SUBAGENT_MODEL'', v)"
proof -
  let ?n = "''CLAUDE_CODE_SUBAGENT_MODEL''"
  have "take (length (?n @ ''='')) e = ?n @ ''=''" using assms by (simp add: hasPrefix_def)
  then have "e = (?n @ ''='') @ drop (length (?n @ ''='')) e" by (metis append_take_drop_id)
  moreover have "splitEnv (?n @ CHR ''='' # t) = Some (?n, t)" for t by (rule split_append) simp
  ultimately show ?thesis by (metis append.assoc append_Cons append_Nil)
qed

lemma claudeEnv_boundTo:
  assumes b: "boundTo env k v" and k: "k \<noteq> ''TERM''" "k \<noteq> ''HOME''" "k \<noteq> ''CLAUDE_CODE_SUBAGENT_MODEL''"
  shows "boundTo (claudeEnv env cfg) k v"
proof -
  have keep: "\<not> hasPrefix e ''CLAUDE_CODE_SUBAGENT_MODEL=''" if "splitEnv e = Some (k, v')" for e v'
    using subagent_name [of e] that k(3) by auto
  have other: "splitEnv ''TERM=xterm-256color'' \<noteq> Some (k, v')" "splitEnv (''HOME='' @ h) \<noteq> Some (k, v')" for v' h
    using split_append [of "''TERM''" "''xterm-256color''"] split_append [of "''HOME''" h] k by auto
  have set: "set (claudeEnv env cfg) = insert ''TERM=xterm-256color'' {e \<in> set env. \<not> hasPrefix e ''CLAUDE_CODE_SUBAGENT_MODEL=''}
      \<union> (if HomeDir cfg \<noteq> [] then {''HOME='' @ HomeDir cfg} else {})"
    by (auto simp: claudeEnv_def)
  obtain e where "e \<in> set env" "splitEnv e = Some (k, v)" using b unfolding boundTo_iff by blast
  with keep have "e \<in> set (claudeEnv env cfg) \<and> splitEnv e = Some (k, v)" unfolding set by blast
  moreover have "v' = v" if "e \<in> set (claudeEnv env cfg)" "splitEnv e = Some (k, v')" for e v'
  proof -
    from that other have "e \<in> set env" unfolding set by (auto split: if_splits)
    with that(2) b show ?thesis unfolding boundTo_iff by blast
  qed
  ultimately show ?thesis unfolding boundTo_iff by blast
qed

lemma setGitHubTokenEnv_bound:
  "token \<noteq> [] \<Longrightarrow> boundTo (setGitHubTokenEnv token env) ''GITHUB_TOKEN'' token"
  using boundTo_setenv [OF token_names(1)]
  by (simp add: setGitHubTokenEnv_def boundTo_setenv_other [OF _ _ token_names(2)])


section \<open>Installers are best effort\<close>

abbreviation sameButInstalls :: "bootWorld \<Rightarrow> bootWorld \<Rightarrow> bool" where
  "sameButInstalls w w' \<equiv> bwWs w = bwWs w' \<and> bwEnviron w = bwEnviron w' \<and> bwRun w = bwRun w'"

definition installer :: "procCmd \<Rightarrow> bool" where
  "installer c \<longleftrightarrow> xName c = ''mise'' \<and> (xArgs c = [''install''] \<or> xArgs c = preCommitArgs)"

lemma claude_no_installer: "\<not> installer (spawnClaude cfg environ)"
  by (simp add: installer_def spawnClaude_def claudeArgs_def preCommitArgs_def)

text \<open>
  The outcome of a boot, the error or the application, does not depend on what the hook installers
  answer: two worlds that differ only there boot alike.
\<close>

theorem installers_best_effort:
  assumes "\<And>log c. \<not> installer c \<Longrightarrow> aeRun env log c = answers log c"
  shows "fst (newApp addOk err env cfg w) = fst (newApp addOk err (env\<lparr>aeRun := answers\<rparr>) cfg w)"
proof -
  let ?env = "env\<lparr>aeRun := answers\<rparr>"
  have start: "fst (startApp addOk err env cfg u) = fst (startApp addOk err ?env cfg u')" if "sameButInstalls u u'" for u u'
    using that assms [OF claude_no_installer]
    by (simp add: startApp_def session_Start_def procRun_def appHook_def appVerifier_def NewVerifier_def Let_def
        split: option.split sum.split)
  show ?thesis
    using assms
    by (auto simp: newApp_def Let_def tataraLookAndRegister_def RegisterTataraMCP_def execRunner_def procRun_def installer_def
        intro!: start split: prod.split option.split)
qed

section \<open>A configured issuer is enforced\<close>

text \<open>
  C25. An application configured with an issuer serves nothing under \<^verbatim>\<open>/v1\<close> without a token: a boot that
  succeeds has discovered that issuer's provider and holds its verifier for the configured audience,
  which is not empty, and every request the provider does not vouch for is answered 401 and leaves the
  session as it is.
\<close>

theorem issuer_enforced:
  assumes "newApp addOk err env cfg w = (Inr a, w')" "OIDCIssuer cfg \<noteq> []"
  shows "OIDCAudience cfg \<noteq> [] \<and> (\<exists>provider. aeProvider env (OIDCIssuer cfg) = Inr provider
    \<and> (authorised (provider (OIDCAudience cfg)) header
       \<or> fst (fst (Router ctl parse fs (abVerifier a) metrics header (V1 v) (c, m))) = 401
         \<and> snd (snd (Router ctl parse fs (abVerifier a) metrics header (V1 v) (c, m))) = m))"
proof -
  obtain provider where p: "aeProvider env (OIDCIssuer cfg) = Inr provider" "OIDCAudience cfg \<noteq> []"
      "abVerifier a = Some (provider (OIDCAudience cfg))"
    using newApp_success(3) [OF assms(1)] assms(2)
    by (auto simp: appVerifier_def NewVerifier_def auth_Validate_def split: if_splits sum.splits option.splits)
  show ?thesis
    using p Router_v1 [where ctl = ctl and parse = parse and fs = fs and oidc = "provider (OIDCAudience cfg)" and metrics = metrics
        and header = header and v = v and c = c and m = m]
    by (auto split: prod.splits if_splits)
qed

section \<open>A concrete boot\<close>

definition demoAppCfg :: config where
  "demoAppCfg =
     \<lparr>HTTPAddr = '':8080'', InternalAddr = ''127.0.0.1:8081'', OIDCIssuer = ''https://issuer'', OIDCAudience = ''wrapper'', LogLevel = [],
      Model = ''opus'', Effort = [], PermissionMode = [], RepoURL = [], RepoBranch = [], GitToken = ''ghp12345'', GitUserName = [],
      GitUserEmail = [], TaskBranch = [], CheckoutBranch = [], DefaultCallbackURL = [], OperatorPushURL = [], RunID = [],
      PodName = [], Kind = [], RepoName = [], Project = [], TaskName = [], CallbackHMACSecret = [], TurnTimeoutSeconds = 60,
      PodTTLSeconds = 0, BootTimeoutSeconds = 60, PushIntervalSeconds = 15, BranchPushIntervalSeconds = 120, WebhookRetries = 3,
      Workspace = ''/workspace'', HomeDir = ''/home/agent'', ClaudePath = ''claude'', HookPath = ''hook'', StatusLinePath = [],
      GlobalClaudeMdPath = [], ProjectClaudeMdPath = [], MCPBasePath = [], MCPOverlayDir = [], GrafanaMCPURL = [],
      SerenaMCPURL = [], ExtraMCPServers = [], ExtraSkillSources = [], SkillsSrcDirs = [], SkillProfile = [], SkillsRepo = [],
      SkillsRef = [], AllowedToolsPath = [], Repos = [], HookPreClone = [], HookPostClone = [], HookConversationStart = [],
      HookConversationRestart = [], HookAgentTurnFinished = [], HookConversationFinished = [], FullClone = False\<rparr>"

definition demoApp :: appEnv where
  "demoApp =
     \<lparr>aeWs = demoEnv\<lparr>eStat := (\<lambda>_ _. NotExist)\<rparr>, aeRun = (\<lambda>_ c. if installer c then Some ''exit status 1'' else None),
      aeLookPath = (\<lambda>_. True), aeProvider = (\<lambda>_. Inr (\<lambda>_ _. None)), aeSecrets = (\<lambda>_. []), aeNow = seconds 1000, aePid = 7,
      aeBoot = [EBootReady 7]\<rparr>"

definition demoBootWorld :: bootWorld where
  "demoBootWorld = \<lparr>bwWs = demoWs, bwEnviron = [''PATH=/bin''], bwRun = [], bwHookInstall = (\<lambda>_. 0)\<rparr>"

abbreviation demoAppParams :: Params where
  "demoAppParams \<equiv> buildBootstrapParams (eRead (aeWs demoApp) (histOf (bwWs demoBootWorld)))
     (getenv (bwEnviron demoBootWorld) ''ANTHROPIC_API_KEY'') demoAppCfg"

lemma demo_renders: "fst (run_state (Render (aeWs demoApp) demoAppParams) demoWs) = None"
proof -
  let ?env = "aeWs demoApp"
  have ok: "eFs ?env h op = None" "eRead ?env h f = None" "eStat ?env h f = NotExist" for h op f
    by (simp_all add: demoApp_def demoEnv_def)
  have params: "pRepos demoAppParams = []" "pRepoURL demoAppParams = []" "pProjectClaudeMd demoAppParams = []"
    "pBaseMCP demoAppParams = emptyMcp" "pMCPOverlayDir demoAppParams = []" "pSkillsRepo demoAppParams = []"
    "pSkillsSrc demoAppParams = [[]]" "pExtraSkillSources demoAppParams = []"
    by (simp_all add: buildBootstrapParams_def demoAppCfg_def ok readFileOrEmpty_def readBytesOrDefault_def)
  have none: "parseExtraSkillSources [] = []" by code_simp
  have base: "mergeBase_mcp emptyMcp = Inr []" by code_simp
  have repos: "run_state (renderRepos ?env demoAppParams) w = (Inr ([], []), w)" for w
    by (simp add: renderRepos_def claimWorkspace_def readWorkspaceIdentity_def readFile_def asks_def ok params)
  have "fst (run_state (agentSources ?env demoAppParams srcs k) w) = (k, None)" for srcs k w
    by (induction srcs arbitrary: w) (simp_all add: statOf_def asks_def ok)
  then have agents: "fst (run_state (installAgents ?env demoAppParams) w) = None" for w
    by (simp add: installAgents_def fsDo_def ok split_def)
  have install: "fst (run_state (installStep ?env demoAppParams) w) = None" for w
    by (simp add: installStep_def cloneSkillsRepo_def params installSkills_def fsDo_def ok countSkills_def hasSkillsSrc_def)
  have steps: "\<forall>q \<in> set (configSteps ?env demoAppParams [] [] @ [mapErr IdentityErr (writeWorkspaceIdentity ?env demoAppParams)]).
      \<forall>w. fst (run_state q w) = None"
    using agents install
    by (simp add: configSteps_def mapErr_def writeIfSet_def params fsDo_def ok mergeMCP_def base overlayServers_def
        writeSettings_def writeClaudeJSON_def readFile_def asks_def extraStep_def installExtraSkillSources_def
        none writeWorkspaceIdentity_def split_def)
  show ?thesis using renderSteps_all [OF steps] by (simp add: Render_def fsDo_def ok repos)
qed

lemma demo_boots: "\<exists>a w'. newApp demoAdd demoErr demoApp demoAppCfg demoBootWorld = (Inr a, w')"
proof -
  obtain ws where r: "run_state (Render (aeWs demoApp) demoAppParams) demoWs = (None, ws)"
    using demo_renders by (cases "run_state (Render (aeWs demoApp) demoAppParams) demoWs") auto
  have dirs: "hook_repoDirs (Workspace demoAppCfg) (Repos demoAppCfg) (RepoURL demoAppCfg) = []"
    by (simp add: demoAppCfg_def hook_repoDirs_def)
  have v: "appVerifier demoApp demoAppCfg = Inr (Some (\<lambda>_. None))"
    by (simp add: appVerifier_def NewVerifier_def auth_Validate_def demoAppCfg_def demoApp_def)
  have run: "aeRun demoApp l c = (if installer c then Some ''exit status 1'' else None)" "aeLookPath demoApp n" for l c n
    by (simp_all add: demoApp_def)
  have tatara: "\<not> installer \<lparr>xDir = [], xName = ''tatara'', xArgs = args, xEnv = e\<rparr>" for args e by (simp add: installer_def)
  have "bwWs demoBootWorld = demoWs" by (simp add: demoBootWorld_def)
  with r show ?thesis
    by (simp add: newApp_def Let_def startApp_def session_Start_def tataraLookAndRegister_def RegisterTataraMCP_def execRunner_def
        procRun_def v run tatara claude_no_installer)
qed


theorem installers_best_effort_witness:
  "(let cfg = demoAppCfg\<lparr>RepoURL := ''https://github.com/o/r''\<rparr>
    in fst (newApp demoAdd demoErr demoApp cfg demoBootWorld) = fst (newApp demoAdd demoErr (demoApp\<lparr>aeRun := \<lambda>_ _. None\<rparr>) cfg demoBootWorld))
   \<and> aeRun demoApp [] (hd (installCmds [] ''/workspace/o/r'')) = Some ''exit status 1''"
proof -
  have "aeRun demoApp log c = None" if "\<not> installer c" for log c using that by (simp add: demoApp_def)
  from installers_best_effort [where answers = "\<lambda>_ _. None", OF this] show ?thesis
    by (simp add: demoApp_def installCmds_def installer_def)
qed

theorem issuer_enforced_witness:
  "\<exists>a w'. newApp demoAdd demoErr demoApp demoAppCfg demoBootWorld = (Inr a, w')
     \<and> fst (fst (Router (managerCtl demoAdd demoInputs) (\<lambda>_. None) Map.empty (abVerifier a) [] ''Bearer x'' (V1 DeleteSession)
          ((\<lambda>_. 0), demoStart))) = 401"
proof -
  obtain a w' where b: "newApp demoAdd demoErr demoApp demoAppCfg demoBootWorld = (Inr a, w')" using demo_boots by blast
  have issuer: "OIDCIssuer demoAppCfg \<noteq> []" by (simp add: demoAppCfg_def)
  have "\<not> authorised (provider aud) h" if "aeProvider demoApp (OIDCIssuer demoAppCfg) = Inr provider" for provider aud h
    using that by (auto simp: demoApp_def authorised_def)
  with issuer_enforced [OF b issuer, where ctl = "managerCtl demoAdd demoInputs" and parse = "\<lambda>_. None" and fs = Map.empty
      and metrics = "[]" and header = "''Bearer x''" and v = DeleteSession and c = "\<lambda>_. 0" and m = demoStart]
  have "fst (fst (Router (managerCtl demoAdd demoInputs) (\<lambda>_. None) Map.empty (abVerifier a) [] ''Bearer x'' (V1 DeleteSession)
          ((\<lambda>_. 0), demoStart))) = 401" by (elim conjE exE disjE) simp_all
  with b show ?thesis by (intro exI [of _ a] exI [of _ w'] conjI)
qed

end
