(* ===== verification/Spec2Isabelle.thy ===== *)
theory Spec2Isabelle
  imports HookWire PromptGuard NewApp
begin

text \<open>
  The Claude Code wrapper: a verification of the program.

  \<^bold>\<open>The program.\<close> The wrapper runs one interactive \<^verbatim>\<open>claude\<close> process in a pseudo terminal and offers it to an
  operator as a service of turns. \<^verbatim>\<open>cmd/wrapper\<close> reads its configuration, lets \<^verbatim>\<open>internal/bootstrap\<close> prepare a
  workspace (clone or resume the repositories of a task, write the agent's instructions and settings,
  install skills), starts a session (\<^verbatim>\<open>internal/session\<close>) and serves it over HTTP (\<^verbatim>\<open>internal/httpapi\<close>, behind
  \<^verbatim>\<open>internal/auth\<close>). A submitted turn is typed into the terminal; the Stop hook (\<^verbatim>\<open>cmd/cc-stop-hook\<close>) posts its
  result back over the loopback interface; the transcript is tailed meanwhile (\<^verbatim>\<open>internal/transcript\<close>) for
  activity, probes and issue reports. A finished turn is finalised (\<^verbatim>\<open>cmd/wrapper/app.go\<close>): its work is committed
  and pushed, and a signed callback is delivered (\<^verbatim>\<open>internal/webhook\<close>). Metrics are pushed to the operator
  (\<^verbatim>\<open>internal/pushclient\<close>), and committed work is pushed in the middle of turns (\<^verbatim>\<open>cmd/wrapper/safetypush.go\<close>).

  \<^bold>\<open>What the library of Go is here.\<close> \<^verbatim>\<open>GoPrelude\<close> has byte strings, searches, runes, 64-bit integers, counters and
  durations, with the collections of lemmas the components share; \<^verbatim>\<open>GoJson\<close> a JSON parser and
  \<^verbatim>\<open>encoding/json\<close>'s decoding of fields; \<^verbatim>\<open>GoPrint\<close>, \<^verbatim>\<open>GoMarshal\<close> and \<^verbatim>\<open>GoCompact\<close> its printing of strings, of integers,
  structs and slices, and of raw messages, each read back by the parser (\<^verbatim>\<open>GoWire\<close> has the steps of the parser the proofs
  use; the locale \<^verbatim>\<open>json_rewriter\<close> is what a rewriting of a document may do without changing its value); \<^verbatim>\<open>GoDecode\<close>
  what every decoded value satisfies; \<^verbatim>\<open>GoValue\<close> values of type \<^verbatim>\<open>any\<close>; \<^verbatim>\<open>GoPath\<close> and \<^verbatim>\<open>PathTree\<close> \<^verbatim>\<open>path/filepath\<close> and
  what it means to lie below a directory; \<^verbatim>\<open>GoNet\<close> the textual forms of IP addresses.

  \<^bold>\<open>The components.\<close> A theory has the state of its component as a record, its operations in the order of the
  code, then its lemmas and properties.

  \<^item> \<^verbatim>\<open>TurnStore\<close> (\<^verbatim>\<open>turn/store.go\<close>, \<^verbatim>\<open>turn/turn.go\<close>): the records of turns. The three ways of ending a turn
    are instances of one locale, \<^verbatim>\<open>turn_finisher\<close>.
  \<^item> \<^verbatim>\<open>Ring\<close> (\<^verbatim>\<open>session/ring.go\<close>): the last 64 KiB of terminal output, stripped of escape sequences for searches.
  \<^item> \<^verbatim>\<open>Transcript\<close> (\<^verbatim>\<open>transcript/result.go\<close>): what is read off a transcript file: the last assistant text, the
    tokens of a turn, a rejected outcome.
  \<^item> \<^verbatim>\<open>Redact\<close>, \<^verbatim>\<open>Probe\<close>, \<^verbatim>\<open>Tailer\<close> (\<^verbatim>\<open>transcript/redact.go\<close>, \<^verbatim>\<open>probe.go\<close>, \<^verbatim>\<open>tailer.go\<close>): scrubbing secrets, the
    liveness probes with the locale \<^verbatim>\<open>outcome_ledger\<close>, the processing of lines with the locale
    \<^verbatim>\<open>issue_accumulator\<close>, and the follow loop driven by what reads return.
  \<^item> \<^verbatim>\<open>Session\<close> (\<^verbatim>\<open>session/session.go\<close>, \<^verbatim>\<open>interrupt.go\<close>, \<^verbatim>\<open>pty.go\<close>): the manager. Each critical section is one
    function on the record \<^verbatim>\<open>Manager\<close>; fields whose names start with \<^verbatim>\<open>g\<close> record what was done (callbacks fired,
    bytes written). \<^verbatim>\<open>SessionInv\<close> makes the sections the events of a step relation, any interleaving of
    goroutines being a sequence of them, and proves the invariants; \<^verbatim>\<open>SessionProps\<close> states the properties.
  \<^item> \<^verbatim>\<open>Webhook\<close>, \<^verbatim>\<open>AccountUsage\<close>, \<^verbatim>\<open>AppConfig\<close>, \<^verbatim>\<open>App\<close>, \<^verbatim>\<open>Finalise\<close> (\<^verbatim>\<open>webhook.go\<close>, \<^verbatim>\<open>ratelimit\<close>, \<^verbatim>\<open>cc-statusline\<close>,
    \<^verbatim>\<open>cmd/wrapper\<close>): the sender and its retries, the account usage (locale \<^verbatim>\<open>newest_wins\<close>), the configuration, the
    finaliser of turns and the interleavings of finalisers.
  \<^item> \<^verbatim>\<open>HttpApi\<close>, \<^verbatim>\<open>StopHook\<close>, \<^verbatim>\<open>HookWire\<close> (\<^verbatim>\<open>httpapi\<close>, \<^verbatim>\<open>auth\<close>, \<^verbatim>\<open>cc-stop-hook\<close>): every handler, over any controller that
    satisfies the locale \<^verbatim>\<open>session_controller\<close>, which the session manager is proved to satisfy; the guard on
    callback URLs; the hook's retried post composed with the endpoint, from the payload it reads through the
    document it posts to the turn it ends.
  \<^item> \<^verbatim>\<open>Repo\<close>, \<^verbatim>\<open>Workspace\<close>, \<^verbatim>\<open>Bootstrap\<close> (\<^verbatim>\<open>bootstrap/repo.go\<close>, \<^verbatim>\<open>namespace.go\<close>, \<^verbatim>\<open>resume.go\<close>, \<^verbatim>\<open>bootstrap.go\<close>,
    \<^verbatim>\<open>safetypush.go\<close>): git work of a turn, the four phases of preparing an inherited checkout, the task branch, the
    clone-or-resume loop, the identity of a workspace. They are programs in a state monad over a log of the git
    commands and changes of the file system; the locale \<^verbatim>\<open>trace_law\<close> is a small calculus for properties of
    that log, and \<^verbatim>\<open>OpTrace\<close> its instance for changes of the file system.
  \<^item> \<^verbatim>\<open>Skills\<close>, \<^verbatim>\<open>AgentConfig\<close>, \<^verbatim>\<open>Render\<close> (\<^verbatim>\<open>bootstrap/skills.go\<close>, \<^verbatim>\<open>agents.go\<close>, \<^verbatim>\<open>mcp.go\<close>, \<^verbatim>\<open>settings.go\<close>,
    \<^verbatim>\<open>claudejson.go\<close>, \<^verbatim>\<open>bootstrap.go\<close>): the skills repository and extra sources, the documents written for the agent,
    and the whole of \<^verbatim>\<open>Render\<close>.
  \<^item> \<^verbatim>\<open>PushClient\<close> (\<^verbatim>\<open>pushclient.go\<close>): the endpoint, the allow list, and the loop against its shutdown.
  \<^item> \<^verbatim>\<open>AppLife\<close>, \<^verbatim>\<open>NewApp\<close> (\<^verbatim>\<open>app.go\<close>, \<^verbatim>\<open>hooks.go\<close>, \<^verbatim>\<open>mcp_register.go\<close>, \<^verbatim>\<open>auth/verifier.go\<close>): the boot from
    configuration to a started session, and the shutdown sequence interleaved with session, finalisers and
    deliveries.
  \<^item> \<^verbatim>\<open>PromptGuard\<close> (\<^verbatim>\<open>promptguard.go\<close>): the check of the tool names in the prompts, its regular expression
    included; the Go parser is a parameter.

  \<^bold>\<open>What is shown.\<close> Turns: one at a time, ended once, reported once, finalised once, never lost by re-prompts;
  the decisions of every refusal; a hook's result arrives as it was built. Work: no commit of an inherited checkout is dropped, no branch that exists
  locally is reset, no two repositories share a directory, and a checkout is deleted only when nothing else is
  left. Boot: the identity is stamped last, the skills in use are replaced last, the agent is started last, extra sources
  stay inside their directories, documents of the user survive. Interface: a configured issuer is enforced, callback
  addresses are confined, the handlers never panic. Bounds: re-prompts, handoffs, queues, labels and the ring. A few
  properties show behaviour that is not what the comments promise: a retried hook that ends the next turn, metering that
  drops a callback.

  \<^bold>\<open>Outside the program.\<close> git, the file system, processes, the clock, HTTP replies, the OIDC and YAML
  libraries and the metrics registry are parameters or inputs of a step; where a property needs something of them it
  says so as a hypothesis. Files and git answer as functions of everything done so far, so an answer may differ at every call.

  \<^bold>\<open>Bounds and fuel.\<close> The JSON parser recurses on fuel; the length of the text is enough, and the round trips are proved with
  it. Waiting loops take the list of what they see at each round; retry loops have the bounds of the code (three clones of the
  skills, five posts of the hook, the configured retries of a delivery). Integers are unbounded where the code cannot
  overflow them and wrapped to 64 bits where it multiplies or sums input.

  \<^bold>\<open>Not modelled.\<close> \<^verbatim>\<open>internal/metrics\<close> and \<^verbatim>\<open>internal/obs\<close> only declare collectors and loggers of third-party libraries; the counters
  the logic increments are fields of the models.
  \<^verbatim>\<open>main.go\<close> waits for a signal and prints errors; \<^verbatim>\<open>testjwks\<close> and functions named for tests serve tests only. Log output,
  durations of metrics, the indentation of JSON documents, file modes and RFC 3339 texts are left out of the operations.
\<close>

section \<open>From the boot to the finalisers\<close>

text \<open>
  C3. In every life of an application that booted, through its shutdown, each turn that was resolved gets exactly one
  finaliser, the goroutine that commits, pushes and calls back: no turn has two, no turn has one before it is
  resolved, and the only resolved turns without one are those whose prompt could not be typed, which the submitter was
  told, and those whose metering panicked.
\<close>

theorem resolved_turn_finalised_once:
  assumes "newApp addOk err env cfg w = (Inr a, w')"
    and "(life_step addOk err)\<^sup>*\<^sup>* (newLife (abSafety a) wh (abSess a)) l"
  shows "distinct (lfTurns l @ lfEnded l)
    \<and> (\<forall>t. t \<in> set (lfTurns l @ lfEnded l) \<longrightarrow> (\<exists>r. byID (mStore (lfSess l)) t = Some r \<and> terminal r))
    \<and> (\<forall>t r. byID (mStore (lfSess l)) t = Some r \<and> terminal r \<longrightarrow>
         t \<in> set (lfTurns l @ lfEnded l) \<or> t \<in> set (gPanicked (lfSess l)) \<or> hasPrefix (rError r) ''write pty '')"
proof -
  have inv: "turns_inv addOk err l" by (rule turns_inv_run [OF assms(2) newApp_success(4) [OF assms(1)]])
  then have reports: "mset (lfTurns l @ lfEnded l) = mset (map rID (gDone (lfSess l)))"
    and reached: "reachable addOk err (lfSess l)"
    by (simp_all add: turns_inv_def)
  note fired = reachable_done [OF reached, unfolded done_inv_def]
  have same: "set (lfTurns l @ lfEnded l) = rID ` set (gDone (lfSess l))"
    using mset_eq_setD [OF reports] by simp
  have "distinct (lfTurns l @ lfEnded l)"
    using fired mset_eq_imp_distinct_iff [OF reports] by simp
  with fired show ?thesis unfolding same by blast
qed

theorem resolved_turn_finalised_once_witness:
  "\<exists>a w' l. newApp demoAdd demoErr demoApp demoAppCfg demoBootWorld = (Inr a, w')
     \<and> (life_step demoAdd demoErr)\<^sup>*\<^sup>* (newLife (abSafety a) hookCfg (abSess a)) l
     \<and> lfPhase l = PusherStopped \<and> distinct (lfTurns l @ lfEnded l)"
proof -
  obtain a w' where b: "newApp demoAdd demoErr demoApp demoAppCfg demoBootWorld = (Inr a, w')" using demo_boots by blast
  let ?l0 = "newLife (abSafety a) hookCfg (abSess a)"
  have "life_step demoAdd demoErr ?l0 (?l0\<lparr>lfPhase := PusherStopped\<rparr>)"
    by (intro life_step.stop_pusher) (simp add: newLife_def)
  then have r: "(life_step demoAdd demoErr)\<^sup>*\<^sup>* ?l0 (?l0\<lparr>lfPhase := PusherStopped\<rparr>)" by (rule r_into_rtranclp)
  from resolved_turn_finalised_once [OF b r] b r show ?thesis
    by (intro exI [of _ a] exI [of _ w'] exI [of _ "?l0\<lparr>lfPhase := PusherStopped\<rparr>"] conjI) simp_all
qed

end
